(* ===== verification/Prelude.thy ===== *)
theory Prelude
  imports Main "HOL-Library.Word"
begin

text \<open>
  Shared foundations of the development: the machine integer types of the ARM32 build, the
  faults a kernel function can end in, a state monad with faults together with its weakest
  precondition calculus, counted loops over lists, and lemmas on bit masks that every driver
  uses. A C function that mutates static variables and device registers is a value of type
  \<open>('s, 'a) m\<close>; \<open>panic()\<close>, a failing \<open>assert\<close>, a NULL dereference and an access past the end of
  an array are values \<open>Inl\<close> of the result.
\<close>

unbundle bit_operations_syntax

named_theorems wp_simps \<open>weakest preconditions of the basic operations\<close>
named_theorems mask_simps \<open>bit-level facts on single-bit masks\<close>

section \<open>Machine integers\<close>

abbreviation (input) ENOMEM :: int where "ENOMEM \<equiv> 12"
abbreviation (input) EINVAL :: int where "EINVAL \<equiv> 22"

type_synonym u8 = "8 word"
type_synonym u16 = "16 word"
type_synonym u32 = "32 word"
type_synonym paddr = u32
type_synonym vaddr = u32

text \<open>The expression \<open>1 << n\<close> on 32 bits. A shift by 32 or more is undefined in C; the ARM
  register shift the compiler emits gives 0 there, as \<open>push_bit\<close> does.\<close>

definition bit32 :: "nat \<Rightarrow> u32" where
  "bit32 n = push_bit n 1"

lemma bit_bit32 [mask_simps]: "bit (bit32 n) i \<longleftrightarrow> i = n \<and> i < 32"
  by (simp add: bit32_def bit_push_bit_iff bit_1_iff del: push_bit_of_1) auto

lemma bit32_eq_0_iff: "bit32 n = 0 \<longleftrightarrow> 32 \<le> n"
proof
  assume "bit32 n = 0"
  then have "\<not> bit (bit32 n) n" by simp
  then show "32 \<le> n" by (simp add: bit_bit32)
next
  assume "32 \<le> n"
  then show "bit32 n = 0" by (intro bit_word_eqI) (simp add: bit_bit32)
qed

lemma and_bit32_eq_0_iff [mask_simps]: "w AND bit32 n = 0 \<longleftrightarrow> \<not> bit w n"
proof
  assume h: "w AND bit32 n = 0"
  show "\<not> bit w n"
  proof
    assume b: "bit w n"
    then have "n < 32" using bit_imp_le_length [of w n] by simp
    with b have "bit (w AND bit32 n) n" by (simp add: bit_and_iff bit_bit32)
    with h show False by simp
  qed
next
  assume "\<not> bit w n"
  then show "w AND bit32 n = 0" by (intro bit_word_eqI) (auto simp: bit_and_iff bit_bit32)
qed

lemma bit_set32 [mask_simps]: "bit (w OR bit32 n) i \<longleftrightarrow> bit w i \<or> (i = n \<and> i < 32)"
  by (simp add: bit_or_iff bit_bit32)

lemma bit_clear32 [mask_simps]:
  fixes w :: u32
  shows "bit (w AND NOT (bit32 n)) i \<longleftrightarrow> bit w i \<and> i \<noteq> n"
  using bit_imp_le_length [of w i] by (auto simp: bit_and_iff bit_not_iff bit_bit32)

lemma clear_set32: "\<not> bit w n \<Longrightarrow> (w OR bit32 n) AND NOT (bit32 n) = w"
  by (intro bit_word_eqI) (auto simp: mask_simps)

lemma set_clear32: "bit w n \<Longrightarrow> (w AND NOT (bit32 n)) OR bit32 n = w"
  by (intro bit_word_eqI) (auto simp: mask_simps)

lemma or_and_absorb32: "(a :: u32) AND m = m \<Longrightarrow> a OR m = a"
  by (metis and.commute or.commute word_bw_comms(1) word_ao_absorbs(4))

lemma unat_of_nat_small: "n < 2 ^ LENGTH('a) \<Longrightarrow> unat (of_nat n :: 'a::len word) = n"
  by (simp add: unat_of_nat)

lemma unat_lt: "unat (w :: 'a::len word) < 2 ^ LENGTH('a)"
  by (rule unsigned_less)

lemma unat_lt32: "unat (w :: u32) < 4294967296"
  using unat_lt [of w] by simp

text \<open>Reading 32-bit arithmetic and comparison as arithmetic on \<open>nat\<close>, wrap-around included.\<close>

lemma unat_add32: "unat (a + b :: u32) =
    (if unat a + unat b < 4294967296 then unat a + unat b else unat a + unat b - 4294967296)"
  by (simp add: unat_plus_if')

lemma unat_sub32: "unat (a - b :: u32) =
    (if unat b \<le> unat a then unat a - unat b else unat a + 4294967296 - unat b)"
  by (simp add: unat_sub_if')

lemmas word32_nat = word_less_nat_alt word_le_nat_alt word_unat_eq_iff unat_add32 unat_sub32

lemma map_update_same: "n < length xs \<Longrightarrow> (map f xs)[n := f (xs ! n)] = map f xs"
  by (metis list_update_id nth_map)

lemma upt_splitD: "[0..<n] = ys @ x # zs \<Longrightarrow> x = length ys \<and> x < n"
  by (metis nth_append_length nth_upt add_0 length_append length_Cons length_upt
      less_add_Suc1 minus_nat.diff_0 add_Suc_right)

lemma of_nat_unat_word: "of_nat (unat w) = (w :: 'a::len word)"
  by simp

section \<open>Faults and the kernel monad\<close>

text \<open>
  \<open>Panic\<close>: a call of \<open>panic()\<close>. \<open>Assert_fail\<close>: a failing \<open>assert\<close> in a debug build.
  \<open>Null_deref\<close>: a dereference of, or a call through, a NULL pointer. \<open>Out_of_bounds\<close>: an array
  access outside the array. \<open>Hang\<close>: an intentional endless loop.
\<close>

datatype fault = Panic | Assert_fail | Null_deref | Out_of_bounds | Hang

type_synonym ('s, 'a) m = "'s \<Rightarrow> fault + 'a \<times> 's"

definition ret :: "'a \<Rightarrow> ('s, 'a) m" where
  "ret x s = Inr (x, s)"

definition bindM :: "('s, 'a) m \<Rightarrow> ('a \<Rightarrow> ('s, 'b) m) \<Rightarrow> ('s, 'b) m" where
  "bindM p f s = (case p s of Inl e \<Rightarrow> Inl e | Inr (x, t) \<Rightarrow> f x t)"

definition thenM :: "('s, 'a) m \<Rightarrow> ('s, 'b) m \<Rightarrow> ('s, 'b) m" where
  "thenM p q = bindM p (\<lambda>_. q)"

definition throw :: "fault \<Rightarrow> ('s, 'a) m" where
  "throw e s = Inl e"

definition gets :: "('s \<Rightarrow> 'a) \<Rightarrow> ('s, 'a) m" where
  "gets f s = Inr (f s, s)"

definition modifyM :: "('s \<Rightarrow> 's) \<Rightarrow> ('s, unit) m" where
  "modifyM f s = Inr ((), f s)"

definition whenM :: "bool \<Rightarrow> ('s, unit) m \<Rightarrow> ('s, unit) m" where
  "whenM b p = (if b then p else ret ())"

definition panic :: "('s, 'a) m" where
  "panic = throw Panic"

text \<open>A pointer that must not be NULL, and an array read or write with its bounds.\<close>

definition deref :: "'a option \<Rightarrow> ('s, 'a) m" where
  "deref p = (case p of None \<Rightarrow> throw Null_deref | Some x \<Rightarrow> ret x)"

definition index_at :: "'a list \<Rightarrow> nat \<Rightarrow> ('s, 'a) m" where
  "index_at xs i = (if i < length xs then ret (xs ! i) else throw Out_of_bounds)"

text \<open>The counted and list-walking loops of the source.\<close>

fun forM :: "'a list \<Rightarrow> ('a \<Rightarrow> ('s, unit) m) \<Rightarrow> ('s, unit) m" where
  "forM [] f = ret ()"
| "forM (x # xs) f = thenM (f x) (forM xs f)"

section \<open>Weakest preconditions\<close>

text \<open>
  \<open>wp p Q s\<close>: started in \<open>s\<close>, the computation ends without a fault and its result and final
  state satisfy \<open>Q\<close>. \<open>wlp\<close> is the partial version: it also allows a fault.
\<close>

definition wp :: "('s, 'a) m \<Rightarrow> ('a \<Rightarrow> 's \<Rightarrow> bool) \<Rightarrow> 's \<Rightarrow> bool" where
  "wp p Q s = (case p s of Inl _ \<Rightarrow> False | Inr (x, t) \<Rightarrow> Q x t)"

definition wlp :: "('s, 'a) m \<Rightarrow> ('a \<Rightarrow> 's \<Rightarrow> bool) \<Rightarrow> 's \<Rightarrow> bool" where
  "wlp p Q s = (case p s of Inl _ \<Rightarrow> True | Inr (x, t) \<Rightarrow> Q x t)"

lemma wp_ret [wp_simps]: "wp (ret x) Q = (\<lambda>s. Q x s)"
  by (rule ext) (simp add: wp_def ret_def)

lemma wp_bindM [wp_simps]: "wp (bindM p f) Q = (\<lambda>s. wp p (\<lambda>x. wp (f x) Q) s)"
  by (rule ext) (auto simp: wp_def bindM_def split: sum.splits prod.splits)

lemma wp_thenM [wp_simps]: "wp (thenM p q) Q = (\<lambda>s. wp p (\<lambda>_. wp q Q) s)"
  by (rule ext) (simp add: thenM_def wp_bindM)

lemma wp_throw [wp_simps]: "wp (throw e) Q = (\<lambda>s. False)"
  by (rule ext) (simp add: wp_def throw_def)

lemma wp_panic [wp_simps]: "wp panic Q = (\<lambda>s. False)"
  by (rule ext) (simp add: panic_def wp_throw)

lemma wp_gets [wp_simps]: "wp (gets f) Q = (\<lambda>s. Q (f s) s)"
  by (rule ext) (simp add: wp_def gets_def)

lemma wp_modifyM [wp_simps]: "wp (modifyM f) Q = (\<lambda>s. Q () (f s))"
  by (rule ext) (simp add: wp_def modifyM_def)

lemma wp_if [wp_simps]: "wp (if b then p else q) Q = (\<lambda>s. (if b then wp p Q s else wp q Q s))"
  by (rule ext) simp

lemma wp_whenM [wp_simps]: "wp (whenM b p) Q = (\<lambda>s. (if b then wp p Q s else Q () s))"
  by (rule ext) (simp add: whenM_def wp_ret)

lemma wp_deref [wp_simps]: "wp (deref p) Q = (\<lambda>s. (\<exists>x. p = Some x \<and> Q x s))"
  by (rule ext, cases p) (simp_all add: deref_def wp_simps)

lemma wp_index_at [wp_simps]: "wp (index_at xs i) Q = (\<lambda>s. (i < length xs \<and> Q (xs ! i) s))"
  by (rule ext) (simp add: index_at_def wp_simps)

lemma wp_let [wp_simps]: "wp (let x = v in p x) Q = (\<lambda>s. (let x = v in wp (p x) Q s))"
  by (rule ext) simp

lemma wlp_ret [wp_simps]: "wlp (ret x) Q = (\<lambda>s. Q x s)"
  by (rule ext) (simp add: wlp_def ret_def)

lemma wlp_bindM [wp_simps]: "wlp (bindM p f) Q = (\<lambda>s. wlp p (\<lambda>x. wlp (f x) Q) s)"
  by (rule ext) (auto simp: wlp_def bindM_def split: sum.splits prod.splits)

lemma wlp_thenM [wp_simps]: "wlp (thenM p q) Q = (\<lambda>s. wlp p (\<lambda>_. wlp q Q) s)"
  by (rule ext) (simp add: thenM_def wlp_bindM)

lemma wlp_throw [wp_simps]: "wlp (throw e) Q = (\<lambda>s. True)"
  by (rule ext) (simp add: wlp_def throw_def)

lemma wlp_panic [wp_simps]: "wlp panic Q = (\<lambda>s. True)"
  by (rule ext) (simp add: panic_def wlp_throw)

lemma wlp_gets [wp_simps]: "wlp (gets f) Q = (\<lambda>s. Q (f s) s)"
  by (rule ext) (simp add: wlp_def gets_def)

lemma wlp_modifyM [wp_simps]: "wlp (modifyM f) Q = (\<lambda>s. Q () (f s))"
  by (rule ext) (simp add: wlp_def modifyM_def)

lemma wlp_if [wp_simps]: "wlp (if b then p else q) Q = (\<lambda>s. (if b then wlp p Q s else wlp q Q s))"
  by (rule ext) simp

lemma wlp_whenM [wp_simps]: "wlp (whenM b p) Q = (\<lambda>s. (if b then wlp p Q s else Q () s))"
  by (rule ext) (simp add: whenM_def wlp_ret)

lemma wlp_deref [wp_simps]: "wlp (deref p) Q = (\<lambda>s. (\<forall>x. p = Some x \<longrightarrow> Q x s))"
  by (rule ext, cases p) (simp_all add: deref_def wp_simps)

lemma wlp_index_at [wp_simps]: "wlp (index_at xs i) Q = (\<lambda>s. (i < length xs \<longrightarrow> Q (xs ! i) s))"
  by (rule ext) (simp add: index_at_def wp_simps)

lemma wlp_let [wp_simps]: "wlp (let x = v in p x) Q = (\<lambda>s. (let x = v in wlp (p x) Q s))"
  by (rule ext) simp

lemma wp_mono: "wp p Q s \<Longrightarrow> (\<And>x t. Q x t \<Longrightarrow> R x t) \<Longrightarrow> wp p R s"
  by (auto simp: wp_def split: sum.splits prod.splits)

lemma wlp_mono: "wlp p Q s \<Longrightarrow> (\<And>x t. Q x t \<Longrightarrow> R x t) \<Longrightarrow> wlp p R s"
  by (auto simp: wlp_def split: sum.splits prod.splits)

lemma wp_imp_wlp: "wp p Q s \<Longrightarrow> wlp p Q s"
  by (auto simp: wp_def wlp_def split: sum.splits)

lemma wp_conj: "wp p Q s \<Longrightarrow> wlp p R s \<Longrightarrow> wp p (\<lambda>x t. Q x t \<and> R x t) s"
  by (auto simp: wp_def wlp_def split: sum.splits prod.splits)

lemma wlp_conj: "wlp p Q s \<Longrightarrow> wlp p R s \<Longrightarrow> wlp p (\<lambda>x t. Q x t \<and> R x t) s"
  by (auto simp: wlp_def split: sum.splits prod.splits)

lemma wlp_bind_rule: "wlp p R s \<Longrightarrow> (\<And>x t. R x t \<Longrightarrow> wlp (f x) Q t) \<Longrightarrow> wlp (bindM p f) Q s"
  unfolding wlp_bindM by (rule wlp_mono)

lemma wlp_then_rule: "wlp p (\<lambda>_. R) s \<Longrightarrow> (\<And>t. R t \<Longrightarrow> wlp q Q t) \<Longrightarrow> wlp (thenM p q) Q s"
  unfolding wlp_thenM by (rule wlp_mono)

lemma wp_bind_rule: "wp p R s \<Longrightarrow> (\<And>x t. R x t \<Longrightarrow> wp (f x) Q t) \<Longrightarrow> wp (bindM p f) Q s"
  unfolding wp_bindM by (rule wp_mono)

lemma wp_then_rule: "wp p (\<lambda>_. R) s \<Longrightarrow> (\<And>t. R t \<Longrightarrow> wp q Q t) \<Longrightarrow> wp (thenM p q) Q s"
  unfolding wp_thenM by (rule wp_mono)

lemma wp_iff: "wp p Q s \<longleftrightarrow> (\<exists>x t. p s = Inr (x, t) \<and> Q x t)"
  by (auto simp: wp_def split: sum.splits prod.splits)

lemma wlp_iff: "wlp p Q s \<longleftrightarrow> (\<forall>x t. p s = Inr (x, t) \<longrightarrow> Q x t)"
  by (auto simp: wlp_def split: sum.splits prod.splits)

lemma wpE: "wp p Q s \<Longrightarrow> (\<And>x t. p s = Inr (x, t) \<Longrightarrow> Q x t \<Longrightarrow> thesis) \<Longrightarrow> thesis"
  by (auto simp: wp_iff)

lemma wlpD: "wlp p Q s \<Longrightarrow> p s = Inr (x, t) \<Longrightarrow> Q x t"
  by (simp add: wlp_iff)

text \<open>Loop rules: a predicate on the part of the list already visited.\<close>

lemma wp_forM:
  assumes "I [] s"
    and "\<And>ys x zs t. xs = ys @ x # zs \<Longrightarrow> I ys t \<Longrightarrow> wp (f x) (\<lambda>_. I (ys @ [x])) t"
  shows "wp (forM xs f) (\<lambda>_. I xs) s"
proof -
  have "wp (forM zs f) (\<lambda>_. I xs) s" if "xs = ys @ zs" "I ys s" for ys zs s
    using that
  proof (induction zs arbitrary: ys s)
    case Nil
    then show ?case by (simp add: wp_simps)
  next
    case (Cons z zs)
    from assms(2) [OF Cons.prems] have "wp (f z) (\<lambda>_. I (ys @ [z])) s" .
    then have "wp (f z) (\<lambda>_. wp (forM zs f) (\<lambda>_. I xs)) s"
      by (rule wp_mono) (rule Cons.IH [of "ys @ [z]"], simp_all add: Cons.prems)
    then show ?case by (simp add: wp_simps)
  qed
  from this [of "[]" xs s] assms(1) show ?thesis by simp
qed

lemma wp_forM_inv:
  assumes "I s" and "\<And>x t. x \<in> set xs \<Longrightarrow> I t \<Longrightarrow> wp (f x) (\<lambda>_. I) t"
  shows "wp (forM xs f) (\<lambda>_. I) s"
  using assms
proof (induction xs arbitrary: s)
  case Nil
  then show ?case by (simp add: wp_simps)
next
  case (Cons x xs)
  have "wp (f x) (\<lambda>_. I) s" using Cons.prems by simp
  then have "wp (f x) (\<lambda>_. wp (forM xs f) (\<lambda>_. I)) s"
    by (rule wp_mono) (rule Cons.IH, simp_all add: Cons.prems)
  then show ?case by (simp add: wp_simps)
qed

lemma wlp_forM:
  assumes "I [] s"
    and "\<And>ys x zs t. xs = ys @ x # zs \<Longrightarrow> I ys t \<Longrightarrow> wlp (f x) (\<lambda>_. I (ys @ [x])) t"
  shows "wlp (forM xs f) (\<lambda>_. I xs) s"
proof -
  have "wlp (forM zs f) (\<lambda>_. I xs) s" if "xs = ys @ zs" "I ys s" for ys zs s
    using that
  proof (induction zs arbitrary: ys s)
    case Nil
    then show ?case by (simp add: wp_simps)
  next
    case (Cons z zs)
    from assms(2) [OF Cons.prems] have "wlp (f z) (\<lambda>_. I (ys @ [z])) s" .
    then have "wlp (f z) (\<lambda>_. wlp (forM zs f) (\<lambda>_. I xs)) s"
      by (rule wlp_mono) (rule Cons.IH [of "ys @ [z]"], simp_all add: Cons.prems)
    then show ?case by (simp add: wp_simps)
  qed
  from this [of "[]" xs s] assms(1) show ?thesis by simp
qed

lemma wlp_forM_inv:
  assumes "I s" and "\<And>x t. x \<in> set xs \<Longrightarrow> I t \<Longrightarrow> wlp (f x) (\<lambda>_. I) t"
  shows "wlp (forM xs f) (\<lambda>_. I) s"
proof (rule wlp_mono [OF wlp_forM [where I = "\<lambda>_. I"]])
  show "I s" by (rule assms(1))
next
  fix ys x zs t
  assume "xs = ys @ x # zs" "I t"
  then show "wlp (f x) (\<lambda>_. I) t" by (intro assms(2)) simp_all
qed

lemma forM_append: "forM (xs @ ys) f s = thenM (forM xs f) (forM ys f) s"
  by (induction xs arbitrary: s)
    (auto simp: thenM_def bindM_def ret_def split: sum.splits prod.splits)

text \<open>Computations whose only fault is a given one.\<close>

definition faults_only :: "fault \<Rightarrow> ('s, 'a) m \<Rightarrow> bool" where
  "faults_only e p \<longleftrightarrow> (\<forall>t e'. p t = Inl e' \<longrightarrow> e' = e)"

lemma faults_only_thenM: "faults_only e p \<Longrightarrow> faults_only e q \<Longrightarrow> faults_only e (thenM p q)"
  by (auto simp: faults_only_def thenM_def bindM_def split: sum.splits prod.splits)

lemma faults_only_forM: "(\<And>x. faults_only e (f x)) \<Longrightarrow> faults_only e (forM xs f)"
proof (induction xs)
  case Nil
  then show ?case by (simp add: faults_only_def ret_def)
next
  case (Cons x xs)
  then show ?case by (simp add: faults_only_thenM)
qed

lemma forM_faults:
  assumes "\<And>y. faults_only e (f y)" "x \<in> set xs" "\<And>t. f x t = Inl e"
  shows "forM xs f s = Inl e"
  using assms(2)
proof (induction xs arbitrary: s)
  case (Cons y ys)
  show ?case
  proof (cases "f y s")
    case (Inl e')
    then have "e' = e" using assms(1) [of y] by (simp add: faults_only_def)
    with Inl show ?thesis by (simp add: thenM_def bindM_def)
  next
    case (Inr r)
    then have "x \<in> set ys" using assms(3) Cons.prems by auto
    then show ?thesis using Inr Cons.IH by (simp add: thenM_def bindM_def split: prod.splits)
  qed
qed simp

section \<open>Frames\<close>

text \<open>\<open>keeps f p\<close>: the computation \<open>p\<close> never changes the part \<open>f\<close> of the state. The rules walk through
  the program text; a component adds its own operations to the collection.\<close>

named_theorems keeps_intros \<open>computations that keep a part of the state\<close>

definition keeps :: "('s \<Rightarrow> 'b) \<Rightarrow> ('s, 'a) m \<Rightarrow> bool" where
  "keeps f p \<longleftrightarrow> (\<forall>s. wlp p (\<lambda>_ t. f t = f s) s)"

lemma keeps_wlp: "keeps f p \<Longrightarrow> wlp p (\<lambda>_ t. f t = f s) s"
  by (simp add: keeps_def)

lemma keeps_pure [keeps_intros]:
  "keeps f (ret x)" "keeps f (throw e)" "keeps f panic" "keeps f (gets g)" "keeps f (deref p)" "keeps f (index_at xs i)"
  by (simp_all add: keeps_def wp_simps)

lemma keeps_bindM [keeps_intros]: "keeps f p \<Longrightarrow> (\<And>x. keeps f (q x)) \<Longrightarrow> keeps f (bindM p q)"
  unfolding keeps_def
proof (rule allI)
  fix s
  assume p: "\<forall>s. wlp p (\<lambda>_ t. f t = f s) s" and q: "\<And>x. \<forall>s. wlp (q x) (\<lambda>_ t. f t = f s) s"
  show "wlp (bindM p q) (\<lambda>_ t. f t = f s) s"
    by (rule wlp_bind_rule [OF p [rule_format]]) (rule wlp_mono [OF q [rule_format]], simp)
qed

lemma keeps_thenM [keeps_intros]: "keeps f p \<Longrightarrow> keeps f q \<Longrightarrow> keeps f (thenM p q)"
  by (simp add: thenM_def keeps_bindM)

lemma keeps_if [keeps_intros]: "keeps f p \<Longrightarrow> keeps f q \<Longrightarrow> keeps f (if b then p else q)"
  by simp

lemma keeps_whenM [keeps_intros]: "keeps f p \<Longrightarrow> keeps f (whenM b p)"
  by (simp add: whenM_def keeps_pure)

lemma keeps_forM [keeps_intros]: "(\<And>x. keeps f (g x)) \<Longrightarrow> keeps f (forM xs g)"
  by (induction xs) (simp_all add: keeps_pure keeps_thenM)

lemma keeps_option [keeps_intros]:
  "keeps f p \<Longrightarrow> (\<And>x. keeps f (q x)) \<Longrightarrow> keeps f (case y of None \<Rightarrow> p | Some x \<Rightarrow> q x)"
  by (cases y) simp_all

lemma keeps_prod [keeps_intros]: "(\<And>x y. keeps f (q x y)) \<Longrightarrow> keeps f (case z of (x, y) \<Rightarrow> q x y)"
  by (cases z) simp

lemma keeps_let [keeps_intros]: "(\<And>x. keeps f (q x)) \<Longrightarrow> keeps f (let x = v in q x)"
  by simp

lemma bindM_deref: "bindM (deref (Some x)) q = q x"
  by (rule ext) (simp add: bindM_def deref_def ret_def)

lemma keeps_modifyM: "(\<And>s. f (g s) = f s) \<Longrightarrow> keeps f (modifyM g)"
  by (simp add: keeps_def wp_simps)

end
