(* ===== verification/Tee_Misc.thy ===== *)
theory Tee_Misc
  imports Prelude
begin

text \<open>
  core/kernel/tee\_misc.c: conversion between binary buffers and hexadecimal strings, and the
  buffer predicates (inside, outside, intersect) the memory map code is built on. Buffers the
  functions write are the state of the monad; an access past their end is a fault.
\<close>

section \<open>Hexadecimal strings\<close>

definition put_at :: "nat \<Rightarrow> 'a \<Rightarrow> ('a list, unit) m" where
  "put_at i v xs = (if i < length xs then Inr ((), xs[i := v]) else Inl Out_of_bounds)"

definition tee_b2hs_add_base :: "u8 \<Rightarrow> u8" where
  "tee_b2hs_add_base b = (if b > 9 then b + 55 else b + 48)"

definition tee_hs2b_rem_base :: "u8 \<Rightarrow> u8 option" where
  "tee_hs2b_rem_base b =
     (if b < 48 \<or> b > 70 \<or> (b > 57 \<and> b < 65) then None
      else if b < 58 then Some (b - 48) else Some (b - 55))"

definition tee_b2hs :: "u8 list \<Rightarrow> u32 \<Rightarrow> u32 \<Rightarrow> (u8 list, u32) m" where
  "tee_b2hs b blen hslen =
     (if blen * 2 + 1 > hslen then ret 0
      else thenM
        (forM [0..<unat blen] (\<lambda>i. bindM (index_at b i) (\<lambda>bi.
           thenM (put_at (unat (of_nat i * 2 + 1 :: u32)) (tee_b2hs_add_base (bi AND 0xf)))
                 (put_at (unat (of_nat i * 2 :: u32)) (tee_b2hs_add_base (drop_bit 4 bi))))))
        (thenM (put_at (unat (blen * 2)) 0) (ret (blen * 2))))"

fun hs2b_loop :: "u8 list \<Rightarrow> nat list \<Rightarrow> (u8 list, bool) m" where
  "hs2b_loop hs [] = ret True"
| "hs2b_loop hs (i # js) =
     bindM (index_at hs (unat (of_nat i * 2 :: u32))) (\<lambda>c.
       case tee_hs2b_rem_base c of None \<Rightarrow> ret False
       | Some hi \<Rightarrow> bindM (index_at hs (unat (of_nat i * 2 + 1 :: u32))) (\<lambda>c'.
           case tee_hs2b_rem_base c' of None \<Rightarrow> ret False
           | Some lo \<Rightarrow> thenM (put_at i (push_bit 4 hi + lo)) (hs2b_loop hs js)))"

definition tee_hs2b :: "u8 list \<Rightarrow> u32 \<Rightarrow> u32 \<Rightarrow> (u8 list, u32) m" where
  "tee_hs2b hs hslen blen =
     (let len = drop_bit 1 (hslen + 1) in
      if len > blen then ret 0
      else bindM (hs2b_loop hs [0..<unat len]) (\<lambda>ok. ret (if ok then len else 0)))"

section \<open>Buffer predicates\<close>

definition is_valid_conf_and_notnull_size :: "u32 \<Rightarrow> u32 \<Rightarrow> u32 \<Rightarrow> u32 \<Rightarrow> bool" where
  "is_valid_conf_and_notnull_size b bl a al =
     (if b - 1 + bl < b \<or> a - 1 + al < a then False
      else if bl = 0 \<or> al = 0 then False else True)"

definition core_is_buffer_inside :: "u32 \<Rightarrow> u32 \<Rightarrow> u32 \<Rightarrow> u32 \<Rightarrow> bool" where
  "core_is_buffer_inside b bl a al =
     (if \<not> is_valid_conf_and_notnull_size b bl a al then False
      else if b \<ge> a \<and> b - 1 + bl \<le> a - 1 + al then True else False)"

definition core_is_buffer_outside :: "u32 \<Rightarrow> u32 \<Rightarrow> u32 \<Rightarrow> u32 \<Rightarrow> bool" where
  "core_is_buffer_outside b bl a al =
     (if \<not> is_valid_conf_and_notnull_size b bl a al then False
      else if b + bl \<le> a \<or> b \<ge> a + al then True else False)"

definition core_is_buffer_intersect :: "u32 \<Rightarrow> u32 \<Rightarrow> u32 \<Rightarrow> u32 \<Rightarrow> bool" where
  "core_is_buffer_intersect b bl a al =
     (if \<not> is_valid_conf_and_notnull_size b bl a al then False
      else if b + bl \<le> a \<or> b \<ge> a + al then False else True)"

section \<open>Lemmas\<close>

lemma wp_put_at [wp_simps]: "wp (put_at i v) Q = (\<lambda>xs. (i < length xs \<and> Q () (xs[i := v])))"
  by (rule ext) (simp add: wp_def put_at_def)

lemma rem_add_base: "x < 16 \<Longrightarrow> tee_hs2b_rem_base (tee_b2hs_add_base x) = Some x"
proof -
  assume "x < 16"
  then have "unat x \<in> set [0..<16]" by (simp add: word_less_nat_alt)
  then have "word_of_nat (unat x) \<in> (word_of_nat ` set [0..<16] :: u8 set)" by (rule imageI)
  then have "x \<in> (word_of_nat ` set [0..<16] :: u8 set)" by simp
  then show ?thesis
    by (auto simp: upt_conv_Cons tee_hs2b_rem_base_def tee_b2hs_add_base_def simp del: set_upt)
qed

lemma nibble_less: "(x :: u8) AND 0xf < 16" "drop_bit 4 (x :: u8) < 16"
proof -
  have "x AND 0xf \<le> 0xf" by (rule word_and_le1)
  then show "x AND 0xf < 16" by (rule order_le_less_trans) simp
  have "unat x < 256" using unat_lt [of x] by simp
  then have "unat (drop_bit 4 x) < 16" by (simp add: drop_bit_eq_div unat_div_distrib)
  then show "drop_bit 4 x < 16" by (simp add: word_less_nat_alt)
qed

lemma nibbles_join: "push_bit 4 (drop_bit 4 x) + (x AND 0xf) = (x :: u8)"
proof -
  have "x AND 0xf = take_bit 4 x" by (simp add: take_bit_eq_mask mask_eq_exp_minus_1)
  then show ?thesis by (metis bits_ident)
qed

lemma unat_twice32:
  assumes "2 * i + 1 < 2 ^ 32"
  shows "unat (of_nat i * 2 :: u32) = 2 * i" "unat (of_nat i * 2 + 1 :: u32) = 2 * i + 1"
proof -
  have "unat (of_nat (2 * i) :: u32) = 2 * i" "unat (of_nat (2 * i + 1) :: u32) = 2 * i + 1"
    by (rule unat_of_nat_small, use assms in simp)+
  moreover have "(of_nat (2 * i) :: u32) = of_nat i * 2"
      "(of_nat (2 * i + 1) :: u32) = of_nat i * 2 + 1"
    by simp_all
  ultimately show "unat (of_nat i * 2 :: u32) = 2 * i" "unat (of_nat i * 2 + 1 :: u32) = 2 * i + 1"
    by (simp_all only:)
qed

text \<open>The hexadecimal encoding as a function on lists, and what the two loops compute.\<close>

definition hex_pair :: "u8 \<Rightarrow> u8 list" where
  "hex_pair x = [tee_b2hs_add_base (drop_bit 4 x), tee_b2hs_add_base (x AND 0xf)]"

lemma nth_hex_pairs:
  "i < length b \<Longrightarrow> concat (map hex_pair b) ! (2 * i) = tee_b2hs_add_base (drop_bit 4 (b ! i))
     \<and> concat (map hex_pair b) ! (2 * i + 1) = tee_b2hs_add_base (b ! i AND 0xf)"
  by (induction b arbitrary: i) (auto simp: hex_pair_def nth_Cons' less_Suc_eq_0_disj)

lemma length_hex_pairs [simp]: "length (concat (map hex_pair b)) = 2 * length b"
  by (induction b) (auto simp: hex_pair_def)

lemma b2hs_loop:
  assumes "2 * n + 1 < 2 ^ 32" "n \<le> length b" "2 * n \<le> length hs"
  shows "wp (forM [0..<n] (\<lambda>i. bindM (index_at b i) (\<lambda>bi.
           thenM (put_at (unat (of_nat i * 2 + 1 :: u32)) (tee_b2hs_add_base (bi AND 0xf)))
                 (put_at (unat (of_nat i * 2 :: u32)) (tee_b2hs_add_base (drop_bit 4 bi))))))
     (\<lambda>_ hs'. hs' = concat (map hex_pair (take n b)) @ drop (2 * n) hs) hs"
  using assms
proof (induction n)
  case 0
  then show ?case by (simp add: wp_simps)
next
  case (Suc n)
  let ?P = "concat (map hex_pair (take n b))"
  have len: "length ?P = 2 * n" using Suc.prems by simp
  have split: "drop (2 * n) hs = hs ! (2 * n) # hs ! (2 * n + 1) # drop (2 * Suc n) hs"
    using Suc.prems by (simp add: Cons_nth_drop_Suc)
  have tk: "take (Suc n) b = take n b @ [b ! n]"
    using Suc.prems by (simp add: take_Suc_conv_app_nth)
  have "wp (forM [0..<n] (\<lambda>i. bindM (index_at b i) (\<lambda>bi.
           thenM (put_at (unat (of_nat i * 2 + 1 :: u32)) (tee_b2hs_add_base (bi AND 0xf)))
                 (put_at (unat (of_nat i * 2 :: u32)) (tee_b2hs_add_base (drop_bit 4 bi))))))
     (\<lambda>_ hs'. hs' = ?P @ drop (2 * n) hs) hs"
    using Suc.IH Suc.prems by simp
  then show ?case
    unfolding upt_Suc_append [OF le0] wp_def forM_append
    using Suc.prems
    by (auto simp: thenM_def bindM_def ret_def index_at_def put_at_def unat_twice32 len split tk
        hex_pair_def list_update_append nth_append split: sum.splits)
qed

lemma hs2b_loop_pairs:
  assumes "\<forall>i < n. hs ! (2 * i) = tee_b2hs_add_base (drop_bit 4 (b ! i))
             \<and> hs ! (2 * i + 1) = tee_b2hs_add_base (b ! i AND 0xf)"
    and "2 * n < 2 ^ 32" "2 * n \<le> length hs" "length b = n" "m \<le> n" "length b0 = n"
    and "take (n - m) b0 = take (n - m) b"
  shows "wp (hs2b_loop hs [n - m..<n]) (\<lambda>r b'. r \<and> b' = b) b0"
  using assms(5-)
proof (induction m arbitrary: b0)
  case 0
  then show ?case using assms(4) by (simp add: wp_simps)
next
  case (Suc m)
  define i where "i = n - Suc m"
  have i: "i < n" "[n - Suc m..<n] = i # [n - m..<n]" "2 * i + 1 < 2 ^ 32" "n - m = Suc i"
    using Suc.prems assms(2) by (simp_all add: upt_conv_Cons Suc_diff_Suc i_def)
  have pre: "take i b0 = take i b" "length b0 = n" "m \<le> n"
    using Suc.prems by (simp_all add: i_def)
  have IH: "wp (hs2b_loop hs [n - m..<n]) (\<lambda>r b'. r \<and> b' = b) (b0[i := b ! i])"
    by (rule Suc.IH)
      (use pre i assms(4) in
        \<open>simp_all add: take_Suc_conv_app_nth take_update_swap list_update_append\<close>)
  have at: "hs ! (2 * i) = tee_b2hs_add_base (drop_bit 4 (b ! i))"
      "hs ! (2 * i + 1) = tee_b2hs_add_base (b ! i AND 0xf)" "2 * i + 1 < length hs" "2 * i < length hs"
    using assms(1,3) i(1) by auto
  show ?case
    unfolding i(2) using at i(1,3) pre(2) IH
    by (simp add: wp_simps unat_twice32 rem_add_base nibble_less nibbles_join)
qed

text \<open>C35: Encoding a buffer as hexadecimal text and decoding the text gives the buffer back; both
  calls report the number of bytes they wrote.\<close>

theorem hex_roundtrip:
  assumes "length b = n" "2 * n + 1 < 2 ^ 32" "2 * n + 1 \<le> unat hslen" "unat hslen \<le> length hs"
    and "length b0 = n"
  shows "\<exists>hs'. tee_b2hs b (of_nat n) hslen hs = Inr (of_nat (2 * n), hs')
           \<and> tee_hs2b hs' (of_nat (2 * n)) (of_nat n) b0 = Inr (of_nat n, b)"
proof -
  let ?hs' = "(concat (map hex_pair b) @ drop (2 * n) hs)[2 * n := 0]"
  have u: "unat (of_nat n :: u32) = n" "unat (of_nat n * 2 :: u32) = 2 * n"
      "unat (of_nat n * 2 + 1 :: u32) = 2 * n + 1"
    using assms(2) by (simp_all add: unat_of_nat_small unat_twice32)
  have g: "\<not> (of_nat n * 2 + 1 :: u32) > hslen"
    using u(3) assms(3) by (simp add: word_less_nat_alt)
  have enc: "wp (tee_b2hs b (of_nat n) hslen) (\<lambda>r t. r = of_nat (2 * n) \<and> t = ?hs') hs"
    unfolding tee_b2hs_def if_not_P [OF g] wp_thenM u
    by (rule wp_mono [OF b2hs_loop])
      (use assms in \<open>auto simp: wp_simps list_update_append ac_simps\<close>)
  have nth: "\<forall>i < n. ?hs' ! (2 * i) = tee_b2hs_add_base (drop_bit 4 (b ! i))
             \<and> ?hs' ! (2 * i + 1) = tee_b2hs_add_base (b ! i AND 0xf)"
    using nth_hex_pairs [of _ b] assms(1) by (auto simp: nth_append)
  have "unat (drop_bit 1 (of_nat n * 2 + 1 :: u32)) = unat (of_nat n :: u32)"
    by (simp only: drop_bit_eq_div unat_div_distrib u) simp
  then have len: "drop_bit 1 (of_nat (2 * n) + 1 :: u32) = of_nat n"
    by (simp add: word_unat_eq_iff ac_simps)
  have dec: "wp (tee_hs2b ?hs' (of_nat (2 * n)) (of_nat n)) (\<lambda>r t. r = of_nat n \<and> t = b) b0"
    unfolding tee_hs2b_def Let_def len u
    using wp_mono [OF hs2b_loop_pairs [OF nth, where m = n], of b0] assms
    by (simp add: wp_simps)
  show ?thesis using enc dec by (auto simp: wp_iff)
qed

lemma hex_roundtrip_witness:
  "\<exists>hs'. tee_b2hs [0x4F, 0xA0] (of_nat 2) 5 (replicate 5 0) = Inr (of_nat (2 * 2), hs')
     \<and> tee_hs2b hs' (of_nat (2 * 2)) (of_nat 2) [0, 0] = Inr (of_nat 2, [0x4F, 0xA0])"
  by (rule hex_roundtrip) simp_all

section \<open>What the buffer predicates decide\<close>

lemma end_ok_iff: "\<not> ((b :: u32) - 1 + bl < b) \<and> bl \<noteq> 0 \<longleftrightarrow> 0 < unat bl \<and> unat b + unat bl \<le> 2 ^ 32"
  using unat_lt32 [of b] unat_lt32 [of bl] by (auto simp: word32_nat split: if_splits)

lemma valid_conf_iff:
  "is_valid_conf_and_notnull_size b bl a al \<longleftrightarrow>
     0 < unat bl \<and> unat b + unat bl \<le> 2 ^ 32 \<and> 0 < unat al \<and> unat a + unat al \<le> 2 ^ 32"
  using end_ok_iff [of b bl] end_ok_iff [of a al]
  unfolding is_valid_conf_and_notnull_size_def by auto

lemma unat_last: "0 < unat bl \<Longrightarrow> unat b + unat bl \<le> 2 ^ 32 \<Longrightarrow> unat (b - 1 + bl :: u32) = unat b + unat bl - 1"
  using unat_lt32 [of b] unat_lt32 [of bl] by (auto simp: word32_nat split: if_splits)

lemma unat_end: "unat b + unat bl < 2 ^ 32 \<Longrightarrow> unat (b + bl :: u32) = unat b + unat bl"
  by (simp add: word32_nat)

lemma inside_iff:
  "core_is_buffer_inside b bl a al \<longleftrightarrow>
     is_valid_conf_and_notnull_size b bl a al \<and> unat a \<le> unat b \<and> unat b + unat bl \<le> unat a + unat al"
  unfolding core_is_buffer_inside_def valid_conf_iff
  by (auto simp: word_le_nat_alt unat_last)

definition span :: "u32 \<Rightarrow> u32 \<Rightarrow> nat set" where
  "span b bl = {unat b..<unat b + unat bl}"

text \<open>\<open>core_is_buffer_inside\<close> holds exactly for a non-empty buffer that does not run past
  the top of the address space and whose bytes all lie in the non-empty area; the wrap-around of
  the 32-bit end addresses never changes the answer.\<close>

lemma buffer_inside_correct:
  "core_is_buffer_inside b bl a al \<longleftrightarrow>
     bl \<noteq> 0 \<and> al \<noteq> 0 \<and> unat b + unat bl \<le> 2 ^ 32 \<and> unat a + unat al \<le> 2 ^ 32 \<and> span b bl \<subseteq> span a al"
  unfolding inside_iff valid_conf_iff span_def unat_gt_0 [symmetric] by auto

lemma disjoint_iff_ends:
  assumes "bl \<noteq> 0" "al \<noteq> 0" "unat b + unat bl < 2 ^ 32" "unat a + unat al < 2 ^ 32"
  shows "span b bl \<inter> span a al = {} \<longleftrightarrow> b + bl \<le> a \<or> b \<ge> a + al"
  using assms(1,2) unfolding span_def word_le_nat_alt unat_end [OF assms(3)] unat_end [OF assms(4)]
    unat_gt_0 [symmetric] by auto

text \<open>For non-empty buffers that end below the top of the address space,
  \<open>core_is_buffer_intersect\<close> holds exactly when the buffer and the area share a byte, and
  \<open>core_is_buffer_outside\<close> exactly when they do not.\<close>

lemma buffer_intersect_correct:
  assumes "bl \<noteq> 0" "al \<noteq> 0" "unat b + unat bl < 2 ^ 32" "unat a + unat al < 2 ^ 32"
  shows "(core_is_buffer_intersect b bl a al \<longleftrightarrow> span b bl \<inter> span a al \<noteq> {})
    \<and> (core_is_buffer_outside b bl a al \<longleftrightarrow> span b bl \<inter> span a al = {})"
proof -
  have v: "is_valid_conf_and_notnull_size b bl a al"
    using assms by (simp add: valid_conf_iff unat_gt_0)
  show ?thesis
    unfolding disjoint_iff_ends [OF assms]
    by (simp add: core_is_buffer_intersect_def core_is_buffer_outside_def v)
qed

lemma buffer_intersect_correct_witness:
  "(core_is_buffer_intersect 0x1000 0x1000 0x1800 0x1000 \<longleftrightarrow> span 0x1000 0x1000 \<inter> span 0x1800 0x1000 \<noteq> {})
    \<and> (core_is_buffer_outside 0x1000 0x1000 0x1800 0x1000 \<longleftrightarrow> span 0x1000 0x1000 \<inter> span 0x1800 0x1000 = {})"
  by (rule buffer_intersect_correct) simp_all

text \<open>At the very top of the address space the intersection test is wrong: the validity check
  lets a buffer end at 2^32, but its end then wraps to 0, so two overlapping buffers are reported
  as not intersecting, and even as outside each other.\<close>

lemma buffer_intersect_top_of_memory:
  "\<exists>b bl a al. is_valid_conf_and_notnull_size b bl a al \<and> span b bl \<inter> span a al \<noteq> {}
     \<and> \<not> core_is_buffer_intersect b bl a al \<and> core_is_buffer_outside b bl a al"
proof -
  have "is_valid_conf_and_notnull_size 0xFFFFF000 0x1000 0xFFFFF000 0x800
     \<and> span 0xFFFFF000 0x1000 \<inter> span 0xFFFFF000 0x800 \<noteq> {}
     \<and> \<not> core_is_buffer_intersect 0xFFFFF000 0x1000 0xFFFFF000 0x800
     \<and> core_is_buffer_outside 0xFFFFF000 0x1000 0xFFFFF000 0x800"
    by (simp add: is_valid_conf_and_notnull_size_def span_def core_is_buffer_intersect_def core_is_buffer_outside_def)
  then show ?thesis by blast
qed


end
