(* ===== verification/Kernel_State.thy ===== *)
theory Kernel_State
  imports Prelude
begin

text \<open>
  The state of the secure kernel: one record per C file that keeps static variables, and the
  machine below them. Heap objects the code refers to by pointer (devices, interrupt chips,
  GPIO ports) live in maps from identifiers, so that two pointers to one object alias as they
  do in C. Function pointers the code compares or stores are enumerations of the functions that
  are ever stored there. The machine is the device registers \<open>io\<close>, read by \<open>read32\<close> and its
  siblings, and the hardware's reaction to a store, \<open>hw\<close>, which is a parameter: nothing under
  src/ defines it, and a theorem that needs a law of it says so.
\<close>

section \<open>Machine and build configuration\<close>

record machine =
  io :: "u32 \<Rightarrow> u32"
  hw :: "nat \<Rightarrow> u32 \<Rightarrow> u32 \<Rightarrow> (u32 \<Rightarrow> u32) \<Rightarrow> u32 \<Rightarrow> u32"
  debug :: bool
  alloc_ok :: "nat \<Rightarrow> bool"
  alloc_n :: nat
  cpsr :: u32
  core_pos :: nat

text \<open>
  \<open>hw n a v m\<close>: the register contents after a store of \<open>n\<close> bytes of \<open>v\<close> at \<open>a\<close> when they were
  \<open>m\<close>. \<open>debug\<close>: \<open>CFG_TEE_CORE_DEBUG\<close>, without which \<open>NDEBUG\<close> removes every \<open>assert\<close>.
  \<open>alloc_ok\<close>: whether the n-th call of \<open>malloc\<close> from now succeeds. \<open>core_pos\<close>: the executing core.
\<close>

section \<open>Thread module: thread.c, thread\_private.h\<close>

datatype thread_state = THREAD_STATE_FREE | THREAD_STATE_SUSPENDED | THREAD_STATE_ACTIVE

record thread_smc_args =
  a0 :: u32
  a1 :: u32
  a2 :: u32
  a3 :: u32
  a4 :: u32
  a5 :: u32
  a6 :: u32
  a7 :: u32

record thread_ctx =
  regs_r0_7 :: "u32 list"
  regs_svc_sp :: u32
  regs_pc :: u32
  regs_cpsr :: u32
  tstate :: thread_state
  stack_va_end :: vaddr
  hyp_clnt_id :: u32
  tflags :: u32

record thread_core_local =
  tmp_stack_va_end :: vaddr
  curr_thread :: int
  locked_count :: u32

text \<open>The canary words at the start and the end of each stack of the three stack arrays.\<close>

record thread_vars =
  threads :: "thread_ctx list"
  core_local :: "thread_core_local list"
  thread_global_lock :: u32
  stack_tmp :: "(u32 \<times> u32) list"
  stack_abt :: "(u32 \<times> u32) list"
  stack_thread :: "(u32 \<times> u32) list"

section \<open>Interrupt framework: kernel/interrupt.h\<close>

datatype irq_return = ITRR_NONE | ITRR_HANDLED | ITRR_HANDLED_PASS | ITRR_HANDLED_DEFAULT

text \<open>A chip is embedded in the structure of its driver: the two chips of \<open>struct gic_data\<close>
  and the one of each \<open>struct mxc_gpio_port\<close>. \<open>NULL_CHIP\<close> is the pointer of a descriptor not filled in;
  nothing registers it.\<close>

datatype chip_ref = GIC_CHIP | GPC_CHIP | PORT_CHIP nat | NULL_CHIP

datatype irq_chip_ops = gic_ops | gpio_irq_ops

datatype irq_handle_fn = MX3_GPIO_IRQ_HANDLER | MX2_GPIO_IRQ_HANDLER | GPIO_KEYS_HANDLER

record irq_handler =
  h_handle :: irq_handle_fn
  h_data :: nat

record irq_chip =
  chip_dev :: nat
  chip_ops :: irq_chip_ops
  num_irqs :: nat
  default_handler :: bool
  handlers :: "irq_handler option list"

record irq_desc =
  desc_chip :: chip_ref
  desc_irq :: nat

record irq_vars =
  irq_chips :: "chip_ref \<rightharpoonup> irq_chip"
  chips :: "chip_ref list"

section \<open>GIC driver: drivers/gic.h\<close>

record gic_data =
  gicc_base :: vaddr
  gicd_base :: vaddr
  max_it :: nat

section \<open>Device tree driver: drivers/dt.h\<close>

datatype resource_type = RESOURCE_MEM | RESOURCE_OTHER

record resource =
  address :: "u32 list"
  rsize :: "u32 list"

record irq_info =
  idesc :: irq_desc
  iflags :: u32

record device =
  node :: int
  phandle :: u32
  dname :: string
  parent :: "nat option"
  dresource_type :: resource_type
  resources :: "resource list"
  irqs :: "irq_info list"
  csu :: "int list"
  classes :: "string list"
  enabled :: bool
  is_simple_bus :: bool

text \<open>\<open>next_dev\<close>: the identifier the next allocated device gets.\<close>

record dt_vars =
  devs :: "nat \<rightharpoonup> device"
  buckets :: "nat list list"
  next_dev :: nat

section \<open>CSU driver: drivers/imx\_csu.c\<close>

record csu_vars =
  csu_base :: vaddr
  csu_csl_counts :: "int list"

section \<open>Emulation: secloak/emulation.h\<close>

datatype emu_state = EMU_STATE_WRITE | EMU_STATE_READ_BEFORE | EMU_STATE_READ_AFTER

datatype emu_check_fn = EMU_ALLOW_ALL | EMU_DENY_ALL | GPIO_EMU_CHECK | FB_EMU_CHECK

record region =
  r_base :: paddr
  r_size :: u32
  r_check :: emu_check_fn

record emu_vars =
  regions :: "region list"
  emu_data_pstart :: paddr
  emu_data_vstart :: vaddr
  emu_data_size :: u32
  emu_instr_pstart :: paddr
  emu_instr_vstart :: vaddr
  emu_instr_size :: u32

section \<open>GPIO driver: drivers/imx\_gpio.c\<close>

datatype mxc_gpio_hwtype = IMX1_GPIO | IMX21_GPIO | IMX31_GPIO | IMX35_GPIO

record mxc_gpio_hwdata =
  dr_reg :: u32
  gdir_reg :: u32
  psr_reg :: u32
  icr1_reg :: u32
  icr2_reg :: u32
  imr_reg :: u32
  isr_reg :: u32
  edge_sel_reg :: int
  low_level :: u32
  high_level :: u32
  rise_edge :: u32
  fall_edge :: u32

record mxc_gpio_port =
  pdev :: nat
  pbase :: paddr
  vbase :: vaddr
  irq_pass :: irq_desc
  both_edges :: u32
  secure_mask :: u32
  passed_irq_mask :: u32

record gpio_vars =
  ports :: "nat \<rightharpoonup> mxc_gpio_port"
  mxc_gpio_ports :: "nat list"
  gpio_hwtype :: "mxc_gpio_hwtype option"
  gpio_hwdata :: "mxc_gpio_hwdata option"

section \<open>GPIO keys driver: drivers/imx\_gpio\_keys.c\<close>

datatype button_handler = CLOAK_BUTTON_HANDLER | SECPWR_BUTTON_HANDLER

datatype secpwr_state = SECPWR_STATE0 | SECPWR_STATE1 | SECPWR_STATE2 | SECPWR_STATE3

record gpio_keys_button =
  code :: u32
  gpio_irq :: irq_desc
  gpio_irq_flags :: u32
  gpio_irq_handler :: irq_handler

record gpio_keys_platform_data =
  buttons :: "gpio_keys_button list"
  bhandlers :: "button_handler list"

record keys_vars =
  pdata :: "gpio_keys_platform_data option"
  secpwr :: secpwr_state

section \<open>Frame buffer driver: drivers/imx\_fb.c\<close>

record fb_vars =
  g_base_paddr :: paddr
  g_base_vaddr :: vaddr
  g_cpmem_vaddr :: vaddr
  fbmem :: "nat \<Rightarrow> u8"

section \<open>Memory map: mm/core\_mmu.c\<close>

datatype teecore_memtypes =
    MEM_AREA_NOTYPE | MEM_AREA_TEE_RAM | MEM_AREA_TEE_RAM_RX | MEM_AREA_TEE_RAM_RO
  | MEM_AREA_TEE_RAM_RW | MEM_AREA_TEE_COHERENT | MEM_AREA_TA_RAM | MEM_AREA_NSEC_SHM
  | MEM_AREA_RAM_NSEC | MEM_AREA_RAM_SEC | MEM_AREA_IO_NSEC | MEM_AREA_IO_SEC
  | MEM_AREA_RES_VASPACE | MEM_AREA_SHM_VASPACE | MEM_AREA_TA_VASPACE | MEM_AREA_SDP_MEM
  | MEM_AREA_MAXTYPE

record tee_mmap_region =
  mtype :: teecore_memtypes
  region_size :: u32
  mpa :: paddr
  mva :: vaddr
  msize :: u32
  mattr :: u32

text \<open>The system registers \<open>core_init_mmu_regs\<close> sets.\<close>

record cp15_regs =
  sctlr :: u32
  prrr :: u32
  nmrr :: u32
  dacr :: u32
  ttbcr :: u32
  ttbr0 :: u32
  ttbr1 :: u32

record mmu_vars =
  static_memory_map :: "tee_mmap_region list"
  ats1cpr :: "vaddr \<Rightarrow> u32"
  main_mmu_l1_ttb :: "nat \<Rightarrow> u32"
  main_mmu_l2_ttb :: "nat \<Rightarrow> u32"
  tables_used :: nat
  l1_ttb_va :: vaddr
  l2_ttb_va :: vaddr
  cp15 :: cp15_regs

text \<open>\<open>ats1cpr va\<close>: what \<open>read_par32\<close> returns after \<open>write_ats1cpr (va)\<close>, the MMU's own translation
  of a virtual address; a parameter of the model. The translation tables of core\_mmu\_v7.c are
  the arrays of 4096 first-level entries and of 8 times 256 second-level entries, indexed from their
  first word, at the link-time addresses \<open>l1_ttb_va\<close> and \<open>l2_ttb_va\<close>.\<close>

section \<open>SeCloak entry: secloak/entry.c\<close>

record cloak_vars =
  cloak_confirm_status :: nat
  cloak_lock :: u32
  cloak_prev_settings :: u32

section \<open>Secure monitor: sm/sm.h\<close>

text \<open>The registers banked by processor mode.\<close>

record sm_mode_regs =
  usr_sp :: u32
  usr_lr :: u32
  irq_spsr :: u32
  irq_sp :: u32
  irq_lr :: u32
  fiq_spsr :: u32
  fiq_sp :: u32
  fiq_lr :: u32
  svc_spsr :: u32
  svc_sp :: u32
  svc_lr :: u32
  abt_spsr :: u32
  abt_sp :: u32
  abt_lr :: u32
  und_spsr :: u32
  und_sp :: u32
  und_lr :: u32

text \<open>\<open>r0\<close>-\<open>r7\<close> and \<open>r8\<close>-\<open>r12\<close> are adjacent words that the code indexes from the first.\<close>

record sm_nsec_ctx =
  mode_regs :: sm_mode_regs
  nr8_12 :: "u32 list"
  nlr :: u32
  nr0_7 :: "u32 list"
  mon_lr :: u32
  mon_spsr :: u32

record sm_sec_ctx =
  sec_mode_regs :: sm_mode_regs
  sr8_12 :: "u32 list"
  slr :: u32
  sr0_7 :: "u32 list"
  sec_mon_lr :: u32
  sec_mon_spsr :: u32

record sm_ctx =
  sm_sec :: sm_sec_ctx
  sm_nsec :: sm_nsec_ctx

section \<open>Boot: generic\_boot.c, tzc380.c\<close>

record tzc_instance =
  tzc_base :: vaddr
  addr_width :: u8
  num_regions :: u8

text \<open>The handlers of the thread module, function pointers the platform supplies.\<close>

datatype handler_fn = cloak_entry_fn | main_fiq_fn | pm_panic_fn | pm_do_nothing_fn

record thread_handlers =
  std_smc :: handler_fn
  fast_smc :: handler_fn
  nintr :: handler_fn
  cpu_on :: handler_fn
  cpu_off :: handler_fn
  cpu_suspend :: handler_fn
  cpu_resume :: handler_fn
  system_off :: handler_fn
  system_reset :: handler_fn

text \<open>The stack pointers of the exception modes and the vector bases of one core.\<close>

record core_regs =
  irq_sp_reg :: u32
  fiq_sp_reg :: u32
  abt_sp_reg :: u32
  mon_sp_reg :: u32
  vbar :: u32
  mvbar :: u32

text \<open>\<open>sm_ctxs\<close>: the monitor context of each core, at the top of its \<open>stack_tmp\<close>. \<open>nsacr\<close>: the
  register that lets the normal world use coprocessors.\<close>

record boot_vars =
  ns_entry_addrs :: "u32 list"
  spin_table :: "u32 list"
  tzc :: tzc_instance
  sm_ctxs :: "sm_ctx list"
  nsacr :: u32
  core_sp :: "core_regs list"
  handler_ptrs :: "thread_handlers option"

section \<open>The kernel\<close>

record kernel =
  mach :: machine
  thr :: thread_vars
  irqv :: irq_vars
  gic :: gic_data
  dt :: dt_vars
  csuv :: csu_vars
  emu :: emu_vars
  gpio :: gpio_vars
  keys :: keys_vars
  fb :: fb_vars
  mmu :: mmu_vars
  cloak :: cloak_vars
  boot :: boot_vars

type_synonym 'a km = "(kernel, 'a) m"

section \<open>Register access, assertions and allocation\<close>

text \<open>\<open>read32\<close> and \<open>write32\<close> of io.h; the narrow reads take their bytes from the aligned word.\<close>

definition read32 :: "vaddr \<Rightarrow> u32 km" where
  "read32 a = gets (\<lambda>s. io (mach s) a)"

definition read16 :: "vaddr \<Rightarrow> u16 km" where
  "read16 a = gets (\<lambda>s. ucast (drop_bit (8 * unat (a AND 2)) (io (mach s) (a AND NOT 3))))"

definition read8 :: "vaddr \<Rightarrow> u8 km" where
  "read8 a = gets (\<lambda>s. ucast (drop_bit (8 * unat (a AND 3)) (io (mach s) (a AND NOT 3))))"

definition store :: "nat \<Rightarrow> u32 \<Rightarrow> vaddr \<Rightarrow> unit km" where
  "store n v a = modifyM (\<lambda>s. s\<lparr>mach := mach s\<lparr>io := hw (mach s) n a v (io (mach s))\<rparr>\<rparr>)"

definition write32 :: "u32 \<Rightarrow> vaddr \<Rightarrow> unit km" where
  "write32 v a = store 4 v a"

definition write16 :: "u16 \<Rightarrow> vaddr \<Rightarrow> unit km" where
  "write16 v a = store 2 (ucast v) a"

definition write8 :: "u8 \<Rightarrow> vaddr \<Rightarrow> unit km" where
  "write8 v a = store 1 (ucast v) a"

definition io_mask32 :: "vaddr \<Rightarrow> u32 \<Rightarrow> u32 \<Rightarrow> unit km" where
  "io_mask32 a v mk = bindM (read32 a) (\<lambda>old. write32 ((old AND NOT mk) OR (v AND mk)) a)"

definition cassert :: "bool \<Rightarrow> unit km" where
  "cassert b = bindM (gets (\<lambda>s. debug (mach s))) (\<lambda>d. if d \<and> \<not> b then throw Assert_fail else ret ())"

definition malloc :: "bool km" where
  "malloc = bindM (gets (\<lambda>s. alloc_ok (mach s) (alloc_n (mach s)))) (\<lambda>ok.
     thenM (modifyM (\<lambda>s. s\<lparr>mach := mach s\<lparr>alloc_n := Suc (alloc_n (mach s))\<rparr>\<rparr>)) (ret ok))"

definition io_upd :: "(u32 \<Rightarrow> u32) \<Rightarrow> kernel \<Rightarrow> kernel" where
  "io_upd m s = s\<lparr>mach := mach s\<lparr>io := m\<rparr>\<rparr>"

lemma wp_read32 [wp_simps]: "wp (read32 a) Q = (\<lambda>s. Q (io (mach s) a) s)"
  by (rule ext) (simp add: read32_def wp_simps)

lemma wp_write32 [wp_simps]:
  "wp (write32 v a) Q = (\<lambda>s. Q () (io_upd (hw (mach s) 4 a v (io (mach s))) s))"
  by (rule ext) (simp add: write32_def store_def wp_simps io_upd_def)

lemma wp_write8 [wp_simps]:
  "wp (write8 b a) Q = (\<lambda>s. Q () (io_upd (hw (mach s) 1 a (ucast b) (io (mach s))) s))"
  by (rule ext) (simp add: write8_def store_def wp_simps io_upd_def)

lemma wp_cassert [wp_simps]: "wp (cassert b) Q = (\<lambda>s. ((debug (mach s) \<longrightarrow> b) \<and> Q () s))"
  by (rule ext) (simp add: cassert_def wp_simps)

lemma wlp_read32 [wp_simps]: "wlp (read32 a) Q = (\<lambda>s. Q (io (mach s) a) s)"
  by (rule ext) (simp add: read32_def wp_simps)

lemma wlp_write32 [wp_simps]:
  "wlp (write32 v a) Q = (\<lambda>s. Q () (io_upd (hw (mach s) 4 a v (io (mach s))) s))"
  by (rule ext) (simp add: write32_def store_def wp_simps io_upd_def)

lemma wlp_write8 [wp_simps]:
  "wlp (write8 b a) Q = (\<lambda>s. Q () (io_upd (hw (mach s) 1 a (ucast b) (io (mach s))) s))"
  by (rule ext) (simp add: write8_def store_def wp_simps io_upd_def)

lemma wlp_cassert [wp_simps]: "wlp (cassert b) Q = (\<lambda>s. ((debug (mach s) \<longrightarrow> b) \<longrightarrow> Q () s))"
  by (rule ext) (simp add: cassert_def wp_simps)

lemma io_upd_sel [simp]:
  "io (mach (io_upd m s)) = m"
  "hw (mach (io_upd m s)) = hw (mach s)"
  "debug (mach (io_upd m s)) = debug (mach s)"
  "alloc_ok (mach (io_upd m s)) = alloc_ok (mach s)"
  "alloc_n (mach (io_upd m s)) = alloc_n (mach s)"
  "cpsr (mach (io_upd m s)) = cpsr (mach s)"
  "core_pos (mach (io_upd m s)) = core_pos (mach s)"
  "thr (io_upd m s) = thr s" "irqv (io_upd m s) = irqv s" "gic (io_upd m s) = gic s"
  "dt (io_upd m s) = dt s" "csuv (io_upd m s) = csuv s" "emu (io_upd m s) = emu s"
  "gpio (io_upd m s) = gpio s" "keys (io_upd m s) = keys s" "fb (io_upd m s) = fb s"
  "mmu (io_upd m s) = mmu s" "cloak (io_upd m s) = cloak s"
  "io_upd m' (io_upd m s) = io_upd m' s" "boot (io_upd m s) = boot s"
  by (simp_all add: io_upd_def)

text \<open>A register that reads back what was last stored: the documented behaviour of the CSU, IPU
  and most GPIO registers. \<open>plain_hw\<close> is the machine all of whose registers do.\<close>

definition plain_reg :: "(nat \<Rightarrow> u32 \<Rightarrow> u32 \<Rightarrow> (u32 \<Rightarrow> u32) \<Rightarrow> u32 \<Rightarrow> u32) \<Rightarrow> u32 \<Rightarrow> bool" where
  "plain_reg h a \<longleftrightarrow> (\<forall>v m. h 4 a v m = m(a := v))"

definition plain_hw :: "nat \<Rightarrow> u32 \<Rightarrow> u32 \<Rightarrow> (u32 \<Rightarrow> u32) \<Rightarrow> u32 \<Rightarrow> u32" where
  "plain_hw n a v m =
     (if n = 4 then m(a := v)
      else let w = a AND NOT 3; sh = 8 * unat (a AND 3); mk = push_bit sh (mask (8 * n)) in
        m(w := (m w AND NOT mk) OR (push_bit sh v AND mk)))"

lemma plain_reg_store: "plain_reg h a \<Longrightarrow> h 4 a v m = m(a := v)"
  by (simp add: plain_reg_def)

lemma plain_reg_plain_hw [simp]: "plain_reg plain_hw a"
  by (simp add: plain_reg_def plain_hw_def)

text \<open>Register stores, assertions and allocation change the machine only.\<close>

lemma keeps_machine [keeps_intros]:
  "keeps f (read32 a)" "keeps f (read16 a)" "keeps f (read8 a)" "keeps f (cassert b)"
  by (simp_all add: read32_def read16_def read8_def keeps_pure cassert_def keeps_bindM keeps_if)

lemma keeps_store:
  assumes "\<And>s m. f (s\<lparr>mach := m\<rparr>) = f s"
  shows "keeps f (store n v a)" "keeps f (write32 v a)" "keeps f (write8 b a)" "keeps f (write16 h a)" "keeps f malloc"
  using assms by (auto simp: write32_def write8_def write16_def store_def malloc_def
    intro!: keeps_modifyM keeps_bindM keeps_thenM keeps_pure)

section \<open>A boot-time state for witnesses\<close>

text \<open>All static variables zero, as the C loader leaves them, on plain registers in a debug
  build, with four cores and two threads.\<close>

definition blank_thread :: thread_ctx where
  "blank_thread = \<lparr>regs_r0_7 = replicate 8 0, regs_svc_sp = 0, regs_pc = 0, regs_cpsr = 0,
     tstate = THREAD_STATE_FREE, stack_va_end = 0, hyp_clnt_id = 0, tflags = 0\<rparr>"

definition blank_mode_regs :: sm_mode_regs where
  "blank_mode_regs = \<lparr>usr_sp = 0, usr_lr = 0, irq_spsr = 0, irq_sp = 0, irq_lr = 0, fiq_spsr = 0, fiq_sp = 0, fiq_lr = 0,
     svc_spsr = 0, svc_sp = 0, svc_lr = 0, abt_spsr = 0, abt_sp = 0, abt_lr = 0, und_spsr = 0, und_sp = 0, und_lr = 0\<rparr>"

definition blank_sm_ctx :: sm_ctx where
  "blank_sm_ctx =
     \<lparr>sm_sec = \<lparr>sec_mode_regs = blank_mode_regs, sr8_12 = replicate 5 0, slr = 0, sr0_7 = replicate 8 0, sec_mon_lr = 0,
        sec_mon_spsr = 0\<rparr>,
      sm_nsec = \<lparr>mode_regs = blank_mode_regs, nr8_12 = replicate 5 0, nlr = 0, nr0_7 = replicate 8 0, mon_lr = 0, mon_spsr = 0\<rparr>\<rparr>"

definition blank :: kernel where
  "blank =
    \<lparr>mach = \<lparr>io = (\<lambda>_. 0), hw = plain_hw, debug = True, alloc_ok = (\<lambda>_. True), alloc_n = 0,
       cpsr = 0x1D3, core_pos = 0\<rparr>,
     thr = \<lparr>threads = replicate 2 blank_thread,
       core_local = replicate 4 \<lparr>tmp_stack_va_end = 0, curr_thread = -1, locked_count = 0\<rparr>,
       thread_global_lock = 0, stack_tmp = replicate 4 (0, 0), stack_abt = replicate 4 (0, 0),
       stack_thread = replicate 2 (0, 0)\<rparr>,
     irqv = \<lparr>irq_chips = Map.empty, chips = []\<rparr>,
     gic = \<lparr>gicc_base = 0, gicd_base = 0, max_it = 0\<rparr>,
     dt = \<lparr>devs = Map.empty, buckets = replicate 128 [], next_dev = 0\<rparr>,
     csuv = \<lparr>csu_base = 0, csu_csl_counts = replicate 80 0\<rparr>,
     emu = \<lparr>regions = [], emu_data_pstart = 0, emu_data_vstart = 0, emu_data_size = 0,
       emu_instr_pstart = 0, emu_instr_vstart = 0, emu_instr_size = 0\<rparr>,
     gpio = \<lparr>ports = Map.empty, mxc_gpio_ports = [], gpio_hwtype = None, gpio_hwdata = None\<rparr>,
     keys = \<lparr>pdata = None, secpwr = SECPWR_STATE0\<rparr>,
     fb = \<lparr>g_base_paddr = 0, g_base_vaddr = 0, g_cpmem_vaddr = 0, fbmem = (\<lambda>_. 0)\<rparr>,
     mmu = \<lparr>static_memory_map = [], ats1cpr = (\<lambda>_. 1), main_mmu_l1_ttb = (\<lambda>_. 0),
       main_mmu_l2_ttb = (\<lambda>_. 0), tables_used = 0, l1_ttb_va = 0x4C080000, l2_ttb_va = 0x4C084000,
       cp15 = \<lparr>sctlr = 0, prrr = 0, nmrr = 0, dacr = 0, ttbcr = 0, ttbr0 = 0, ttbr1 = 0\<rparr>\<rparr>,
     cloak = \<lparr>cloak_confirm_status = 0, cloak_lock = 0, cloak_prev_settings = 0\<rparr>,
     boot = \<lparr>ns_entry_addrs = replicate 4 0, spin_table = replicate 4 0,
       tzc = \<lparr>tzc_base = 0, addr_width = 0, num_regions = 0\<rparr>, sm_ctxs = replicate 4 blank_sm_ctx, nsacr = 0,
       core_sp = replicate 4 \<lparr>irq_sp_reg = 0, fiq_sp_reg = 0, abt_sp_reg = 0, mon_sp_reg = 0, vbar = 0, mvbar = 0\<rparr>,
       handler_ptrs = None\<rparr>\<rparr>"

end
