(* ===== verification/Thread.thy ===== *)
theory Thread
  imports Kernel_State
begin

text \<open>
  core/arch/arm/kernel/thread.c, the spinlocks of kernel/spinlock.h with their debug counters
  (spin\_lock\_debug.c), and the exception mask. The executing core is \<open>core_pos\<close> of the
  machine; every function that takes the global lock runs its critical section as one step, so a
  run of the multi-core system is a sequence of such steps on any of the cores.
\<close>

abbreviation (input) CFG_NUM_THREADS :: nat where "CFG_NUM_THREADS \<equiv> 2"
abbreviation (input) CFG_TEE_CORE_NB_CORE :: nat where "CFG_TEE_CORE_NB_CORE \<equiv> 4"
abbreviation (input) THREAD_EXCP_NATIVE_INTR :: u32 where "THREAD_EXCP_NATIVE_INTR \<equiv> 1"
abbreviation (input) THREAD_EXCP_FOREIGN_INTR :: u32 where "THREAD_EXCP_FOREIGN_INTR \<equiv> 2"
abbreviation (input) THREAD_EXCP_ALL :: u32 where "THREAD_EXCP_ALL \<equiv> 7"
abbreviation (input) THREAD_FLAGS_FOREIGN_INTR_ENABLE :: u32 where "THREAD_FLAGS_FOREIGN_INTR_ENABLE \<equiv> 2"
abbreviation (input) START_CANARY_VALUE :: u32 where "START_CANARY_VALUE \<equiv> 0xdededede"
abbreviation (input) END_CANARY_VALUE :: u32 where "END_CANARY_VALUE \<equiv> 0xabababab"
abbreviation (input) STACK_THREAD_SIZE :: u32 where "STACK_THREAD_SIZE \<equiv> 8192"
abbreviation (input) OPTEE_SMC_RETURN_ETHREAD_LIMIT :: u32 where "OPTEE_SMC_RETURN_ETHREAD_LIMIT \<equiv> 1"

section \<open>Stack canaries\<close>

definition init_canaries :: "unit km" where
  "init_canaries = modifyM (\<lambda>s. s\<lparr>thr := thr s
     \<lparr>stack_tmp := map (\<lambda>_. (START_CANARY_VALUE, END_CANARY_VALUE)) (stack_tmp (thr s)),
      stack_abt := map (\<lambda>_. (START_CANARY_VALUE, END_CANARY_VALUE)) (stack_abt (thr s)),
      stack_thread := map (\<lambda>_. (START_CANARY_VALUE, END_CANARY_VALUE)) (stack_thread (thr s))\<rparr>\<rparr>)"

definition check_canary :: "u32 \<times> u32 \<Rightarrow> unit km" where
  "check_canary c =
     thenM (whenM (fst c \<noteq> START_CANARY_VALUE) panic) (whenM (snd c \<noteq> END_CANARY_VALUE) panic)"

definition thread_check_canaries :: "unit km" where
  "thread_check_canaries =
     bindM (gets (\<lambda>s. stack_tmp (thr s))) (\<lambda>tmp. thenM (forM tmp check_canary) (
     bindM (gets (\<lambda>s. stack_abt (thr s))) (\<lambda>abt. thenM (forM abt check_canary) (
     bindM (gets (\<lambda>s. stack_thread (thr s))) (\<lambda>st. forM st check_canary)))))"

section \<open>Exception mask, core-local data and spinlock debugging\<close>

definition thread_get_exceptions :: "u32 km" where
  "thread_get_exceptions = gets (\<lambda>s. drop_bit 6 (cpsr (mach s)) AND THREAD_EXCP_ALL)"

definition thread_foreign_intr_disabled :: "bool km" where
  "thread_foreign_intr_disabled =
     bindM thread_get_exceptions (\<lambda>e. ret (e AND THREAD_EXCP_FOREIGN_INTR \<noteq> 0))"

text \<open>The pointer to the executing core's data is its index, returned with the contents.\<close>

definition thread_get_core_local :: "(nat \<times> thread_core_local) km" where
  "thread_get_core_local =
     bindM (gets (\<lambda>s. core_pos (mach s))) (\<lambda>cpu_id.
     bindM thread_get_exceptions (\<lambda>e.
     thenM (cassert (e AND THREAD_EXCP_FOREIGN_INTR \<noteq> 0)) (
     thenM (cassert (cpu_id < CFG_TEE_CORE_NB_CORE)) (
     bindM (gets (\<lambda>s. core_local (thr s))) (\<lambda>cl.
     bindM (index_at cl cpu_id) (\<lambda>l. ret (cpu_id, l)))))))"

definition upd_core_local :: "nat \<Rightarrow> (thread_core_local \<Rightarrow> thread_core_local) \<Rightarrow> unit km" where
  "upd_core_local c f = modifyM (\<lambda>s. s\<lparr>thr := thr s
     \<lparr>core_local := (core_local (thr s))[c := f (core_local (thr s) ! c)]\<rparr>\<rparr>)"

definition spinlock_count_incr :: "unit km" where
  "spinlock_count_incr = bindM (gets (\<lambda>s. debug (mach s))) (\<lambda>d. whenM d (
     bindM thread_get_core_local (\<lambda>(c, l).
     thenM (upd_core_local c (\<lambda>l. l\<lparr>locked_count := locked_count l + 1\<rparr>))
           (cassert (locked_count l + 1 \<noteq> 0)))))"

definition spinlock_count_decr :: "unit km" where
  "spinlock_count_decr = bindM (gets (\<lambda>s. debug (mach s))) (\<lambda>d. whenM d (
     bindM thread_get_core_local (\<lambda>(c, l).
     thenM (cassert (locked_count l \<noteq> 0))
           (upd_core_local c (\<lambda>l. l\<lparr>locked_count := locked_count l - 1\<rparr>)))))"

definition have_spinlock :: "bool km" where
  "have_spinlock = bindM thread_foreign_intr_disabled (\<lambda>dis.
     if \<not> dis then ret False
     else bindM thread_get_core_local (\<lambda>(c, l). ret (locked_count l \<noteq> 0)))"

definition assert_have_no_spinlock :: "unit km" where
  "assert_have_no_spinlock = bindM (gets (\<lambda>s. debug (mach s))) (\<lambda>d. whenM d (
     bindM have_spinlock (\<lambda>h. cassert (\<not> h))))"

definition thread_set_exceptions :: "u32 \<Rightarrow> unit km" where
  "thread_set_exceptions e =
     bindM (gets (\<lambda>s. cpsr (mach s))) (\<lambda>c.
     thenM (whenM (e AND THREAD_EXCP_FOREIGN_INTR = 0) assert_have_no_spinlock) (
     modifyM (\<lambda>s. s\<lparr>mach := mach s\<lparr>cpsr :=
       (c AND NOT (push_bit 6 THREAD_EXCP_ALL)) OR push_bit 6 (e AND THREAD_EXCP_ALL)\<rparr>\<rparr>)))"

definition thread_mask_exceptions :: "u32 \<Rightarrow> u32 km" where
  "thread_mask_exceptions e =
     bindM thread_get_exceptions (\<lambda>state.
     thenM (thread_set_exceptions (state OR (e AND THREAD_EXCP_ALL))) (ret state))"

definition thread_unmask_exceptions :: "u32 \<Rightarrow> unit km" where
  "thread_unmask_exceptions state = thread_set_exceptions (state AND THREAD_EXCP_ALL)"

section \<open>Spinlocks\<close>

text \<open>
  A lock is a lens into the state. A blocking acquire of a lock that is held spins until another
  core stores to it: in the executing core's own steps that is \<open>Hang\<close>.
\<close>

definition cpu_spin_lock :: "(kernel \<Rightarrow> u32) \<Rightarrow> (u32 \<Rightarrow> kernel \<Rightarrow> kernel) \<Rightarrow> unit km" where
  "cpu_spin_lock get put =
     bindM thread_foreign_intr_disabled (\<lambda>dis. thenM (cassert dis) (
     bindM (gets get) (\<lambda>v. if v \<noteq> 0 then throw Hang
       else thenM (modifyM (put 1)) spinlock_count_incr)))"

definition cpu_spin_trylock :: "(kernel \<Rightarrow> u32) \<Rightarrow> (u32 \<Rightarrow> kernel \<Rightarrow> kernel) \<Rightarrow> bool km" where
  "cpu_spin_trylock get put =
     bindM thread_foreign_intr_disabled (\<lambda>dis. thenM (cassert dis) (
     bindM (gets get) (\<lambda>v. if v \<noteq> 0 then ret False
       else thenM (modifyM (put 1)) (thenM spinlock_count_incr (ret True)))))"

definition cpu_spin_unlock :: "(u32 \<Rightarrow> kernel \<Rightarrow> kernel) \<Rightarrow> unit km" where
  "cpu_spin_unlock put =
     bindM thread_foreign_intr_disabled (\<lambda>dis. thenM (cassert dis) (
     thenM (modifyM (put 0)) spinlock_count_decr))"

definition lock_global :: "unit km" where
  "lock_global = cpu_spin_lock (\<lambda>s. thread_global_lock (thr s))
     (\<lambda>v s. s\<lparr>thr := thr s\<lparr>thread_global_lock := v\<rparr>\<rparr>)"

definition unlock_global :: "unit km" where
  "unlock_global = cpu_spin_unlock (\<lambda>v s. s\<lparr>thr := thr s\<lparr>thread_global_lock := v\<rparr>\<rparr>)"

section \<open>Thread life cycle\<close>

definition thread_at :: "int \<Rightarrow> thread_ctx km" where
  "thread_at ct = bindM (gets (\<lambda>s. threads (thr s))) (\<lambda>ts.
     if ct < 0 then throw Out_of_bounds else index_at ts (nat ct))"

definition upd_thread :: "int \<Rightarrow> (thread_ctx \<Rightarrow> thread_ctx) \<Rightarrow> unit km" where
  "upd_thread ct f = bindM (thread_at ct) (\<lambda>t.
     modifyM (\<lambda>s. s\<lparr>thr := thr s\<lparr>threads := (threads (thr s))[nat ct := f t]\<rparr>\<rparr>))"

text \<open>\<open>pc\<close> is the link-time address of the assembly routine \<open>thread_std_smc_entry\<close>.\<close>

definition init_regs :: "u32 \<Rightarrow> u32 \<Rightarrow> thread_smc_args \<Rightarrow> thread_ctx \<Rightarrow> thread_ctx" where
  "init_regs pc cpsr_now args t =
     (let c = (cpsr_now AND 0x200) OR 0x13 OR 0x100 OR push_bit 6 THREAD_EXCP_FOREIGN_INTR in
      t\<lparr>regs_pc := pc,
        regs_cpsr := (if pc AND 1 \<noteq> 0 then c OR 0x20 else c),
        regs_svc_sp := stack_va_end t,
        regs_r0_7 := [a0 args, a1 args, a2 args, a3 args, a4 args, a5 args, a6 args, a7 args]\<rparr>)"

definition thread_init_boot_thread :: "unit km" where
  "thread_init_boot_thread =
     bindM thread_get_core_local (\<lambda>(c, l0).
     thenM (modifyM (\<lambda>s. s\<lparr>thr := thr s\<lparr>core_local :=
              map (\<lambda>l. l\<lparr>curr_thread := -1\<rparr>) (core_local (thr s))\<rparr>\<rparr>)) (
     thenM (upd_core_local c (\<lambda>l. l\<lparr>curr_thread := 0\<rparr>)) (
     upd_thread 0 (\<lambda>t. t\<lparr>tstate := THREAD_STATE_ACTIVE\<rparr>))))"

definition thread_clr_boot_thread :: "unit km" where
  "thread_clr_boot_thread =
     bindM thread_get_core_local (\<lambda>(c, l).
     thenM (cassert (curr_thread l \<ge> 0 \<and> curr_thread l < int CFG_NUM_THREADS)) (
     bindM (thread_at (curr_thread l)) (\<lambda>t.
     thenM (cassert (tstate t = THREAD_STATE_ACTIVE)) (
     thenM (upd_thread (curr_thread l) (\<lambda>t. t\<lparr>tstate := THREAD_STATE_FREE\<rparr>))
           (upd_core_local c (\<lambda>l. l\<lparr>curr_thread := -1\<rparr>))))))"

fun find_free :: "nat \<Rightarrow> thread_ctx list \<Rightarrow> nat option" where
  "find_free n [] = None"
| "find_free n (t # ts) = (if tstate t = THREAD_STATE_FREE then Some n else find_free (Suc n) ts)"

text \<open>The part of \<open>thread_alloc_and_run\<close> after the thread has been found: it ends in
  \<open>thread_resume\<close>, which does not return to the caller.\<close>

definition thread_start :: "u32 \<Rightarrow> thread_smc_args \<Rightarrow> nat \<Rightarrow> nat \<Rightarrow> unit km" where
  "thread_start pc args c n =
     thenM (upd_core_local c (\<lambda>l. l\<lparr>curr_thread := int n\<rparr>)) (
     thenM (upd_thread (int n) (\<lambda>t. t\<lparr>tflags := 0\<rparr>)) (
     bindM (gets (\<lambda>s. cpsr (mach s))) (\<lambda>psr.
     thenM (upd_thread (int n) (init_regs pc psr args))
           (upd_thread (int n) (\<lambda>t. t\<lparr>hyp_clnt_id := a7 args\<rparr>)))))"

definition thread_claim :: "nat option \<Rightarrow> unit km" where
  "thread_claim found = (case found of None \<Rightarrow> ret ()
     | Some n \<Rightarrow> upd_thread (int n) (\<lambda>t. t\<lparr>tstate := THREAD_STATE_ACTIVE\<rparr>))"

text \<open>The result \<open>Some n\<close>: \<open>thread_resume\<close> was called on thread \<open>n\<close>; \<open>None\<close>: the function
  returned to its caller with the new arguments.\<close>

definition thread_alloc_and_run :: "u32 \<Rightarrow> thread_smc_args \<Rightarrow> (nat option \<times> thread_smc_args) km" where
  "thread_alloc_and_run pc args =
     bindM thread_get_core_local (\<lambda>(c, l).
     thenM (cassert (curr_thread l = -1)) (
     thenM lock_global (
     bindM (gets (\<lambda>s. find_free 0 (threads (thr s)))) (\<lambda>found.
     thenM (thread_claim found) (
     thenM unlock_global (
     case found of None \<Rightarrow> ret (None, args\<lparr>a0 := OPTEE_SMC_RETURN_ETHREAD_LIMIT\<rparr>)
     | Some n \<Rightarrow> thenM (thread_start pc args c n) (ret (Some n, args))))))))"

definition thread_handle_std_smc :: "u32 \<Rightarrow> thread_smc_args \<Rightarrow> (nat option \<times> thread_smc_args) km" where
  "thread_handle_std_smc pc args = thenM thread_check_canaries (thread_alloc_and_run pc args)"

definition thread_handle_fast_smc ::
    "(thread_smc_args \<Rightarrow> thread_smc_args km) \<Rightarrow> thread_smc_args \<Rightarrow> thread_smc_args km" where
  "thread_handle_fast_smc fast_handler args =
     thenM thread_check_canaries (
     bindM (fast_handler args) (\<lambda>args'.
     bindM thread_get_exceptions (\<lambda>e.
     thenM (cassert (e = THREAD_EXCP_ALL)) (ret args'))))"

definition thread_state_free :: "unit km" where
  "thread_state_free =
     bindM thread_get_core_local (\<lambda>(c, l).
     let ct = curr_thread l in
     thenM (cassert (ct \<noteq> -1)) (
     thenM lock_global (
     bindM (thread_at ct) (\<lambda>t.
     thenM (cassert (tstate t = THREAD_STATE_ACTIVE)) (
     thenM (upd_thread ct (\<lambda>t. t\<lparr>tstate := THREAD_STATE_FREE, tflags := 0\<rparr>)) (
     thenM (upd_core_local c (\<lambda>l. l\<lparr>curr_thread := -1\<rparr>))
           unlock_global))))))"

definition thread_state_suspend :: "u32 \<Rightarrow> u32 \<Rightarrow> vaddr \<Rightarrow> int km" where
  "thread_state_suspend flags psr pc =
     bindM thread_get_core_local (\<lambda>(c, l).
     let ct = curr_thread l in
     thenM (cassert (ct \<noteq> -1)) (
     thenM thread_check_canaries (
     thenM lock_global (
     bindM (thread_at ct) (\<lambda>t.
     thenM (cassert (tstate t = THREAD_STATE_ACTIVE)) (
     thenM (upd_thread ct (\<lambda>t. t\<lparr>tflags := tflags t OR flags, regs_cpsr := psr, regs_pc := pc,
              tstate := THREAD_STATE_SUSPENDED\<rparr>)) (
     thenM (upd_core_local c (\<lambda>l. l\<lparr>curr_thread := -1\<rparr>)) (
     thenM unlock_global (ret ct)))))))))"

definition thread_init_stack :: "u32 \<Rightarrow> vaddr \<Rightarrow> bool km" where
  "thread_init_stack thread_id sp =
     (if thread_id \<ge> of_nat CFG_NUM_THREADS then ret False
      else thenM (upd_thread (uint thread_id) (\<lambda>t. t\<lparr>stack_va_end := sp\<rparr>)) (ret True))"

definition thread_get_id_may_fail :: "int km" where
  "thread_get_id_may_fail =
     bindM (thread_mask_exceptions THREAD_EXCP_FOREIGN_INTR) (\<lambda>exceptions.
     bindM thread_get_core_local (\<lambda>(c, l).
     thenM (thread_unmask_exceptions exceptions) (ret (curr_thread l))))"

definition thread_get_id :: "int km" where
  "thread_get_id = bindM thread_get_id_may_fail (\<lambda>ct.
     thenM (cassert (ct \<ge> 0 \<and> ct < int CFG_NUM_THREADS)) (ret ct))"

definition thread_stack_start :: "vaddr km" where
  "thread_stack_start = bindM thread_get_id_may_fail (\<lambda>ct.
     if ct = -1 then ret 0
     else bindM (thread_at ct) (\<lambda>t. ret (stack_va_end t - STACK_THREAD_SIZE)))"

definition thread_set_foreign_intr :: "bool \<Rightarrow> unit km" where
  "thread_set_foreign_intr enable =
     bindM (thread_mask_exceptions THREAD_EXCP_FOREIGN_INTR) (\<lambda>exceptions.
     bindM thread_get_core_local (\<lambda>(c, l).
     thenM (cassert (curr_thread l \<noteq> -1)) (
     if enable then
       thenM (upd_thread (curr_thread l)
                (\<lambda>t. t\<lparr>tflags := tflags t OR THREAD_FLAGS_FOREIGN_INTR_ENABLE\<rparr>))
             (thread_set_exceptions (exceptions AND NOT THREAD_EXCP_FOREIGN_INTR))
     else upd_thread (curr_thread l)
            (\<lambda>t. t\<lparr>tflags := tflags t AND NOT THREAD_FLAGS_FOREIGN_INTR_ENABLE\<rparr>))))"

definition thread_restore_foreign_intr :: "unit km" where
  "thread_restore_foreign_intr =
     bindM (thread_mask_exceptions THREAD_EXCP_FOREIGN_INTR) (\<lambda>exceptions.
     bindM thread_get_core_local (\<lambda>(c, l).
     thenM (cassert (curr_thread l \<noteq> -1)) (
     bindM (thread_at (curr_thread l)) (\<lambda>t.
     whenM (tflags t AND THREAD_FLAGS_FOREIGN_INTR_ENABLE \<noteq> 0)
       (thread_set_exceptions (exceptions AND NOT THREAD_EXCP_FOREIGN_INTR))))))"

section \<open>The thread pool and its abstract specification\<close>

definition pool :: "kernel \<Rightarrow> thread_state list \<times> int list" where
  "pool s = (map tstate (threads (thr s)), map curr_thread (core_local (thr s)))"

fun pool_alloc :: "nat \<Rightarrow> thread_state list \<times> int list \<Rightarrow> nat option \<times> thread_state list \<times> int list" where
  "pool_alloc c (ts, cur) =
     (case find (\<lambda>n. ts ! n = THREAD_STATE_FREE) [0..<length ts] of
        None \<Rightarrow> (None, ts, cur)
      | Some n \<Rightarrow> (Some n, ts[n := THREAD_STATE_ACTIVE], cur[c := int n]))"

fun pool_leave :: "thread_state \<Rightarrow> nat \<Rightarrow> thread_state list \<times> int list \<Rightarrow> thread_state list \<times> int list" where
  "pool_leave st c (ts, cur) = (ts[nat (cur ! c) := st], cur[c := -1])"

lemma wp_thread_get_core_local [wp_simps]:
  "wp thread_get_core_local Q = (\<lambda>s. ((debug (mach s) \<longrightarrow> (drop_bit 6 (cpsr (mach s)) AND 7) AND 2 \<noteq> 0 \<and> core_pos (mach s) < 4)
      \<and> core_pos (mach s) < length (core_local (thr s))
      \<and> Q (core_pos (mach s), core_local (thr s) ! core_pos (mach s)) s))"
  by (rule ext) (auto simp: thread_get_core_local_def thread_get_exceptions_def wp_simps)

lemma wlp_thread_get_core_local [wp_simps]:
  "wlp thread_get_core_local Q = (\<lambda>s. ((debug (mach s) \<longrightarrow> (drop_bit 6 (cpsr (mach s)) AND 7) AND 2 \<noteq> 0 \<and> core_pos (mach s) < 4) \<longrightarrow>
      core_pos (mach s) < length (core_local (thr s)) \<longrightarrow>
      Q (core_pos (mach s), core_local (thr s) ! core_pos (mach s)) s))"
  by (rule ext) (auto simp: thread_get_core_local_def thread_get_exceptions_def wp_simps)

lemma wlp_thread_at [wp_simps]:
  "wlp (thread_at ct) Q = (\<lambda>s. (0 \<le> ct \<and> nat ct < length (threads (thr s)) \<longrightarrow> Q (threads (thr s) ! nat ct) s))"
  by (rule ext) (auto simp: thread_at_def wp_simps)

lemma wp_thread_at [wp_simps]:
  "wp (thread_at ct) Q = (\<lambda>s. (0 \<le> ct \<and> nat ct < length (threads (thr s)) \<and> Q (threads (thr s) ! nat ct) s))"
  by (rule ext) (auto simp: thread_at_def wp_simps)

text \<open>Taking and releasing the global lock, and checking canaries, change neither the pool nor
  the machine.\<close>

definition same_pool :: "kernel \<Rightarrow> kernel \<Rightarrow> bool" where
  "same_pool s t \<longleftrightarrow> pool t = pool s \<and> mach t = mach s"

lemma curr_thread_upd: "map curr_thread (xs[c := l]) = (map curr_thread xs)[c := curr_thread l]"
  by (simp add: map_update)

lemma same_pool_locked_count:
  "same_pool s (s\<lparr>thr := thr s\<lparr>core_local := (core_local (thr s))
      [c := (core_local (thr s) ! c)\<lparr>locked_count := k\<rparr>]\<rparr>\<rparr>)"
proof (cases "c < length (core_local (thr s))")
  case True
  then have "(map curr_thread (core_local (thr s)))[c := curr_thread (core_local (thr s) ! c)]
      = map curr_thread (core_local (thr s))"
    by (metis list_update_id nth_map)
  then show ?thesis by (simp add: same_pool_def pool_def curr_thread_upd)
next
  case False
  then show ?thesis by (simp add: same_pool_def pool_def list_update_beyond)
qed

lemma same_pool_trans: "same_pool s t \<Longrightarrow> same_pool t u \<Longrightarrow> same_pool s u"
  by (simp add: same_pool_def)

lemma wlp_spinlock_count_incr: "wlp spinlock_count_incr (\<lambda>_. same_pool s) s"
  using same_pool_locked_count [of s "core_pos (mach s)"]
  by (auto simp: spinlock_count_incr_def upd_core_local_def wp_simps same_pool_def)

lemma wlp_spinlock_count_decr: "wlp spinlock_count_decr (\<lambda>_. same_pool s) s"
  using same_pool_locked_count [of s "core_pos (mach s)"]
  by (auto simp: spinlock_count_decr_def upd_core_local_def wp_simps same_pool_def)

lemma same_pool_lock: "same_pool s (s\<lparr>thr := thr s\<lparr>thread_global_lock := v\<rparr>\<rparr>)"
  by (simp add: same_pool_def pool_def)

lemma wlp_lock_global: "wlp lock_global (\<lambda>_. same_pool s) s"
proof -
  have "wlp spinlock_count_incr (\<lambda>_. same_pool s) (s\<lparr>thr := thr s\<lparr>thread_global_lock := 1\<rparr>\<rparr>)"
    by (rule wlp_mono [OF wlp_spinlock_count_incr]) (rule same_pool_trans [OF same_pool_lock])
  then show ?thesis
    by (simp add: lock_global_def cpu_spin_lock_def thread_foreign_intr_disabled_def
        thread_get_exceptions_def wp_simps)
qed

lemma wlp_unlock_global: "wlp unlock_global (\<lambda>_. same_pool s) s"
proof -
  have "wlp spinlock_count_decr (\<lambda>_. same_pool s) (s\<lparr>thr := thr s\<lparr>thread_global_lock := 0\<rparr>\<rparr>)"
    by (rule wlp_mono [OF wlp_spinlock_count_decr]) (rule same_pool_trans [OF same_pool_lock])
  then show ?thesis
    by (simp add: unlock_global_def cpu_spin_unlock_def thread_foreign_intr_disabled_def
        thread_get_exceptions_def wp_simps)
qed

lemma wlp_thread_check_canaries: "wlp thread_check_canaries (\<lambda>_ t. t = s) s"
proof -
  have loop: "wlp (forM xs check_canary) (\<lambda>_ t. t = s) s" for xs
    by (rule wlp_forM_inv) (simp_all add: check_canary_def wp_simps)
  show ?thesis
    unfolding thread_check_canaries_def wlp_bindM wlp_thenM wlp_gets
    by (intro wlp_mono [OF loop]) (simp add: wp_simps, intro wlp_mono [OF loop], simp add: wp_simps loop)
qed

lemma find_free_find:
  "find_free k ts = map_option ((+) k) (find (\<lambda>n. map tstate ts ! n = THREAD_STATE_FREE) [0..<length ts])"
proof (induction ts arbitrary: k)
  case (Cons t ts)
  have *: "[0..<length (t # ts)] = 0 # map Suc [0..<length ts]"
    by (simp add: upt_conv_Cons map_Suc_upt del: upt_Suc)
  have find_map: "find P (map Suc xs) = map_option Suc (find (\<lambda>n. P (Suc n)) xs)" for P xs
    by (induction xs) auto
  show ?case
    unfolding * by (auto simp: find_map Cons.IH option.map_comp comp_def simp del: upt_Suc)
qed simp

lemma pool_upd_thread: "same_pool s t \<Longrightarrow> wlp (upd_thread ct f) (\<lambda>_ u. mach u = mach s \<and> 0 \<le> ct
     \<and> pool u = ((fst (pool s))[nat ct := tstate (f (threads (thr t) ! nat ct))], snd (pool s))) t"
  by (auto simp: upd_thread_def wp_simps same_pool_def pool_def map_update)

lemma pool_upd_core_local: "wlp (upd_core_local c f) (\<lambda>_ u. mach u = mach t
     \<and> pool u = (fst (pool t), (snd (pool t))[c := curr_thread (f (core_local (thr t) ! c))])) t"
  by (auto simp: upd_core_local_def wp_simps pool_def map_update)

lemma same_pool_upd_thread:
  "(\<And>x. tstate (f x) = tstate x) \<Longrightarrow> wlp (upd_thread ct f) (\<lambda>_. same_pool t) t"
  by (auto simp: upd_thread_def wp_simps same_pool_def pool_def map_update map_update_same)

lemma same_pool_refl: "same_pool s s"
  by (simp add: same_pool_def)

lemma wlp_thread_start:
  "wlp (thread_start pc args c n)
     (\<lambda>_ t. mach t = mach s \<and> pool t = (fst (pool s), (snd (pool s))[c := int n])) s"
  unfolding thread_start_def
  apply (rule wlp_then_rule [OF pool_upd_core_local])
  apply (rule wlp_then_rule [OF same_pool_upd_thread], simp)
  apply (simp only: wlp_bindM wlp_gets)
  apply (rule wlp_then_rule [OF same_pool_upd_thread], simp add: init_regs_def Let_def)
  apply (rule wlp_mono [OF same_pool_upd_thread], simp)
  by (simp add: same_pool_def)

lemma find_free_pool:
  "find_free 0 (threads (thr s)) =
     find (\<lambda>n. fst (pool s) ! n = THREAD_STATE_FREE) [0..<length (fst (pool s))]"
proof -
  have "map_option ((+) 0) x = x" for x :: "nat option" by (cases x) auto
  then show ?thesis by (simp add: find_free_find pool_def)
qed

lemma pool_alloc_eq: "pool_alloc c P =
     (case find (\<lambda>n. fst P ! n = THREAD_STATE_FREE) [0..<length (fst P)] of
        None \<Rightarrow> (None, P)
      | Some n \<Rightarrow> (Some n, (fst P)[n := THREAD_STATE_ACTIVE], (snd P)[c := int n]))"
  by (cases P) (simp split: option.splits)

lemma thread_alloc_refines:
  "wlp (thread_alloc_and_run pc args)
     (\<lambda>(r, args') t. mach t = mach s \<and> (r, pool t) = pool_alloc (core_pos (mach s)) (pool s)
        \<and> args' = (if r = None then args\<lparr>a0 := OPTEE_SMC_RETURN_ETHREAD_LIMIT\<rparr> else args)) s"
    (is "wlp _ ?Q s")
proof -
  let ?c = "core_pos (mach s)"
  have "wlp (bindM (gets (\<lambda>s. find_free 0 (threads (thr s)))) (\<lambda>found.
     thenM (thread_claim found) (
     thenM unlock_global (
     case found of None \<Rightarrow> ret (None, args\<lparr>a0 := OPTEE_SMC_RETURN_ETHREAD_LIMIT\<rparr>)
     | Some n \<Rightarrow> thenM (thread_start pc args ?c n) (ret (Some n, args)))))) ?Q t"
    if t: "same_pool s t" for t
  proof (cases "find_free 0 (threads (thr t))")
    case None
    show ?thesis
      unfolding wlp_bindM wlp_gets None thread_claim_def option.case wlp_thenM wlp_ret
      by (rule wlp_mono [OF wlp_unlock_global])
        (use t None in \<open>auto simp: same_pool_def pool_alloc_eq find_free_pool\<close>)
  next
    case (Some n)
    show ?thesis
      unfolding wlp_bindM wlp_gets Some thread_claim_def option.case
      by (rule wlp_then_rule [OF pool_upd_thread [OF t]], rule wlp_then_rule [OF wlp_unlock_global],
          rule wlp_then_rule [OF wlp_thread_start])
        (use t Some in \<open>auto simp: wp_simps same_pool_def pool_alloc_eq find_free_pool\<close>)
  qed
  then show ?thesis
    unfolding thread_alloc_and_run_def
    by (auto simp: wp_simps intro!: wlp_mono [OF wlp_lock_global])
qed

lemma pool_leave_eq:
  "pool_leave st c P = ((fst P)[nat (snd P ! c) := st], (snd P)[c := -1])"
  by (cases P) simp

lemma wlp_leave:
  assumes t: "same_pool s t" and ct: "snd (pool s) ! c = ct" and f: "\<And>x. tstate (f x) = st"
    and Q: "\<And>u. mach u = mach s \<Longrightarrow> pool u = pool_leave st c (pool s) \<Longrightarrow> Q u"
  shows "wlp (upd_thread ct f) (\<lambda>_. wlp (upd_core_local c (\<lambda>l. l\<lparr>curr_thread := -1\<rparr>))
           (\<lambda>_. wlp unlock_global (\<lambda>_. Q))) t"
  apply (rule wlp_mono [OF pool_upd_thread [OF t]])
  apply (rule wlp_mono [OF pool_upd_core_local])
  apply (rule wlp_mono [OF wlp_unlock_global])
  by (rule Q) (use ct in \<open>auto simp: same_pool_def f pool_leave_eq\<close>)

lemma pool_curr: "c < length (core_local (thr s)) \<Longrightarrow> snd (pool s) ! c = curr_thread (core_local (thr s) ! c)"
  by (simp add: pool_def)

lemma thread_state_free_refines:
  "wlp thread_state_free (\<lambda>_ t. mach t = mach s
      \<and> pool t = pool_leave THREAD_STATE_FREE (core_pos (mach s)) (pool s)) s"
  unfolding thread_state_free_def
  apply (simp add: wp_simps Let_def, intro impI conjI)
  by (rule wlp_mono [OF wlp_lock_global], simp add: pool_curr [symmetric], intro impI,
      rule wlp_leave [where st = THREAD_STATE_FREE and s = s], simp_all)+

lemma thread_state_suspend_refines:
  "wlp (thread_state_suspend fl psr pc) (\<lambda>r t. mach t = mach s
      \<and> r = snd (pool s) ! core_pos (mach s)
      \<and> pool t = pool_leave THREAD_STATE_SUSPENDED (core_pos (mach s)) (pool s)) s"
  unfolding thread_state_suspend_def
  apply (simp add: wp_simps Let_def, intro impI conjI)
  by (rule wlp_mono [OF wlp_thread_check_canaries], simp, rule wlp_mono [OF wlp_lock_global],
      simp add: pool_curr [symmetric], intro impI,
      rule wlp_leave [where st = THREAD_STATE_SUSPENDED and s = s], simp_all)+

lemma thread_clr_boot_thread_refines:
  "wlp thread_clr_boot_thread (\<lambda>_ t. mach t = mach s
      \<and> pool t = pool_leave THREAD_STATE_FREE (core_pos (mach s)) (pool s)) s"
  unfolding thread_clr_boot_thread_def
  by (auto simp: wp_simps upd_thread_def upd_core_local_def pool_def map_update)

section \<open>Ownership of threads\<close>

definition runs_active :: "thread_state list \<Rightarrow> int list \<Rightarrow> bool" where
  "runs_active ts cur \<longleftrightarrow> (\<forall>c < length cur. cur ! c = -1 \<or>
     (\<exists>n < length ts. cur ! c = int n \<and> ts ! n = THREAD_STATE_ACTIVE))"

definition runs_once :: "int list \<Rightarrow> bool" where
  "runs_once cur \<longleftrightarrow>
     (\<forall>c < length cur. \<forall>d < length cur. cur ! c = cur ! d \<longrightarrow> cur ! c = -1 \<or> c = d)"

definition active_runs :: "thread_state list \<Rightarrow> int list \<Rightarrow> bool" where
  "active_runs ts cur \<longleftrightarrow>
     (\<forall>n < length ts. ts ! n = THREAD_STATE_ACTIVE \<longrightarrow> (\<exists>c < length cur. cur ! c = int n))"

definition pool_inv :: "thread_state list \<times> int list \<Rightarrow> bool" where
  "pool_inv P \<longleftrightarrow> runs_active (fst P) (snd P) \<and> runs_once (snd P) \<and> active_runs (fst P) (snd P)"

lemma find_upt_SomeD: "find p [0..<n] = Some k \<Longrightarrow> k < n \<and> p k"
  by (auto simp: find_Some_iff)

lemma pool_inv_start:
  assumes "pool_inv (ts, cur)" "cur ! c = -1" "c < length cur" "n < length ts"
    "ts ! n = THREAD_STATE_FREE"
  shows "pool_inv (ts[n := THREAD_STATE_ACTIVE], cur[c := int n])"
proof -
  have fresh: "cur ! d \<noteq> int n" if "d < length cur" for d
    using assms(1,5) that by (force simp: pool_inv_def runs_active_def)
  have "runs_active (ts[n := THREAD_STATE_ACTIVE]) (cur[c := int n])"
    unfolding runs_active_def
  proof (intro allI impI)
    fix d
    assume d: "d < length (cur[c := int n])"
    show "cur[c := int n] ! d = -1 \<or> (\<exists>k < length (ts[n := THREAD_STATE_ACTIVE]).
        cur[c := int n] ! d = int k \<and> ts[n := THREAD_STATE_ACTIVE] ! k = THREAD_STATE_ACTIVE)"
      using assms(1,3,4) d by (cases "d = c") (auto simp: pool_inv_def runs_active_def nth_list_update)
  qed
  moreover have "runs_once (cur[c := int n])"
    using assms(1,3) fresh unfolding pool_inv_def runs_once_def
    by (auto simp: nth_list_update split: if_splits) metis
  moreover have "active_runs (ts[n := THREAD_STATE_ACTIVE]) (cur[c := int n])"
    unfolding active_runs_def
  proof (intro allI impI)
    fix k
    assume k: "k < length (ts[n := THREAD_STATE_ACTIVE])" "ts[n := THREAD_STATE_ACTIVE] ! k = THREAD_STATE_ACTIVE"
    show "\<exists>d < length (cur[c := int n]). cur[c := int n] ! d = int k"
    proof (cases "k = n")
      case True
      with assms(3) show ?thesis by (intro exI [of _ c]) simp
    next
      case False
      with k assms(1) obtain d where "d < length cur" "cur ! d = int k"
        by (auto simp: pool_inv_def active_runs_def)
      with assms(2,3) show ?thesis by (intro exI [of _ d]) (auto simp: nth_list_update)
    qed
  qed
  ultimately show ?thesis by (simp add: pool_inv_def)
qed

lemma pool_alloc_inv:
  assumes "pool_inv P" "snd P ! c = -1" "c < length (snd P)"
  shows "pool_inv (snd (pool_alloc c P))"
  using assms pool_inv_start [of "fst P" "snd P" c]
  by (auto simp: pool_alloc_eq split: option.splits dest!: find_upt_SomeD)

lemma pool_leave_inv:
  assumes "pool_inv P" "st \<noteq> THREAD_STATE_ACTIVE" "c < length (snd P)" "snd P ! c \<noteq> -1"
  shows "pool_inv (pool_leave st c P)"
proof -
  obtain n where n: "n < length (fst P)" "snd P ! c = int n"
    using assms by (auto simp: pool_inv_def runs_active_def)
  have once: "d = c" if "d < length (snd P)" "snd P ! d = int n" for d
    using assms n that by (auto simp: pool_inv_def runs_once_def)
  have "runs_active ((fst P)[n := st]) ((snd P)[c := -1])"
    unfolding runs_active_def
  proof (intro allI impI)
    fix d
    assume d: "d < length ((snd P)[c := -1])"
    show "(snd P)[c := -1] ! d = -1 \<or> (\<exists>k < length ((fst P)[n := st]).
        (snd P)[c := -1] ! d = int k \<and> (fst P)[n := st] ! k = THREAD_STATE_ACTIVE)"
    proof (cases "d = c")
      case True
      with assms(3) show ?thesis by simp
    next
      case False
      with assms(1) d once [of d] show ?thesis
        by (fastforce simp: pool_inv_def runs_active_def nth_list_update)
    qed
  qed
  moreover have "runs_once ((snd P)[c := -1])"
    using assms(1,3) unfolding pool_inv_def runs_once_def
    by (auto simp: nth_list_update split: if_splits)
  moreover have "active_runs ((fst P)[n := st]) ((snd P)[c := -1])"
    unfolding active_runs_def
  proof (intro allI impI)
    fix k
    assume k: "k < length ((fst P)[n := st])" "(fst P)[n := st] ! k = THREAD_STATE_ACTIVE"
    then have "k \<noteq> n" using assms(2) by (auto simp: nth_list_update)
    with k assms(1) obtain d where "d < length (snd P)" "snd P ! d = int k"
      by (auto simp: pool_inv_def active_runs_def)
    with \<open>k \<noteq> n\<close> n assms(3) show "\<exists>d < length ((snd P)[c := -1]). (snd P)[c := -1] ! d = int k"
      by (intro exI [of _ d]) (auto simp: nth_list_update)
  qed
  ultimately show ?thesis using n by (simp add: pool_inv_def pool_leave_eq)
qed

definition on_core :: "nat \<Rightarrow> kernel \<Rightarrow> kernel" where
  "on_core c s = s\<lparr>mach := mach s\<lparr>core_pos := c\<rparr>\<rparr>"

text \<open>
  The multi-core thread system: any core may handle a standard SMC while no thread runs on it,
  and the thread that runs on a core may end or be suspended. Boot ends with
  \<open>thread_clr_boot_thread\<close>.
\<close>

inductive thread_step :: "kernel \<Rightarrow> kernel \<Rightarrow> bool" where
  smc: "c < length (core_local (thr s)) \<Longrightarrow> snd (pool s) ! c = -1
    \<Longrightarrow> thread_handle_std_smc pc args (on_core c s) = Inr (r, t) \<Longrightarrow> thread_step s t"
| free: "c < length (core_local (thr s)) \<Longrightarrow> snd (pool s) ! c \<noteq> -1
    \<Longrightarrow> thread_state_free (on_core c s) = Inr (u, t) \<Longrightarrow> thread_step s t"
| suspend: "c < length (core_local (thr s)) \<Longrightarrow> snd (pool s) ! c \<noteq> -1
    \<Longrightarrow> thread_state_suspend fl psr pc (on_core c s) = Inr (k, t) \<Longrightarrow> thread_step s t"
| clr_boot: "c < length (core_local (thr s)) \<Longrightarrow> snd (pool s) ! c \<noteq> -1
    \<Longrightarrow> thread_clr_boot_thread (on_core c s) = Inr (u, t) \<Longrightarrow> thread_step s t"

inductive thread_reachable :: "kernel \<Rightarrow> bool" where
  boot: "\<forall>x \<in> set (threads (thr s)). tstate x = THREAD_STATE_FREE
    \<Longrightarrow> thread_init_boot_thread s = Inr (u, t) \<Longrightarrow> thread_reachable t"
| step: "thread_reachable s \<Longrightarrow> thread_step s t \<Longrightarrow> thread_reachable t"

lemma on_core_sel [simp]: "pool (on_core c s) = pool s" "core_pos (mach (on_core c s)) = c"
    "thr (on_core c s) = thr s"
  by (simp_all add: on_core_def pool_def)

lemma length_pool: "length (snd (pool s)) = length (core_local (thr s))"
    "length (fst (pool s)) = length (threads (thr s))"
  by (simp_all add: pool_def)

lemma thread_step_inv: "thread_step s t \<Longrightarrow> pool_inv (pool s) \<Longrightarrow> pool_inv (pool t)"
proof (induction rule: thread_step.induct)
  case (smc c s pc args r t)
  have "wlp (thread_handle_std_smc pc args)
      (\<lambda>x t. (fst x, pool t) = pool_alloc c (pool s)) (on_core c s)"
    unfolding thread_handle_std_smc_def
    by (rule wlp_then_rule [OF wlp_thread_check_canaries])
      (auto intro!: wlp_mono [OF thread_alloc_refines])
  then have "(fst r, pool t) = pool_alloc c (pool s)" using smc(3) by (rule wlpD)
  then have "pool t = snd (pool_alloc c (pool s))" by (metis snd_conv)
  with smc show ?case by (simp add: pool_alloc_inv length_pool)
next
  case (free c s u t)
  with wlpD [OF thread_state_free_refines free(3)] show ?case
    by (simp add: pool_leave_inv length_pool)
next
  case (suspend c s fl psr pc k t)
  with wlpD [OF thread_state_suspend_refines suspend(3)] show ?case
    by (simp add: pool_leave_inv length_pool)
next
  case (clr_boot c s u t)
  with wlpD [OF thread_clr_boot_thread_refines clr_boot(3)] show ?case
    by (simp add: pool_leave_inv length_pool)
qed

lemma boot_thread_inv:
  assumes "\<forall>x \<in> set (threads (thr s)). tstate x = THREAD_STATE_FREE"
  shows "wlp thread_init_boot_thread (\<lambda>_ t. pool_inv (pool t)) s"
  using assms unfolding thread_init_boot_thread_def upd_core_local_def upd_thread_def
  by (auto simp: wp_simps pool_inv_def runs_active_def runs_once_def active_runs_def pool_def
      nth_list_update)

lemma thread_reachable_inv: "thread_reachable s \<Longrightarrow> pool_inv (pool s)"
proof (induction rule: thread_reachable.induct)
  case (boot s u t)
  from wlpD [OF boot_thread_inv [OF boot(1)] boot(2)] show ?case .
next
  case (step s t)
  then show ?case by (blast intro: thread_step_inv)
qed


lemma thread_boot_blank:
  "\<exists>t. thread_reachable t \<and> length (core_local (thr t)) = 4 \<and> curr_thread (core_local (thr t) ! 0) = 0"
proof -
  have "wp thread_init_boot_thread
      (\<lambda>_ t. length (core_local (thr t)) = 4 \<and> curr_thread (core_local (thr t) ! 0) = 0) blank"
    unfolding thread_init_boot_thread_def upd_core_local_def upd_thread_def
    by (simp add: wp_simps blank_def)
  moreover have "\<forall>x \<in> set (threads (thr blank)). tstate x = THREAD_STATE_FREE"
    by (simp add: blank_def blank_thread_def)
  ultimately show ?thesis by (auto simp: wp_iff intro: thread_reachable.boot)
qed


lemmas thread_alloc_wp_defs = thread_alloc_and_run_def thread_claim_def thread_start_def
  lock_global_def unlock_global_def cpu_spin_lock_def cpu_spin_unlock_def
  thread_foreign_intr_disabled_def thread_get_exceptions_def spinlock_count_incr_def
  spinlock_count_decr_def upd_core_local_def upd_thread_def



end
