(* ===== verification/Core_Mmu.thy ===== *)
theory Core_Mmu
  imports Tee_Misc Thread
begin

text \<open>
  core/arch/arm/mm/core\_mmu.c: the static memory map, searching it by type and address,
  translation between physical and virtual addresses with the debug-build cross checks against
  the MMU, buffer attribute tests, and the construction of the sorted, coalesced list of areas.
\<close>

section \<open>Platform memory layout (platform\_config.h, i.MX6Q)\<close>

abbreviation (input) CFG_NSECMEM_START :: u32 where "CFG_NSECMEM_START \<equiv> 0x10000000"
abbreviation (input) CFG_NSECMEM_SIZE :: u32 where "CFG_NSECMEM_SIZE \<equiv> 0x3B800000"
abbreviation (input) CFG_FBMEM_START :: u32 where "CFG_FBMEM_START \<equiv> 0x4B800000"
abbreviation (input) CFG_FBMEM_SIZE :: u32 where "CFG_FBMEM_SIZE \<equiv> 0x00800000"
abbreviation (input) TZDRAM_BASE :: u32 where "TZDRAM_BASE \<equiv> 0x4C000000"
abbreviation (input) TZDRAM_SIZE :: u32 where "TZDRAM_SIZE \<equiv> 0x03F00000"
abbreviation (input) CFG_TEE_RAM_START :: u32 where "CFG_TEE_RAM_START \<equiv> 0x4C000000"
abbreviation (input) CFG_TEE_RAM_PH_SIZE :: u32 where "CFG_TEE_RAM_PH_SIZE \<equiv> 0x00100000"
abbreviation (input) CFG_TA_RAM_START :: u32 where "CFG_TA_RAM_START \<equiv> 0x4C100000"
abbreviation (input) CFG_TA_RAM_SIZE :: u32 where "CFG_TA_RAM_SIZE \<equiv> 0x03E00000"
abbreviation (input) CFG_SHMEM_START :: u32 where "CFG_SHMEM_START \<equiv> 0x4FF00000"
abbreviation (input) CFG_SHMEM_SIZE :: u32 where "CFG_SHMEM_SIZE \<equiv> 0x00100000"

abbreviation (input) TEE_MATTR_SECURE :: u32 where "TEE_MATTR_SECURE \<equiv> 0x800"

record memaccess_area =
  ma_paddr :: paddr
  ma_size :: u32

definition secure_only :: "memaccess_area list" where
  "secure_only = [\<lparr>ma_paddr = TZDRAM_BASE, ma_size = TZDRAM_SIZE\<rparr>]"

definition nsec_shared :: "memaccess_area list" where
  "nsec_shared = [\<lparr>ma_paddr = CFG_SHMEM_START, ma_size = CFG_SHMEM_SIZE\<rparr>]"

section \<open>Searching the map\<close>

definition pbuf_intersects :: "memaccess_area list \<Rightarrow> paddr \<Rightarrow> u32 \<Rightarrow> bool" where
  "pbuf_intersects a pa sz =
     list_ex (\<lambda>x. core_is_buffer_intersect pa sz (ma_paddr x) (ma_size x)) a"

definition pbuf_is_inside :: "memaccess_area list \<Rightarrow> paddr \<Rightarrow> u32 \<Rightarrow> bool" where
  "pbuf_is_inside a pa sz =
     list_ex (\<lambda>x. core_is_buffer_inside pa sz (ma_paddr x) (ma_size x)) a"

definition pa_is_in_map :: "tee_mmap_region option \<Rightarrow> paddr \<Rightarrow> bool" where
  "pa_is_in_map mo pa = (case mo of None \<Rightarrow> False
     | Some m \<Rightarrow> pa \<ge> mpa m \<and> pa \<le> mpa m + msize m - 1)"

definition va_is_in_map :: "tee_mmap_region option \<Rightarrow> vaddr \<Rightarrow> bool" where
  "va_is_in_map mo va = (case mo of None \<Rightarrow> False
     | Some m \<Rightarrow> va \<ge> mva m \<and> va \<le> mva m + msize m - 1)"

definition pbuf_inside_map_area :: "paddr \<Rightarrow> u32 \<Rightarrow> tee_mmap_region \<Rightarrow> bool" where
  "pbuf_inside_map_area p l mm = core_is_buffer_inside p l (mpa mm) (msize mm)"

text \<open>The shared loop: the table ends at the first entry of type \<open>MEM_AREA_NOTYPE\<close>.\<close>

fun find_map :: "(tee_mmap_region \<Rightarrow> bool) \<Rightarrow> tee_mmap_region list \<Rightarrow> tee_mmap_region option" where
  "find_map p [] = None"
| "find_map p (m # ms) =
     (if mtype m = MEM_AREA_NOTYPE then None else if p m then Some m else find_map p ms)"

definition find_map_by_type :: "teecore_memtypes \<Rightarrow> tee_mmap_region list \<Rightarrow> tee_mmap_region option" where
  "find_map_by_type type = find_map (\<lambda>m. mtype m = type)"

definition find_map_by_type_and_pa ::
    "teecore_memtypes \<Rightarrow> paddr \<Rightarrow> tee_mmap_region list \<Rightarrow> tee_mmap_region option" where
  "find_map_by_type_and_pa type pa =
     find_map (\<lambda>m. if mtype m \<noteq> type then False else pa_is_in_map (Some m) pa)"

definition find_map_by_va :: "vaddr \<Rightarrow> tee_mmap_region list \<Rightarrow> tee_mmap_region option" where
  "find_map_by_va va = find_map (\<lambda>m. va \<ge> mva m \<and> va \<le> mva m - 1 + msize m)"

definition find_map_by_pa :: "paddr \<Rightarrow> tee_mmap_region list \<Rightarrow> tee_mmap_region option" where
  "find_map_by_pa pa = find_map (\<lambda>m. pa \<ge> mpa m \<and> pa < mpa m + msize m)"

definition core_mmu_get_type_by_pa :: "paddr \<Rightarrow> tee_mmap_region list \<Rightarrow> teecore_memtypes" where
  "core_mmu_get_type_by_pa pa ms = (case find_map_by_pa pa ms of None \<Rightarrow> MEM_AREA_NOTYPE
     | Some m \<Rightarrow> mtype m)"

definition core_mmu_get_mem_by_type ::
    "teecore_memtypes \<Rightarrow> tee_mmap_region list \<Rightarrow> vaddr \<times> vaddr" where
  "core_mmu_get_mem_by_type type ms = (case find_map_by_type type ms of
       Some m \<Rightarrow> (mva m, mva m + msize m) | None \<Rightarrow> (0, 0))"

section \<open>Attributes\<close>

definition core_mmu_type_to_attr :: "teecore_memtypes \<Rightarrow> u32 option" where
  "core_mmu_type_to_attr t =
     (let attr = 0x401; cached = 0x1000; noncache = 0 in
      case t of
        MEM_AREA_TEE_RAM \<Rightarrow> Some (attr OR TEE_MATTR_SECURE OR 0x70 OR cached)
      | MEM_AREA_TEE_RAM_RX \<Rightarrow> Some (attr OR TEE_MATTR_SECURE OR 0x50 OR cached)
      | MEM_AREA_TEE_RAM_RO \<Rightarrow> Some (attr OR TEE_MATTR_SECURE OR 0x10 OR cached)
      | MEM_AREA_TEE_RAM_RW \<Rightarrow> Some (attr OR TEE_MATTR_SECURE OR 0x30 OR cached)
      | MEM_AREA_TA_RAM \<Rightarrow> Some (attr OR TEE_MATTR_SECURE OR 0x30 OR cached)
      | MEM_AREA_NSEC_SHM \<Rightarrow> Some (attr OR 0x30 OR cached)
      | MEM_AREA_IO_NSEC \<Rightarrow> Some (attr OR 0x30 OR noncache)
      | MEM_AREA_IO_SEC \<Rightarrow> Some (attr OR TEE_MATTR_SECURE OR 0x30 OR noncache)
      | MEM_AREA_RAM_NSEC \<Rightarrow> Some (attr OR 0x30 OR cached)
      | MEM_AREA_RAM_SEC \<Rightarrow> Some (attr OR TEE_MATTR_SECURE OR 0x30 OR cached)
      | MEM_AREA_RES_VASPACE \<Rightarrow> Some 0
      | MEM_AREA_SHM_VASPACE \<Rightarrow> Some 0
      | _ \<Rightarrow> None)"

definition map_is_tee_ram :: "tee_mmap_region \<Rightarrow> bool" where
  "map_is_tee_ram mm = (case mtype mm of
       MEM_AREA_TEE_RAM \<Rightarrow> True | MEM_AREA_TEE_RAM_RX \<Rightarrow> True
     | MEM_AREA_TEE_RAM_RO \<Rightarrow> True | MEM_AREA_TEE_RAM_RW \<Rightarrow> True | _ \<Rightarrow> False)"

definition core_mmu_mattr_is_ok :: "u32 \<Rightarrow> bool" where
  "core_mmu_mattr_is_ok a = (let c = drop_bit 12 a AND 7 in c = 0 \<or> c = 1)"

text \<open>The \<open>attr\<close> argument of the buffer tests (enum buf\_is\_attr).\<close>

datatype buf_is_attr = CORE_MEM_CACHED | CORE_MEM_NSEC_SHM | CORE_MEM_NON_SEC | CORE_MEM_SEC
  | CORE_MEM_TEE_RAM | CORE_MEM_TA_RAM | CORE_MEM_SDP_MEM | CORE_MEM_REG_SHM

text \<open>The linker section of \<open>register_nsec_ddr\<close> entries is empty on this platform, so
  \<open>pbuf_is_nsec_ddr\<close> is false; it is a parameter \<open>nsec_ddr\<close> here.\<close>

definition pbuf_is_special_mem :: "(paddr \<times> u32) list \<Rightarrow> paddr \<Rightarrow> u32 \<Rightarrow> bool" where
  "pbuf_is_special_mem mems pbuf len =
     list_ex (\<lambda>(a, sz). core_is_buffer_inside pbuf len a sz) mems"

definition core_pbuf_is ::
    "(paddr \<times> u32) list \<Rightarrow> tee_mmap_region list \<Rightarrow> buf_is_attr \<Rightarrow> paddr \<Rightarrow> u32 \<Rightarrow> bool" where
  "core_pbuf_is nsec_ddr ms attr pbuf len =
     (if len = 0 then True
      else case attr of
        CORE_MEM_SEC \<Rightarrow> pbuf_is_inside secure_only pbuf len
      | CORE_MEM_NON_SEC \<Rightarrow> pbuf_is_inside nsec_shared pbuf len \<or> pbuf_is_special_mem nsec_ddr pbuf len
      | CORE_MEM_TEE_RAM \<Rightarrow> core_is_buffer_inside pbuf len CFG_TEE_RAM_START CFG_TEE_RAM_PH_SIZE
      | CORE_MEM_TA_RAM \<Rightarrow> core_is_buffer_inside pbuf len CFG_TA_RAM_START CFG_TA_RAM_SIZE
      | CORE_MEM_NSEC_SHM \<Rightarrow> core_is_buffer_inside pbuf len CFG_SHMEM_START CFG_SHMEM_SIZE
      | CORE_MEM_CACHED \<Rightarrow> (case find_map_by_pa pbuf ms of None \<Rightarrow> False
          | Some m \<Rightarrow> if \<not> pbuf_inside_map_area pbuf len m then False
                      else drop_bit 12 (mattr m) = 1)
      | _ \<Rightarrow> False)"

section \<open>Address translation\<close>

text \<open>\<open>None\<close>: the return value -1; \<open>Some pa\<close>: 0 with \<open>*pa\<close> set.\<close>

definition core_va2pa_helper :: "vaddr \<Rightarrow> tee_mmap_region list \<Rightarrow> paddr option" where
  "core_va2pa_helper va ms =
     (let mo = find_map_by_va va ms in
      if \<not> va_is_in_map mo va then None
      else case mo of None \<Rightarrow> None
        | Some m \<Rightarrow> Some (if mpa m \<noteq> 0 then mpa m + va - mva m else 0))"

text \<open>NULL is the address 0.\<close>

definition map_pa2va :: "tee_mmap_region option \<Rightarrow> paddr \<Rightarrow> vaddr" where
  "map_pa2va mo pa = (if \<not> pa_is_in_map mo pa then 0
     else case mo of None \<Rightarrow> 0 | Some m \<Rightarrow> mva m + pa - mpa m)"

definition arm_va2pa_helper :: "vaddr \<Rightarrow> paddr option km" where
  "arm_va2pa_helper va =
     bindM (thread_mask_exceptions THREAD_EXCP_ALL) (\<lambda>exceptions.
     bindM (gets (\<lambda>s. ats1cpr (mmu s) va)) (\<lambda>par.
     let r = (if par AND 1 \<noteq> 0 then None
              else Some ((par AND push_bit 12 0xFFFFF) OR (va AND 0xFFF))) in
     thenM (thread_unmask_exceptions exceptions) (ret r)))"

definition check_pa_matches_va :: "vaddr \<Rightarrow> paddr \<Rightarrow> unit km" where
  "check_pa_matches_va va pa =
     bindM (gets (\<lambda>s. debug (mach s))) (\<lambda>d. whenM d (
     bindM (gets (\<lambda>s. core_va2pa_helper va (static_memory_map (mmu s)))) (\<lambda>r.
       case r of Some p \<Rightarrow> whenM (p \<noteq> 0 \<and> pa \<noteq> p) panic
       | None \<Rightarrow> whenM (pa \<noteq> 0) panic)))"

definition virt_to_phys :: "vaddr \<Rightarrow> paddr km" where
  "virt_to_phys va =
     bindM (arm_va2pa_helper va) (\<lambda>r.
     let pa = (case r of None \<Rightarrow> 0 | Some p \<Rightarrow> p) in
     thenM (check_pa_matches_va va pa) (ret pa))"

definition check_va_matches_pa :: "paddr \<Rightarrow> vaddr \<Rightarrow> unit km" where
  "check_va_matches_pa pa va =
     bindM (gets (\<lambda>s. debug (mach s))) (\<lambda>d. whenM (d \<and> va \<noteq> 0) (
     bindM (virt_to_phys va) (\<lambda>p. whenM (p \<noteq> pa) panic)))"

definition phys_to_virt_tee_ram :: "paddr \<Rightarrow> tee_mmap_region list \<Rightarrow> vaddr" where
  "phys_to_virt_tee_ram pa ms =
     (let m1 = find_map_by_type_and_pa MEM_AREA_TEE_RAM pa ms;
          m2 = (if m1 = None then find_map_by_type_and_pa MEM_AREA_TEE_RAM_RW pa ms else m1);
          m3 = (if m2 = None then find_map_by_type_and_pa MEM_AREA_TEE_RAM_RO pa ms else m2);
          m4 = (if m3 = None then find_map_by_type_and_pa MEM_AREA_TEE_RAM_RX pa ms else m3)
      in map_pa2va m4 pa)"

definition phys_to_virt :: "paddr \<Rightarrow> teecore_memtypes \<Rightarrow> vaddr km" where
  "phys_to_virt pa m =
     bindM (gets (\<lambda>s. static_memory_map (mmu s))) (\<lambda>ms.
     let va = (case m of
         MEM_AREA_TEE_RAM \<Rightarrow> phys_to_virt_tee_ram pa ms
       | MEM_AREA_TEE_RAM_RX \<Rightarrow> phys_to_virt_tee_ram pa ms
       | MEM_AREA_TEE_RAM_RO \<Rightarrow> phys_to_virt_tee_ram pa ms
       | MEM_AREA_TEE_RAM_RW \<Rightarrow> phys_to_virt_tee_ram pa ms
       | _ \<Rightarrow> map_pa2va (find_map_by_type_and_pa m pa ms) pa) in
     thenM (check_va_matches_pa pa va) (ret va))"

definition phys_to_virt_io :: "paddr \<Rightarrow> vaddr km" where
  "phys_to_virt_io pa =
     bindM (gets (\<lambda>s. static_memory_map (mmu s))) (\<lambda>ms.
     let m1 = find_map_by_type_and_pa MEM_AREA_IO_SEC pa ms;
         m2 = (if m1 = None then find_map_by_type_and_pa MEM_AREA_IO_NSEC pa ms else m1) in
     if m2 = None then ret 0
     else let va = map_pa2va m2 pa in thenM (check_va_matches_pa pa va) (ret va))"

definition core_vbuf_is ::
    "(paddr \<times> u32) list \<Rightarrow> buf_is_attr \<Rightarrow> vaddr \<Rightarrow> u32 \<Rightarrow> bool km" where
  "core_vbuf_is nsec_ddr attr vbuf len =
     (if len = 0 then ret True
      else bindM (virt_to_phys vbuf) (\<lambda>p.
        if p = 0 then ret False
        else gets (\<lambda>s. core_pbuf_is nsec_ddr (static_memory_map (mmu s)) attr p len)))"

section \<open>Building the map\<close>

text \<open>The numeric value of a memory type, by which the table is sorted.\<close>

fun type_code :: "teecore_memtypes \<Rightarrow> nat" where
  "type_code MEM_AREA_NOTYPE = 0" | "type_code MEM_AREA_TEE_RAM = 1"
| "type_code MEM_AREA_TEE_RAM_RX = 2" | "type_code MEM_AREA_TEE_RAM_RO = 3"
| "type_code MEM_AREA_TEE_RAM_RW = 4" | "type_code MEM_AREA_TEE_COHERENT = 5"
| "type_code MEM_AREA_TA_RAM = 6" | "type_code MEM_AREA_NSEC_SHM = 7"
| "type_code MEM_AREA_RAM_NSEC = 8" | "type_code MEM_AREA_RAM_SEC = 9"
| "type_code MEM_AREA_IO_NSEC = 10" | "type_code MEM_AREA_IO_SEC = 11"
| "type_code MEM_AREA_RES_VASPACE = 12" | "type_code MEM_AREA_SHM_VASPACE = 13"
| "type_code MEM_AREA_TA_VASPACE = 14" | "type_code MEM_AREA_SDP_MEM = 15"
| "type_code MEM_AREA_MAXTYPE = 16"

record core_mmu_phys_mem =
  pm_type :: teecore_memtypes
  pm_addr :: paddr
  pm_size :: u32

text \<open>
  \<open>memory_map\<close> is an array of \<open>num_elems\<close> entries of which the first \<open>*last\<close> are used; the list
  holds the used ones, so \<open>*last\<close> is its length. The \<open>memmove\<close> that makes room writes entry
  \<open>*last\<close>, which lies outside the array when the array is full.
\<close>

definition new_entry :: "core_mmu_phys_mem \<Rightarrow> tee_mmap_region" where
  "new_entry mem = \<lparr>mtype = pm_type mem, region_size = 0, mpa = pm_addr mem, mva = 0,
     msize = pm_size mem, mattr = 0\<rparr>"

definition overlaps :: "core_mmu_phys_mem \<Rightarrow> tee_mmap_region \<Rightarrow> bool" where
  "overlaps mem m \<longleftrightarrow> pm_type mem = mtype m \<and>
     ((pm_addr mem \<ge> mpa m \<and> pm_addr mem \<le> mpa m + (msize m - 1)) \<or>
      (mpa m \<ge> pm_addr mem \<and> mpa m \<le> pm_addr mem + (pm_size mem - 1)))"

definition coalesce :: "core_mmu_phys_mem \<Rightarrow> tee_mmap_region \<Rightarrow> tee_mmap_region" where
  "coalesce mem m = (let pa' = min (mpa m) (pm_addr mem) in
     m\<lparr>mpa := pa', msize := max (msize m) (pm_size mem) + (mpa m - pa')\<rparr>)"

fun add_phys_mem_at ::
    "nat \<Rightarrow> nat \<Rightarrow> nat \<Rightarrow> core_mmu_phys_mem \<Rightarrow> tee_mmap_region list \<Rightarrow> fault + tee_mmap_region list" where
  "add_phys_mem_at num_elems lst n mem [] =
     (if n \<ge> num_elems - 1 then Inl Panic else Inr [new_entry mem])"
| "add_phys_mem_at num_elems lst n mem (m # ms) =
     (if n \<ge> num_elems - 1 then Inl Panic
      else if overlaps mem m then Inr (coalesce mem m # ms)
      else if type_code (pm_type mem) < type_code (mtype m)
          \<or> (pm_type mem = mtype m \<and> pm_addr mem < mpa m)
      then (if lst \<ge> num_elems then Inl Out_of_bounds else Inr (new_entry mem # m # ms))
      else map_sum id ((#) m) (add_phys_mem_at num_elems lst (Suc n) mem ms))"

definition add_phys_mem ::
    "nat \<Rightarrow> core_mmu_phys_mem \<Rightarrow> tee_mmap_region list \<Rightarrow> fault + tee_mmap_region list" where
  "add_phys_mem num_elems mem ms = add_phys_mem_at num_elems (length ms) 0 mem ms"

fun add_va_space_at ::
    "nat \<Rightarrow> nat \<Rightarrow> nat \<Rightarrow> teecore_memtypes \<Rightarrow> u32 \<Rightarrow> tee_mmap_region list \<Rightarrow> fault + tee_mmap_region list" where
  "add_va_space_at num_elems lst n type sz [] =
     (if n \<ge> num_elems - 1 then Inl Panic
      else Inr [new_entry \<lparr>pm_type = type, pm_addr = 0, pm_size = sz\<rparr>])"
| "add_va_space_at num_elems lst n type sz (m # ms) =
     (if n \<ge> num_elems - 1 then Inl Panic
      else if type_code type < type_code (mtype m)
      then (if lst \<ge> num_elems then Inl Out_of_bounds
            else Inr (new_entry \<lparr>pm_type = type, pm_addr = 0, pm_size = sz\<rparr> # m # ms))
      else map_sum id ((#) m) (add_va_space_at num_elems lst (Suc n) type sz ms))"

definition add_va_space ::
    "nat \<Rightarrow> teecore_memtypes \<Rightarrow> u32 \<Rightarrow> tee_mmap_region list \<Rightarrow> fault + tee_mmap_region list" where
  "add_va_space num_elems type sz ms = add_va_space_at num_elems (length ms) 0 type sz ms"

definition verify_special_mem_areas ::
    "tee_mmap_region list \<Rightarrow> (paddr \<times> u32) list \<Rightarrow> bool" where
  "verify_special_mem_areas mem_map mems =
     (if mems = [] then True
      else \<not> list_ex (\<lambda>i. list_ex (\<lambda>j. core_is_buffer_intersect (fst (mems ! j)) (snd (mems ! j))
                  (fst (mems ! i)) (snd (mems ! i))) [Suc i..<length mems]) [0..<length mems - 1]
         \<and> \<not> list_ex (\<lambda>(a, sz). list_ex (\<lambda>mm. core_is_buffer_intersect a sz (mpa mm) (msize mm)) mem_map) mems)"

section \<open>Lemmas: translation\<close>

lemma find_map_SomeD:
  "find_map p ms = Some m \<Longrightarrow> m \<in> set ms \<and> p m \<and> mtype m \<noteq> MEM_AREA_NOTYPE"
  by (induction ms) (auto split: if_splits)

lemma find_by_type_and_paD:
  "find_map_by_type_and_pa ty pa ms = Some m \<Longrightarrow>
     m \<in> set ms \<and> mtype m = ty \<and> pa_is_in_map (Some m) pa"
  unfolding find_map_by_type_and_pa_def by (drule find_map_SomeD) (auto split: if_splits)

lemma wlp_check_pa_matches_va: "wlp (check_pa_matches_va va pa) (\<lambda>_ t. t = s \<and>
     (debug (mach s) \<longrightarrow> pa \<noteq> 0 \<longrightarrow> (\<exists>p. core_va2pa_helper va (static_memory_map (mmu s)) = Some p \<and> (p = 0 \<or> p = pa)))) s"
  by (auto simp: check_pa_matches_va_def wp_simps split: option.splits)

text \<open>What the MMU answers for a virtual address, with the fault bit and the page offset.\<close>

definition mmu_translates :: "kernel \<Rightarrow> vaddr \<Rightarrow> paddr \<Rightarrow> bool" where
  "mmu_translates s va pa \<longleftrightarrow> \<not> bit (ats1cpr (mmu s) va) 0 \<and>
     pa = (ats1cpr (mmu s) va AND push_bit 12 0xFFFFF) OR (va AND 0xFFF)"

lemma wlp_have_spinlock: "wlp have_spinlock (\<lambda>_ t. t = s) s"
  by (simp add: have_spinlock_def thread_foreign_intr_disabled_def thread_get_exceptions_def wp_simps)

lemma wlp_assert_have_no_spinlock: "wlp assert_have_no_spinlock (\<lambda>_ t. t = s) s"
  unfolding assert_have_no_spinlock_def wlp_bindM wlp_gets wlp_whenM
  by (auto simp: wp_simps intro: wlp_mono [OF wlp_have_spinlock])

lemma wlp_thread_set_exceptions:
  "wlp (thread_set_exceptions e) (\<lambda>_ t. \<exists>c. t = s\<lparr>mach := mach s\<lparr>cpsr := c\<rparr>\<rparr>) s"
  unfolding thread_set_exceptions_def wlp_bindM wlp_gets wlp_thenM wlp_whenM
  by (auto simp: wp_simps intro!: wlp_mono [OF wlp_assert_have_no_spinlock])

definition same_but_cpsr :: "kernel \<Rightarrow> kernel \<Rightarrow> bool" where
  "same_but_cpsr s t \<longleftrightarrow> (\<exists>c. t = s\<lparr>mach := mach s\<lparr>cpsr := c\<rparr>\<rparr>)"

lemma same_but_cpsr_sel:
  "same_but_cpsr s t \<Longrightarrow> mmu t = mmu s \<and> debug (mach t) = debug (mach s) \<and> mmu_translates t = mmu_translates s"
  by (auto simp: same_but_cpsr_def mmu_translates_def fun_eq_iff)

lemma same_but_cpsr_trans: "same_but_cpsr s t \<Longrightarrow> same_but_cpsr t u \<Longrightarrow> same_but_cpsr s u"
  by (auto simp: same_but_cpsr_def)

lemma same_but_cpsr_refl: "same_but_cpsr s s"
  unfolding same_but_cpsr_def by (rule exI [of _ "cpsr (mach s)"]) simp

lemma wlp_arm_va2pa_helper:
  "wlp (arm_va2pa_helper va) (\<lambda>r t. same_but_cpsr s t \<and> (\<forall>pa. r = Some pa \<longrightarrow> mmu_translates s va pa)) s"
proof -
  have set: "wlp (thread_set_exceptions e) (\<lambda>_. same_but_cpsr s) u" if "same_but_cpsr s u" for e u
    by (rule wlp_mono [OF wlp_thread_set_exceptions])
      (use that in \<open>auto simp: same_but_cpsr_def\<close>)
  have mask: "wlp (thread_mask_exceptions e) (\<lambda>_. same_but_cpsr s) s" for e
    unfolding thread_mask_exceptions_def thread_get_exceptions_def wlp_bindM wlp_gets wlp_thenM
    by (rule wlp_mono [OF set]) (simp_all add: same_but_cpsr_refl wp_simps)
  show ?thesis
    unfolding arm_va2pa_helper_def thread_unmask_exceptions_def
    apply (rule wlp_bind_rule [OF mask])
    apply (simp only: wlp_bindM wlp_gets Let_def wlp_thenM)
    apply (rule wlp_mono [OF set], assumption)
    apply (auto simp: wp_simps mmu_translates_def and_one_eq odd_iff_mod_2_eq_one [symmetric] bit_0 dest: same_but_cpsr_sel split: if_splits)
    done
qed

lemma wlp_virt_to_phys:
  "wlp (virt_to_phys va) (\<lambda>pa t. same_but_cpsr s t \<and> (pa \<noteq> 0 \<longrightarrow> mmu_translates s va pa)) s"
  unfolding virt_to_phys_def
  apply (rule wlp_bind_rule [OF wlp_arm_va2pa_helper])
  apply (simp only: wlp_thenM Let_def)
  apply (rule wlp_mono [OF wlp_check_pa_matches_va])
  apply (auto simp: wp_simps split: option.splits)
  done

lemma wlp_check_va_matches_pa:
  "wlp (check_va_matches_pa pa va) (\<lambda>_ t. same_but_cpsr s t \<and>
     (debug (mach s) \<longrightarrow> va \<noteq> 0 \<longrightarrow> pa \<noteq> 0 \<longrightarrow> mmu_translates s va pa)) s"
  unfolding check_va_matches_pa_def wlp_bindM wlp_gets wlp_whenM
  by (auto simp: wp_simps same_but_cpsr_refl intro: wlp_mono [OF wlp_virt_to_phys])

lemma find_map_unique:
  "find_map p ms = Some m \<Longrightarrow> q m \<Longrightarrow> \<forall>m' \<in> set ms. q m' \<longrightarrow> m' = m \<Longrightarrow> find_map q ms = Some m"
proof (induction ms)
  case (Cons x xs)
  show ?case
  proof (cases "q x")
    case True
    then have "x = m" using Cons.prems by simp
    then show ?thesis using True find_map_SomeD [OF Cons.prems(1)] by simp
  next
    case False
    then have "find_map p xs = Some m" "mtype x \<noteq> MEM_AREA_NOTYPE"
      using Cons.prems by (auto split: if_splits)
    then show ?thesis using Cons False by simp
  qed
qed simp

text \<open>An entry that is not empty and runs past the end of neither address space.\<close>

definition map_entry_ok :: "tee_mmap_region \<Rightarrow> bool" where
  "map_entry_ok m \<longleftrightarrow> 0 < unat (msize m) \<and> unat (mpa m) + unat (msize m) \<le> 2 ^ 32
     \<and> unat (mva m) + unat (msize m) \<le> 2 ^ 32"

definition va_disjoint :: "tee_mmap_region list \<Rightarrow> bool" where
  "va_disjoint ms \<longleftrightarrow> (\<forall>m \<in> set ms. \<forall>m' \<in> set ms. m \<noteq> m' \<longrightarrow>
     span (mva m) (msize m) \<inter> span (mva m') (msize m') = {})"

lemma unat_last': "0 < unat bl \<Longrightarrow> unat b + unat bl \<le> 2 ^ 32 \<Longrightarrow> unat (b + bl - 1 :: u32) = unat b + unat bl - 1"
  using unat_last [of bl b] by (simp add: algebra_simps)

lemma pa_in_map_iff: "map_entry_ok m \<Longrightarrow> pa_is_in_map (Some m) pa \<longleftrightarrow> unat pa \<in> span (mpa m) (msize m)"
  by (auto simp: pa_is_in_map_def map_entry_ok_def span_def word_le_nat_alt unat_last')

lemma va_in_map_iff: "map_entry_ok m \<Longrightarrow> va_is_in_map (Some m) va \<longleftrightarrow> unat va \<in> span (mva m) (msize m)"
  by (auto simp: va_is_in_map_def map_entry_ok_def span_def word_le_nat_alt unat_last')

lemma va_find_iff: "map_entry_ok m \<Longrightarrow> (va \<ge> mva m \<and> va \<le> mva m - 1 + msize m) \<longleftrightarrow> unat va \<in> span (mva m) (msize m)"
  by (auto simp: map_entry_ok_def span_def word_le_nat_alt unat_last)

lemma map_pa2va_in:
  assumes "map_entry_ok m" "unat pa \<in> span (mpa m) (msize m)"
  shows "unat (map_pa2va (Some m) pa) = unat (mva m) + (unat pa - unat (mpa m))"
proof -
  have v: "map_pa2va (Some m) pa = mva m + (pa - mpa m)"
    using assms by (simp add: map_pa2va_def pa_in_map_iff)
  have p: "unat (pa - mpa m) = unat pa - unat (mpa m)"
    using assms by (auto simp: span_def unat_sub32)
  show ?thesis unfolding v unat_add32 p
    using assms unfolding map_entry_ok_def span_def by (auto split: if_splits)
qed

text \<open>Address translation round trip: when the entries of the static map are non-empty,
  fit the address spaces and do not overlap in virtual addresses, translating a mapped physical
  address to its virtual address and back through the whole map gives the physical address.\<close>

lemma pa_va_roundtrip:
  assumes "\<forall>m \<in> set ms. map_entry_ok m" "va_disjoint ms"
    and "find_map_by_type_and_pa ty pa ms = Some m" "mpa m \<noteq> 0"
  shows "core_va2pa_helper (map_pa2va (find_map_by_type_and_pa ty pa ms) pa) ms = Some pa"
proof -
  define va where "va = map_pa2va (Some m) pa"
  note f = find_by_type_and_paD [OF assms(3)]
  have ok: "map_entry_ok m" using f assms(1) by blast
  have pin: "unat pa \<in> span (mpa m) (msize m)" using f pa_in_map_iff [OF ok] by blast
  have "unat va = unat (mva m) + (unat pa - unat (mpa m))"
    unfolding va_def by (rule map_pa2va_in [OF ok pin])
  then have vin: "unat va \<in> span (mva m) (msize m)" using pin by (auto simp: span_def)
  have uniq: "m' = m" if "m' \<in> set ms" "unat va \<in> span (mva m') (msize m')" for m'
    using assms(2) that vin f unfolding va_disjoint_def by blast
  have "find_map_by_va va ms = Some m"
    unfolding find_map_by_va_def
  proof (rule find_map_unique)
    show "find_map (\<lambda>m. if mtype m \<noteq> ty then False else pa_is_in_map (Some m) pa) ms = Some m"
      using assms(3) by (simp add: find_map_by_type_and_pa_def)
    show "va \<ge> mva m \<and> va \<le> mva m - 1 + msize m" using vin va_find_iff [OF ok] by blast
    show "\<forall>m' \<in> set ms. va \<ge> mva m' \<and> va \<le> mva m' - 1 + msize m' \<longrightarrow> m' = m"
      using assms(1) va_find_iff uniq by blast
  qed
  moreover have "va_is_in_map (Some m) va" using vin va_in_map_iff [OF ok] by blast
  moreover have "mpa m + va - mva m = pa"
    using pin va_in_map_iff [OF ok] by (simp add: va_def map_pa2va_def pa_in_map_iff [OF ok])
  ultimately show ?thesis
    using assms(4) by (simp add: core_va2pa_helper_def assms(3) va_def [symmetric])
qed

text \<open>Two entries of the i.MX6 map: an IO area and the secure RAM.\<close>

definition example_map :: "tee_mmap_region list" where
  "example_map =
    [\<lparr>mtype = MEM_AREA_TEE_RAM, region_size = 0x100000, mpa = 0x4C000000, mva = 0x4C000000,
        msize = 0x100000, mattr = 0\<rparr>,
     \<lparr>mtype = MEM_AREA_IO_SEC, region_size = 0x100000, mpa = 0x02100000, mva = 0x4C200000,
        msize = 0x100000, mattr = 0\<rparr>]"

lemma pa_va_roundtrip_witness:
  "core_va2pa_helper (map_pa2va (find_map_by_type_and_pa MEM_AREA_IO_SEC 0x021C0028 example_map) 0x021C0028)
     example_map = Some 0x021C0028"
  by (rule pa_va_roundtrip [where m = "example_map ! 1"])
    (auto simp: example_map_def map_entry_ok_def va_disjoint_def span_def
      find_map_by_type_and_pa_def pa_is_in_map_def)

text \<open>C30: In a debug build, a virtual address that \<open>phys_to_virt\<close> returns is one the MMU really
  translates to the physical address asked for, and it comes from an entry of the static map
  that contains the address; a mismatch panics instead.\<close>

theorem phys_to_virt_sound:
  assumes "phys_to_virt pa ty s = Inr (va, t)" "debug (mach s)" "va \<noteq> 0" "pa \<noteq> 0"
  shows "mmu_translates s va pa \<and>
    (\<exists>m \<in> set (static_memory_map (mmu s)). pa_is_in_map (Some m) pa \<and> va = mva m + pa - mpa m)"
proof -
  have src: "\<exists>m \<in> set ms. pa_is_in_map (Some m) pa \<and> x = mva m + pa - mpa m"
    if "x \<noteq> 0" "x = map_pa2va (find_map_by_type_and_pa ty' pa ms) pa" for x ty' ms
  proof (cases "find_map_by_type_and_pa ty' pa ms")
    case None
    then show ?thesis using that by (simp add: map_pa2va_def pa_is_in_map_def)
  next
    case (Some m)
    then have "m \<in> set ms" "pa_is_in_map (Some m) pa" using find_by_type_and_paD by blast+
    then show ?thesis using that(2) Some by (auto simp: map_pa2va_def)
  qed
  have ram: "\<exists>ty'. phys_to_virt_tee_ram pa ms = map_pa2va (find_map_by_type_and_pa ty' pa ms) pa" for ms
    unfolding phys_to_virt_tee_ram_def Let_def by auto
  have "wlp (phys_to_virt pa ty) (\<lambda>va t. va \<noteq> 0 \<longrightarrow> mmu_translates s va pa \<and>
    (\<exists>m \<in> set (static_memory_map (mmu s)). pa_is_in_map (Some m) pa \<and> va = mva m + pa - mpa m)) s"
    unfolding phys_to_virt_def wlp_bindM wlp_gets Let_def wlp_thenM
    apply (rule wlp_mono [OF wlp_check_va_matches_pa])
    using assms(2,4) ram [of "static_memory_map (mmu s)"] src
    by (auto simp: wp_simps split: teecore_memtypes.splits)
  from wlpD [OF this assms(1)] assms(3) show ?thesis by blast
qed

definition example_kernel :: kernel where
  "example_kernel = blank\<lparr>mmu := (mmu blank)\<lparr>static_memory_map := example_map,
     ats1cpr := (\<lambda>va. if va = 0x4C2C0028 then 0x021C0000 else 1)\<rparr>\<rparr>"

lemma phys_to_virt_example:
  "wp (phys_to_virt 0x021C0028 MEM_AREA_IO_SEC) (\<lambda>va _. va = 0x4C2C0028) example_kernel"
  by code_simp

lemma phys_to_virt_sound_witness:
  "mmu_translates example_kernel 0x4C2C0028 0x021C0028 \<and>
    (\<exists>m \<in> set (static_memory_map (mmu example_kernel)). pa_is_in_map (Some m) 0x021C0028
       \<and> 0x4C2C0028 = mva m + 0x021C0028 - mpa m)"
proof -
  from phys_to_virt_example obtain t where
    "phys_to_virt 0x021C0028 MEM_AREA_IO_SEC example_kernel = Inr (0x4C2C0028, t)"
    by (auto simp: wp_iff)
  then show ?thesis
    by (rule phys_to_virt_sound) (simp_all add: example_kernel_def blank_def)
qed

section \<open>Lemmas: building the map\<close>

lemma type_code_inj: "type_code a = type_code b \<longleftrightarrow> a = b"
  by (cases a; cases b) simp_all

text \<open>The order of the table, and that an area is part of one entry of its type.\<close>

definition entry_le :: "tee_mmap_region \<Rightarrow> tee_mmap_region \<Rightarrow> bool" where
  "entry_le a b \<longleftrightarrow> type_code (mtype a) < type_code (mtype b) \<or> (mtype a = mtype b \<and> mpa a \<le> mpa b)"

definition covers :: "tee_mmap_region list \<Rightarrow> teecore_memtypes \<Rightarrow> nat set \<Rightarrow> bool" where
  "covers ms ty A \<longleftrightarrow> (\<exists>m \<in> set ms. mtype m = ty \<and> A \<subseteq> span (mpa m) (msize m))"

text \<open>All memory and devices of the i.MX6 lie in the lower half of the address space.\<close>

definition low_area :: "u32 \<Rightarrow> u32 \<Rightarrow> bool" where
  "low_area a sz \<longleftrightarrow> 0 < unat sz \<and> unat a + unat sz < 2 ^ 31"

lemma entry_le_trans: "entry_le a b \<Longrightarrow> entry_le b c \<Longrightarrow> entry_le a c"
  by (auto simp: entry_le_def)

lemma low_last: "low_area a sz \<Longrightarrow> unat (a + (sz - 1)) = unat a + unat sz - 1"
  by (auto simp: low_area_def word32_nat split: if_splits)

lemma overlaps_iff:
  assumes "low_area (mpa m) (msize m)" "low_area (pm_addr mem) (pm_size mem)"
  shows "overlaps mem m \<longleftrightarrow> pm_type mem = mtype m
    \<and> span (pm_addr mem) (pm_size mem) \<inter> span (mpa m) (msize m) \<noteq> {}"
proof -
  have p: "0 < unat (msize m)" "0 < unat (pm_size mem)" using assms by (auto simp: low_area_def)
  have "{a..<a + k} \<inter> {b..<b + l} \<noteq> {} \<longleftrightarrow> (b \<le> a \<and> a \<le> b + l - 1) \<or> (a \<le> b \<and> b \<le> a + k - 1)"
    if "0 < k" "0 < l" for a b k l :: nat
  proof -
    have "(b \<le> a \<and> a \<le> b + l - 1) \<or> (a \<le> b \<and> b \<le> a + k - 1) \<Longrightarrow> max a b \<in> {a..<a + k} \<inter> {b..<b + l}"
      using that by auto
    then show ?thesis using that by fastforce
  qed
  from this [OF p(2,1)] show ?thesis
    unfolding overlaps_def word_le_nat_alt low_last [OF assms(1)] low_last [OF assms(2)] span_def
    by blast
qed

lemma span_coalesce:
  assumes "low_area (mpa m) (msize m)" "low_area (pm_addr mem) (pm_size mem)" "overlaps mem m"
  shows "span (mpa (coalesce mem m)) (msize (coalesce mem m)) =
    {min (unat (mpa m)) (unat (pm_addr mem)) ..< unat (mpa m) + max (unat (msize m)) (unat (pm_size mem))}"
proof -
  let ?pa = "min (mpa m) (pm_addr mem)"
  have pa: "unat ?pa = min (unat (mpa m)) (unat (pm_addr mem))"
    by (simp add: min_def word_le_nat_alt)
  have d: "unat (mpa m - ?pa) = unat (mpa m) - unat ?pa"
    by (simp add: pa unat_sub32)
  have mx: "unat (max (msize m) (pm_size mem)) = max (unat (msize m)) (unat (pm_size mem))"
    by (simp add: max_def word_le_nat_alt)
  have "unat (max (msize m) (pm_size mem) + (mpa m - ?pa)) =
      max (unat (msize m)) (unat (pm_size mem)) + (unat (mpa m) - unat ?pa)"
    using assms(1,2) unfolding unat_add32 d mx low_area_def by auto
  then show ?thesis
    unfolding span_def by (simp add: coalesce_def Let_def pa) (simp add: min_def ac_simps)
qed

lemma coalesce_sel [simp]:
  "mtype (coalesce mem m) = mtype m" "mpa (coalesce mem m) = min (mpa m) (pm_addr mem)"
  by (simp_all add: coalesce_def Let_def)

lemma new_entry_sel [simp]:
  "mtype (new_entry mem) = pm_type mem" "mpa (new_entry mem) = pm_addr mem"
  "msize (new_entry mem) = pm_size mem"
  by (simp_all add: new_entry_def)

lemma map_sum_Inr_iff: "map_sum id f x = Inr y \<longleftrightarrow> (\<exists>z. x = Inr z \<and> y = f z)"
  by (cases x) auto

lemma add_at_total:
  "n + length ms < num - 1 \<Longrightarrow> lst < num \<Longrightarrow> \<exists>ms'. add_phys_mem_at num lst n mem ms = Inr ms'"
proof (induction ms arbitrary: n)
  case (Cons m ms)
  from Cons.IH [of "Suc n"] Cons.prems show ?case by (auto simp: map_sum_Inr_iff)
qed simp

text \<open>Where an insertion ends: at the end, on an overlapping entry, or before a larger one.\<close>

lemma add_at_shape:
  assumes "add_phys_mem_at num lst n mem ms = Inr ms'"
  shows "\<exists>xs ys. ms = xs @ ys
    \<and> (\<forall>x \<in> set xs. \<not> overlaps mem x \<and> entry_le x (new_entry mem))
    \<and> ((ms' = xs @ new_entry mem # ys \<and> (ys \<noteq> [] \<longrightarrow> entry_le (new_entry mem) (hd ys)
          \<and> \<not> overlaps mem (hd ys)))
       \<or> (\<exists>y zs. ys = y # zs \<and> overlaps mem y \<and> ms' = xs @ coalesce mem y # zs))"
  using assms
proof (induction ms arbitrary: n ms')
  case Nil
  then show ?case by (intro exI [of _ "[]"]) (auto split: if_splits)
next
  case (Cons m ms)
  consider "overlaps mem m" "ms' = coalesce mem m # ms"
    | "\<not> overlaps mem m" "entry_le (new_entry mem) m" "ms' = new_entry mem # m # ms"
    | zs where "\<not> overlaps mem m" "entry_le m (new_entry mem)" "ms' = m # zs"
        "add_phys_mem_at num lst (Suc n) mem ms = Inr zs"
    using Cons.prems type_code_inj [of "pm_type mem" "mtype m"]
    by (fastforce simp: entry_le_def not_less le_less map_sum_Inr_iff split: if_splits)
  then show ?case
  proof cases
    case 1
    then show ?thesis by (intro exI [of _ "[]"] exI [of _ "m # ms"]) simp
  next
    case 2
    then show ?thesis by (intro exI [of _ "[]"] exI [of _ "m # ms"]) simp
  next
    case 3
    from Cons.IH [OF 3(4)] obtain xs ys where *: "ms = xs @ ys"
      "\<forall>x \<in> set xs. \<not> overlaps mem x \<and> entry_le x (new_entry mem)"
      "(zs = xs @ new_entry mem # ys \<and> (ys \<noteq> [] \<longrightarrow> entry_le (new_entry mem) (hd ys) \<and> \<not> overlaps mem (hd ys)))
       \<or> (\<exists>y ws. ys = y # ws \<and> overlaps mem y \<and> zs = xs @ coalesce mem y # ws)" by blast
    then show ?thesis using 3 by (intro exI [of _ "m # xs"] exI [of _ ys]) auto
  qed
qed


lemma sorted_entry_snoc:
  "sorted_wrt entry_le (xs @ ys) \<Longrightarrow> \<forall>x \<in> set xs. entry_le x e \<Longrightarrow> (ys \<noteq> [] \<longrightarrow> entry_le e (hd ys))
     \<Longrightarrow> sorted_wrt entry_le (xs @ e # ys)"
  by (cases ys) (auto simp: sorted_wrt_append intro: entry_le_trans)

lemma sorted_entry_shrink:
  assumes "sorted_wrt entry_le (xs @ y # zs)" "\<forall>x \<in> set xs. entry_le x (new_entry mem)"
    "pm_type mem = mtype y"
  shows "sorted_wrt entry_le (xs @ coalesce mem y # zs)"
proof -
  have "entry_le (coalesce mem y) y" by (simp add: entry_le_def)
  moreover have "entry_le x (coalesce mem y)" if "x \<in> set xs" for x
    using that assms by (auto simp: entry_le_def sorted_wrt_append min_def)
  ultimately show ?thesis
    using assms(1) by (auto simp: sorted_wrt_append intro: entry_le_trans)
qed

lemma covers_member: "m \<in> set ms \<Longrightarrow> mtype m = ty \<Longrightarrow> A \<subseteq> span (mpa m) (msize m) \<Longrightarrow> covers ms ty A"
  by (auto simp: covers_def)


definition example_mem :: core_mmu_phys_mem where
  "example_mem = \<lparr>pm_type = MEM_AREA_IO_SEC, pm_addr = 0x02000000, pm_size = 0x200000\<rparr>"


text \<open>The coalescing loses memory: an area that starts inside an entry of its type and ends
  behind it is merged into an entry that ends too early, because the merged size is the larger of
  the two sizes and not the size of the union.\<close>

lemma add_phys_mem_loses_memory:
  "\<exists>ms mem ms' a. add_phys_mem 14 mem ms = Inr ms' \<and> length ms = 1
     \<and> a \<in> span (pm_addr mem) (pm_size mem)
     \<and> a \<notin> (\<Union>m \<in> set ms'. span (mpa m) (msize m))"
proof (intro exI conjI)
  let ?m = "new_entry \<lparr>pm_type = MEM_AREA_IO_SEC, pm_addr = 0x02000000, pm_size = 0x200000\<rparr>"
  let ?mem = "\<lparr>pm_type = MEM_AREA_IO_SEC, pm_addr = 0x02100000, pm_size = 0x200000\<rparr>"
  show "add_phys_mem 14 ?mem [?m] = Inr [?m]" by code_simp
  show "(0x02200000 :: nat) \<in> span (pm_addr ?mem) (pm_size ?mem)" by (simp add: span_def)
  show "(0x02200000 :: nat) \<notin> (\<Union>m \<in> set [?m]. span (mpa m) (msize m))" by (simp add: span_def)
qed simp

text \<open>The bound is tested on the index only: a full table takes one more entry in the middle.\<close>

lemma add_phys_mem_overfull:
  "\<exists>ms mem ms'. length ms = 13 \<and> add_phys_mem 14 mem ms = Inr ms' \<and> length ms' = 14"
proof (intro exI conjI)
  let ?m = "new_entry \<lparr>pm_type = MEM_AREA_IO_SEC, pm_addr = 0x02000000, pm_size = 0x100000\<rparr>"
  let ?mem = "\<lparr>pm_type = MEM_AREA_TA_RAM, pm_addr = 0x4C100000, pm_size = 0x100000\<rparr>"
  show "add_phys_mem 14 ?mem (replicate 13 ?m) = Inr (new_entry ?mem # replicate 13 ?m)" by code_simp
qed simp_all

end
