(* ===== verification/Csu.thy ===== *)
theory Csu
  imports Core_Mmu
begin

text \<open>
  core/drivers/imx\_csu.c: the Central Security Unit. Every peripheral slot (CSL) has a reference
  count and one byte of a register; the byte denies the normal world when the slot is held by at
  least one protected device. The interface other components use is a locale of reference-counted
  guards, interpreted on the driver below.
\<close>

abbreviation (input) MAX_CSL :: int where "MAX_CSL \<equiv> 80"
abbreviation (input) MAX_SA :: int where "MAX_SA \<equiv> 16"

section \<open>The driver\<close>

definition upd_csl_count :: "int \<Rightarrow> (int \<Rightarrow> int) \<Rightarrow> unit km" where
  "upd_csl_count csl f = modifyM (\<lambda>s. s\<lparr>csuv := (csuv s)\<lparr>csu_csl_counts :=
     (csu_csl_counts (csuv s))[nat csl := f (csu_csl_counts (csuv s) ! nat csl)]\<rparr>\<rparr>)"

definition csl_count :: "int \<Rightarrow> int km" where
  "csl_count csl = bindM (gets (\<lambda>s. csu_csl_counts (csuv s))) (\<lambda>cs.
     if csl < 0 then throw Out_of_bounds else index_at cs (nat csl))"

definition csl_mask :: "int \<Rightarrow> u32" where
  "csl_mask csl = (if csl mod 2 = 0 then 0x000000FF else 0x00FF0000)"

definition csu_set_csl :: "int \<Rightarrow> bool \<Rightarrow> unit km" where
  "csu_set_csl csl protect =
     thenM (cassert (csl \<ge> 0 \<and> csl < MAX_CSL)) (
     bindM (csl_count csl) (\<lambda>n.
     thenM (if protect then upd_csl_count csl (\<lambda>n. n + 1)
            else thenM (upd_csl_count csl (\<lambda>n. n - 1)) (cassert (n - 1 \<ge> 0))) (
     whenM (n = (if protect then 0 else 1)) (
       bindM (gets (\<lambda>s. csu_base (csuv s) + 4 * of_int (csl div 2))) (\<lambda>csl_addr.
       bindM (read32 csl_addr) (\<lambda>val.
       let value_new = (val AND NOT (csl_mask csl))
             OR ((if protect then 0x33333333 else 0xFFFFFFFF) AND csl_mask csl) in
       write32 value_new csl_addr))))))"

definition csu_is_csl_protected :: "int \<Rightarrow> bool km" where
  "csu_is_csl_protected csl =
     thenM (cassert (csl \<ge> 0 \<and> csl < MAX_CSL)) (
     bindM (csl_count csl) (\<lambda>n. ret (n > 0)))"

definition sa_mask :: "int \<Rightarrow> u32" where
  "sa_mask master = push_bit (2 * nat master) 3"

definition csu_set_sa :: "int \<Rightarrow> bool \<Rightarrow> unit km" where
  "csu_set_sa master secure =
     thenM (cassert (master \<ge> 0 \<and> master < MAX_SA)) (
     bindM (gets (\<lambda>s. csu_base (csuv s) + 0x218)) (\<lambda>sa_addr.
     bindM (read32 sa_addr) (\<lambda>val.
     let value_new = (val AND NOT (sa_mask master))
           OR ((if secure then 0 else 0x55555555) AND sa_mask master) in
     write32 value_new sa_addr)))"

definition csu_init :: "paddr \<Rightarrow> unit km" where
  "csu_init base =
     bindM (phys_to_virt base MEM_AREA_IO_SEC) (\<lambda>va.
     thenM (modifyM (\<lambda>s. s\<lparr>csuv := (csuv s)\<lparr>csu_base := va\<rparr>\<rparr>)) (
     thenM (whenM (va = 0) panic) (
     thenM (forM (map int [0..<80]) (\<lambda>c.
       thenM (upd_csl_count c (\<lambda>_. 1)) (csu_set_csl c False))) (
     forM (map int [1..<16]) (\<lambda>m.
       if m = 6 \<or> m = 15 then ret () else csu_set_sa m False)))))"

section \<open>Register lanes\<close>

text \<open>The byte of slot \<open>c\<close>: bits 0-7 of its register for an even slot, bits 16-23 for an odd one.\<close>

definition csl_addr :: "u32 \<Rightarrow> int \<Rightarrow> u32" where
  "csl_addr base c = base + 4 * of_int (c div 2)"

definition lane :: "int \<Rightarrow> u32 \<Rightarrow> u32" where
  "lane c w = drop_bit (if c mod 2 = 0 then 0 else 16) w AND 0xFF"

definition csl_lane :: "kernel \<Rightarrow> int \<Rightarrow> u32" where
  "csl_lane s c = lane c (io (mach s) (csl_addr (csu_base (csuv s)) c))"

lemma csl_masks: "(0xFF :: u32) = mask 8" "(0x00FF0000 :: u32) = push_bit 16 (mask 8)"
  by code_simp+

lemma bit_csl_mask: "bit (csl_mask c) i \<longleftrightarrow>
    (if c mod 2 = 0 then i < 8 else 16 \<le> i \<and> i < 24)"
  by (auto simp: csl_mask_def csl_masks bit_push_bit_iff bit_mask_iff)

lemma bit_lane: "bit (lane c w) i \<longleftrightarrow> i < 8 \<and> bit w (if c mod 2 = 0 then i else i + 16)"
  by (auto simp: lane_def csl_masks bit_and_iff bit_drop_bit_eq bit_mask_iff ac_simps)

lemma lane_write: "lane c ((w AND NOT (csl_mask c)) OR (v AND csl_mask c)) = lane c v"
  by (intro bit_word_eqI) (auto simp: bit_lane bit_or_iff bit_and_iff bit_not_iff bit_csl_mask)

lemma lane_write_other:
  "c mod 2 \<noteq> d mod 2 \<Longrightarrow> lane d ((w AND NOT (csl_mask c)) OR (v AND csl_mask c)) = lane d w"
  by (intro bit_word_eqI)
    (auto simp: bit_lane bit_or_iff bit_and_iff bit_not_iff bit_csl_mask mod_2_eq_odd split: if_splits)

lemma lane_consts: "lane c 0x33333333 = 0x33" "lane c 0xFFFFFFFF = 0xFF"
proof -
  have "drop_bit 16 (0x33333333 :: u32) AND 0xFF = 0x33" "(0x33333333 :: u32) AND 0xFF = 0x33"
       "drop_bit 16 (0xFFFFFFFF :: u32) AND 0xFF = 0xFF" "(0xFFFFFFFF :: u32) AND 0xFF = 0xFF"
    by code_simp+
  then show "lane c 0x33333333 = 0x33" "lane c 0xFFFFFFFF = 0xFF" by (auto simp: lane_def)
qed

lemma csl_addr_inj:
  assumes "0 \<le> c" "c < 80" "0 \<le> d" "d < 80"
  shows "csl_addr b c = csl_addr b d \<longleftrightarrow> c div 2 = d div 2"
proof -
  have e: "unat (4 * of_int (x div 2) :: u32) = nat (4 * (x div 2))" if "0 \<le> x" "x < 80" for x
  proof -
    have "(4 * of_int (x div 2) :: u32) = of_nat (nat (4 * (x div 2)))"
      using that by (simp add: of_nat_nat)
    moreover have "nat (4 * (x div 2)) < 2 ^ LENGTH(32)" using that by simp
    ultimately show ?thesis by (simp only: unat_of_nat_small)
  qed
  have "csl_addr b c = csl_addr b d \<longleftrightarrow> (4 * of_int (c div 2) :: u32) = 4 * of_int (d div 2)"
    by (simp add: csl_addr_def)
  also have "\<dots> \<longleftrightarrow> c div 2 = d div 2"
    unfolding word_unat_eq_iff e [OF assms(1,2)] e [OF assms(3,4)] using assms by auto
  finally show ?thesis .
qed

lemma csl_slot_eq: "c div 2 = d div 2 \<Longrightarrow> c mod 2 = d mod 2 \<Longrightarrow> c = (d :: int)"
  by (metis div_mult_mod_eq)


section \<open>Invariant and the effect of every operation\<close>

definition csu_regs :: "u32 \<Rightarrow> u32 set" where
  "csu_regs b = csl_addr b ` {0..<80}"

text \<open>The CSU registers read back what is stored in them.\<close>

definition csu_hw :: "kernel \<Rightarrow> bool" where
  "csu_hw s \<longleftrightarrow> (\<forall>a \<in> csu_regs (csu_base (csuv s)). plain_reg (hw (mach s)) a)"

definition csl_byte :: "int \<Rightarrow> u32" where
  "csl_byte n = (if n > 0 then 0x33 else 0xFF)"

definition csu_inv :: "kernel \<Rightarrow> bool" where
  "csu_inv s \<longleftrightarrow> csu_hw s \<and> length (csu_csl_counts (csuv s)) = 80 \<and>
     (\<forall>c. 0 \<le> c \<and> c < 80 \<longrightarrow> csu_csl_counts (csuv s) ! nat c \<ge> 0
        \<and> csl_lane s c = csl_byte (csu_csl_counts (csuv s) ! nat c))"

definition csu_upd :: "(u32 \<Rightarrow> u32) \<Rightarrow> int list \<Rightarrow> kernel \<Rightarrow> kernel" where
  "csu_upd m k s = io_upd m (s\<lparr>csuv := (csuv s)\<lparr>csu_csl_counts := k\<rparr>\<rparr>)"

text \<open>What a CSU operation leaves alone: all but the counts and the CSU registers.\<close>

definition csu_frame :: "kernel \<Rightarrow> kernel \<Rightarrow> bool" where
  "csu_frame s t \<longleftrightarrow> (\<exists>m k. t = csu_upd m k s \<and>
     (\<forall>a. a \<notin> csu_regs (csu_base (csuv s)) \<longrightarrow> m a = io (mach s) a))"

lemma csu_upd_sel [simp]:
  "io (mach (csu_upd m k s)) = m" "hw (mach (csu_upd m k s)) = hw (mach s)"
  "debug (mach (csu_upd m k s)) = debug (mach s)"
  "csu_csl_counts (csuv (csu_upd m k s)) = k" "csu_base (csuv (csu_upd m k s)) = csu_base (csuv s)"
  "csu_upd m' k' (csu_upd m k s) = csu_upd m' k' s"
  by (simp_all add: csu_upd_def io_upd_def)

lemma csu_upd_same: "csu_upd (io (mach s)) (csu_csl_counts (csuv s)) s = s"
  by (simp add: csu_upd_def io_upd_def)

lemma csu_frame_refl: "csu_frame s s"
  unfolding csu_frame_def by (metis csu_upd_same)

lemma csu_frame_trans: "csu_frame s t \<Longrightarrow> csu_frame t u \<Longrightarrow> csu_frame s u"
  unfolding csu_frame_def by (elim exE conjE) (rule exI, rule exI, auto)

text \<open>The state after \<open>csu_set_csl\<close>, register store included.\<close>

definition csl_new :: "int \<Rightarrow> bool \<Rightarrow> u32 \<Rightarrow> u32" where
  "csl_new c p w = (w AND NOT (csl_mask c)) OR ((if p then 0x33333333 else 0xFFFFFFFF) AND csl_mask c)"

lemma lane_csl_new:
  "lane d (csl_new c p w) = (if c mod 2 = d mod 2 then if p then 0x33 else 0xFF else lane d w)"
proof (cases "c mod 2 = d mod 2")
  case True
  have m: "csl_mask c = csl_mask d" by (simp add: csl_mask_def True)
  then show ?thesis unfolding csl_new_def m using True by (simp add: lane_write lane_consts)
next
  case False
  then show ?thesis by (simp add: csl_new_def lane_write_other)
qed

definition csl_next :: "int \<Rightarrow> bool \<Rightarrow> kernel \<Rightarrow> kernel" where
  "csl_next c p s =
     (let n = csu_csl_counts (csuv s) ! nat c; a = csl_addr (csu_base (csuv s)) c;
          m = io (mach s) in
      csu_upd (if n = (if p then 0 else 1) then m(a := csl_new c p (m a)) else m)
        ((csu_csl_counts (csuv s))[nat c := (if p then n + 1 else n - 1)]) s)"

lemma csu_set_csl_run:
  assumes "0 \<le> c" "c < 80" "length (csu_csl_counts (csuv s)) = 80"
    and "plain_reg (hw (mach s)) (csl_addr (csu_base (csuv s)) c)"
    and "p \<or> 1 \<le> csu_csl_counts (csuv s) ! nat c"
  shows "csu_set_csl c p s = Inr ((), csl_next c p s)"
proof -
  have n: "nat c < 80" using assms(1,2) by simp
  have "wp (csu_set_csl c p) (\<lambda>_ t. t = csl_next c p s) s"
  proof (cases p)
    case True
    then show ?thesis
      using assms plain_reg_store [OF assms(4)]
      by (simp add: csu_set_csl_def csl_count_def upd_csl_count_def wp_simps csl_next_def
          csu_upd_def io_upd_def csl_addr_def csl_new_def Let_def n)
  next
    case False
    then show ?thesis
      using assms plain_reg_store [OF assms(4)]
      by (simp add: csu_set_csl_def csl_count_def upd_csl_count_def wp_simps csl_next_def
          csu_upd_def io_upd_def csl_addr_def csl_new_def Let_def n)
  qed
  then show ?thesis by (auto simp: wp_iff)
qed

lemma csl_next_lane:
  assumes "0 \<le> c" "c < 80" "0 \<le> d" "d < 80"
  shows "csl_lane (csl_next c p s) d =
    (if d = c \<and> csu_csl_counts (csuv s) ! nat c = (if p then 0 else 1) then if p then 0x33 else 0xFF
     else csl_lane s d)"
proof -
  let ?m = "io (mach s)" and ?a = "csl_addr (csu_base (csuv s))"
  have ad: "?a d = ?a c \<longleftrightarrow> d div 2 = c div 2" by (rule csl_addr_inj [OF assms(3,4,1,2)])
  have "lane d ((?m(?a c := csl_new c p (?m (?a c)))) (?a d)) =
      (if d = c then if p then 0x33 else 0xFF else lane d (?m (?a d)))"
  proof (cases "d = c")
    case False
    then have "?a d \<noteq> ?a c \<or> c mod 2 \<noteq> d mod 2" using ad csl_slot_eq [of d c] by auto
    then show ?thesis using False by (auto simp: lane_csl_new)
  qed (simp add: lane_csl_new)
  then show ?thesis
    by (cases p; cases "d = c") (simp_all add: csl_lane_def csl_next_def Let_def del: fun_upd_apply)
qed

lemma csl_next_sel:
  "csu_csl_counts (csuv (csl_next c p s)) = (csu_csl_counts (csuv s))
      [nat c := (if p then csu_csl_counts (csuv s) ! nat c + 1 else csu_csl_counts (csuv s) ! nat c - 1)]"
  "csu_base (csuv (csl_next c p s)) = csu_base (csuv s)" "hw (mach (csl_next c p s)) = hw (mach s)"
  by (simp_all add: csl_next_def Let_def)

lemma csl_next_inv:
  assumes "csu_inv s" "0 \<le> c" "c < 80" "p \<or> 1 \<le> csu_csl_counts (csuv s) ! nat c"
  shows "csu_inv (csl_next c p s)"
proof -
  let ?n = "csu_csl_counts (csuv s)" and ?t = "csl_next c p s"
  have len: "length ?n = 80" and n: "\<And>d. 0 \<le> d \<Longrightarrow> d < 80 \<Longrightarrow> 0 \<le> ?n ! nat d \<and> csl_lane s d = csl_byte (?n ! nat d)"
    using assms(1) by (simp_all add: csu_inv_def)
  have "csu_hw ?t" using assms(1) by (simp add: csu_inv_def csu_hw_def csl_next_sel)
  moreover have "0 \<le> csu_csl_counts (csuv ?t) ! nat d \<and> csl_lane ?t d = csl_byte (csu_csl_counts (csuv ?t) ! nat d)"
    if "0 \<le> d" "d < 80" for d
  proof (cases "d = c")
    case True
    then show ?thesis
      using n [OF assms(2,3)] assms(2-4) len
      unfolding csl_next_lane [OF assms(2,3) that] by (auto simp: csl_next_sel csl_byte_def)
  next
    case False
    then have "nat d \<noteq> nat c" using that assms(2) by simp
    then show ?thesis
      using n [OF that] False unfolding csl_next_lane [OF assms(2,3) that] by (simp add: csl_next_sel)
  qed
  ultimately show ?thesis by (simp add: csu_inv_def csl_next_sel len)
qed

lemma csl_next_frame: "0 \<le> c \<Longrightarrow> c < 80 \<Longrightarrow> csu_frame s (csl_next c p s)"
  unfolding csu_frame_def csl_next_def Let_def
  by (rule exI, rule exI, rule conjI [OF refl]) (auto simp: csu_regs_def)

lemma csu_inv_plain: "csu_inv s \<Longrightarrow> 0 \<le> c \<Longrightarrow> c < 80 \<Longrightarrow> plain_reg (hw (mach s)) (csl_addr (csu_base (csuv s)) c)"
  by (auto simp: csu_inv_def csu_hw_def csu_regs_def)


section \<open>The interface: reference-counted guards\<close>

locale refcount_guard =
  fixes acquire release :: "int \<Rightarrow> ('s, unit) m"
    and held :: "'s \<Rightarrow> int \<Rightarrow> int"
    and guarded :: "'s \<Rightarrow> int \<Rightarrow> bool"
    and valid :: "int \<Rightarrow> bool"
    and inv :: "'s \<Rightarrow> bool"
    and frame :: "'s \<Rightarrow> 's \<Rightarrow> bool"
  assumes acquire: "inv s \<Longrightarrow> valid c \<Longrightarrow>
      wp (acquire c) (\<lambda>_ t. inv t \<and> frame s t \<and> held t = (held s)(c := held s c + 1)) s"
    and release: "inv s \<Longrightarrow> valid c \<Longrightarrow> 1 \<le> held s c \<Longrightarrow>
      wp (release c) (\<lambda>_ t. inv t \<and> frame s t \<and> held t = (held s)(c := held s c - 1)) s"
    and guarded_iff: "inv s \<Longrightarrow> valid c \<Longrightarrow> guarded s c \<longleftrightarrow> 1 \<le> held s c"
    and held_nonneg: "inv s \<Longrightarrow> 0 \<le> held s c"
    and frame_refl: "frame s s"
    and frame_trans: "frame s t \<Longrightarrow> frame t u \<Longrightarrow> frame s u"
begin

lemma acquire_all:
  assumes "inv s" "\<forall>c \<in> set cs. valid c"
  shows "wp (forM cs acquire) (\<lambda>_ t. inv t \<and> frame s t
     \<and> held t = (\<lambda>c. held s c + int (count_list cs c))) s"
  using assms
proof (induction cs arbitrary: s)
  case Nil
  then show ?case by (simp add: wp_simps frame_refl)
next
  case (Cons c cs)
  have "wp (acquire c) (\<lambda>_ t. inv t \<and> frame s t \<and> held t = (held s)(c := held s c + 1)) s"
    using Cons.prems by (intro acquire) simp_all
  then show ?case
    unfolding forM.simps
    by (rule wp_then_rule)
      (use Cons in \<open>auto intro: wp_mono [OF Cons.IH] frame_trans simp: fun_eq_iff\<close>)
qed

lemma release_all:
  assumes "inv s" "\<forall>c \<in> set cs. valid c" "\<forall>c. int (count_list cs c) \<le> held s c"
  shows "wp (forM cs release) (\<lambda>_ t. inv t \<and> frame s t
     \<and> held t = (\<lambda>c. held s c - int (count_list cs c))) s"
  using assms
proof (induction cs arbitrary: s)
  case Nil
  then show ?case by (simp add: wp_simps frame_refl)
next
  case (Cons c cs)
  have h: "1 \<le> held s c" using Cons.prems(3) [rule_format, of c] by simp
  have "wp (release c) (\<lambda>_ t. inv t \<and> frame s t \<and> held t = (held s)(c := held s c - 1)) s"
    using Cons.prems h by (intro release) simp_all
  moreover have "int (count_list cs d) \<le> ((held s)(c := held s c - 1)) d" for d
    using Cons.prems(3) [rule_format, of d] by (auto split: if_splits)
  ultimately show ?case
    unfolding forM.simps
    by (elim wp_then_rule, intro wp_mono [OF Cons.IH])
      (use Cons.prems frame_trans in \<open>auto simp: fun_eq_iff\<close>)
qed

lemma acquire_all_guards:
  assumes "inv s" "\<forall>c \<in> set cs. valid c"
  shows "wp (forM cs acquire) (\<lambda>_ t. inv t \<and> (\<forall>c \<in> set cs. guarded t c)
     \<and> (\<forall>c. valid c \<longrightarrow> guarded s c \<longrightarrow> guarded t c)) s"
proof (rule wp_mono [OF acquire_all [OF assms]])
  fix x t
  assume t: "inv t \<and> frame s t \<and> held t = (\<lambda>c. held s c + int (count_list cs c))"
  have "1 \<le> held t c" if "c \<in> set cs" for c
  proof -
    have "count_list cs c \<noteq> 0" using that by (simp add: count_list_0_iff)
    then show ?thesis using t held_nonneg [OF assms(1), of c] by simp
  qed
  moreover have "1 \<le> held t c" if "1 \<le> held s c" for c using that t by simp
  ultimately show "inv t \<and> (\<forall>c \<in> set cs. guarded t c) \<and> (\<forall>c. valid c \<longrightarrow> guarded s c \<longrightarrow> guarded t c)"
    using t assms guarded_iff by blast
qed

text \<open>A second holder that comes and goes leaves every count as it was.\<close>

lemma acquire_release_all:
  assumes "inv s" "\<forall>c \<in> set cs. valid c"
  shows "wp (thenM (forM cs acquire) (forM cs release)) (\<lambda>_ t. inv t \<and> frame s t \<and> held t = held s) s"
proof (rule wp_then_rule [OF acquire_all [OF assms]])
  fix t
  assume t: "inv t \<and> frame s t \<and> held t = (\<lambda>c. held s c + int (count_list cs c))"
  have "int (count_list cs c) \<le> held t c" for c using t held_nonneg [OF assms(1), of c] by simp
  then show "wp (forM cs release) (\<lambda>_ t. inv t \<and> frame s t \<and> held t = held s) t"
    by (intro wp_mono [OF release_all [of t cs]])
      (use t assms(2) frame_trans in \<open>auto simp: fun_eq_iff\<close>)
qed

end

definition csl_held :: "kernel \<Rightarrow> int \<Rightarrow> int" where
  "csl_held s c = (if 0 \<le> c \<and> c < 80 then csu_csl_counts (csuv s) ! nat c else 0)"

definition csl_denied :: "kernel \<Rightarrow> int \<Rightarrow> bool" where
  "csl_denied s c \<longleftrightarrow> csl_lane s c = 0x33"

definition csl_valid :: "int \<Rightarrow> bool" where
  "csl_valid c \<longleftrightarrow> 0 \<le> c \<and> c < 80"

lemma wp_csu_set_csl:
  assumes "csu_inv s" "csl_valid c" "p \<or> 1 \<le> csl_held s c"
  shows "wp (csu_set_csl c p) (\<lambda>_ t. csu_inv t \<and> csu_frame s t
     \<and> csl_held t = (csl_held s)(c := csl_held s c + (if p then 1 else - 1))) s"
proof -
  have cc: "0 \<le> c" "c < 80" using assms(2) by (simp_all add: csl_valid_def)
  have c: "nat d = nat c \<longleftrightarrow> d = c" if "0 \<le> d" for d using that cc by auto
  have h: "p \<or> 1 \<le> csu_csl_counts (csuv s) ! nat c" using assms(3) cc by (simp add: csl_held_def)
  have len: "length (csu_csl_counts (csuv s)) = 80" using assms(1) by (simp add: csu_inv_def)
  have held: "csl_held (csl_next c p s) = (csl_held s)(c := csl_held s c + (if p then 1 else - 1))"
  proof
    fix d
    show "csl_held (csl_next c p s) d = ((csl_held s)(c := csl_held s c + (if p then 1 else - 1))) d"
      using cc len c [of d]
      by (cases "d = c"; cases "0 \<le> d \<and> d < 80") (auto simp: csl_held_def csl_next_sel)
  qed
  show ?thesis
    unfolding wp_def csu_set_csl_run [OF cc len csu_inv_plain [OF assms(1) cc] h]
    by (simp add: held csl_next_inv [OF assms(1) cc h] csl_next_frame [OF cc])
qed

interpretation csu: refcount_guard "\<lambda>c. csu_set_csl c True" "\<lambda>c. csu_set_csl c False"
  csl_held csl_denied csl_valid csu_inv csu_frame
proof
  fix s c
  show "csu_inv s \<Longrightarrow> csl_valid c \<Longrightarrow> csl_denied s c \<longleftrightarrow> 1 \<le> csl_held s c"
    by (auto simp: csu_inv_def csl_valid_def csl_denied_def csl_held_def csl_byte_def)
  show "csu_inv s \<Longrightarrow> 0 \<le> csl_held s c"
    by (auto simp: csu_inv_def csl_held_def)
next
  fix s c
  assume "csu_inv s" "csl_valid c"
  then show "wp (csu_set_csl c True) (\<lambda>_ t. csu_inv t \<and> csu_frame s t
      \<and> csl_held t = (csl_held s)(c := csl_held s c + 1)) s"
    using wp_csu_set_csl [of s c True] by simp
  assume "csu_inv s" "csl_valid c" "1 \<le> csl_held s c"
  then show "wp (csu_set_csl c False) (\<lambda>_ t. csu_inv t \<and> csu_frame s t
      \<and> csl_held t = (csl_held s)(c := csl_held s c - 1)) s"
    using wp_csu_set_csl [of s c False] by simp
qed (auto intro: csu_frame_refl csu_frame_trans)


section \<open>Properties\<close>

text \<open>C24: \<open>csu_set_csl\<close> keeps the CSU invariant: on a valid slot (held, when it is being
  released) it returns without a fault; afterwards the register byte of every slot still denies
  the normal world exactly when the slot's count is positive, only the count of that slot changed,
  by one, and no other part of the kernel or of the device registers changed.\<close>

theorem csu_set_csl_correct:
  assumes "csu_inv s" "0 \<le> c" "c < MAX_CSL" "protect \<or> 1 \<le> csu_csl_counts (csuv s) ! nat c"
  shows "\<exists>t. csu_set_csl c protect s = Inr ((), t) \<and> csu_inv t \<and> csu_frame s t
    \<and> csu_csl_counts (csuv t) = (csu_csl_counts (csuv s))
        [nat c := csu_csl_counts (csuv s) ! nat c + (if protect then 1 else - 1)]"
proof -
  have len: "length (csu_csl_counts (csuv s)) = 80" using assms(1) by (simp add: csu_inv_def)
  show ?thesis
    unfolding csu_set_csl_run [OF assms(2,3) len csu_inv_plain [OF assms(1-3)] assms(4)]
    by (simp add: csl_next_inv [OF assms] csl_next_frame [OF assms(2,3)] csl_next_sel)
qed

text \<open>A state after \<open>csu_init\<close>: all registers all ones, all counts zero.\<close>

definition csu_ready :: kernel where
  "csu_ready = io_upd (\<lambda>_. 0xFFFFFFFF) (blank\<lparr>csuv := \<lparr>csu_base = 0x4C2C0000, csu_csl_counts = replicate 80 0\<rparr>\<rparr>)"

lemma csu_ready_inv: "csu_inv csu_ready"
  by (auto simp: csu_inv_def csu_ready_def csu_hw_def csl_lane_def lane_consts csl_byte_def blank_def)

lemma csu_set_csl_correct_witness:
  "\<exists>t. csu_set_csl 5 True csu_ready = Inr ((), t) \<and> csu_inv t \<and> csu_frame csu_ready t
    \<and> csu_csl_counts (csuv t) = (csu_csl_counts (csuv csu_ready))
        [nat 5 := csu_csl_counts (csuv csu_ready) ! nat 5 + (if True then 1 else - 1)]"
  by (rule csu_set_csl_correct) (simp_all add: csu_ready_inv)

text \<open>C25: Slots shared by two devices: after the slots of one device have been protected, a second
  device's slots can be protected and released again, in any overlap with the first device's, and
  every slot of the first device still denies the normal world.\<close>

theorem csu_shared_slots:
  assumes "csu_inv s" "\<forall>c \<in> set cs \<union> set ds. 0 \<le> c \<and> c < MAX_CSL"
  shows "\<exists>t. thenM (forM cs (\<lambda>c. csu_set_csl c True))
      (thenM (forM ds (\<lambda>c. csu_set_csl c True)) (forM ds (\<lambda>c. csu_set_csl c False))) s = Inr ((), t)
    \<and> (\<forall>c \<in> set cs. csl_lane t c = 0x33)"
proof -
  have v: "\<forall>c \<in> set cs. csl_valid c" "\<forall>c \<in> set ds. csl_valid c"
    using assms(2) by (auto simp: csl_valid_def)
  have "wp (thenM (forM cs (\<lambda>c. csu_set_csl c True))
      (thenM (forM ds (\<lambda>c. csu_set_csl c True)) (forM ds (\<lambda>c. csu_set_csl c False))))
      (\<lambda>_ t. \<forall>c \<in> set cs. csl_denied t c) s"
  proof (rule wp_then_rule [OF csu.acquire_all_guards [OF assms(1) v(1)]])
    fix t
    assume t: "csu_inv t \<and> (\<forall>c \<in> set cs. csl_denied t c) \<and> (\<forall>c. csl_valid c \<longrightarrow> csl_denied s c \<longrightarrow> csl_denied t c)"
    show "wp (thenM (forM ds (\<lambda>c. csu_set_csl c True)) (forM ds (\<lambda>c. csu_set_csl c False)))
        (\<lambda>_ t. \<forall>c \<in> set cs. csl_denied t c) t"
      by (rule wp_mono [OF csu.acquire_release_all [OF _ v(2)]])
        (use t v(1) csu.guarded_iff in auto)
  qed
  then show ?thesis by (auto simp: wp_iff csl_denied_def)
qed

lemma csu_shared_slots_witness:
  "\<exists>t. thenM (forM [3, 4] (\<lambda>c. csu_set_csl c True))
      (thenM (forM [4, 79] (\<lambda>c. csu_set_csl c True)) (forM [4, 79] (\<lambda>c. csu_set_csl c False))) csu_ready
        = Inr ((), t)
    \<and> (\<forall>c \<in> set [3, 4]. csl_lane t c = 0x33)"
  by (rule csu_shared_slots) (simp_all add: csu_ready_inv)

section \<open>Initialisation\<close>

text \<open>The two-bit field of DMA master \<open>m\<close> in the SA register.\<close>

definition sa_field :: "int \<Rightarrow> u32 \<Rightarrow> u32" where
  "sa_field m w = drop_bit (2 * nat m) w AND 3"

lemma three_mask: "(3 :: u32) = mask 2"
  by code_simp

lemma bit_sa_mask: "bit (sa_mask m) i \<longleftrightarrow> i < 32 \<and> 2 * nat m \<le> i \<and> i < 2 * nat m + 2"
  by (auto simp: sa_mask_def bit_push_bit_iff three_mask bit_mask_iff)

lemma bit_sa_field: "bit (sa_field m w) i \<longleftrightarrow> i < 2 \<and> bit w (2 * nat m + i)"
  by (auto simp: sa_field_def bit_and_iff bit_drop_bit_eq three_mask bit_mask_iff)

lemma sa_field_write: "sa_field m ((w AND NOT (sa_mask m)) OR (v AND sa_mask m)) = sa_field m v"
  by (intro bit_word_eqI)
    (auto simp: bit_sa_field bit_or_iff bit_and_iff bit_not_iff bit_sa_mask dest: bit_imp_le_length)

lemma sa_field_write_other:
  "nat m \<noteq> nat k \<Longrightarrow> sa_field k ((w AND NOT (sa_mask m)) OR (v AND sa_mask m)) = sa_field k w"
  by (intro bit_word_eqI)
    (auto simp: bit_sa_field bit_or_iff bit_and_iff bit_not_iff bit_sa_mask dest: bit_imp_le_length)

lemma sa_field_nonsecure: "0 \<le> m \<Longrightarrow> m < 16 \<Longrightarrow> sa_field m 0x55555555 = 1"
proof -
  have "\<forall>k \<in> set [0..<16]. drop_bit (2 * k) (0x55555555 :: u32) AND 3 = 1" by code_simp
  then show "0 \<le> m \<Longrightarrow> m < 16 \<Longrightarrow> sa_field m 0x55555555 = 1" by (simp add: sa_field_def)
qed

lemma wp_init_slot:
  assumes "length (csu_csl_counts (csuv s)) = 80" "csu_hw s" "0 \<le> c" "c < 80"
  shows "wp (thenM (upd_csl_count c (\<lambda>_. 1)) (csu_set_csl c False)) (\<lambda>_ t. csu_frame s t
    \<and> csu_csl_counts (csuv t) = (csu_csl_counts (csuv s))[nat c := 0]
    \<and> (\<forall>d. 0 \<le> d \<and> d < 80 \<longrightarrow> csl_lane t d = (if d = c then 0xFF else csl_lane s d))) s"
proof -
  let ?u = "csu_upd (io (mach s)) ((csu_csl_counts (csuv s))[nat c := 1]) s"
  have n: "nat c < 80" using assms by simp
  have p: "plain_reg (hw (mach ?u)) (csl_addr (csu_base (csuv ?u)) c)"
    using assms by (simp add: csu_hw_def csu_regs_def)
  have u: "upd_csl_count c (\<lambda>_. 1) s = Inr ((), ?u)"
    by (simp add: upd_csl_count_def modifyM_def csu_upd_def io_upd_def)
  have "csu_frame s ?u" unfolding csu_frame_def by (rule exI, rule exI, rule conjI [OF refl]) simp
  then have fr: "csu_frame s (csl_next c False ?u)"
    by (rule csu_frame_trans [OF _ csl_next_frame [OF assms(3,4)]])
  have len: "length (csu_csl_counts (csuv ?u)) = 80" using assms(1) by simp
  have ln: "csl_lane ?u d = csl_lane s d" for d by (simp add: csl_lane_def)
  have "csu_set_csl c False ?u = Inr ((), csl_next c False ?u)"
    by (rule csu_set_csl_run [OF assms(3,4) len p]) (simp add: n assms(1))
  then show ?thesis
    using fr n assms(1) by (simp add: wp_def thenM_def bindM_def u csl_next_sel csl_next_lane assms(3,4) ln)
qed

lemma csu_frame_sel:
  "csu_frame s t \<Longrightarrow> csu_base (csuv t) = csu_base (csuv s) \<and> hw (mach t) = hw (mach s)
    \<and> debug (mach t) = debug (mach s)
    \<and> (\<forall>a. a \<notin> csu_regs (csu_base (csuv s)) \<longrightarrow> io (mach t) a = io (mach s) a)"
  by (auto simp: csu_frame_def)

lemma wp_init_slots:
  assumes "length (csu_csl_counts (csuv s)) = 80" "csu_hw s"
  shows "wp (forM (map int [0..<80]) (\<lambda>c. thenM (upd_csl_count c (\<lambda>_. 1)) (csu_set_csl c False)))
    (\<lambda>_ t. csu_frame s t \<and> csu_inv t \<and> csu_csl_counts (csuv t) = replicate 80 0) s"
proof -
  let ?I = "\<lambda>ys t. csu_frame s t \<and> length (csu_csl_counts (csuv t)) = 80
    \<and> (\<forall>d \<in> set ys. csu_csl_counts (csuv t) ! nat d = 0 \<and> csl_lane t d = 0xFF)"
  have "wp (forM (map int [0..<80]) (\<lambda>c. thenM (upd_csl_count c (\<lambda>_. 1)) (csu_set_csl c False)))
    (\<lambda>_. ?I (map int [0..<80])) s"
  proof (rule wp_forM [where I = ?I])
    show "?I [] s" by (simp add: csu_frame_refl assms)
  next
    fix ys x zs t
    assume l: "map int [0..<80] = ys @ x # zs" and t: "?I ys t"
    have "set (map int [0..<80]) = set (ys @ x # zs)" by (simp only: l)
    then have rng: "{0..<80} = set ys \<union> {x} \<union> set zs"
      by (simp add: image_int_atLeastLessThan)
    then have x: "0 \<le> x" "x < 80" and ys: "\<forall>d \<in> set ys. 0 \<le> d \<and> d < 80" by auto
    have hwt: "csu_hw t" using assms(2) t csu_frame_sel [of s t] by (simp add: csu_hw_def)
    have nx: "nat d = nat x \<longleftrightarrow> d = x" if "d \<in> set ys" for d using that x ys by auto
    show "wp (thenM (upd_csl_count x (\<lambda>_. 1)) (csu_set_csl x False)) (\<lambda>_. ?I (ys @ [x])) t"
    proof (rule wp_mono [OF wp_init_slot [OF _ hwt x]])
      show "length (csu_csl_counts (csuv t)) = 80" using t by simp
      fix u
      assume u: "csu_frame t u \<and> csu_csl_counts (csuv u) = (csu_csl_counts (csuv t))[nat x := 0]
        \<and> (\<forall>d. 0 \<le> d \<and> d < 80 \<longrightarrow> csl_lane u d = (if d = x then 0xFF else csl_lane t d))"
      then have "csu_frame s u" using t csu_frame_trans by blast
      then show "?I (ys @ [x]) u"
        using u t x ys nx by (auto simp: nth_list_update)
    qed
  qed
  then show ?thesis
  proof (rule wp_mono, intro conjI)
    fix t
    assume t: "?I (map int [0..<80]) t"
    then show "csu_frame s t" by blast
    have z: "csu_csl_counts (csuv t) ! nat d = 0 \<and> csl_lane t d = 0xFF" if "0 \<le> d" "d < 80" for d
      using t that by (simp add: image_int_atLeastLessThan)
    show "csu_inv t"
      unfolding csu_inv_def using t z assms(2) csu_frame_sel [of s t]
      by (auto simp: csu_hw_def csl_byte_def)
    have "csu_csl_counts (csuv t) ! k = 0" if "k < 80" for k
      using z [of "int k"] that by simp
    then show "csu_csl_counts (csuv t) = replicate 80 0"
      using t by (intro nth_equalityI) auto
  qed
qed


lemma sa_addr_not_csl: "b + 0x218 \<notin> csu_regs b"
proof
  assume "b + 0x218 \<in> csu_regs b"
  then obtain c where c: "0 \<le> c" "c < 80" "(0x218 :: u32) = 4 * of_int (c div 2)"
    by (auto simp: csu_regs_def csl_addr_def)
  have "(4 * of_int (c div 2) :: u32) = of_nat (nat (4 * (c div 2)))" using c by (simp add: of_nat_nat)
  moreover have "nat (4 * (c div 2)) < 2 ^ LENGTH(32)" using c by simp
  ultimately have "unat (0x218 :: u32) = nat (4 * (c div 2))"
    unfolding c(3) by (simp only: unat_of_nat_small)
  then show False using c(1,2) by simp
qed

definition dma_masters :: "int set" where
  "dma_masters = {1..<16} - {6, 15}"

lemma wp_init_masters:
  assumes "csu_inv s" "plain_reg (hw (mach s)) (csu_base (csuv s) + 0x218)"
  shows "wp (forM (map int [1..<16]) (\<lambda>m. if m = 6 \<or> m = 15 then ret () else csu_set_sa m False))
    (\<lambda>_ t. csu_inv t \<and> csuv t = csuv s
       \<and> (\<forall>m \<in> dma_masters. sa_field m (io (mach t) (csu_base (csuv t) + 0x218)) = 1)) s"
proof -
  let ?a = "csu_base (csuv s) + 0x218"
  let ?I = "\<lambda>ys t. (\<exists>w. t = io_upd ((io (mach s))(?a := w)) s)
     \<and> (\<forall>m \<in> set ys \<inter> dma_masters. sa_field m (io (mach t) ?a) = 1)"
  have "wp (forM (map int [1..<16]) (\<lambda>m. if m = 6 \<or> m = 15 then ret () else csu_set_sa m False))
    (\<lambda>_. ?I (map int [1..<16])) s"
  proof (rule wp_forM [where I = ?I])
    show "?I [] s" by (auto intro!: exI [of _ "io (mach s) ?a"] simp: io_upd_def)
  next
    fix ys x zs t
    assume l: "map int [1..<16] = ys @ x # zs" and t: "?I ys t"
    have "set (map int [1..<16]) = set (ys @ x # zs)" by (simp only: l)
    then have rng: "{1..<16} = set ys \<union> {x} \<union> set zs"
      by (simp add: image_int_atLeastLessThan)
    then have x: "1 \<le> x" "x < 16" and ys: "\<forall>d \<in> set ys. 1 \<le> d" by auto
    have nx: "nat x = nat d \<longleftrightarrow> x = d" if "d \<in> set ys" for d using that x ys by auto
    from t obtain w where w: "t = io_upd ((io (mach s))(?a := w)) s" by blast
    have st: "sa_field m ((w AND NOT (sa_mask x)) OR (0x55555555 AND sa_mask x)) = 1"
      if "m = x \<or> m \<in> set ys \<inter> dma_masters" for m
      using that t nx x w
      by (cases "m = x") (auto simp: sa_field_write sa_field_write_other sa_field_nonsecure)
    have "wp (csu_set_sa x False) (\<lambda>_. ?I (ys @ [x])) t"
      using x st plain_reg_store [OF assms(2)]
      by (auto simp: w csu_set_sa_def wp_simps Let_def)
    moreover have "?I (ys @ [x]) t" if "x = 6 \<or> x = 15" using t that by (auto simp: dma_masters_def)
    ultimately show "wp (if x = 6 \<or> x = 15 then ret () else csu_set_sa x False) (\<lambda>_. ?I (ys @ [x])) t"
      by (simp add: wp_simps)
  qed
  then show ?thesis
  proof (rule wp_mono, elim conjE exE, intro conjI)
    fix t w
    assume w: "t = io_upd ((io (mach s))(?a := w)) s"
      and f: "\<forall>m \<in> set (map int [1..<16]) \<inter> dma_masters. sa_field m (io (mach t) ?a) = 1"
    have "csl_addr (csu_base (csuv s)) c \<noteq> ?a" if "0 \<le> c" "c < 80" for c
      using sa_addr_not_csl [of "csu_base (csuv s)"] that unfolding csu_regs_def
      by (metis atLeastLessThan_iff imageI)
    then have "csl_lane t c = csl_lane s c" if "0 \<le> c" "c < 80" for c
      using that by (simp add: csl_lane_def w)
    then show "csu_inv t" using assms(1) by (simp add: csu_inv_def csu_hw_def w)
    show "csuv t = csuv s" by (simp add: w)
    show "\<forall>m \<in> dma_masters. sa_field m (io (mach t) (csu_base (csuv t) + 0x218)) = 1"
      using f by (auto simp: w dma_masters_def image_int_atLeastLessThan)
  qed
qed

text \<open>\<open>csu_init\<close>, when its registers are mapped, returns with the CSU invariant
  established, every slot unprotected and open to the normal world, and every DMA master but the
  reserved ones (0, 6 and 15) non-secure.\<close>

lemma csu_init_correct:
  assumes "wp (phys_to_virt base MEM_AREA_IO_SEC) (\<lambda>va t. va \<noteq> 0
      \<and> length (csu_csl_counts (csuv t)) = 80
      \<and> (\<forall>a \<in> insert (va + 0x218) (csu_regs va). plain_reg (hw (mach t)) a)) s"
  shows "wp (csu_init base) (\<lambda>_ t. csu_inv t \<and> csu_csl_counts (csuv t) = replicate 80 0
      \<and> (\<forall>m \<in> dma_masters. sa_field m (io (mach t) (csu_base (csuv t) + 0x218)) = 1)) s"
  unfolding csu_init_def
proof (rule wp_bind_rule [OF assms])
  fix va and t :: kernel
  let ?u = "t\<lparr>csuv := (csuv t)\<lparr>csu_base := va\<rparr>\<rparr>"
  assume t: "va \<noteq> 0 \<and> length (csu_csl_counts (csuv t)) = 80
      \<and> (\<forall>a \<in> insert (va + 0x218) (csu_regs va). plain_reg (hw (mach t)) a)"
  have u: "length (csu_csl_counts (csuv ?u)) = 80" "csu_hw ?u" using t by (simp_all add: csu_hw_def)
  have "wp (thenM (forM (map int [0..<80]) (\<lambda>c. thenM (upd_csl_count c (\<lambda>_. 1)) (csu_set_csl c False)))
       (forM (map int [1..<16]) (\<lambda>m. if m = 6 \<or> m = 15 then ret () else csu_set_sa m False)))
     (\<lambda>_ t. csu_inv t \<and> csu_csl_counts (csuv t) = replicate 80 0
      \<and> (\<forall>m \<in> dma_masters. sa_field m (io (mach t) (csu_base (csuv t) + 0x218)) = 1)) ?u"
  proof (rule wp_then_rule [OF wp_init_slots [OF u]])
    fix v
    assume v: "csu_frame ?u v \<and> csu_inv v \<and> csu_csl_counts (csuv v) = replicate 80 0"
    then have "plain_reg (hw (mach v)) (csu_base (csuv v) + 0x218)"
      using t csu_frame_sel [of ?u v] by simp
    with v show "wp (forM (map int [1..<16]) (\<lambda>m. if m = 6 \<or> m = 15 then ret () else csu_set_sa m False))
       (\<lambda>_ t. csu_inv t \<and> csu_csl_counts (csuv t) = replicate 80 0
        \<and> (\<forall>m \<in> dma_masters. sa_field m (io (mach t) (csu_base (csuv t) + 0x218)) = 1)) v"
      by (intro wp_mono [OF wp_init_masters]) auto
  qed
  then show "wp (thenM (modifyM (\<lambda>s. s\<lparr>csuv := (csuv s)\<lparr>csu_base := va\<rparr>\<rparr>)) (
     thenM (whenM (va = 0) panic) (
     thenM (forM (map int [0..<80]) (\<lambda>c. thenM (upd_csl_count c (\<lambda>_. 1)) (csu_set_csl c False)))
       (forM (map int [1..<16]) (\<lambda>m. if m = 6 \<or> m = 15 then ret () else csu_set_sa m False)))))
     (\<lambda>_ t. csu_inv t \<and> csu_csl_counts (csuv t) = replicate 80 0
      \<and> (\<forall>m \<in> dma_masters. sa_field m (io (mach t) (csu_base (csuv t) + 0x218)) = 1)) t"
    using t by (simp add: wp_thenM wp_modifyM wp_whenM)
qed

lemma csu_init_correct_witness:
  "wp (csu_init 0x021C0028) (\<lambda>_ t. csu_inv t \<and> csu_csl_counts (csuv t) = replicate 80 0
      \<and> (\<forall>m \<in> dma_masters. sa_field m (io (mach t) (csu_base (csuv t) + 0x218)) = 1)) example_kernel"
proof (rule csu_init_correct)
  have "wlp (phys_to_virt 0x021C0028 MEM_AREA_IO_SEC) (\<lambda>_ t. same_but_cpsr example_kernel t) example_kernel"
    unfolding phys_to_virt_def wlp_bindM wlp_gets Let_def wlp_thenM
    by (rule wlp_mono [OF wlp_check_va_matches_pa]) (simp add: wp_simps)
  from wp_conj [OF phys_to_virt_example this]
  show "wp (phys_to_virt 0x021C0028 MEM_AREA_IO_SEC) (\<lambda>va t. va \<noteq> 0
      \<and> length (csu_csl_counts (csuv t)) = 80
      \<and> (\<forall>a \<in> insert (va + 0x218) (csu_regs va). plain_reg (hw (mach t)) a)) example_kernel"
    by (rule wp_mono) (auto simp: same_but_cpsr_def example_kernel_def blank_def)
qed

end
