(* ===== verification/Emulation.thy ===== *)
theory Emulation
  imports Core_Mmu
begin

text \<open>
  core/arch/arm/secloak/emulation.c: device accesses of the normal world that the CSU denies are
  trapped and emulated. The list of guarded regions, the check of an access against it, the
  emulated load and store, and the decoding of the trapped instruction. A region's \<open>check\<close> is a
  function pointer into a driver: the dispatch \<open>chk\<close> is an argument here and is tied to the
  drivers' functions in the theories above, through the locale \<open>emu_checks\<close>.
\<close>

section \<open>Regions\<close>

definition upd_regions :: "(region list \<Rightarrow> region list) \<Rightarrow> unit km" where
  "upd_regions f = modifyM (\<lambda>s. s\<lparr>emu := (emu s)\<lparr>regions := f (regions (emu s))\<rparr>\<rparr>)"

definition emu_add_region :: "paddr \<Rightarrow> u32 \<Rightarrow> emu_check_fn \<Rightarrow> int km" where
  "emu_add_region base sz check =
     bindM malloc (\<lambda>ok. if \<not> ok then ret (- ENOMEM)
     else thenM (upd_regions ((#) \<lparr>r_base = base, r_size = sz, r_check = check\<rparr>)) (ret 0))"

fun remove_region :: "paddr \<Rightarrow> u32 \<Rightarrow> emu_check_fn \<Rightarrow> region list \<Rightarrow> region list" where
  "remove_region base sz check [] = []"
| "remove_region base sz check (r # rs) =
     (if r_base r = base \<and> r_size r = sz \<and> r_check r = check then rs
      else r # remove_region base sz check rs)"

definition emu_remove_region :: "paddr \<Rightarrow> u32 \<Rightarrow> emu_check_fn \<Rightarrow> unit km" where
  "emu_remove_region base sz check = upd_regions (remove_region base sz check)"

section \<open>Checking an access\<close>

text \<open>A check gets the value by pointer, NULL before a load; it returns whether the access is
  allowed and the value it leaves behind.\<close>

type_synonym emu_dispatch = "region \<Rightarrow> paddr \<Rightarrow> emu_state \<Rightarrow> u32 option \<Rightarrow> (bool \<times> u32 option) km"

definition in_region :: "region \<Rightarrow> paddr \<Rightarrow> bool" where
  "in_region r addr \<longleftrightarrow> r_base r \<le> addr \<and> r_base r + r_size r \<ge> addr"

fun emu_check_loop ::
    "emu_dispatch \<Rightarrow> region list \<Rightarrow> paddr \<Rightarrow> emu_state \<Rightarrow> bool \<Rightarrow> u32 option \<Rightarrow> (bool \<times> u32 option) km" where
  "emu_check_loop chk [] addr state allowed val = ret (allowed, val)"
| "emu_check_loop chk (r # rs) addr state allowed val =
     (if in_region r addr
      then bindM (chk r addr state val) (\<lambda>(ok, val').
        emu_check_loop chk rs addr state (allowed \<and> ok) val')
      else emu_check_loop chk rs addr state allowed val)"

definition emu_check :: "emu_dispatch \<Rightarrow> paddr \<Rightarrow> emu_state \<Rightarrow> u32 option \<Rightarrow> (bool \<times> u32 option) km" where
  "emu_check chk addr state val =
     bindM (gets (\<lambda>s. regions (emu s))) (\<lambda>rs. emu_check_loop chk rs addr state True val)"

definition emu_allow_all :: "u32 option \<Rightarrow> (bool \<times> u32 option) km" where
  "emu_allow_all val = ret (True, val)"

definition emu_deny_all :: "u32 option \<Rightarrow> (bool \<times> u32 option) km" where
  "emu_deny_all val = ret (False, val)"

section \<open>Emulated accesses\<close>

definition read_sized :: "vaddr \<Rightarrow> nat \<Rightarrow> u32 km" where
  "read_sized addr sz =
     (if sz = 1 then bindM (read8 addr) (\<lambda>v. ret (ucast v))
      else if sz = 2 then bindM (read16 addr) (\<lambda>v. ret (ucast v))
      else if sz = 4 then read32 addr
      else ret 0)"

definition write_sized :: "u32 \<Rightarrow> vaddr \<Rightarrow> nat \<Rightarrow> unit km" where
  "write_sized val addr sz =
     (if sz = 1 then write8 (ucast val) addr
      else if sz = 2 then write16 (ucast val) addr
      else if sz = 4 then write32 val addr
      else ret ())"

definition sign_extend :: "nat \<Rightarrow> u32 \<Rightarrow> u32" where
  "sign_extend sz v =
     (if sz = 1 then if v AND 0x80 \<noteq> 0 then v OR 0xFFFFFF00 else v
      else if sz = 2 then if v AND 0x8000 \<noteq> 0 then v OR 0xFFFF0000 else v
      else v)"

text \<open>The result is the new contents of the register the instruction loads into; a check that
  clears the value pointer cannot happen, since the pointer is not NULL there.\<close>

definition emu_handle_load :: "emu_dispatch \<Rightarrow> paddr \<Rightarrow> vaddr \<Rightarrow> nat \<Rightarrow> bool \<Rightarrow> u32 km" where
  "emu_handle_load chk data_paddr data_vaddr sz sign =
     bindM (emu_check chk data_paddr EMU_STATE_READ_BEFORE None) (\<lambda>(ok, _).
     if ok then
       bindM (read_sized data_vaddr sz) (\<lambda>v.
       let reg = (if sign then sign_extend sz v else v) in
       bindM (emu_check chk data_paddr EMU_STATE_READ_AFTER (Some reg)) (\<lambda>(_, val). deref val))
     else ret 0)"

definition emu_handle_store :: "emu_dispatch \<Rightarrow> paddr \<Rightarrow> vaddr \<Rightarrow> u32 \<Rightarrow> nat \<Rightarrow> u32 km" where
  "emu_handle_store chk data_paddr data_vaddr reg sz =
     bindM (emu_check chk data_paddr EMU_STATE_WRITE (Some reg)) (\<lambda>(ok, val).
     bindM (deref val) (\<lambda>v. thenM (whenM ok (write_sized v data_vaddr sz)) (ret v)))"

section \<open>Decoding\<close>

definition get_reg :: "u32 \<Rightarrow> sm_nsec_ctx \<Rightarrow> u32 km" where
  "get_reg rt ctx =
     (if rt \<le> 7 then index_at (nr0_7 ctx) (unat rt)
      else if rt \<le> 12 then index_at (nr8_12 ctx) (unat (rt - 8))
      else ret (nlr ctx))"

definition set_reg :: "u32 \<Rightarrow> u32 \<Rightarrow> sm_nsec_ctx \<Rightarrow> sm_nsec_ctx" where
  "set_reg rt v ctx =
     (if rt \<le> 7 then ctx\<lparr>nr0_7 := (nr0_7 ctx)[unat rt := v]\<rparr>
      else if rt \<le> 12 then ctx\<lparr>nr8_12 := (nr8_12 ctx)[unat (rt - 8) := v]\<rparr>
      else ctx\<lparr>nlr := v\<rparr>)"

definition emu_transfer ::
    "emu_dispatch \<Rightarrow> paddr \<Rightarrow> vaddr \<Rightarrow> u32 \<Rightarrow> bool \<Rightarrow> nat \<Rightarrow> bool \<Rightarrow> sm_nsec_ctx \<Rightarrow> sm_nsec_ctx km" where
  "emu_transfer chk data_paddr data_vaddr rt load sz sign ctx =
     bindM (get_reg rt ctx) (\<lambda>reg.
     bindM (if load then emu_handle_load chk data_paddr data_vaddr sz sign
            else emu_handle_store chk data_paddr data_vaddr reg sz) (\<lambda>v.
     ret (set_reg rt v ctx)))"

definition emu_handle ::
    "emu_dispatch \<Rightarrow> sm_nsec_ctx \<Rightarrow> u32 \<Rightarrow> u32 \<Rightarrow> u32 \<Rightarrow> sm_nsec_ctx km" where
  "emu_handle chk ctx status data_paddr instr_paddr =
     (if status AND 0x40F \<noteq> 0x008 then ret (ctx\<lparr>mon_lr := mon_lr ctx - 4\<rparr>)
      else bindM (gets emu) (\<lambda>e.
        if data_paddr < emu_data_pstart e \<or> data_paddr \<ge> emu_data_pstart e + emu_data_size e
        then ret ctx
        else let data_vaddr = emu_data_vstart e + (data_paddr - emu_data_pstart e) in
        if instr_paddr < emu_instr_pstart e \<or> instr_paddr \<ge> emu_instr_pstart e + emu_instr_size e
        then ret ctx
        else let instr_vaddr = emu_instr_vstart e + (instr_paddr - emu_instr_pstart e) in
        bindM (read32 instr_vaddr) (\<lambda>instr.
        let instr_rt = drop_bit 12 instr AND 0xF in
        if \<not> (instr_rt \<le> 12 \<or> instr_rt = 14) then panic
        else let instr_type = drop_bit 25 instr AND 0x7 in
        if instr_type AND 0x6 = 0x2
        then let sz = (if instr AND bit32 22 \<noteq> 0 then 1 else 4) in
          emu_transfer chk data_paddr data_vaddr instr_rt (instr AND bit32 20 \<noteq> 0) sz False ctx
        else if instr_type = 0
        then let sz = (if instr AND bit32 5 \<noteq> 0 then 2 else 1) in
          emu_transfer chk data_paddr data_vaddr instr_rt (instr AND bit32 20 \<noteq> 0) sz
            (instr AND bit32 6 \<noteq> 0) ctx
        else panic)))"

definition emulation_init :: "int km" where
  "emulation_init =
     bindM (gets (\<lambda>s. find_map_by_type_and_pa MEM_AREA_IO_SEC 0x01000000 (static_memory_map (mmu s)))) (\<lambda>mo.
     case mo of None \<Rightarrow> panic
     | Some mm \<Rightarrow>
       thenM (modifyM (\<lambda>s. s\<lparr>emu := (emu s)\<lparr>emu_data_pstart := mpa mm, emu_data_vstart := mva mm,
         emu_data_size := msize mm\<rparr>\<rparr>)) (
       bindM (gets (\<lambda>s. find_map_by_type MEM_AREA_RAM_NSEC (static_memory_map (mmu s)))) (\<lambda>mo'.
       case mo' of None \<Rightarrow> panic
       | Some mi \<Rightarrow>
         thenM (modifyM (\<lambda>s. s\<lparr>emu := (emu s)\<lparr>emu_instr_pstart := mpa mi, emu_instr_vstart := mva mi,
           emu_instr_size := msize mi\<rparr>\<rparr>)) (ret 0))))"

section \<open>Lemmas: the region list\<close>

lemma remove_add: "remove_region b z c (\<lparr>r_base = b, r_size = z, r_check = c\<rparr> # rs) = rs"
  by simp

lemma remove_region_perm:
  "remove_region b z c rs = remove1 \<lparr>r_base = b, r_size = z, r_check = c\<rparr> rs"
proof (induction rs)
  case (Cons r rs)
  have "r_base r = b \<and> r_size r = z \<and> r_check r = c \<longleftrightarrow> r = \<lparr>r_base = b, r_size = z, r_check = c\<rparr>"
    by (cases r) auto
  then show ?case using Cons by simp
qed simp


section \<open>Interface: the drivers' checks\<close>

text \<open>What emulation relies on of the dispatch: the two generic checks do what their names say,
  and a check never turns a value into NULL.\<close>

locale emu_checks =
  fixes chk :: emu_dispatch
  assumes allow: "r_check r = EMU_ALLOW_ALL \<Longrightarrow> chk r a st v = emu_allow_all v"
    and deny: "r_check r = EMU_DENY_ALL \<Longrightarrow> chk r a st v = emu_deny_all v"
    and keeps_value: "chk r a st (Some x) s = Inr ((ok, v'), t) \<Longrightarrow> v' \<noteq> None"
begin

definition generic_at :: "region list \<Rightarrow> paddr \<Rightarrow> bool" where
  "generic_at rs a \<longleftrightarrow> (\<forall>r \<in> set rs. in_region r a \<longrightarrow> r_check r = EMU_ALLOW_ALL \<or> r_check r = EMU_DENY_ALL)"

definition denied_at :: "region list \<Rightarrow> paddr \<Rightarrow> bool" where
  "denied_at rs a \<longleftrightarrow> (\<exists>r \<in> set rs. in_region r a \<and> r_check r = EMU_DENY_ALL)"

lemma loop_generic:
  "generic_at rs a \<Longrightarrow> emu_check_loop chk rs a st al v s = Inr ((al \<and> \<not> denied_at rs a, v), s)"
proof (induction rs arbitrary: al)
  case (Cons r rs)
  then show ?case
    by (auto simp: generic_at_def denied_at_def bindM_def allow deny emu_allow_all_def emu_deny_all_def ret_def)
qed (simp add: denied_at_def ret_def)

lemma check_generic:
  "generic_at (regions (emu s)) a \<Longrightarrow>
     emu_check chk a st v s = Inr ((\<not> denied_at (regions (emu s)) a, v), s)"
  by (simp add: emu_check_def bindM_def gets_def loop_generic)

text \<open>A check that denies is never overruled by the checks of other regions.\<close>

lemma loop_false: "wlp (emu_check_loop chk rs a st False v) (\<lambda>x _. \<not> fst x) s"
proof (induction rs arbitrary: v s)
  case (Cons r rs v s)
  have "wlp (chk r a st v) (\<lambda>_ _. True) s" by (simp add: wlp_iff)
  then have "wlp (chk r a st v) (\<lambda>x. wlp (emu_check_loop chk rs a st False (snd x)) (\<lambda>x _. \<not> fst x)) s"
    by (rule wlp_mono) (rule Cons.IH)
  then show ?case using Cons.IH by (simp add: wlp_bindM split_beta)
qed (simp add: wp_simps)

lemma loop_denied:
  "denied_at rs a \<Longrightarrow> wlp (emu_check_loop chk rs a st al v) (\<lambda>x _. \<not> fst x) s"
proof (induction rs arbitrary: al v s)
  case (Cons r rs al v s)
  show ?case
  proof (cases "in_region r a \<and> r_check r = EMU_DENY_ALL")
    case True
    then show ?thesis by (simp add: deny emu_deny_all_def wp_simps loop_false)
  next
    case False
    then have d: "denied_at rs a" using Cons.prems by (auto simp: denied_at_def)
    have "wlp (chk r a st v) (\<lambda>_ _. True) s" by (simp add: wlp_iff)
    then have "wlp (chk r a st v) (\<lambda>x. wlp (emu_check_loop chk rs a st (al \<and> fst x) (snd x)) (\<lambda>x _. \<not> fst x)) s"
      by (rule wlp_mono) (use Cons.IH [OF d] in auto)
    moreover have "wlp (emu_check_loop chk rs a st al v) (\<lambda>x _. \<not> fst x) s" by (rule Cons.IH [OF d])
    ultimately show ?thesis by (simp add: wlp_bindM split_beta)
  qed
qed (simp add: denied_at_def)

lemma load_denied:
  assumes "denied_at (regions (emu s)) a"
  shows "wlp (emu_handle_load chk a va sz sg) (\<lambda>v _. v = 0) s"
  using loop_denied [OF assms, of EMU_STATE_READ_BEFORE True None s]
  unfolding emu_handle_load_def emu_check_def wlp_bindM wlp_gets
  by (rule wlp_mono) (auto simp: wp_simps)

lemma load_generic:
  "generic_at (regions (emu s)) a \<Longrightarrow> denied_at (regions (emu s)) a \<Longrightarrow>
     emu_handle_load chk a va sz sg s = Inr (0, s)"
  by (simp add: emu_handle_load_def bindM_def check_generic ret_def)

lemma store_generic:
  "generic_at (regions (emu s)) a \<Longrightarrow> denied_at (regions (emu s)) a \<Longrightarrow>
     emu_handle_store chk a va reg sz s = Inr (reg, s)"
  by (simp add: emu_handle_store_def bindM_def check_generic ret_def deref_def whenM_def thenM_def)

text \<open>Outside every region an access goes straight to the device.\<close>

lemma store_open:
  "generic_at (regions (emu s)) a \<Longrightarrow> \<not> denied_at (regions (emu s)) a \<Longrightarrow>
     emu_handle_store chk a va reg sz s = thenM (write_sized reg va sz) (ret reg) s"
  by (simp add: emu_handle_store_def bindM_def check_generic ret_def deref_def whenM_def thenM_def)

end

section \<open>Decoding against the ARM instruction set\<close>

text \<open>The single-register transfers of the ARMv7 architecture (A5.3, A5.2.8): word and byte
  transfers with an immediate or a register offset, and the extra load/store instructions with
  their halfword and signed forms. Doubleword transfers are not single-register transfers.\<close>

datatype arm_access = Load nat bool | Store nat

definition arm_decode :: "u32 \<Rightarrow> arm_access option" where
  "arm_decode i =
     (let ty = drop_bit 25 i AND 7 in
      if ty = 2 \<or> (ty = 3 \<and> \<not> bit i 4)
      then (let sz = (if bit i 22 then 1 else 4) in if bit i 20 then Some (Load sz False) else Some (Store sz))
      else if ty = 0 \<and> bit i 7 \<and> bit i 4
      then (if bit i 20
            then (if \<not> bit i 6 \<and> bit i 5 then Some (Load 2 False)
                  else if bit i 6 then Some (Load (if bit i 5 then 2 else 1) True) else None)
            else if \<not> bit i 6 \<and> bit i 5 then Some (Store 2) else None)
      else None)"

definition is_ldrd :: "u32 \<Rightarrow> bool" where
  "is_ldrd i \<longleftrightarrow> drop_bit 25 i AND 7 = 0 \<and> \<not> bit i 20 \<and> bit i 7 \<and> bit i 6 \<and> \<not> bit i 5 \<and> bit i 4"

definition instr_at :: "kernel \<Rightarrow> u32 \<Rightarrow> u32" where
  "instr_at s ipa = io (mach s) (emu_instr_vstart (emu s) + (ipa - emu_instr_pstart (emu s)))"

definition rt_of :: "u32 \<Rightarrow> u32" where
  "rt_of i = drop_bit 12 i AND 0xF"

text \<open>The trap is a permission fault and both addresses are in the mapped windows.\<close>

definition emulated :: "kernel \<Rightarrow> u32 \<Rightarrow> u32 \<Rightarrow> u32 \<Rightarrow> bool" where
  "emulated s status dpa ipa \<longleftrightarrow> status AND 0x40F = 0x008
     \<and> emu_data_pstart (emu s) \<le> dpa \<and> dpa < emu_data_pstart (emu s) + emu_data_size (emu s)
     \<and> emu_instr_pstart (emu s) \<le> ipa \<and> ipa < emu_instr_pstart (emu s) + emu_instr_size (emu s)"

definition data_va :: "kernel \<Rightarrow> u32 \<Rightarrow> u32" where
  "data_va s dpa = emu_data_vstart (emu s) + (dpa - emu_data_pstart (emu s))"

lemma type_and_6: "(x AND 7 :: u32) AND 6 = 2 \<longleftrightarrow> x AND 7 = 2 \<or> x AND 7 = 3"
proof -
  have "x AND 7 \<le> 7" by (rule word_and_le1)
  then have "unat (x AND 7) \<in> set [0..<8]" by (simp add: word_le_nat_alt)
  then have "word_of_nat (unat (x AND 7)) \<in> (word_of_nat ` set [0..<8] :: u32 set)" by (rule imageI)
  then have "x AND 7 \<in> (word_of_nat ` set [0..<8] :: u32 set)" by simp
  moreover have "\<forall>y \<in> (word_of_nat ` set [0..<8] :: u32 set). y AND 6 = 2 \<longleftrightarrow> y = 2 \<or> y = 3"
    by code_simp
  ultimately show ?thesis by blast
qed

lemma emu_handle_emulated:
  assumes "emulated s status dpa ipa"
  shows "emu_handle chk ctx status dpa ipa s =
    (let i = instr_at s ipa; ty = drop_bit 25 i AND 7 in
     if \<not> (rt_of i \<le> 12 \<or> rt_of i = 14) then Inl Panic
     else if ty = 2 \<or> ty = 3
     then emu_transfer chk dpa (data_va s dpa) (rt_of i) (bit i 20) (if bit i 22 then 1 else 4) False ctx s
     else if ty = 0
     then emu_transfer chk dpa (data_va s dpa) (rt_of i) (bit i 20) (if bit i 5 then 2 else 1) (bit i 6) ctx s
     else Inl Panic)"
proof -
  have w: "status AND 0x40F = 0x008"
    "\<not> dpa < emu_data_pstart (emu s)" "\<not> dpa \<ge> emu_data_pstart (emu s) + emu_data_size (emu s)"
    "\<not> ipa < emu_instr_pstart (emu s)" "\<not> ipa \<ge> emu_instr_pstart (emu s) + emu_instr_size (emu s)"
    using assms by (auto simp: emulated_def)
  show ?thesis
    by (simp add: emu_handle_def bindM_def gets_def read32_def Let_def w
      instr_at_def rt_of_def data_va_def panic_def throw_def type_and_6 and_bit32_eq_0_iff)
qed

lemma transfer_store_sign: "emu_transfer chk a va rt False sz sg ctx = emu_transfer chk a va rt False sz False ctx"
  by (simp add: emu_transfer_def)

fun access_args :: "arm_access \<Rightarrow> bool \<times> nat \<times> bool" where
  "access_args (Load sz sign) = (True, sz, sign)"
| "access_args (Store sz) = (False, sz, False)"

lemma emu_handle_access:
  assumes "emulated s status dpa ipa" "arm_decode (instr_at s ipa) = Some acc"
    and "rt_of (instr_at s ipa) \<le> 12 \<or> rt_of (instr_at s ipa) = 14"
  shows "emu_handle chk ctx status dpa ipa s = (case access_args acc of (ld, sz, sign) \<Rightarrow>
    emu_transfer chk dpa (data_va s dpa) (rt_of (instr_at s ipa)) ld sz sign ctx s)"
  unfolding emu_handle_emulated [OF assms(1)] using assms(2,3)
  by (auto simp: arm_decode_def Let_def transfer_store_sign [of _ _ _ _ _ True] split: if_splits)

section \<open>Properties\<close>


text \<open>A kernel with the data window over the peripherals and the instruction window over the
  normal world's memory, about to emulate the instruction \<open>i\<close>.\<close>

definition emu_example :: "u32 \<Rightarrow> kernel" where
  "emu_example i = io_upd ((\<lambda>_. 0)(0x70000000 := i)) (blank\<lparr>emu := \<lparr>regions = [],
     emu_data_pstart = 0x02000000, emu_data_vstart = 0x60000000, emu_data_size = 0x200000,
     emu_instr_pstart = 0x10000000, emu_instr_vstart = 0x70000000, emu_instr_size = 0x3B800000\<rparr>\<rparr>)"

definition ctx_example :: sm_nsec_ctx where
  "ctx_example = \<lparr>mode_regs = blank_mode_regs, nr8_12 = [0, 0, 0, 0, 0], nlr = 0, nr0_7 = [0x42, 1, 2, 3, 4, 5, 6, 7],
     mon_lr = 0x10000004, mon_spsr = 0x1D3\<rparr>"

lemma emulated_example: "emulated (emu_example i) 0x008 0x020A0000 0x10000000"
  by (simp add: emulated_def emu_example_def)

lemma instr_example: "instr_at (emu_example i) 0x10000000 = i"
  by (simp add: instr_at_def emu_example_def)


text \<open>A doubleword load is emulated as a store: for an LDRD instruction \<open>emu_handle\<close> writes the
  low byte of the first destination register to the device instead of reading two words from it.\<close>

lemma ldrd_emulated_as_store:
  assumes "emulated s status dpa ipa" "is_ldrd (instr_at s ipa)" "rt_of (instr_at s ipa) \<le> 7"
    and "regions (emu s) = []" "length (nr0_7 ctx) = 8"
  shows "emu_handle chk ctx status dpa ipa s = Inr (ctx,
    io_upd (hw (mach s) 1 (data_va s dpa)
      (ucast (ucast (nr0_7 ctx ! unat (rt_of (instr_at s ipa))) :: u8)) (io (mach s))) s)"
proof -
  let ?rt = "rt_of (instr_at s ipa)"
  have "unat ?rt < 8" using assms(3) by (simp add: word_le_nat_alt)
  moreover have "?rt \<le> 12" using assms(3) by (rule order_trans) simp
  ultimately have "wp (emu_transfer chk dpa (data_va s dpa) ?rt False 1 False ctx)
      (\<lambda>c t. c = ctx \<and> t = io_upd (hw (mach s) 1 (data_va s dpa)
        (ucast (ucast (nr0_7 ctx ! unat ?rt) :: u8)) (io (mach s))) s) s"
    using assms(3-5)
    by (simp add: emu_transfer_def get_reg_def set_reg_def emu_handle_store_def emu_check_def
        wp_simps write_sized_def)
  then have t: "emu_transfer chk dpa (data_va s dpa) ?rt False 1 False ctx s = Inr (ctx,
      io_upd (hw (mach s) 1 (data_va s dpa) (ucast (ucast (nr0_7 ctx ! unat ?rt) :: u8)) (io (mach s))) s)"
    by (auto simp: wp_iff)
  show ?thesis
    unfolding emu_handle_emulated [OF assms(1)] using assms(2) \<open>?rt \<le> 12\<close> t
    by (simp add: is_ldrd_def Let_def transfer_store_sign [of _ _ _ _ _ True])
qed

lemma ldrd_emulated_as_store_witness:
  "emu_handle (\<lambda>_ _ _. emu_allow_all) ctx_example 0x008 0x020A0000 0x10000000 (emu_example 0xE1C100D0) = Inr (ctx_example,
    io_upd (hw (mach (emu_example 0xE1C100D0)) 1 (data_va (emu_example 0xE1C100D0) 0x020A0000)
      (ucast (ucast (nr0_7 ctx_example ! unat (rt_of (instr_at (emu_example 0xE1C100D0) 0x10000000))) :: u8))
      (io (mach (emu_example 0xE1C100D0)))) (emu_example 0xE1C100D0))"
proof (rule ldrd_emulated_as_store [OF emulated_example])
  show "is_ldrd (instr_at (emu_example 0xE1C100D0) 0x10000000)"
    unfolding instr_example by code_simp
  show "rt_of (instr_at (emu_example 0xE1C100D0) 0x10000000) \<le> 7"
    unfolding instr_example by code_simp
qed (simp_all add: emu_example_def ctx_example_def)

text \<open>The normal world can stop the secure kernel: a trapped instruction whose register field is
  SP or PC, or which is neither a word, byte nor extra transfer (a load or store multiple, a
  coprocessor transfer), makes \<open>emu_handle\<close> panic.\<close>

lemma emu_unsupported_panics:
  assumes "emulated s status dpa ipa"
    and "rt_of (instr_at s ipa) = 13 \<or> rt_of (instr_at s ipa) = 15
      \<or> drop_bit 25 (instr_at s ipa) AND 7 \<notin> {0, 2, 3}"
  shows "emu_handle chk ctx status dpa ipa s = Inl Panic"
  unfolding emu_handle_emulated [OF assms(1)] using assms(2) by (auto simp: Let_def)

lemma emu_unsupported_panics_witness:
  "emu_handle (\<lambda>_ _ _. emu_allow_all) ctx_example 0x008 0x020A0000 0x10000000 (emu_example 0xE8810006) = Inl Panic"
proof (rule emu_unsupported_panics [OF emulated_example])
  have "drop_bit 25 (0xE8810006 :: u32) AND 7 \<notin> {0, 2, 3}" by code_simp
  then show "rt_of (instr_at (emu_example 0xE8810006) 0x10000000) = 13
     \<or> rt_of (instr_at (emu_example 0xE8810006) 0x10000000) = 15
     \<or> drop_bit 25 (instr_at (emu_example 0xE8810006) 0x10000000) AND 7 \<notin> {0, 2, 3}"
    unfolding instr_example by blast
qed

text \<open>Of the normal world's registers, emulation changes at most the one the instruction names;
  a fault it does not handle is retried by moving the return address back, and changes nothing
  else.\<close>

lemma emu_handle_registers:
  assumes "emu_handle chk ctx status dpa ipa s = Inr (ctx', t)"
  shows "(status AND 0x40F \<noteq> 0x008 \<and> ctx' = ctx\<lparr>mon_lr := mon_lr ctx - 4\<rparr> \<and> t = s)
    \<or> ctx' = ctx \<or> (\<exists>v. ctx' = set_reg (rt_of (instr_at s ipa)) v ctx)"
proof (cases "emulated s status dpa ipa")
  case True
  have tr: "\<exists>v. c = set_reg rt v ctx" if "emu_transfer chk a va rt l sz sg ctx s = Inr (c, t)" for a va rt l sz sg c
    using that by (auto simp: emu_transfer_def bindM_def ret_def split: sum.splits prod.splits)
  show ?thesis
    using assms tr unfolding emu_handle_emulated [OF True] by (auto simp: Let_def split: if_splits)
next
  case False
  then show ?thesis using assms
    by (auto simp: emu_handle_def emulated_def ret_def bindM_def gets_def not_less not_le split: if_splits)
qed

lemma emu_handle_registers_witness:
  "(0x007 AND 0x40F \<noteq> (0x008 :: u32) \<and> ctx_example\<lparr>mon_lr := 0x10000000\<rparr> = ctx_example\<lparr>mon_lr := mon_lr ctx_example - 4\<rparr>
      \<and> emu_example 0 = emu_example 0)
    \<or> ctx_example\<lparr>mon_lr := 0x10000000\<rparr> = ctx_example
    \<or> (\<exists>v. ctx_example\<lparr>mon_lr := 0x10000000\<rparr> = set_reg (rt_of (instr_at (emu_example 0) 0x10000000)) v ctx_example)"
  by (rule emu_handle_registers [where chk = "\<lambda>_ _ _. emu_allow_all" and dpa = 0])
    (simp add: emu_handle_def ret_def ctx_example_def)

text \<open>A region guards one address too many: when it does not wrap, the addresses the check
  matches are those of the region and the first one behind it, which belongs to the neighbour.\<close>

lemma emu_region_bounds:
  assumes "unat (r_base r) + unat (r_size r) < 2 ^ 32"
  shows "in_region r a \<longleftrightarrow> unat a \<in> span (r_base r) (r_size r) \<or> a = r_base r + r_size r"
  using assms by (auto simp: in_region_def span_def word32_nat)

lemma emu_region_bounds_witness:
  "in_region \<lparr>r_base = 0x0209C000, r_size = 0x4000, r_check = EMU_DENY_ALL\<rparr> 0x020A0000 \<longleftrightarrow>
     unat (0x020A0000 :: u32) \<in> span 0x0209C000 0x4000 \<or> (0x020A0000 :: u32) = 0x0209C000 + 0x4000"
  using emu_region_bounds [where r = "\<lparr>r_base = 0x0209C000, r_size = 0x4000, r_check = EMU_DENY_ALL\<rparr>"
      and a = "0x020A0000"] by simp

end
