(* ===== verification/Interrupt.thy ===== *)
theory Interrupt
  imports Kernel_State
begin

text \<open>
  core/kernel/interrupt.c: the registry of interrupt chips and the dispatch of every operation to
  the chip's driver. A driver's table of function pointers is a record of optional functions (an
  absent one is a NULL pointer); the tables, and the call of a registered handler, are arguments
  here and are tied to the drivers in the theories above.
\<close>

record irq_chip_ops_table =
  op_map :: "(chip_ref \<Rightarrow> u32 list \<Rightarrow> (int \<times> nat \<times> u32) km) option"
  op_add :: "(chip_ref \<Rightarrow> nat \<Rightarrow> u32 \<Rightarrow> int km) option"
  op_remove :: "(chip_ref \<Rightarrow> nat \<Rightarrow> int km) option"
  op_enable :: "(chip_ref \<Rightarrow> nat \<Rightarrow> int km) option"
  op_disable :: "(chip_ref \<Rightarrow> nat \<Rightarrow> int km) option"
  op_secure :: "(chip_ref \<Rightarrow> nat \<Rightarrow> int km) option"
  op_unsecure :: "(chip_ref \<Rightarrow> nat \<Rightarrow> int km) option"
  op_raise :: "(chip_ref \<Rightarrow> nat \<Rightarrow> int km) option"
  op_raise_sgi :: "(chip_ref \<Rightarrow> nat \<Rightarrow> u8 \<Rightarrow> int km) option"
  op_set_affinity :: "(chip_ref \<Rightarrow> nat \<Rightarrow> u8 \<Rightarrow> int km) option"

type_synonym ops_tables = "irq_chip_ops \<Rightarrow> irq_chip_ops_table"

section \<open>Chips\<close>

definition chip_at :: "chip_ref \<Rightarrow> irq_chip km" where
  "chip_at c = bindM (gets (\<lambda>s. irq_chips (irqv s) c)) deref"

definition irq_construct_chip ::
    "chip_ref \<Rightarrow> nat \<Rightarrow> irq_chip_ops \<Rightarrow> nat \<Rightarrow> bool \<Rightarrow> int km" where
  "irq_construct_chip c dev ops num dflt =
     bindM malloc (\<lambda>ok.
     thenM (modifyM (\<lambda>s. s\<lparr>irqv := (irqv s)\<lparr>irq_chips := (irq_chips (irqv s))(c \<mapsto>
       \<lparr>chip_dev = dev, chip_ops = ops, num_irqs = num, default_handler = dflt,
        handlers = (if ok then replicate num None else [])\<rparr>)\<rparr>\<rparr>)) (
     if \<not> ok then ret (- ENOMEM)
     else thenM (modifyM (\<lambda>s. s\<lparr>irqv := (irqv s)\<lparr>chips := c # chips (irqv s)\<rparr>\<rparr>)) (ret 0)))"

definition irq_destruct_chip :: "chip_ref \<Rightarrow> unit km" where
  "irq_destruct_chip c =
     bindM (chip_at c) (\<lambda>ch.
     modifyM (\<lambda>s. s\<lparr>irqv := (irqv s)\<lparr>chips := remove1 c (chips (irqv s)),
       irq_chips := (irq_chips (irqv s))(c \<mapsto> ch\<lparr>handlers := []\<rparr>)\<rparr>\<rparr>))"

fun find_chip :: "(chip_ref \<rightharpoonup> irq_chip) \<Rightarrow> nat \<Rightarrow> chip_ref list \<Rightarrow> chip_ref option" where
  "find_chip m dev [] = None"
| "find_chip m dev (c # cs) =
     (if map_option chip_dev (m c) = Some dev then Some c else find_chip m dev cs)"

definition irq_find_chip :: "nat \<Rightarrow> chip_ref option km" where
  "irq_find_chip dev = gets (\<lambda>s. find_chip (irq_chips (irqv s)) dev (chips (irqv s)))"

section \<open>Operations\<close>

text \<open>\<open>panic\<close> does not return, so the \<open>return false\<close> behind it is never reached.\<close>

definition irq_check_valid :: "irq_chip \<Rightarrow> nat \<Rightarrow> bool km" where
  "irq_check_valid ch irq = (if irq \<ge> num_irqs ch then panic else ret True)"

definition set_handler :: "chip_ref \<Rightarrow> nat \<Rightarrow> irq_handler option \<Rightarrow> unit km" where
  "set_handler c irq h =
     bindM (chip_at c) (\<lambda>ch.
     if irq < length (handlers ch)
     then modifyM (\<lambda>s. s\<lparr>irqv := (irqv s)\<lparr>irq_chips :=
            (irq_chips (irqv s))(c \<mapsto> ch\<lparr>handlers := (handlers ch)[irq := h]\<rparr>)\<rparr>\<rparr>)
     else throw Out_of_bounds)"

definition irq_handle ::
    "ops_tables \<Rightarrow> (irq_handler \<Rightarrow> irq_return km) \<Rightarrow> chip_ref \<Rightarrow> nat \<Rightarrow> irq_return km" where
  "irq_handle tbl call c irq =
     bindM (chip_at c) (\<lambda>ch.
     bindM (irq_check_valid ch irq) (\<lambda>_.
     bindM (index_at (handlers ch) irq) (\<lambda>h.
     case h of None \<Rightarrow>
       if default_handler ch then ret ITRR_HANDLED_DEFAULT
       else bindM (deref (op_disable (tbl (chip_ops ch)))) (\<lambda>f. thenM (f c irq) (ret ITRR_NONE))
     | Some handler \<Rightarrow>
       bindM (call handler) (\<lambda>r.
       thenM (whenM (r = ITRR_NONE)
         (bindM (deref (op_disable (tbl (chip_ops ch)))) (\<lambda>f. thenM (f c irq) (ret ())))) (ret r)))))"

definition irq_map :: "ops_tables \<Rightarrow> chip_ref \<Rightarrow> u32 list \<Rightarrow> (int \<times> nat \<times> u32) km" where
  "irq_map tbl c dt_spec =
     bindM (chip_at c) (\<lambda>ch. bindM (deref (op_map (tbl (chip_ops ch)))) (\<lambda>f. f c dt_spec))"

text \<open>What the operations on a descriptor share: the range check and the call through the table.\<close>

definition irq_op ::
    "ops_tables \<Rightarrow> (irq_chip_ops_table \<Rightarrow> (chip_ref \<Rightarrow> nat \<Rightarrow> int km) option) \<Rightarrow> irq_desc \<Rightarrow> int km" where
  "irq_op tbl sel desc =
     bindM (chip_at (desc_chip desc)) (\<lambda>ch.
     bindM (irq_check_valid ch (desc_irq desc)) (\<lambda>_.
     bindM (deref (sel (tbl (chip_ops ch)))) (\<lambda>f. f (desc_chip desc) (desc_irq desc))))"

definition irq_add :: "ops_tables \<Rightarrow> irq_desc \<Rightarrow> u32 \<Rightarrow> irq_handler \<Rightarrow> int km" where
  "irq_add tbl desc flags h =
     bindM (chip_at (desc_chip desc)) (\<lambda>ch.
     bindM (irq_check_valid ch (desc_irq desc)) (\<lambda>_.
     thenM (set_handler (desc_chip desc) (desc_irq desc) (Some h)) (
     bindM (deref (op_add (tbl (chip_ops ch)))) (\<lambda>f. f (desc_chip desc) (desc_irq desc) flags))))"

definition irq_remove :: "ops_tables \<Rightarrow> irq_desc \<Rightarrow> int km" where
  "irq_remove tbl desc =
     bindM (irq_op tbl op_remove desc) (\<lambda>err.
     thenM (whenM (err = 0) (set_handler (desc_chip desc) (desc_irq desc) None)) (ret err))"

definition irq_enable :: "ops_tables \<Rightarrow> irq_desc \<Rightarrow> int km" where
  "irq_enable tbl = irq_op tbl op_enable"

definition irq_disable :: "ops_tables \<Rightarrow> irq_desc \<Rightarrow> int km" where
  "irq_disable tbl = irq_op tbl op_disable"

definition irq_secure :: "ops_tables \<Rightarrow> irq_desc \<Rightarrow> int km" where
  "irq_secure tbl = irq_op tbl op_secure"

definition irq_unsecure :: "ops_tables \<Rightarrow> irq_desc \<Rightarrow> int km" where
  "irq_unsecure tbl = irq_op tbl op_unsecure"

definition irq_raise :: "ops_tables \<Rightarrow> irq_desc \<Rightarrow> int km" where
  "irq_raise tbl = irq_op tbl op_raise"

definition irq_raise_sgi :: "ops_tables \<Rightarrow> irq_desc \<Rightarrow> u8 \<Rightarrow> int km" where
  "irq_raise_sgi tbl desc cpu_mask =
     bindM (chip_at (desc_chip desc)) (\<lambda>ch.
     bindM (irq_check_valid ch (desc_irq desc)) (\<lambda>_.
     case op_raise_sgi (tbl (chip_ops ch)) of
       Some f \<Rightarrow> ret (- EINVAL)
     | None \<Rightarrow> throw Null_deref))"

definition irq_set_affinity :: "ops_tables \<Rightarrow> irq_desc \<Rightarrow> u8 \<Rightarrow> int km" where
  "irq_set_affinity tbl desc cpu_mask =
     bindM (chip_at (desc_chip desc)) (\<lambda>ch.
     bindM (irq_check_valid ch (desc_irq desc)) (\<lambda>_.
     case op_set_affinity (tbl (chip_ops ch)) of
       Some f \<Rightarrow> ret (- EINVAL)
     | None \<Rightarrow> throw Null_deref))"

section \<open>Lemmas\<close>

lemma wp_chip_at [wp_simps]:
  "wp (chip_at c) Q = (\<lambda>s. \<exists>ch. irq_chips (irqv s) c = Some ch \<and> Q ch s)"
  by (rule ext) (simp add: chip_at_def wp_simps)

lemma wlp_chip_at [wp_simps]:
  "wlp (chip_at c) Q = (\<lambda>s. \<forall>ch. irq_chips (irqv s) c = Some ch \<longrightarrow> Q ch s)"
  by (rule ext) (simp add: chip_at_def wp_simps)

lemma wp_irq_check_valid [wp_simps]:
  "wp (irq_check_valid ch irq) Q = (\<lambda>s. irq < num_irqs ch \<and> Q True s)"
  by (rule ext) (simp add: irq_check_valid_def wp_simps)

lemma wlp_irq_check_valid [wp_simps]:
  "wlp (irq_check_valid ch irq) Q = (\<lambda>s. irq < num_irqs ch \<longrightarrow> Q True s)"
  by (rule ext) (simp add: irq_check_valid_def wp_simps)

text \<open>The operation of a descriptor, run: the driver's function on the chip and number.\<close>

lemma irq_op_run:
  assumes "irq_chips (irqv s) (desc_chip d) = Some ch" "desc_irq d < num_irqs ch"
    and "sel (tbl (chip_ops ch)) = Some f"
  shows "irq_op tbl sel d s = f (desc_chip d) (desc_irq d) s"
  using assms
  by (simp add: irq_op_def chip_at_def bindM_def gets_def deref_def irq_check_valid_def ret_def)

lemma find_chip_Some:
  "find_chip m dev cs = Some c \<Longrightarrow> c \<in> set cs \<and> (\<exists>ch. m c = Some ch \<and> chip_dev ch = dev)"
  by (induction cs) (auto split: if_splits)

text \<open>Every table the code registers has one entry per interrupt.\<close>

definition chips_ok :: "kernel \<Rightarrow> bool" where
  "chips_ok s \<longleftrightarrow> (\<forall>c \<in> set (chips (irqv s)). \<exists>ch. irq_chips (irqv s) c = Some ch
     \<and> length (handlers ch) = num_irqs ch)"

lemma set_handler_chips_ok: "chips_ok s \<Longrightarrow> wlp (set_handler c irq h) (\<lambda>_. chips_ok) s"
  by (auto simp: set_handler_def wp_simps chips_ok_def)

section \<open>Interface: securing interrupt lines\<close>

text \<open>What the device-tree driver relies on of a chip: securing and unsecuring a line always
  succeeds and moves that line only. Both interrupt controllers are instances.\<close>

locale irq_securing =
  fixes secure unsecure :: "nat \<Rightarrow> int km"
    and secured :: "kernel \<Rightarrow> nat \<Rightarrow> bool"
    and valid :: "nat \<Rightarrow> bool"
    and inv :: "kernel \<Rightarrow> bool"
  assumes secure: "inv s \<Longrightarrow> valid i \<Longrightarrow> wp (secure i) (\<lambda>r t. r = 0 \<and> inv t
      \<and> (\<forall>j. valid j \<longrightarrow> secured t j = (j = i \<or> secured s j))) s"
    and unsecure: "inv s \<Longrightarrow> valid i \<Longrightarrow> wp (unsecure i) (\<lambda>r t. r = 0 \<and> inv t
      \<and> (\<forall>j. valid j \<longrightarrow> secured t j = (j \<noteq> i \<and> secured s j))) s"
begin

lemma secure_list:
  assumes "inv s" "\<forall>i \<in> set is. valid i"
  shows "wp (forM is (\<lambda>i. thenM (secure i) (ret ()))) (\<lambda>_ t. inv t
    \<and> (\<forall>j. valid j \<longrightarrow> secured t j = (j \<in> set is \<or> secured s j))) s"
proof (rule wp_mono [OF wp_forM [where I = "\<lambda>ys t. inv t \<and>
    (\<forall>j. valid j \<longrightarrow> secured t j = (j \<in> set ys \<or> secured s j))"]])
  fix ys x zs t
  assume "is = ys @ x # zs" and t: "inv t \<and> (\<forall>j. valid j \<longrightarrow> secured t j = (j \<in> set ys \<or> secured s j))"
  then have "valid x" using assms(2) by simp
  then show "wp (thenM (secure x) (ret ())) (\<lambda>_ t. inv t \<and>
      (\<forall>j. valid j \<longrightarrow> secured t j = (j \<in> set (ys @ [x]) \<or> secured s j))) t"
    unfolding wp_thenM by (intro wp_mono [OF secure]) (use t in \<open>auto simp: wp_simps\<close>)
qed (use assms in simp_all)

lemma unsecure_list:
  assumes "inv s" "\<forall>i \<in> set is. valid i"
  shows "wp (forM is (\<lambda>i. thenM (unsecure i) (ret ()))) (\<lambda>_ t. inv t
    \<and> (\<forall>j. valid j \<longrightarrow> secured t j = (j \<notin> set is \<and> secured s j))) s"
proof (rule wp_mono [OF wp_forM [where I = "\<lambda>ys t. inv t \<and>
    (\<forall>j. valid j \<longrightarrow> secured t j = (j \<notin> set ys \<and> secured s j))"]])
  fix ys x zs t
  assume "is = ys @ x # zs" and t: "inv t \<and> (\<forall>j. valid j \<longrightarrow> secured t j = (j \<notin> set ys \<and> secured s j))"
  then have "valid x" using assms(2) by simp
  then show "wp (thenM (unsecure x) (ret ())) (\<lambda>_ t. inv t \<and>
      (\<forall>j. valid j \<longrightarrow> secured t j = (j \<notin> set (ys @ [x]) \<and> secured s j))) t"
    unfolding wp_thenM by (intro wp_mono [OF unsecure]) (use t in \<open>auto simp: wp_simps\<close>)
qed (use assms in simp_all)

end

section \<open>Properties\<close>

text \<open>Interrupt numbers: an operation on a descriptor whose number is not below the chip's
  count panics before the driver or the handler table is touched.\<close>

lemma irq_out_of_range_panics:
  assumes "irq_chips (irqv s) (desc_chip d) = Some ch" "num_irqs ch \<le> desc_irq d"
  shows "irq_enable tbl d s = Inl Panic \<and> irq_disable tbl d s = Inl Panic
    \<and> irq_secure tbl d s = Inl Panic \<and> irq_unsecure tbl d s = Inl Panic
    \<and> irq_raise tbl d s = Inl Panic \<and> irq_add tbl d flags h s = Inl Panic
    \<and> irq_remove tbl d s = Inl Panic \<and> irq_handle tbl call (desc_chip d) (desc_irq d) s = Inl Panic"
  using assms
  by (simp add: irq_enable_def irq_disable_def irq_secure_def irq_unsecure_def irq_raise_def
      irq_add_def irq_remove_def irq_handle_def irq_op_def chip_at_def bindM_def gets_def deref_def
      irq_check_valid_def ret_def panic_def throw_def)

text \<open>The test for an optional driver function is inverted: when the chip's driver has a function
  for software-generated interrupts or for affinity, \<open>irq_raise_sgi\<close> and \<open>irq_set_affinity\<close> return
  an error without calling it, and when it has none they call the NULL pointer.\<close>

lemma irq_optional_ops_inverted:
  assumes "irq_chips (irqv s) (desc_chip d) = Some ch" "desc_irq d < num_irqs ch"
  shows "irq_raise_sgi tbl d m s =
      (if op_raise_sgi (tbl (chip_ops ch)) = None then Inl Null_deref else Inr (- EINVAL, s))
    \<and> irq_set_affinity tbl d m s =
      (if op_set_affinity (tbl (chip_ops ch)) = None then Inl Null_deref else Inr (- EINVAL, s))"
  using assms
  by (auto simp: irq_raise_sgi_def irq_set_affinity_def chip_at_def bindM_def gets_def deref_def
      irq_check_valid_def ret_def throw_def split: option.splits)

definition chip_example :: kernel where
  "chip_example = blank\<lparr>irqv := \<lparr>irq_chips = [GIC_CHIP \<mapsto> \<lparr>chip_dev = 0, chip_ops = gic_ops,
     num_irqs = 160, default_handler = False, handlers = replicate 160 None\<rparr>], chips = [GIC_CHIP]\<rparr>\<rparr>"

definition no_ops :: ops_tables where
  "no_ops ops = \<lparr>op_map = None, op_add = None, op_remove = None, op_enable = None, op_disable = None,
     op_secure = None, op_unsecure = None, op_raise = None, op_raise_sgi = None, op_set_affinity = None\<rparr>"

lemma irq_out_of_range_panics_witness:
  "let d = \<lparr>desc_chip = GIC_CHIP, desc_irq = 160\<rparr>; h = \<lparr>h_handle = GPIO_KEYS_HANDLER, h_data = 0\<rparr> in
    irq_enable no_ops d chip_example = Inl Panic \<and> irq_disable no_ops d chip_example = Inl Panic
    \<and> irq_secure no_ops d chip_example = Inl Panic \<and> irq_unsecure no_ops d chip_example = Inl Panic
    \<and> irq_raise no_ops d chip_example = Inl Panic \<and> irq_add no_ops d 0 h chip_example = Inl Panic
    \<and> irq_remove no_ops d chip_example = Inl Panic
    \<and> irq_handle no_ops (\<lambda>_. ret ITRR_NONE) (desc_chip d) (desc_irq d) chip_example = Inl Panic"
  unfolding Let_def by (rule irq_out_of_range_panics) (simp add: chip_example_def, simp)

lemma irq_optional_ops_inverted_witness:
  "let d = \<lparr>desc_chip = GIC_CHIP, desc_irq = 9\<rparr> in
    irq_raise_sgi no_ops d 1 chip_example =
      (if op_raise_sgi (no_ops gic_ops) = None then Inl Null_deref else Inr (- EINVAL, chip_example))
    \<and> irq_set_affinity no_ops d 1 chip_example =
      (if op_set_affinity (no_ops gic_ops) = None then Inl Null_deref else Inr (- EINVAL, chip_example))"
proof -
  let ?ch = "\<lparr>chip_dev = 0, chip_ops = gic_ops, num_irqs = 160, default_handler = False,
    handlers = replicate 160 None\<rparr>"
  show ?thesis
    using irq_optional_ops_inverted [of chip_example "\<lparr>desc_chip = GIC_CHIP, desc_irq = 9\<rparr>" ?ch no_ops 1]
    by (simp add: chip_example_def)
qed

end
