(* ===== verification/Gic.thy ===== *)
theory Gic
  imports Core_Mmu Interrupt
begin

text \<open>
  core/drivers/gic.c, the GICv2 build: probing the number of interrupts, initialisation, and the
  operations of the chip (group assignment, enabling, targets, priority, pending, SGIs), the entry
  of the interrupt path and the table of operations. The driver's only instance \<open>g_gic\<close> is the
  field \<open>gic\<close> of the kernel.
\<close>

abbreviation (input) NUM_INTS_PER_REG :: nat where "NUM_INTS_PER_REG \<equiv> 32"
abbreviation (input) NUM_SGI :: nat where "NUM_SGI \<equiv> 16"
abbreviation (input) NUM_NS_SGI :: nat where "NUM_NS_SGI \<equiv> 8"

definition GICD_IGROUPR :: "nat \<Rightarrow> u32" where "GICD_IGROUPR n = 0x080 + of_nat n * 4"
definition GICD_ISENABLER :: "nat \<Rightarrow> u32" where "GICD_ISENABLER n = 0x100 + of_nat n * 4"
definition GICD_ICENABLER :: "nat \<Rightarrow> u32" where "GICD_ICENABLER n = 0x180 + of_nat n * 4"
definition GICD_ISPENDR :: "nat \<Rightarrow> u32" where "GICD_ISPENDR n = 0x200 + of_nat n * 4"
definition GICD_ICPENDR :: "nat \<Rightarrow> u32" where "GICD_ICPENDR n = 0x280 + of_nat n * 4"
definition GICD_IPRIORITYR :: "nat \<Rightarrow> u32" where "GICD_IPRIORITYR n = 0x400 + of_nat n * 4"
definition GICD_ITARGETSR :: "nat \<Rightarrow> u32" where "GICD_ITARGETSR n = 0x800 + of_nat n * 4"

section \<open>Access helpers\<close>

definition gicd_read :: "u32 \<Rightarrow> u32 km" where
  "gicd_read off = bindM (gets (\<lambda>s. gicd_base (gic s))) (\<lambda>b. read32 (b + off))"

definition gicd_write :: "u32 \<Rightarrow> u32 \<Rightarrow> unit km" where
  "gicd_write v off = bindM (gets (\<lambda>s. gicd_base (gic s))) (\<lambda>b. write32 v (b + off))"

definition gicc_write :: "u32 \<Rightarrow> u32 \<Rightarrow> unit km" where
  "gicc_write v off = bindM (gets (\<lambda>s. gicc_base (gic s))) (\<lambda>b. write32 v (b + off))"

abbreviation it_mask :: "nat \<Rightarrow> u32" where
  "it_mask it \<equiv> bit32 (it mod NUM_INTS_PER_REG)"

section \<open>Probing and initialisation\<close>

fun highest_bit :: "nat \<Rightarrow> u32 \<Rightarrow> nat option" where
  "highest_bit 0 reg = None"
| "highest_bit (Suc b) reg = (if bit32 b AND reg \<noteq> 0 then Some b else highest_bit b reg)"

fun probe_loop :: "vaddr \<Rightarrow> nat \<Rightarrow> nat km" where
  "probe_loop gicd 0 = ret 0"
| "probe_loop gicd (Suc i) =
     bindM (read32 (gicd + GICD_ISENABLER i)) (\<lambda>old_reg.
     thenM (write32 0xffffffff (gicd + GICD_ISENABLER i)) (
     bindM (read32 (gicd + GICD_ISENABLER i)) (\<lambda>reg.
     thenM (write32 old_reg (gicd + GICD_ICENABLER i)) (
     case highest_bit NUM_INTS_PER_REG reg of Some b \<Rightarrow> ret (i * NUM_INTS_PER_REG + b)
     | None \<Rightarrow> probe_loop gicd i))))"

definition probe_max_it :: "vaddr \<Rightarrow> vaddr \<Rightarrow> nat km" where
  "probe_max_it gicc gicd =
     bindM (read32 gicc) (\<lambda>old_ctlr.
     thenM (write32 0 gicc) (
     bindM (probe_loop gicd 32) (\<lambda>r.
     thenM (write32 old_ctlr gicc) (ret r))))"

definition gic_cpu_init :: "unit km" where
  "gic_cpu_init =
     bindM (gets gic) (\<lambda>g.
     thenM (cassert (gicd_base g \<noteq> 0 \<and> gicc_base g \<noteq> 0)) (
     thenM (gicd_write 0xffff00ff (GICD_IGROUPR 0)) (
     thenM (gicc_write 0x80 0x004) (
     gicc_write (1 OR 2 OR 8) 0x000))))"

definition gic_init :: "unit km" where
  "gic_init =
     bindM (gets (\<lambda>s. max_it (gic s))) (\<lambda>mx.
     thenM (forM [0..<mx div NUM_INTS_PER_REG + 1] (\<lambda>n.
       thenM (gicd_write 0xffffffff (GICD_ICENABLER n)) (
       thenM (gicd_write 0xffffffff (GICD_ICPENDR n)) (
       if n = 0 then gicd_write 0xffff00ff (GICD_IGROUPR n)
       else gicd_write 0xffffffff (GICD_IGROUPR n))))) (
     thenM (gicc_write 0x80 0x004) (
     thenM (gicc_write (1 OR 2 OR 8) 0x000) (
     bindM (gicd_read 0x000) (\<lambda>c. gicd_write (c OR 1 OR 2) 0x000)))))"

section \<open>Operations on one interrupt\<close>

definition gic_it_add :: "nat \<Rightarrow> unit km" where
  "gic_it_add it =
     (let idx = it div NUM_INTS_PER_REG in
      thenM (gicd_write (it_mask it) (GICD_ICENABLER idx)) (
      thenM (gicd_write (it_mask it) (GICD_ICPENDR idx)) (
      bindM (gicd_read (GICD_IGROUPR idx)) (\<lambda>g.
      gicd_write (g AND NOT (it_mask it)) (GICD_IGROUPR idx)))))"

definition assert_group0 :: "nat \<Rightarrow> unit km" where
  "assert_group0 it =
     bindM (gicd_read (GICD_IGROUPR (it div NUM_INTS_PER_REG))) (\<lambda>g.
     cassert (g AND it_mask it = 0))"

definition gic_it_set_cpu_mask :: "nat \<Rightarrow> u8 \<Rightarrow> unit km" where
  "gic_it_set_cpu_mask it cpu_mask =
     thenM (assert_group0 it) (
     bindM (gicd_read (GICD_ITARGETSR (it div 4))) (\<lambda>target.
     let target_shift = (it mod 4) * 8;
         target1 = target AND NOT (push_bit target_shift 0xff);
         target2 = target1 OR push_bit target_shift (ucast cpu_mask) in
     gicd_write target2 (GICD_ITARGETSR (it div 4))))"

definition gic_it_set_prio :: "nat \<Rightarrow> u8 \<Rightarrow> unit km" where
  "gic_it_set_prio it prio =
     thenM (assert_group0 it) (
     bindM (gets (\<lambda>s. gicd_base (gic s))) (\<lambda>b. write8 prio (b + GICD_IPRIORITYR 0 + of_nat it)))"

definition gic_it_enable :: "nat \<Rightarrow> unit km" where
  "gic_it_enable it =
     (let idx = it div NUM_INTS_PER_REG in
      thenM (assert_group0 it) (
      bindM (if it \<ge> NUM_SGI
             then bindM (gicd_read (GICD_ISENABLER idx)) (\<lambda>e. ret (e AND it_mask it \<noteq> 0))
             else ret False) (\<lambda>already.
      if already then ret ()
      else gicd_write (it_mask it) (GICD_ISENABLER idx))))"

definition gic_it_disable :: "nat \<Rightarrow> unit km" where
  "gic_it_disable it = gicd_write (it_mask it) (GICD_ICENABLER (it div NUM_INTS_PER_REG))"

definition gic_it_secure :: "nat \<Rightarrow> unit km" where
  "gic_it_secure it =
     (let idx = it div NUM_INTS_PER_REG in
      bindM (gicd_read (GICD_IGROUPR idx)) (\<lambda>g.
      if g AND it_mask it = 0 then ret ()
      else bindM (gicd_read (GICD_ISENABLER idx)) (\<lambda>e.
        let en = (e AND it_mask it \<noteq> 0) in
        thenM (whenM en (gicd_write (it_mask it) (GICD_ICENABLER idx))) (
        bindM (gicd_read (GICD_IGROUPR idx)) (\<lambda>g'.
        thenM (gicd_write (g' AND NOT (it_mask it)) (GICD_IGROUPR idx)) (
        thenM (gic_it_set_prio it 1) (
        whenM en (gicd_write (it_mask it) (GICD_ISENABLER idx)))))))))"

definition gic_it_unsecure :: "nat \<Rightarrow> unit km" where
  "gic_it_unsecure it =
     (let idx = it div NUM_INTS_PER_REG in
      bindM (gicd_read (GICD_IGROUPR idx)) (\<lambda>g.
      if g AND it_mask it \<noteq> 0 then ret ()
      else bindM (gicd_read (GICD_ISENABLER idx)) (\<lambda>e.
        let en = (e AND it_mask it \<noteq> 0) in
        thenM (whenM en (gicd_write (it_mask it) (GICD_ICENABLER idx))) (
        bindM (gicd_read (GICD_IGROUPR idx)) (\<lambda>g'.
        thenM (gicd_write (g' OR it_mask it) (GICD_IGROUPR idx)) (
        whenM en (gicd_write (it_mask it) (GICD_ISENABLER idx))))))))"

definition gic_it_set_pending :: "nat \<Rightarrow> unit km" where
  "gic_it_set_pending it =
     thenM (cassert (it \<ge> NUM_SGI)) (
     gicd_write (it_mask it) (GICD_ISPENDR (it div NUM_INTS_PER_REG)))"

definition gic_it_raise_sgi :: "nat \<Rightarrow> u8 \<Rightarrow> u8 \<Rightarrow> unit km" where
  "gic_it_raise_sgi it cpu_mask grp =
     (let mask_id = of_nat it AND 0xf; mask_group = ucast grp AND 0x1;
          mask_cpu = ucast cpu_mask AND 0xff;
          m = mask_id OR push_bit 15 mask_group OR push_bit 16 mask_cpu in
      thenM (cassert (it < NUM_SGI)) (gicd_write m 0xF00))"

definition gic_it_is_enabled :: "nat \<Rightarrow> bool km" where
  "gic_it_is_enabled it =
     bindM (gicd_read (GICD_ISENABLER (it div NUM_INTS_PER_REG))) (\<lambda>e. ret (e AND it_mask it \<noteq> 0))"

definition gic_it_get_group :: "nat \<Rightarrow> bool km" where
  "gic_it_get_group it =
     bindM (gicd_read (GICD_IGROUPR (it div NUM_INTS_PER_REG))) (\<lambda>g. ret (g AND it_mask it \<noteq> 0))"

definition gic_it_get_target :: "nat \<Rightarrow> u32 km" where
  "gic_it_get_target it =
     (let target_shift = (it mod 4) * 8; target_mask = push_bit target_shift 0xff in
      bindM (gicd_read (GICD_ITARGETSR (it div 4))) (\<lambda>t.
      ret (drop_bit target_shift (t AND target_mask))))"

section \<open>The chip's operations and the interrupt entry\<close>

definition gic_op_map :: "chip_ref \<Rightarrow> u32 list \<Rightarrow> (int \<times> nat \<times> u32) km" where
  "gic_op_map c dt_spec =
     bindM (index_at dt_spec 0) (\<lambda>kind.
     bindM (index_at dt_spec 1) (\<lambda>num.
     bindM (index_at dt_spec 2) (\<lambda>flags.
     let irq = unat ((if kind = 0 then 32 else 16) + num) in
     bindM (gets (\<lambda>s. max_it (gic s))) (\<lambda>mx.
     ret (if irq < mx then 0 else - EINVAL, irq, flags)))))"

definition gic_op_add :: "chip_ref \<Rightarrow> nat \<Rightarrow> u32 \<Rightarrow> int km" where
  "gic_op_add c it flags =
     thenM (gic_it_add it) (thenM (gic_it_set_cpu_mask it 1) (thenM (gic_it_set_prio it 1) (ret 0)))"

definition gic_op_enable :: "chip_ref \<Rightarrow> nat \<Rightarrow> int km" where
  "gic_op_enable c it = thenM (gic_it_enable it) (ret 0)"

definition gic_op_disable :: "chip_ref \<Rightarrow> nat \<Rightarrow> int km" where
  "gic_op_disable c it = thenM (gic_it_disable it) (ret 0)"

definition gic_op_secure :: "chip_ref \<Rightarrow> nat \<Rightarrow> int km" where
  "gic_op_secure c it = thenM (gic_it_secure it) (ret 0)"

definition gic_op_unsecure :: "chip_ref \<Rightarrow> nat \<Rightarrow> int km" where
  "gic_op_unsecure c it = thenM (gic_it_unsecure it) (ret 0)"

definition gic_op_raise :: "chip_ref \<Rightarrow> nat \<Rightarrow> int km" where
  "gic_op_raise c it = thenM (gic_it_set_pending it) (ret 0)"

definition gic_op_raise_sgi :: "chip_ref \<Rightarrow> nat \<Rightarrow> u8 \<Rightarrow> int km" where
  "gic_op_raise_sgi c it cpu_mask =
     thenM (gic_it_raise_sgi it cpu_mask (if it < NUM_NS_SGI then 1 else 0)) (ret 0)"

definition gic_op_set_affinity :: "chip_ref \<Rightarrow> nat \<Rightarrow> u8 \<Rightarrow> int km" where
  "gic_op_set_affinity c it cpu_mask = thenM (gic_it_set_cpu_mask it cpu_mask) (ret 0)"

definition gic_ops_table :: irq_chip_ops_table where
  "gic_ops_table = \<lparr>op_map = Some gic_op_map, op_add = Some gic_op_add, op_remove = None,
     op_enable = Some gic_op_enable, op_disable = Some gic_op_disable,
     op_secure = Some gic_op_secure, op_unsecure = Some gic_op_unsecure,
     op_raise = Some gic_op_raise, op_raise_sgi = Some gic_op_raise_sgi,
     op_set_affinity = Some gic_op_set_affinity\<rparr>"

definition gic_it_handle :: "ops_tables \<Rightarrow> (irq_handler \<Rightarrow> irq_return km) \<Rightarrow> unit km" where
  "gic_it_handle tbl call =
     bindM (gets gic) (\<lambda>g.
     bindM (read32 (gicc_base g + 0x00C)) (\<lambda>iar.
     let irq = unat (iar AND 0x3ff) in
     thenM (whenM (irq < max_it g)
       (bindM (chip_at GPC_CHIP) (\<lambda>gpc.
        bindM (index_at (handlers gpc) irq) (\<lambda>h.
        thenM (if h \<noteq> None then irq_handle tbl call GPC_CHIP irq
               else irq_handle tbl call GIC_CHIP irq) (ret ()))))) (
     gicc_write iar 0x010)))"

text \<open>\<open>data\<close> is the match table's entry: true for the GIC itself, false for the GPC in front of it.
  \<open>dev\<close> is the device's identifier, with its contents from the device table.\<close>

definition gic_probe :: "nat \<Rightarrow> bool \<Rightarrow> int km" where
  "gic_probe dev data =
     bindM (gets (\<lambda>s. devs (dt s) dev)) (\<lambda>d. bindM (deref d) (\<lambda>d.
     if data then
       if length (resources d) \<noteq> 2 \<or> dresource_type d \<noteq> RESOURCE_MEM then ret (- EINVAL)
       else
         bindM (index_at (address (resources d ! 0)) 0) (\<lambda>dist_paddr.
         bindM (index_at (address (resources d ! 1)) 0) (\<lambda>cpu_paddr.
         bindM (phys_to_virt cpu_paddr MEM_AREA_IO_SEC) (\<lambda>gicc.
         thenM (modifyM (\<lambda>s. s\<lparr>gic := (gic s)\<lparr>gicc_base := gicc\<rparr>\<rparr>)) (
         bindM (phys_to_virt dist_paddr MEM_AREA_IO_SEC) (\<lambda>gicd.
         thenM (modifyM (\<lambda>s. s\<lparr>gic := (gic s)\<lparr>gicd_base := gicd\<rparr>\<rparr>)) (
         bindM (probe_max_it gicc gicd) (\<lambda>mx.
         thenM (modifyM (\<lambda>s. s\<lparr>gic := (gic s)\<lparr>max_it := mx\<rparr>\<rparr>)) (
         thenM gic_init (
         thenM (irq_construct_chip GIC_CHIP dev gic_ops mx False) (ret 0))))))))))
     else
       bindM (gets (\<lambda>s. max_it (gic s))) (\<lambda>mx.
       thenM (irq_construct_chip GPC_CHIP dev gic_ops mx False) (ret 0))))"

section \<open>The distributor's registers\<close>

text \<open>The group and the enable bit of an interrupt, as the distributor at \<open>b\<close> holds them; group 0
  is the secure one.\<close>

definition it_group1 :: "u32 \<Rightarrow> (u32 \<Rightarrow> u32) \<Rightarrow> nat \<Rightarrow> bool" where
  "it_group1 b m it = bit (m (b + GICD_IGROUPR (it div 32))) (it mod 32)"

definition it_enabled :: "u32 \<Rightarrow> (u32 \<Rightarrow> u32) \<Rightarrow> nat \<Rightarrow> bool" where
  "it_enabled b m it = bit (m (b + GICD_ISENABLER (it div 32))) (it mod 32)"

definition it_same :: "u32 \<Rightarrow> nat \<Rightarrow> (u32 \<Rightarrow> u32) \<Rightarrow> (u32 \<Rightarrow> u32) \<Rightarrow> bool" where
  "it_same b n m m' \<longleftrightarrow> (\<forall>i < n. it_group1 b m' i = it_group1 b m i \<and> it_enabled b m' i = it_enabled b m i)"

text \<open>The documented behaviour of a GICv2 distributor with \<open>n\<close> interrupts: writing ones to
  ISENABLER and ICENABLER sets and clears enable bits, IGROUPR holds what is written, and writes
  to the pending, target and priority registers touch neither.\<close>

definition gicd_law :: "u32 \<Rightarrow> nat \<Rightarrow> (nat \<Rightarrow> u32 \<Rightarrow> u32 \<Rightarrow> (u32 \<Rightarrow> u32) \<Rightarrow> u32 \<Rightarrow> u32) \<Rightarrow> bool" where
  "gicd_law b n h \<longleftrightarrow> n \<le> 1024 \<and> (\<forall>v m.
     (\<forall>i < n. \<forall>k < 32.
        it_enabled b (h 4 (b + GICD_ISENABLER k) v m) i = (it_enabled b m i \<or> i div 32 = k \<and> bit v (i mod 32))
      \<and> it_group1 b (h 4 (b + GICD_ISENABLER k) v m) i = it_group1 b m i
      \<and> it_enabled b (h 4 (b + GICD_ICENABLER k) v m) i = (it_enabled b m i \<and> \<not> (i div 32 = k \<and> bit v (i mod 32)))
      \<and> it_group1 b (h 4 (b + GICD_ICENABLER k) v m) i = it_group1 b m i
      \<and> it_group1 b (h 4 (b + GICD_IGROUPR k) v m) i = (if i div 32 = k then bit v (i mod 32) else it_group1 b m i)
      \<and> it_enabled b (h 4 (b + GICD_IGROUPR k) v m) i = it_enabled b m i)
   \<and> (\<forall>k < 32. it_same b n m (h 4 (b + GICD_ICPENDR k) v m))
   \<and> (\<forall>k < 256. it_same b n m (h 4 (b + GICD_ITARGETSR k) v m))
   \<and> (\<forall>i < 1024. it_same b n m (h 1 (b + GICD_IPRIORITYR 0 + of_nat i) v m)))"

definition gic_inv :: "nat \<Rightarrow> kernel \<Rightarrow> bool" where
  "gic_inv n s \<longleftrightarrow> gicd_law (gicd_base (gic s)) n (hw (mach s))"

definition grp1 :: "kernel \<Rightarrow> nat \<Rightarrow> bool" where
  "grp1 s = it_group1 (gicd_base (gic s)) (io (mach s))"

definition ena :: "kernel \<Rightarrow> nat \<Rightarrow> bool" where
  "ena s = it_enabled (gicd_base (gic s)) (io (mach s))"

text \<open>What one store does to the abstract distributor.\<close>

lemma gic_inv_io_upd [simp]: "gic_inv n (io_upd m s) = gic_inv n s"
  by (simp add: gic_inv_def)

lemma wp_gicd_read [wp_simps]: "wp (gicd_read off) Q = (\<lambda>s. Q (io (mach s) (gicd_base (gic s) + off)) s)"
  by (rule ext) (simp add: gicd_read_def wp_simps)

lemma wp_gicd_write:
  "wp (gicd_write v off) Q = (\<lambda>s. Q () (io_upd (hw (mach s) 4 (gicd_base (gic s) + off) v (io (mach s))) s))"
  by (rule ext) (simp add: gicd_write_def wp_simps)

definition gic_post :: "nat \<Rightarrow> (nat \<Rightarrow> bool) \<Rightarrow> (nat \<Rightarrow> bool) \<Rightarrow> kernel \<Rightarrow> kernel \<Rightarrow> bool" where
  "gic_post n g e s t \<longleftrightarrow> (\<exists>m. t = io_upd m s) \<and> (\<forall>i < n. grp1 t i = g i \<and> ena t i = e i)"

lemma gic_postI: "(\<And>i. i < n \<Longrightarrow> grp1 (io_upd m s) i = g i \<and> ena (io_upd m s) i = e i) \<Longrightarrow> gic_post n g e s (io_upd m s)"
  by (auto simp: gic_post_def)

lemma div_less_32: "(i :: nat) < n \<Longrightarrow> n \<le> 1024 \<Longrightarrow> i div 32 < 32"
  by (simp add: less_mult_imp_div_less)

lemma wp_isenable:
  assumes "gic_inv n s" "k < 32"
  shows "wp (gicd_write v (GICD_ISENABLER k))
    (\<lambda>_. gic_post n (grp1 s) (\<lambda>i. ena s i \<or> i div 32 = k \<and> bit v (i mod 32)) s) s"
  unfolding wp_gicd_write by (rule gic_postI)
    (use assms in \<open>simp add: gic_inv_def gicd_law_def grp1_def ena_def\<close>)

lemma wp_icenable:
  assumes "gic_inv n s" "k < 32"
  shows "wp (gicd_write v (GICD_ICENABLER k))
    (\<lambda>_. gic_post n (grp1 s) (\<lambda>i. ena s i \<and> \<not> (i div 32 = k \<and> bit v (i mod 32))) s) s"
  unfolding wp_gicd_write by (rule gic_postI)
    (use assms in \<open>simp add: gic_inv_def gicd_law_def grp1_def ena_def\<close>)

lemma wp_igroup:
  assumes "gic_inv n s" "k < 32"
  shows "wp (gicd_write v (GICD_IGROUPR k))
    (\<lambda>_. gic_post n (\<lambda>i. if i div 32 = k then bit v (i mod 32) else grp1 s i) (ena s) s) s"
  unfolding wp_gicd_write by (rule gic_postI)
    (use assms in \<open>simp add: gic_inv_def gicd_law_def grp1_def ena_def\<close>)

lemma wp_icpend:
  assumes "gic_inv n s" "k < 32"
  shows "wp (gicd_write v (GICD_ICPENDR k)) (\<lambda>_. gic_post n (grp1 s) (ena s) s) s"
  unfolding wp_gicd_write by (rule gic_postI)
    (use assms in \<open>simp add: gic_inv_def gicd_law_def grp1_def ena_def it_same_def\<close>)

lemma wp_itarget:
  assumes "gic_inv n s" "k < 256"
  shows "wp (gicd_write v (GICD_ITARGETSR k)) (\<lambda>_. gic_post n (grp1 s) (ena s) s) s"
  unfolding wp_gicd_write by (rule gic_postI)
    (use assms in \<open>simp add: gic_inv_def gicd_law_def grp1_def ena_def it_same_def\<close>)

lemma wp_iprio:
  assumes "gic_inv n s" "i < 1024"
  shows "wp (write8 v (gicd_base (gic s) + GICD_IPRIORITYR 0 + of_nat i)) (\<lambda>_. gic_post n (grp1 s) (ena s) s) s"
  unfolding wp_write8 by (rule gic_postI)
    (use assms in \<open>simp add: gic_inv_def gicd_law_def grp1_def ena_def it_same_def\<close>)

lemma gic_post_trans:
  assumes "gic_post n g e s t" "gic_post n g' e' t u" "\<And>i. i < n \<Longrightarrow> g' i = g'' i \<and> e' i = e'' i"
  shows "gic_post n g'' e'' s u"
  using assms unfolding gic_post_def by (metis io_upd_sel(19))

lemma gic_post_inv: "gic_post n g e s t \<Longrightarrow> gic_inv n t = gic_inv n s"
  by (auto simp: gic_post_def)

lemma gic_post_sel: "gic_post n g e s t \<Longrightarrow> i < n \<Longrightarrow> grp1 t i = g i \<and> ena t i = e i"
  by (simp add: gic_post_def)

lemma gic_post_frame: "gic_post n g e s t \<Longrightarrow> gic t = gic s \<and> debug (mach t) = debug (mach s)"
  by (auto simp: gic_post_def)

lemma gic_post_refl: "gic_post n (grp1 s) (ena s) s s"
  unfolding gic_post_def by (rule conjI, rule exI [of _ "io (mach s)"]) (simp_all add: io_upd_def)

lemma it_eq_iff: "(i :: nat) = j \<longleftrightarrow> i div 32 = j div 32 \<and> i mod 32 = j mod 32"
  by (metis div_mod_decomp)

lemma group_bit: "io (mach s) (gicd_base (gic s) + GICD_IGROUPR (it div 32)) AND it_mask it = 0 \<longleftrightarrow> \<not> grp1 s it"
  by (simp add: and_bit32_eq_0_iff grp1_def it_group1_def)

lemma enable_bit: "io (mach s) (gicd_base (gic s) + GICD_ISENABLER (it div 32)) AND it_mask it = 0 \<longleftrightarrow> \<not> ena s it"
  by (simp add: and_bit32_eq_0_iff ena_def it_enabled_def)

lemma wp_assert_group0: "wp (assert_group0 it) Q = (\<lambda>s. (debug (mach s) \<longrightarrow> \<not> grp1 s it) \<and> Q () s)"
  by (rule ext) (simp add: assert_group0_def wp_simps group_bit)

text \<open>Clearing and setting one interrupt's bit of its group word.\<close>

lemma wp_group_clear:
  assumes "gic_inv n s" "it < n"
  shows "wp (gicd_write (io (mach s) (gicd_base (gic s) + GICD_IGROUPR (it div 32)) AND NOT (it_mask it))
      (GICD_IGROUPR (it div 32))) (\<lambda>_. gic_post n (\<lambda>i. grp1 s i \<and> i \<noteq> it) (ena s) s) s"
proof (rule wp_mono [OF wp_igroup [OF assms(1)]])
  have "n \<le> 1024" using assms(1) by (simp add: gic_inv_def gicd_law_def)
  with assms(2) show "it div 32 < 32" by (rule div_less_32)
qed (auto simp: gic_post_def bit_clear32 grp1_def it_group1_def it_eq_iff [of _ it])

lemma wp_group_set:
  assumes "gic_inv n s" "it < n"
  shows "wp (gicd_write (io (mach s) (gicd_base (gic s) + GICD_IGROUPR (it div 32)) OR it_mask it)
      (GICD_IGROUPR (it div 32))) (\<lambda>_. gic_post n (\<lambda>i. grp1 s i \<or> i = it) (ena s) s) s"
proof (rule wp_mono [OF wp_igroup [OF assms(1)]])
  have "n \<le> 1024" using assms(1) by (simp add: gic_inv_def gicd_law_def)
  with assms(2) show "it div 32 < 32" by (rule div_less_32)
qed (auto simp: gic_post_def bit_set32 grp1_def it_group1_def it_eq_iff [of _ it])

lemma wp_enable_bit:
  assumes "gic_inv n s" "it < n"
  shows "wp (gicd_write (it_mask it) (GICD_ISENABLER (it div 32)))
    (\<lambda>_. gic_post n (grp1 s) (\<lambda>i. ena s i \<or> i = it) s) s"
proof (rule wp_mono [OF wp_isenable [OF assms(1)]])
  have "n \<le> 1024" using assms(1) by (simp add: gic_inv_def gicd_law_def)
  with assms(2) show "it div 32 < 32" by (rule div_less_32)
qed (auto simp: gic_post_def bit_bit32 it_eq_iff [of _ it])

lemma wp_disable_bit:
  assumes "gic_inv n s" "it < n"
  shows "wp (gicd_write (it_mask it) (GICD_ICENABLER (it div 32)))
    (\<lambda>_. gic_post n (grp1 s) (\<lambda>i. ena s i \<and> i \<noteq> it) s) s"
proof (rule wp_mono [OF wp_icenable [OF assms(1)]])
  have "n \<le> 1024" using assms(1) by (simp add: gic_inv_def gicd_law_def)
  with assms(2) show "it div 32 < 32" by (rule div_less_32)
qed (auto simp: gic_post_def bit_bit32 it_eq_iff [of _ it])

section \<open>The effect of the driver's operations\<close>

lemma gic_post_weaken:
  "gic_post n g e s t \<Longrightarrow> (\<And>i. i < n \<Longrightarrow> g i = g' i \<and> e i = e' i) \<Longrightarrow> gic_post n g' e' s t"
  by (simp add: gic_post_def)

text \<open>Chaining: from a state already related to the start, run one more step.\<close>

lemma wp_gic_chain:
  assumes "wp p (\<lambda>_. gic_post n g e t) t" "gic_post n g0 e0 s t"
    and "\<And>u. gic_post n g e s u \<Longrightarrow> wp q Q u"
  shows "wp (thenM p q) Q t"
  by (rule wp_then_rule [OF assms(1)]) (rule assms(3), rule gic_post_trans [OF assms(2)], auto)

lemma wp_gic_it_set_prio:
  assumes "gic_inv n s" "it < n" "debug (mach s) \<longrightarrow> \<not> grp1 s it"
  shows "wp (gic_it_set_prio it p) (\<lambda>_. gic_post n (grp1 s) (ena s) s) s"
proof -
  have "it < 1024" using assms by (simp add: gic_inv_def gicd_law_def)
  then show ?thesis
    using assms(3) wp_iprio [OF assms(1)]
    by (simp add: gic_it_set_prio_def wp_thenM wp_bindM wp_gets wp_assert_group0)
qed

text \<open>The two halves of moving a line between groups: off while its group changes, and back.\<close>

lemma wp_disable_if:
  assumes "gic_inv n s" "it < n"
  shows "wp (whenM (ena s it) (gicd_write (it_mask it) (GICD_ICENABLER (it div 32))))
      (\<lambda>_. gic_post n (grp1 s) (\<lambda>i. ena s i \<and> i \<noteq> it) s) s"
  using wp_disable_bit [OF assms]
  by (cases "ena s it") (auto simp: wp_whenM intro!: gic_post_weaken [OF gic_post_refl])

lemma wp_reenable:
  assumes "gic_inv n s" "it < n" and u: "gic_post n g (\<lambda>i. ena s i \<and> i \<noteq> it) s u"
  shows "wp (whenM (ena s it) (gicd_write (it_mask it) (GICD_ISENABLER (it div 32))))
        (\<lambda>_. gic_post n g (ena s) s) u"
proof (cases "ena s it")
  case True
  have iu: "gic_inv n u" using u assms(1) gic_post_inv by blast
  show ?thesis
    unfolding wp_whenM using True
    by (auto intro!: wp_mono [OF wp_enable_bit [OF iu assms(2)]] elim!: gic_post_trans [OF u]
        simp: gic_post_sel [OF u])
next
  case False
  then show ?thesis using u by (auto simp: wp_whenM elim!: gic_post_weaken)
qed

lemma wp_gic_it_secure:
  assumes "gic_inv n s" "it < n"
  shows "wp (gic_it_secure it) (\<lambda>_. gic_post n (\<lambda>i. grp1 s i \<and> i \<noteq> it) (ena s) s) s"
proof (cases "grp1 s it")
  case False
  then show ?thesis
    by (auto simp: gic_it_secure_def wp_simps group_bit Let_def intro!: gic_post_weaken [OF gic_post_refl])
next
  case True
  let ?g = "\<lambda>i. grp1 s i \<and> i \<noteq> it" and ?e = "\<lambda>i. ena s i \<and> i \<noteq> it"
  let ?en = "whenM (ena s it) (gicd_write (it_mask it) (GICD_ISENABLER (it div 32)))"
  have prio: "wp (thenM (gic_it_set_prio it 1) ?en) (\<lambda>_. gic_post n ?g (ena s) s) u"
    if u: "gic_post n ?g ?e s u" for u
  proof (rule wp_gic_chain [OF wp_gic_it_set_prio u])
    show "gic_inv n u" using u assms(1) gic_post_inv by blast
    show "debug (mach u) \<longrightarrow> \<not> grp1 u it" using gic_post_sel [OF u assms(2)] by simp
    fix v assume "gic_post n (grp1 u) (ena u) s v"
    then have "gic_post n ?g ?e s v" by (rule gic_post_weaken) (use gic_post_sel [OF u] in auto)
    then show "wp ?en (\<lambda>_. gic_post n ?g (ena s) s) v" by (rule wp_reenable [OF assms])
  qed (rule assms(2))
  have "wp (bindM (gicd_read (GICD_IGROUPR (it div 32))) (\<lambda>g'.
        thenM (gicd_write (g' AND NOT (it_mask it)) (GICD_IGROUPR (it div 32))) (
        thenM (gic_it_set_prio it 1) ?en)))
      (\<lambda>_. gic_post n ?g (ena s) s) t" if t: "gic_post n (grp1 s) ?e s t" for t
  proof -
    have inv: "gic_inv n t" using t assms(1) gic_post_inv by blast
    show ?thesis
      unfolding wp_bindM wp_gicd_read
      by (rule wp_gic_chain [OF wp_group_clear [OF inv assms(2)] t], rule prio)
        (auto elim!: gic_post_weaken simp: gic_post_sel [OF t])
  qed
  from wp_then_rule [OF wp_disable_if [OF assms] this] show ?thesis
    using True by (simp add: gic_it_secure_def Let_def wp_bindM wp_gicd_read group_bit enable_bit)
qed

lemma wp_gic_it_unsecure:
  assumes "gic_inv n s" "it < n"
  shows "wp (gic_it_unsecure it) (\<lambda>_. gic_post n (\<lambda>i. grp1 s i \<or> i = it) (ena s) s) s"
proof (cases "grp1 s it")
  case True
  then show ?thesis
    by (auto simp: gic_it_unsecure_def wp_simps group_bit Let_def intro!: gic_post_weaken [OF gic_post_refl])
next
  case False
  let ?g = "\<lambda>i. grp1 s i \<or> i = it" and ?e = "\<lambda>i. ena s i \<and> i \<noteq> it"
  let ?en = "whenM (ena s it) (gicd_write (it_mask it) (GICD_ISENABLER (it div 32)))"
  have "wp (bindM (gicd_read (GICD_IGROUPR (it div 32))) (\<lambda>g'.
        thenM (gicd_write (g' OR it_mask it) (GICD_IGROUPR (it div 32))) ?en))
      (\<lambda>_. gic_post n ?g (ena s) s) t" if t: "gic_post n (grp1 s) ?e s t" for t
  proof -
    have inv: "gic_inv n t" using t assms(1) gic_post_inv by blast
    show ?thesis
      unfolding wp_bindM wp_gicd_read
      by (rule wp_gic_chain [OF wp_group_set [OF inv assms(2)] t], rule wp_reenable [OF assms])
        (auto elim!: gic_post_weaken simp: gic_post_sel [OF t])
  qed
  from wp_then_rule [OF wp_disable_if [OF assms] this] show ?thesis
    using False by (simp add: gic_it_unsecure_def Let_def wp_bindM wp_gicd_read group_bit enable_bit)
qed

lemma wp_gic_it_enable:
  assumes "gic_inv n s" "it < n" "debug (mach s) \<longrightarrow> \<not> grp1 s it"
  shows "wp (gic_it_enable it) (\<lambda>_. gic_post n (grp1 s) (\<lambda>i. ena s i \<or> i = it) s) s"
proof -
  have "gic_post n (grp1 s) (\<lambda>i. ena s i \<or> i = it) s s" if "ena s it"
    using that by (auto intro!: gic_post_weaken [OF gic_post_refl])
  then show ?thesis
    using assms(3) wp_enable_bit [OF assms(1,2)]
    by (cases "16 \<le> it") (simp_all add: gic_it_enable_def Let_def wp_thenM wp_bindM wp_if wp_ret
        wp_gicd_read wp_assert_group0 enable_bit)
qed

lemma wp_gic_it_add:
  assumes "gic_inv n s" "it < n"
  shows "wp (gic_it_add it) (\<lambda>_. gic_post n (\<lambda>i. grp1 s i \<and> i \<noteq> it) (\<lambda>i. ena s i \<and> i \<noteq> it) s) s"
  unfolding gic_it_add_def Let_def
proof (rule wp_gic_chain [OF wp_disable_bit [OF assms] gic_post_refl])
  fix t
  assume t: "gic_post n (grp1 s) (\<lambda>i. ena s i \<and> i \<noteq> it) s t"
  have it: "gic_inv n t" using t assms(1) gic_post_inv by blast
  have d: "it div 32 < 32" using assms by (intro div_less_32 [of it n]) (simp_all add: gic_inv_def gicd_law_def)
  show "wp (thenM (gicd_write (it_mask it) (GICD_ICPENDR (it div 32)))
      (bindM (gicd_read (GICD_IGROUPR (it div 32))) (\<lambda>g.
        gicd_write (g AND NOT (it_mask it)) (GICD_IGROUPR (it div 32)))))
    (\<lambda>_. gic_post n (\<lambda>i. grp1 s i \<and> i \<noteq> it) (\<lambda>i. ena s i \<and> i \<noteq> it) s) t"
  proof (rule wp_gic_chain [OF wp_icpend [OF it d] t])
    fix u
    assume "gic_post n (grp1 t) (ena t) s u"
    then have u: "gic_post n (grp1 s) (\<lambda>i. ena s i \<and> i \<noteq> it) s u"
      by (rule gic_post_weaken) (simp add: gic_post_sel [OF t])
    have iu: "gic_inv n u" using u assms(1) gic_post_inv by blast
    show "wp (bindM (gicd_read (GICD_IGROUPR (it div 32))) (\<lambda>g.
        gicd_write (g AND NOT (it_mask it)) (GICD_IGROUPR (it div 32))))
      (\<lambda>_. gic_post n (\<lambda>i. grp1 s i \<and> i \<noteq> it) (\<lambda>i. ena s i \<and> i \<noteq> it) s) u"
      unfolding wp_bindM wp_gicd_read
      by (rule wp_mono [OF wp_group_clear [OF iu assms(2)]], erule gic_post_trans [OF u])
        (auto simp: gic_post_sel [OF u])
  qed
qed

interpretation gic_irq: irq_securing "gic_op_secure c" "gic_op_unsecure c"
  "\<lambda>s i. \<not> grp1 s i" "\<lambda>i. i < n" "gic_inv n" for c n
proof
  fix s i
  assume a: "gic_inv n s" "i < n"
  show "wp (gic_op_secure c i) (\<lambda>r t. r = 0 \<and> gic_inv n t \<and> (\<forall>j<n. (\<not> grp1 t j) = (j = i \<or> \<not> grp1 s j))) s"
    unfolding gic_op_secure_def wp_thenM
    by (rule wp_mono [OF wp_gic_it_secure [OF a]])
      (use a(1) in \<open>auto simp: wp_simps gic_post_inv gic_post_sel\<close>)
  show "wp (gic_op_unsecure c i) (\<lambda>r t. r = 0 \<and> gic_inv n t \<and> (\<forall>j<n. (\<not> grp1 t j) = (j \<noteq> i \<and> \<not> grp1 s j))) s"
    unfolding gic_op_unsecure_def wp_thenM
    by (rule wp_mono [OF wp_gic_it_unsecure [OF a]])
      (use a(1) in \<open>auto simp: wp_simps gic_post_inv gic_post_sel\<close>)
qed

section \<open>A distributor for witnesses\<close>

text \<open>\<open>gic_hw b\<close>: plain word registers, but with the set-enable and clear-enable banks of the
  distributor at \<open>b\<close> as two ways to write one set of bits; byte stores, which the driver makes
  to the priority registers only, have no visible effect.\<close>

definition off_index :: "u32 \<Rightarrow> u32 \<Rightarrow> nat option" where
  "off_index a base = (let d = unat (a - base) in if d < 128 \<and> d mod 4 = 0 then Some (d div 4) else None)"

definition gic_hw :: "u32 \<Rightarrow> nat \<Rightarrow> u32 \<Rightarrow> u32 \<Rightarrow> (u32 \<Rightarrow> u32) \<Rightarrow> u32 \<Rightarrow> u32" where
  "gic_hw b n a v m =
     (if n \<noteq> 4 then m else case off_index a (b + 0x100) of
        Some k \<Rightarrow> m(b + GICD_ISENABLER k := m (b + GICD_ISENABLER k) OR v)
      | None \<Rightarrow> (case off_index a (b + 0x180) of
          Some k \<Rightarrow> m(b + GICD_ISENABLER k := m (b + GICD_ISENABLER k) AND NOT v)
        | None \<Rightarrow> m(a := v)))"

lemma unat_off: "c + 4 * k < 2 ^ 32 \<Longrightarrow> unat (of_nat c + of_nat k * 4 :: u32) = c + 4 * k"
proof -
  assume "c + 4 * k < 2 ^ 32"
  then have "unat (of_nat (c + 4 * k) :: u32) = c + 4 * k" by (intro unat_of_nat_small) simp
  moreover have "(of_nat (c + 4 * k) :: u32) = of_nat c + of_nat k * 4" by simp
  ultimately show ?thesis by (simp only:)
qed

lemma regs_unat:
  "k < 256 \<Longrightarrow> unat (GICD_IGROUPR k) = 0x80 + 4 * k" "k < 256 \<Longrightarrow> unat (GICD_ISENABLER k) = 0x100 + 4 * k"
  "k < 256 \<Longrightarrow> unat (GICD_ICENABLER k) = 0x180 + 4 * k" "k < 256 \<Longrightarrow> unat (GICD_ICPENDR k) = 0x280 + 4 * k"
  "k < 256 \<Longrightarrow> unat (GICD_ITARGETSR k) = 0x800 + 4 * k"
  using unat_off [of "0x80" k] unat_off [of "0x100" k] unat_off [of "0x180" k] unat_off [of "0x280" k]
    unat_off [of "0x800" k]
  by (simp_all add: GICD_IGROUPR_def GICD_ISENABLER_def GICD_ICENABLER_def GICD_ICPENDR_def GICD_ITARGETSR_def)

lemma off_index_reg: "off_index (b + x) (b + y) = (let d = unat (x - y) in if d < 128 \<and> d mod 4 = 0 then Some (d div 4) else None)"
  by (simp add: off_index_def)

lemma off_index_iff:
  "unat y + 128 \<le> 2 ^ 32 \<Longrightarrow> off_index (b + x) (b + y) = (if unat y \<le> unat x \<and> unat x < unat y + 128 \<and> (unat x - unat y) mod 4 = 0
      then Some ((unat x - unat y) div 4) else None)"
  unfolding off_index_reg Let_def unat_sub32 using unat_lt32 [of x] unat_lt32 [of y] by auto


lemma off_index_regs:
  assumes "k < 32"
  shows "off_index (b + GICD_ISENABLER k) (b + 0x100) = Some k"
    "off_index (b + GICD_ICENABLER k) (b + 0x100) = None"
    "off_index (b + GICD_ICENABLER k) (b + 0x180) = Some k"
    "off_index (b + GICD_IGROUPR k) (b + 0x100) = None" "off_index (b + GICD_IGROUPR k) (b + 0x180) = None"
    "off_index (b + GICD_ICPENDR k) (b + 0x100) = None" "off_index (b + GICD_ICPENDR k) (b + 0x180) = None"
  using assms by (simp_all add: off_index_iff regs_unat)

lemma off_index_target: "k < 256 \<Longrightarrow> off_index (b + GICD_ITARGETSR k) (b + 0x100) = None
    \<and> off_index (b + GICD_ITARGETSR k) (b + 0x180) = None"
  by (simp add: off_index_iff regs_unat)

lemma based_eq_iff: "b + x = b + y \<longleftrightarrow> unat x = unat (y :: u32)"
  by (metis add_left_cancel word_unat_eq_iff)

lemma gic_reg_neq:
  assumes "k < 32" "j < 32" "l < 256"
  shows "b + GICD_ISENABLER j \<noteq> b + GICD_IGROUPR k" "b + GICD_IGROUPR j \<noteq> b + GICD_ISENABLER k"
    "b + GICD_IGROUPR j \<noteq> b + GICD_ICPENDR k" "b + GICD_ISENABLER j \<noteq> b + GICD_ICPENDR k"
    "b + GICD_IGROUPR j \<noteq> b + GICD_ITARGETSR l" "b + GICD_ISENABLER j \<noteq> b + GICD_ITARGETSR l"
    "b + GICD_ISENABLER j = b + GICD_ISENABLER k \<longleftrightarrow> j = k" "b + GICD_IGROUPR j = b + GICD_IGROUPR k \<longleftrightarrow> j = k"
  using assms unfolding based_eq_iff by (simp_all add: regs_unat)

lemma gicd_law_gic_hw: "n \<le> 1024 \<Longrightarrow> gicd_law b n (gic_hw b)"
proof -
  assume n: "n \<le> 1024"
  have d: "i div 32 < 32" if "i < n" for i using that n by (rule div_less_32)
  note defs = gic_hw_def off_index_regs it_enabled_def it_group1_def
  show ?thesis
    unfolding gicd_law_def
  proof (intro conjI allI impI n)
    fix v m i k assume i: "i < n" and k: "(k :: nat) < 32"
    note nq = gic_reg_neq [OF k d [OF i], of 0]
    show "it_enabled b (gic_hw b 4 (b + GICD_ISENABLER k) v m) i = (it_enabled b m i \<or> i div 32 = k \<and> bit v (i mod 32))"
      using k nq by (auto simp: defs bit_or_iff)
    show "it_group1 b (gic_hw b 4 (b + GICD_ISENABLER k) v m) i = it_group1 b m i"
      using k nq by (simp add: defs)
    show "it_enabled b (gic_hw b 4 (b + GICD_ICENABLER k) v m) i = (it_enabled b m i \<and> \<not> (i div 32 = k \<and> bit v (i mod 32)))"
      using k nq by (auto simp: defs bit_and_iff bit_not_iff)
    show "it_group1 b (gic_hw b 4 (b + GICD_ICENABLER k) v m) i = it_group1 b m i"
      using k nq by (simp add: defs)
    show "it_group1 b (gic_hw b 4 (b + GICD_IGROUPR k) v m) i = (if i div 32 = k then bit v (i mod 32) else it_group1 b m i)"
      using k nq by (auto simp: defs)
    show "it_enabled b (gic_hw b 4 (b + GICD_IGROUPR k) v m) i = it_enabled b m i"
      using k nq by (simp add: defs)
  next
    fix v m k assume k: "(k :: nat) < 32"
    show "it_same b n m (gic_hw b 4 (b + GICD_ICPENDR k) v m)"
      unfolding it_same_def using k gic_reg_neq [OF k d, of _ 0] by (simp add: defs)
  next
    fix v m k assume k: "(k :: nat) < 256"
    show "it_same b n m (gic_hw b 4 (b + GICD_ITARGETSR k) v m)"
      unfolding it_same_def using k gic_reg_neq [of 0, OF _ d k] by (simp add: defs off_index_target)
  next
    fix v m i
    show "it_same b n m (gic_hw b 1 (b + GICD_IPRIORITYR 0 + of_nat i) v m)"
      by (simp add: it_same_def gic_hw_def)
  qed
qed

definition gic_example :: kernel where
  "gic_example = blank\<lparr>mach := (mach blank)\<lparr>hw := gic_hw 0x50000000, io := (\<lambda>_. 0xFFFFFFFF)\<rparr>,
     gic := \<lparr>gicc_base = 0x50001000, gicd_base = 0x50000000, max_it = 159\<rparr>\<rparr>"

lemma gic_example_inv: "gic_inv 160 gic_example"
  by (simp add: gic_inv_def gic_example_def gicd_law_gic_hw)

section \<open>Properties\<close>

text \<open>C26: Moving an interrupt between the worlds: on a GICv2 distributor \<open>gic_op_secure\<close> and
  \<open>gic_op_unsecure\<close> return without a fault, move exactly that interrupt to group 0 or group 1, and
  leave the group and the enable bit of every other interrupt, and its own enable bit, as they were.\<close>

theorem gic_securing_correct:
  assumes "gicd_law (gicd_base (gic s)) n (hw (mach s))" "it < n"
  shows "wp (gic_op_secure c it) (\<lambda>r t. r = 0 \<and> (\<forall>i < n. grp1 t i = (grp1 s i \<and> i \<noteq> it) \<and> ena t i = ena s i)) s
    \<and> wp (gic_op_unsecure c it) (\<lambda>r t. r = 0 \<and> (\<forall>i < n. grp1 t i = (grp1 s i \<or> i = it) \<and> ena t i = ena s i)) s"
proof -
  have inv: "gic_inv n s" using assms(1) by (simp add: gic_inv_def)
  show ?thesis
    unfolding gic_op_secure_def gic_op_unsecure_def wp_thenM
    by (intro conjI wp_mono [OF wp_gic_it_secure [OF inv assms(2)]]
        wp_mono [OF wp_gic_it_unsecure [OF inv assms(2)]]) (auto simp: wp_simps gic_post_sel)
qed

lemma gic_securing_correct_witness:
  "wp (gic_op_secure GIC_CHIP 58) (\<lambda>r t. r = 0 \<and> (\<forall>i < 160. grp1 t i = (grp1 gic_example i \<and> i \<noteq> 58)
        \<and> ena t i = ena gic_example i)) gic_example
    \<and> wp (gic_op_unsecure GIC_CHIP 58) (\<lambda>r t. r = 0 \<and> (\<forall>i < 160. grp1 t i = (grp1 gic_example i \<or> i = 58)
        \<and> ena t i = ena gic_example i)) gic_example"
  by (rule gic_securing_correct) (use gic_example_inv in \<open>simp_all add: gic_inv_def\<close>)

text \<open>In a debug build an interrupt given back to the normal world cannot be enabled through
  the driver: \<open>gic_op_enable\<close> asserts that the interrupt is in group 0, so the unsecure-then-enable
  sequence of \<open>dt_enable_device\<close> always ends in a failed assertion.\<close>

lemma gic_enable_after_unsecure_asserts:
  assumes "gicd_law (gicd_base (gic s)) n (hw (mach s))" "it < n" "debug (mach s)"
  shows "thenM (gic_op_unsecure c it) (gic_op_enable c it) s = Inl Assert_fail"
proof -
  have inv: "gic_inv n s" using assms(1) by (simp add: gic_inv_def)
  from wp_gic_it_unsecure [OF inv assms(2)] obtain t where
    t: "gic_it_unsecure it s = Inr ((), t)" "gic_post n (\<lambda>i. grp1 s i \<or> i = it) (ena s) s t"
    by (auto simp: wp_iff)
  have g: "debug (mach t)" "grp1 t it"
    using gic_post_frame [OF t(2)] gic_post_sel [OF t(2) assms(2)] assms(3) by auto
  have "gicd_read (GICD_IGROUPR (it div 32)) t =
      Inr (io (mach t) (gicd_base (gic t) + GICD_IGROUPR (it div 32)), t)"
    by (simp add: gicd_read_def bindM_def gets_def read32_def)
  then show ?thesis
    using t(1) g group_bit [of t it]
    by (simp add: gic_op_unsecure_def gic_op_enable_def thenM_def bindM_def ret_def gic_it_enable_def
        Let_def assert_group0_def cassert_def gets_def throw_def)
qed

lemma gic_enable_after_unsecure_asserts_witness:
  "thenM (gic_op_unsecure GIC_CHIP 58) (gic_op_enable GIC_CHIP 58) gic_example = Inl Assert_fail"
  by (rule gic_enable_after_unsecure_asserts [where n = 160])
    (use gic_example_inv in \<open>simp_all add: gic_inv_def gic_example_def blank_def\<close>)

text \<open>The three control registers the initialisation writes are not part of the group and enable
  banks.\<close>

definition gic_ctl_law :: "nat \<Rightarrow> kernel \<Rightarrow> bool" where
  "gic_ctl_law n s \<longleftrightarrow> (\<forall>a \<in> {gicc_base (gic s) + 4, gicc_base (gic s), gicd_base (gic s)}. \<forall>v m.
     it_same (gicd_base (gic s)) n m (hw (mach s) 4 a v m))"

lemma bit_sgi_groups: "i < 32 \<Longrightarrow> bit (0xffff00ff :: u32) i \<longleftrightarrow> \<not> (8 \<le> i \<and> i < 16)"
proof -
  have "\<forall>i \<in> set [0..<32]. bit (0xffff00ff :: u32) i = (\<not> (8 \<le> i \<and> i < 16))" by code_simp
  then show "i < 32 \<Longrightarrow> ?thesis" by simp
qed

lemma bit_ones32: "bit (0xffffffff :: u32) i \<longleftrightarrow> i < 32"
proof -
  have e: "(0xffffffff :: u32) = mask 32" by code_simp
  show ?thesis unfolding e by (simp add: bit_mask_iff)
qed

definition init_group :: "nat \<Rightarrow> bool" where
  "init_group i \<longleftrightarrow> \<not> (8 \<le> i \<and> i < 16)"

definition gic_init_bank :: "nat \<Rightarrow> unit km" where
  "gic_init_bank n = thenM (gicd_write 0xffffffff (GICD_ICENABLER n)) (
       thenM (gicd_write 0xffffffff (GICD_ICPENDR n)) (
       if n = 0 then gicd_write 0xffff00ff (GICD_IGROUPR n)
       else gicd_write 0xffffffff (GICD_IGROUPR n)))"

lemma wp_gic_init_bank:
  assumes "gic_inv n s" "k < 32"
  shows "wp (gic_init_bank k) (\<lambda>_. gic_post n (\<lambda>i. if i div 32 = k then init_group i else grp1 s i)
     (\<lambda>i. ena s i \<and> i div 32 \<noteq> k) s) s"
  unfolding gic_init_bank_def
proof (rule wp_gic_chain [OF wp_icenable [OF assms] gic_post_refl])
  fix t
  assume "gic_post n (grp1 s) (\<lambda>i. ena s i \<and> \<not> (i div 32 = k \<and> bit (0xffffffff :: u32) (i mod 32))) s t"
  then have t: "gic_post n (grp1 s) (\<lambda>i. ena s i \<and> i div 32 \<noteq> k) s t"
    unfolding bit_ones32 by (rule gic_post_weaken) auto
  have it: "gic_inv n t" using t assms(1) gic_post_inv by blast
  show "wp (thenM (gicd_write 0xffffffff (GICD_ICPENDR k)) (
       if k = 0 then gicd_write 0xffff00ff (GICD_IGROUPR k) else gicd_write 0xffffffff (GICD_IGROUPR k)))
     (\<lambda>_. gic_post n (\<lambda>i. if i div 32 = k then init_group i else grp1 s i) (\<lambda>i. ena s i \<and> i div 32 \<noteq> k) s) t"
  proof (rule wp_gic_chain [OF wp_icpend [OF it assms(2)] t])
    fix u
    assume "gic_post n (grp1 t) (ena t) s u"
    then have u: "gic_post n (grp1 s) (\<lambda>i. ena s i \<and> i div 32 \<noteq> k) s u"
      by (rule gic_post_weaken) (simp add: gic_post_sel [OF t])
    have iu: "gic_inv n u" using u assms(1) gic_post_inv by blast
    define w :: u32 where "w = (if k = 0 then 0xffff00ff else 0xffffffff)"
    have gb: "bit w (i mod 32) = init_group i" if "i div 32 = k" for i
    proof (cases "k = 0")
      case True
      then have "i < 32" using that by simp
      then have "bit (0xffff00ff :: u32) i = init_group i" unfolding init_group_def by (rule bit_sgi_groups)
      moreover have "w = 0xffff00ff" "i mod 32 = i" using True \<open>i < 32\<close> by (simp_all add: w_def)
      ultimately show ?thesis by (simp only:)
    next
      case False
      then have "32 \<le> i" using that by (metis div_less not_less)
      then show ?thesis using False bit_ones32 [of "i mod 32"] by (simp only: w_def init_group_def if_False) auto
    qed
    have g: "wp (gicd_write w (GICD_IGROUPR k))
       (\<lambda>_. gic_post n (\<lambda>i. if i div 32 = k then init_group i else grp1 s i) (\<lambda>i. ena s i \<and> i div 32 \<noteq> k) s) u"
      by (rule wp_mono [OF wp_igroup [OF iu assms(2)]], erule gic_post_trans [OF u])
        (auto simp: gic_post_sel [OF u] gb)
    then show "wp (if k = 0 then gicd_write 0xffff00ff (GICD_IGROUPR k) else gicd_write 0xffffffff (GICD_IGROUPR k))
       (\<lambda>_. gic_post n (\<lambda>i. if i div 32 = k then init_group i else grp1 s i) (\<lambda>i. ena s i \<and> i div 32 \<noteq> k) s) u"
      by (cases "k = 0") (simp_all add: w_def)
  qed
qed

lemma wp_gic_init_banks:
  assumes "gic_inv n s" "mx < 32"
  shows "wp (forM [0..<mx + 1] gic_init_bank) (\<lambda>_ t. (\<exists>m. t = io_upd m s) \<and>
     (\<forall>i < n. i div 32 \<le> mx \<longrightarrow> grp1 t i = init_group i \<and> \<not> ena t i)) s"
proof -
  let ?I = "\<lambda>ys t. (\<exists>m. t = io_upd m s) \<and> (\<forall>i < n. i div 32 \<in> set ys \<longrightarrow> grp1 t i = init_group i \<and> \<not> ena t i)"
  have "wp (forM [0..<mx + 1] gic_init_bank) (\<lambda>_. ?I [0..<mx + 1]) s"
  proof (rule wp_forM [where I = ?I])
    show "?I [] s" by (auto intro!: exI [of _ "io (mach s)"] simp: io_upd_def)
  next
    fix ys x zs t
    assume l: "[0..<mx + 1] = ys @ x # zs" and t: "?I ys t"
    have "x \<in> set [0..<mx + 1]" unfolding l by simp
    then have x: "x < 32" using assms(2) by auto
    have it: "gic_inv n t" using t assms(1) by auto
    show "wp (gic_init_bank x) (\<lambda>_. ?I (ys @ [x])) t"
    proof (rule wp_mono [OF wp_gic_init_bank [OF it x]])
      fix u
      assume u: "gic_post n (\<lambda>i. if i div 32 = x then init_group i else grp1 t i) (\<lambda>i. ena t i \<and> i div 32 \<noteq> x) t u"
      then show "?I (ys @ [x]) u" using t by (auto simp: gic_post_def)
    qed
  qed
  then show ?thesis by (rule wp_mono) auto
qed

lemma wp_gicc_write:
  "wp (gicc_write v off) Q = (\<lambda>s. Q () (io_upd (hw (mach s) 4 (gicc_base (gic s) + off) v (io (mach s))) s))"
  by (rule ext) (simp add: gicc_write_def wp_simps)



text \<open>The largest interrupt is never delivered: \<open>probe_max_it\<close> returns the largest interrupt
  number, but the handler accepts only numbers below it, so an interrupt with that number is
  acknowledged and completed without its handler being called.\<close>

lemma gic_largest_interrupt_ignored:
  assumes "unat (io (mach s) (gicc_base (gic s) + 0x00C) AND 0x3ff) = max_it (gic s)"
  shows "gic_it_handle tbl call s = gicc_write (io (mach s) (gicc_base (gic s) + 0x00C)) 0x010 s"
  using assms
  by (simp add: gic_it_handle_def bindM_def thenM_def gets_def read32_def Let_def whenM_def ret_def)

lemma gic_largest_interrupt_ignored_witness:
  "gic_it_handle no_ops (\<lambda>_. ret ITRR_HANDLED) (io_upd (\<lambda>_. 159) gic_example)
     = gicc_write (io (mach (io_upd (\<lambda>_. 159) gic_example)) (gicc_base (gic (io_upd (\<lambda>_. 159) gic_example)) + 0x00C))
         0x010 (io_upd (\<lambda>_. 159) gic_example)"
proof (rule gic_largest_interrupt_ignored)
  have "unat ((159 :: u32) AND 0x3ff) = 159" by code_simp
  then show "unat (io (mach (io_upd (\<lambda>_. 159) gic_example)) (gicc_base (gic (io_upd (\<lambda>_. 159) gic_example)) + 0x00C) AND 0x3ff)
     = max_it (gic (io_upd (\<lambda>_. 159) gic_example))" by (simp add: gic_example_def)
qed

end
