(* ===== verification/Gpio.thy ===== *)
theory Gpio
  imports Gic Emulation
begin

text \<open>
  core/drivers/imx\_gpio.c: pins of a GPIO port acquired by the secure world, the check that keeps
  the normal world's emulated accesses away from them, interrupt demultiplexing with pass-through
  of the normal world's pins, and the port as an interrupt chip. A port is its identifier in the
  map \<open>ports\<close>; its chip is \<open>PORT_CHIP\<close> of that identifier.
\<close>

section \<open>Register banks\<close>

definition imx1_imx21_gpio_hwdata :: mxc_gpio_hwdata where
  "imx1_imx21_gpio_hwdata = \<lparr>dr_reg = 0x1c, gdir_reg = 0x00, psr_reg = 0x24, icr1_reg = 0x28,
     icr2_reg = 0x2c, imr_reg = 0x30, isr_reg = 0x34, edge_sel_reg = - EINVAL,
     low_level = 3, high_level = 2, rise_edge = 0, fall_edge = 1\<rparr>"

definition imx31_gpio_hwdata :: mxc_gpio_hwdata where
  "imx31_gpio_hwdata = \<lparr>dr_reg = 0x00, gdir_reg = 0x04, psr_reg = 0x08, icr1_reg = 0x0c,
     icr2_reg = 0x10, imr_reg = 0x14, isr_reg = 0x18, edge_sel_reg = - EINVAL,
     low_level = 0, high_level = 1, rise_edge = 2, fall_edge = 3\<rparr>"

definition imx35_gpio_hwdata :: mxc_gpio_hwdata where
  "imx35_gpio_hwdata = \<lparr>dr_reg = 0x00, gdir_reg = 0x04, psr_reg = 0x08, icr1_reg = 0x0c,
     icr2_reg = 0x10, imr_reg = 0x14, isr_reg = 0x18, edge_sel_reg = 0x1c,
     low_level = 0, high_level = 1, rise_edge = 2, fall_edge = 3\<rparr>"

definition port_at :: "nat \<Rightarrow> mxc_gpio_port km" where
  "port_at p = bindM (gets (\<lambda>s. ports (gpio s) p)) deref"

definition upd_port :: "nat \<Rightarrow> (mxc_gpio_port \<Rightarrow> mxc_gpio_port) \<Rightarrow> unit km" where
  "upd_port p f = bindM (port_at p) (\<lambda>pt.
     modifyM (\<lambda>s. s\<lparr>gpio := (gpio s)\<lparr>ports := (ports (gpio s))(p \<mapsto> f pt)\<rparr>\<rparr>))"

definition hwdata :: "mxc_gpio_hwdata km" where
  "hwdata = bindM (gets (\<lambda>s. gpio_hwdata (gpio s))) deref"

text \<open>The address of a register of a port, e.g. \<open>port->base + GPIO_DR\<close>.\<close>

definition gpio_reg :: "nat \<Rightarrow> (mxc_gpio_hwdata \<Rightarrow> u32) \<Rightarrow> vaddr km" where
  "gpio_reg p sel = bindM (port_at p) (\<lambda>pt. bindM hwdata (\<lambda>h. ret (vbase pt + sel h)))"

definition gpio_read_reg :: "nat \<Rightarrow> (mxc_gpio_hwdata \<Rightarrow> u32) \<Rightarrow> u32 km" where
  "gpio_read_reg p sel = bindM (gpio_reg p sel) read32"

definition gpio_write_reg :: "u32 \<Rightarrow> nat \<Rightarrow> (mxc_gpio_hwdata \<Rightarrow> u32) \<Rightarrow> unit km" where
  "gpio_write_reg v p sel = bindM (gpio_reg p sel) (write32 v)"

abbreviation (input) GPIO_INT_BOTH_EDGES :: u32 where "GPIO_INT_BOTH_EDGES \<equiv> 4"
abbreviation (input) IRQ_TYPE_EDGE_RISING :: u32 where "IRQ_TYPE_EDGE_RISING \<equiv> 1"
abbreviation (input) IRQ_TYPE_EDGE_FALLING :: u32 where "IRQ_TYPE_EDGE_FALLING \<equiv> 2"
abbreviation (input) IRQ_TYPE_EDGE_BOTH :: u32 where "IRQ_TYPE_EDGE_BOTH \<equiv> 3"
abbreviation (input) IRQ_TYPE_LEVEL_HIGH :: u32 where "IRQ_TYPE_LEVEL_HIGH \<equiv> 4"
abbreviation (input) IRQ_TYPE_LEVEL_LOW :: u32 where "IRQ_TYPE_LEVEL_LOW \<equiv> 8"

section \<open>Pins\<close>

definition gpio_get_value :: "nat \<Rightarrow> nat \<Rightarrow> u32 km" where
  "gpio_get_value p index = bindM (gpio_read_reg p psr_reg) (\<lambda>psr. ret (psr AND bit32 index))"

definition gpio_set_dir :: "nat \<Rightarrow> nat \<Rightarrow> u32 \<Rightarrow> unit km" where
  "gpio_set_dir p index direction =
     bindM (gpio_read_reg p gdir_reg) (\<lambda>gdir.
     gpio_write_reg ((gdir AND NOT (bit32 index)) OR push_bit index direction) p gdir_reg)"

definition gpio_irq_mask :: "nat \<Rightarrow> nat \<Rightarrow> bool \<Rightarrow> unit km" where
  "gpio_irq_mask p index msk =
     bindM (gpio_read_reg p imr_reg) (\<lambda>imr.
     if msk then gpio_write_reg (imr AND NOT (bit32 index)) p imr_reg
     else gpio_write_reg (imr OR bit32 index) p imr_reg)"

definition gpio_irq_ack :: "nat \<Rightarrow> nat \<Rightarrow> unit km" where
  "gpio_irq_ack p index = gpio_write_reg (bit32 index) p isr_reg"

text \<open>The trigger of a pin: \<open>None\<close> for a type the switch does not list.\<close>

definition gpio_edge :: "nat \<Rightarrow> nat \<Rightarrow> u32 \<Rightarrow> u32 option km" where
  "gpio_edge p index type =
     bindM hwdata (\<lambda>h.
     if type = IRQ_TYPE_EDGE_RISING then ret (Some (rise_edge h))
     else if type = IRQ_TYPE_EDGE_FALLING then ret (Some (fall_edge h))
     else if type = IRQ_TYPE_EDGE_BOTH then
       if edge_sel_reg h \<ge> 0 then ret (Some GPIO_INT_BOTH_EDGES)
       else bindM (gpio_get_value p index) (\<lambda>val.
         thenM (upd_port p (\<lambda>pt. pt\<lparr>both_edges := both_edges pt OR bit32 index\<rparr>))
           (ret (Some (if val \<noteq> 0 then low_level h else high_level h))))
     else if type = IRQ_TYPE_LEVEL_LOW then ret (Some (low_level h))
     else if type = IRQ_TYPE_LEVEL_HIGH then ret (Some (high_level h))
     else ret None)"

definition icr_reg_off :: "nat \<Rightarrow> u32" where
  "icr_reg_off index = drop_bit 2 (of_nat index AND 0x10)"

definition gpio_set_irq_type :: "nat \<Rightarrow> nat \<Rightarrow> u32 \<Rightarrow> int km" where
  "gpio_set_irq_type p index type =
     thenM (upd_port p (\<lambda>pt. pt\<lparr>both_edges := both_edges pt AND NOT (bit32 index)\<rparr>)) (
     bindM (gpio_edge p index type) (\<lambda>e.
     case e of None \<Rightarrow> ret (- EINVAL)
     | Some edge \<Rightarrow>
       bindM hwdata (\<lambda>h.
       thenM (whenM (edge_sel_reg h \<ge> 0)
         (bindM (gpio_read_reg p (\<lambda>h. of_int (edge_sel_reg h))) (\<lambda>val.
          if edge = GPIO_INT_BOTH_EDGES
          then gpio_write_reg (val OR bit32 index) p (\<lambda>h. of_int (edge_sel_reg h))
          else gpio_write_reg (val AND NOT (bit32 index)) p (\<lambda>h. of_int (edge_sel_reg h))))) (
       thenM (whenM (edge \<noteq> GPIO_INT_BOTH_EDGES)
         (let reg = (\<lambda>h. icr1_reg h + icr_reg_off index);
              sh = 2 * unat (of_nat index AND 0xf :: u32) in
          bindM (gpio_read_reg p reg) (\<lambda>val.
          gpio_write_reg ((val AND NOT (push_bit sh 3)) OR push_bit sh edge) p reg))) (
       thenM (gpio_write_reg (bit32 index) p isr_reg) (ret 0))))))"

section \<open>Finding a port\<close>

fun find_port :: "(nat \<Rightarrow> bool) \<Rightarrow> nat list \<Rightarrow> nat option" where
  "find_port f [] = None"
| "find_port f (p # ps) = (if f p then Some p else find_port f ps)"

definition gpio_port_from_phandle :: "u32 \<Rightarrow> nat option km" where
  "gpio_port_from_phandle ph = gets (\<lambda>s. find_port (\<lambda>p. (case ports (gpio s) p of None \<Rightarrow> False
     | Some pt \<Rightarrow> map_option phandle (devs (dt s) (pdev pt)) = Some ph)) (mxc_gpio_ports (gpio s)))"

definition gpio_port_from_address :: "paddr \<Rightarrow> nat option km" where
  "gpio_port_from_address base = gets (\<lambda>s. find_port (\<lambda>p. map_option pbase (ports (gpio s) p) = Some base)
     (mxc_gpio_ports (gpio s)))"

section \<open>The check of emulated accesses\<close>

fun secure_icr_mask :: "u32 \<Rightarrow> nat \<Rightarrow> nat \<Rightarrow> u32" where
  "secure_icr_mask sm base 0 = 0"
| "secure_icr_mask sm base (Suc i) =
     (if sm AND bit32 (i + base) \<noteq> 0 then secure_icr_mask sm base i OR push_bit (2 * i) 3
      else secure_icr_mask sm base i)"

text \<open>The branches of the check, one per register. The value is there in every state but the one
  before a load, where none of them looks at it.\<close>

definition check_kept :: "nat \<Rightarrow> (mxc_gpio_hwdata \<Rightarrow> u32) \<Rightarrow> u32 \<Rightarrow> u32 option \<Rightarrow> (bool \<times> u32 option) km" where
  "check_kept p sel msk val =
     bindM (gpio_read_reg p sel) (\<lambda>r. bindM (deref val) (\<lambda>v. ret (r AND msk = v AND msk, val)))"

definition with_port ::
    "nat option \<Rightarrow> (nat \<Rightarrow> mxc_gpio_port \<Rightarrow> (bool \<times> u32 option) km) \<Rightarrow> (bool \<times> u32 option) km" where
  "with_port po f = bindM (deref po) (\<lambda>p. bindM (port_at p) (f p))"

definition check_isr_write :: "nat \<Rightarrow> mxc_gpio_port \<Rightarrow> u32 option \<Rightarrow> (bool \<times> u32 option) km" where
  "check_isr_write p pt val =
     bindM (deref val) (\<lambda>v.
     if v AND secure_mask pt \<noteq> 0 then
       if v AND passed_irq_mask pt = v then
         thenM (upd_port p (\<lambda>pt. pt\<lparr>passed_irq_mask := passed_irq_mask pt AND NOT v\<rparr>)) (
         bindM (gpio_read_reg p imr_reg) (\<lambda>imr.
         thenM (gpio_write_reg (imr OR v) p imr_reg) (ret (True, val))))
       else ret (False, val)
     else ret (True, val))"

definition gpio_emu_check :: "region \<Rightarrow> paddr \<Rightarrow> emu_state \<Rightarrow> u32 option \<Rightarrow> (bool \<times> u32 option) km" where
  "gpio_emu_check r addr state val =
     bindM (gpio_port_from_address (r_base r)) (\<lambda>po.
     let offset = addr - r_base r in
     bindM hwdata (\<lambda>h.
     if offset = dr_reg h then (case state of
         EMU_STATE_WRITE \<Rightarrow> with_port po (\<lambda>p pt. check_kept p dr_reg (secure_mask pt) val)
       | EMU_STATE_READ_AFTER \<Rightarrow>
           with_port po (\<lambda>p pt. ret (True, map_option (\<lambda>v. v AND NOT (secure_mask pt)) val))
       | _ \<Rightarrow> ret (True, val))
     else if offset = gdir_reg h then (case state of
         EMU_STATE_WRITE \<Rightarrow> with_port po (\<lambda>p pt. check_kept p gdir_reg (secure_mask pt) val)
       | EMU_STATE_READ_AFTER \<Rightarrow>
           with_port po (\<lambda>p pt. ret (True, map_option (\<lambda>v. v AND NOT (secure_mask pt)) val))
       | _ \<Rightarrow> ret (True, val))
     else if offset = isr_reg h then (case state of
         EMU_STATE_WRITE \<Rightarrow> with_port po (\<lambda>p pt. check_isr_write p pt val)
       | EMU_STATE_READ_AFTER \<Rightarrow> with_port po (\<lambda>p pt.
           ret (True, map_option (\<lambda>v. (v AND NOT (secure_mask pt)) OR passed_irq_mask pt) val))
       | _ \<Rightarrow> ret (True, val))
     else if offset = imr_reg h then (case state of
         EMU_STATE_WRITE \<Rightarrow> with_port po (\<lambda>p pt.
           bindM (deref val) (\<lambda>v. ret (NOT v AND secure_mask pt = 0, val)))
       | EMU_STATE_READ_AFTER \<Rightarrow> with_port po (\<lambda>p pt.
           ret (True, map_option (\<lambda>v. (v AND NOT (secure_mask pt)) OR passed_irq_mask pt) val))
       | _ \<Rightarrow> ret (True, val))
     else if offset = psr_reg h then ret (True, val)
     else if offset = of_int (edge_sel_reg h) then (case state of
         EMU_STATE_WRITE \<Rightarrow> with_port po (\<lambda>p pt.
           check_kept p (\<lambda>h. of_int (edge_sel_reg h)) (secure_mask pt) val)
       | _ \<Rightarrow> ret (True, val))
     else if offset = icr1_reg h \<or> offset = icr2_reg h then
       with_port po (\<lambda>p pt.
       let m = secure_icr_mask (secure_mask pt) (if offset = icr2_reg h then 16 else 0) 16 in
       case state of
         EMU_STATE_WRITE \<Rightarrow> check_kept p (\<lambda>h. offset) m val
       | _ \<Rightarrow> ret (True, val))
     else ret (True, val)))"

section \<open>Acquiring, reading and writing pins\<close>

text \<open>Cells of a device-tree property, already in the CPU's byte order.\<close>

definition gpio_parse_dt :: "u32 list \<Rightarrow> (nat \<times> nat \<times> u32) option km" where
  "gpio_parse_dt info =
     bindM (index_at info 0) (\<lambda>ph.
     bindM (gpio_port_from_phandle ph) (\<lambda>po.
     case po of None \<Rightarrow> ret None
     | Some p \<Rightarrow> bindM (index_at info 1) (\<lambda>index. bindM (index_at info 2) (\<lambda>flags.
         ret (Some (p, unat index, flags))))))"

definition gpio_acquire1 :: "nat \<Rightarrow> nat \<Rightarrow> bool km" where
  "gpio_acquire1 p index =
     bindM (port_at p) (\<lambda>pt.
     if secure_mask pt AND bit32 index \<noteq> 0 then ret False
     else thenM (upd_port p (\<lambda>pt. pt\<lparr>secure_mask := secure_mask pt OR bit32 index\<rparr>)) (ret True))"

definition gpio_acquire :: "nat \<Rightarrow> nat \<Rightarrow> bool \<Rightarrow> bool km" where
  "gpio_acquire p index is_output =
     bindM (gpio_acquire1 p index) (\<lambda>ok.
     if \<not> ok then ret False
     else thenM (gpio_set_dir p index (if is_output then 1 else 0)) (
       thenM (gpio_irq_mask p index True) (ret True)))"

definition gpio_acquire_dt :: "u32 list \<Rightarrow> bool \<Rightarrow> bool km" where
  "gpio_acquire_dt info is_output =
     bindM (gpio_parse_dt info) (\<lambda>r. case r of None \<Rightarrow> ret False
     | Some (p, index, flags) \<Rightarrow> gpio_acquire p index is_output)"

definition gpio_release :: "nat \<Rightarrow> nat \<Rightarrow> bool km" where
  "gpio_release p index =
     bindM (port_at p) (\<lambda>pt.
     if secure_mask pt AND bit32 index = 0 then ret False
     else thenM (upd_port p (\<lambda>pt. pt\<lparr>secure_mask := secure_mask pt AND NOT (bit32 index)\<rparr>)) (ret True))"

definition gpio_release_dt :: "u32 list \<Rightarrow> unit km" where
  "gpio_release_dt info =
     bindM (gpio_parse_dt info) (\<lambda>r. case r of None \<Rightarrow> ret ()
     | Some (p, index, flags) \<Rightarrow> thenM (gpio_release p index) (ret ()))"

definition gpio_read :: "nat \<Rightarrow> nat \<Rightarrow> bool km" where
  "gpio_read p index = bindM (gpio_read_reg p dr_reg) (\<lambda>dr. ret (dr AND bit32 index \<noteq> 0))"

definition gpio_write :: "nat \<Rightarrow> nat \<Rightarrow> bool \<Rightarrow> unit km" where
  "gpio_write p index v =
     bindM (gpio_read_reg p dr_reg) (\<lambda>dr.
     gpio_write_reg (if v then dr OR bit32 index else dr AND NOT (bit32 index)) p dr_reg)"

definition mxc_flip_edge :: "nat \<Rightarrow> nat \<Rightarrow> unit km" where
  "mxc_flip_edge p pin =
     (let reg = (\<lambda>h. icr1_reg h + icr_reg_off pin); sh = 2 * unat (of_nat pin AND 0xf :: u32) in
      bindM (gpio_read_reg p reg) (\<lambda>val.
      bindM hwdata (\<lambda>h.
      let edge = drop_bit sh val AND 3; val' = val AND NOT (push_bit sh 3) in
      if edge = high_level h then gpio_write_reg (val' OR push_bit sh (low_level h)) p reg
      else if edge = low_level h then gpio_write_reg (val' OR push_bit sh (high_level h)) p reg
      else ret ())))"


section \<open>Interrupts of a port\<close>

text \<open>\<open>__clz\<close> is the CLZ instruction: the number of zero bits above the highest set bit, 32 for 0.\<close>

definition clz :: "u32 \<Rightarrow> nat" where
  "clz x = length (takeWhile (\<lambda>i. \<not> bit x i) (rev [0..<32]))"

definition fls :: "u32 \<Rightarrow> nat" where
  "fls x = 32 - clz x"

lemma clz_spec: "x \<noteq> 0 \<Longrightarrow> clz x < 32 \<and> bit x (31 - clz x) \<and> (\<forall>j. 31 - clz x < j \<longrightarrow> \<not> bit x j)"
proof -
  assume "x \<noteq> 0"
  then obtain k where k: "bit x k" by (metis bit_eq_iff bit_0_eq bot_apply bot_bool_def)
  then have k32: "k < 32" using bit_imp_le_length [of x k] by simp
  let ?l = "rev [0..<32]" and ?P = "\<lambda>i. \<not> bit x i"
  have ex: "\<exists>i \<in> set ?l. \<not> ?P i" using k k32 by auto
  have lt: "clz x < 32"
  proof -
    have "takeWhile ?P ?l \<noteq> ?l" using ex by (metis takeWhile_eq_all_conv)
    then have "length (takeWhile ?P ?l) \<noteq> length ?l" by (metis takeWhile_eq_take take_all_iff le_refl)
    then show ?thesis using length_takeWhile_le [of ?P ?l] by (simp add: clz_def)
  qed
  then have "\<not> ?P (?l ! clz x)" unfolding clz_def by (intro nth_length_takeWhile) simp
  then have b: "bit x (31 - clz x)" using lt by (simp add: rev_nth)
  moreover have "\<not> bit x j" if "31 - clz x < j" for j
  proof (cases "j < 32")
    case True
    have "?P (?l ! (31 - j))"
    proof -
      have i: "31 - j < length (takeWhile ?P ?l)" using that True lt by (simp add: clz_def)
      then have "takeWhile ?P ?l ! (31 - j) \<in> set (takeWhile ?P ?l)" by (rule nth_mem)
      then have "?P (takeWhile ?P ?l ! (31 - j))" by (rule set_takeWhileD [THEN conjunct2])
      then show ?thesis using i by (simp add: takeWhile_nth)
    qed
    then show ?thesis using True by (simp add: rev_nth)
  next
    case False
    then show ?thesis using bit_imp_le_length [of x j] by auto
  qed
  ultimately show ?thesis using lt by blast
qed

lemma fls_spec: "x \<noteq> 0 \<Longrightarrow> bit x (fls x - 1) \<and> fls x - 1 < 32 \<and> (\<forall>j. fls x - 1 < j \<longrightarrow> \<not> bit x j)"
  using clz_spec [of x] by (auto simp: fls_def)

lemma clear_bit_less: "bit (x :: u32) i \<Longrightarrow> unat (x AND NOT (bit32 i)) < unat x"
proof -
  assume b: "bit x i"
  have "x AND NOT (bit32 i) \<le> x" by (rule word_and_le2)
  moreover have "x AND NOT (bit32 i) \<noteq> x" using b by (metis bit_clear32)
  ultimately show ?thesis by (simp add: word_less_nat_alt [symmetric])
qed

text \<open>The \<open>while (irq_stat != 0)\<close> loop: highest pending pin first, its bit cleared after it has been
  served.\<close>

function gpio_irq_loop :: "(nat \<Rightarrow> unit km) \<Rightarrow> u32 \<Rightarrow> unit km" where
  "gpio_irq_loop body irq_stat =
     (if irq_stat = 0 then ret ()
      else thenM (body (fls irq_stat - 1)) (gpio_irq_loop body (irq_stat AND NOT (bit32 (fls irq_stat - 1)))))"
  by pat_completeness auto

termination
  by (relation "measure (\<lambda>(_, w). unat w)") (auto intro!: clear_bit_less simp: fls_spec [simplified])

declare gpio_irq_loop.simps [simp del]

definition gpio_irq_body ::
    "ops_tables \<Rightarrow> (irq_handler \<Rightarrow> irq_return km) \<Rightarrow> nat \<Rightarrow> nat \<Rightarrow> unit km" where
  "gpio_irq_body tbl call p irqoffset =
     bindM (port_at p) (\<lambda>pt.
     thenM (whenM (both_edges pt AND bit32 irqoffset \<noteq> 0) (mxc_flip_edge p irqoffset)) (
     bindM (irq_handle tbl call (PORT_CHIP p) irqoffset) (\<lambda>handled.
     case handled of
       ITRR_HANDLED \<Rightarrow> gpio_irq_ack p irqoffset
     | ITRR_HANDLED_PASS \<Rightarrow>
         thenM (upd_port p (\<lambda>pt. pt\<lparr>passed_irq_mask := passed_irq_mask pt OR bit32 irqoffset\<rparr>))
           (gpio_irq_mask p irqoffset True)
     | _ \<Rightarrow>
         bindM (port_at p) (\<lambda>pt.
         whenM (secure_mask pt AND bit32 irqoffset = 0)
           (thenM (upd_port p (\<lambda>pt. pt\<lparr>passed_irq_mask := passed_irq_mask pt OR bit32 irqoffset\<rparr>))
             (gpio_irq_mask p irqoffset True))))))"

definition mxc_gpio_irq_handler ::
    "ops_tables \<Rightarrow> (irq_handler \<Rightarrow> irq_return km) \<Rightarrow> nat \<Rightarrow> u32 \<Rightarrow> unit km" where
  "mxc_gpio_irq_handler tbl call p irq_stat =
     thenM (gpio_irq_loop (gpio_irq_body tbl call p) irq_stat) (
     bindM (port_at p) (\<lambda>pt.
     whenM (passed_irq_mask pt \<noteq> 0) (thenM (irq_raise tbl (irq_pass pt)) (ret ()))))"

definition mx3_gpio_irq_handler ::
    "ops_tables \<Rightarrow> (irq_handler \<Rightarrow> irq_return km) \<Rightarrow> irq_handler \<Rightarrow> irq_return km" where
  "mx3_gpio_irq_handler tbl call h =
     bindM (gpio_read_reg (h_data h) isr_reg) (\<lambda>isr.
     bindM (gpio_read_reg (h_data h) imr_reg) (\<lambda>imr.
     thenM (mxc_gpio_irq_handler tbl call (h_data h) (isr AND imr)) (ret ITRR_HANDLED)))"

definition mx2_gpio_irq_handler ::
    "ops_tables \<Rightarrow> (irq_handler \<Rightarrow> irq_return km) \<Rightarrow> irq_return km" where
  "mx2_gpio_irq_handler tbl call =
     bindM (gets (\<lambda>s. mxc_gpio_ports (gpio s))) (\<lambda>ps.
     thenM (forM ps (\<lambda>p.
       bindM (gpio_read_reg p imr_reg) (\<lambda>irq_msk.
       if irq_msk = 0 then ret ()
       else bindM (gpio_read_reg p isr_reg) (\<lambda>isr.
         whenM (isr AND irq_msk \<noteq> 0) (mxc_gpio_irq_handler tbl call p (isr AND irq_msk)))))) (
     ret ITRR_HANDLED))"

fun hwtype_data :: "mxc_gpio_hwtype \<Rightarrow> mxc_gpio_hwdata" where
  "hwtype_data IMX35_GPIO = imx35_gpio_hwdata"
| "hwtype_data IMX31_GPIO = imx31_gpio_hwdata"
| "hwtype_data IMX21_GPIO = imx1_imx21_gpio_hwdata"
| "hwtype_data IMX1_GPIO = imx1_imx21_gpio_hwdata"

definition mxc_gpio_get_hw :: "mxc_gpio_hwtype \<Rightarrow> unit km" where
  "mxc_gpio_get_hw hwtype =
     bindM (gets (\<lambda>s. gpio_hwtype (gpio s))) (\<lambda>cur.
     if cur \<noteq> None \<and> cur \<noteq> Some hwtype then panic
     else modifyM (\<lambda>s. s\<lparr>gpio := (gpio s)\<lparr>gpio_hwdata := Some (hwtype_data hwtype),
       gpio_hwtype := Some hwtype\<rparr>\<rparr>))"

section \<open>The port as an interrupt chip\<close>

definition chip_port :: "chip_ref \<Rightarrow> nat km" where
  "chip_port c = (case c of PORT_CHIP p \<Rightarrow> ret p | _ \<Rightarrow> throw Null_deref)"

definition irq_op_map :: "chip_ref \<Rightarrow> u32 list \<Rightarrow> (int \<times> nat \<times> u32) km" where
  "irq_op_map c dt_spec =
     bindM (index_at dt_spec 0) (\<lambda>irq. bindM (index_at dt_spec 1) (\<lambda>flags.
     ret (if irq < 32 \<and> flags < 5 then 0 else - EINVAL, unat irq, flags)))"

definition irq_op_secure :: "chip_ref \<Rightarrow> nat \<Rightarrow> int km" where
  "irq_op_secure c irq = bindM (chip_port c) (\<lambda>p.
     thenM (upd_port p (\<lambda>pt. pt\<lparr>secure_mask := secure_mask pt OR bit32 irq\<rparr>)) (ret 0))"

definition irq_op_unsecure :: "chip_ref \<Rightarrow> nat \<Rightarrow> int km" where
  "irq_op_unsecure c irq = bindM (chip_port c) (\<lambda>p.
     thenM (upd_port p (\<lambda>pt. pt\<lparr>secure_mask := secure_mask pt AND NOT (bit32 irq)\<rparr>)) (ret 0))"

definition irq_op_add :: "chip_ref \<Rightarrow> nat \<Rightarrow> u32 \<Rightarrow> int km" where
  "irq_op_add c irq flags = bindM (chip_port c) (\<lambda>p.
     thenM (irq_op_secure c irq) (
     thenM (gpio_set_dir p irq 0) (
     thenM (gpio_set_irq_type p irq flags) (
     thenM (gpio_irq_mask p irq True) (ret 0)))))"

definition irq_op_remove :: "chip_ref \<Rightarrow> nat \<Rightarrow> int km" where
  "irq_op_remove c irq = thenM (irq_op_unsecure c irq) (ret 0)"

definition irq_op_enable :: "chip_ref \<Rightarrow> nat \<Rightarrow> int km" where
  "irq_op_enable c irq = bindM (chip_port c) (\<lambda>p. thenM (gpio_irq_mask p irq False) (ret 0))"

definition irq_op_disable :: "chip_ref \<Rightarrow> nat \<Rightarrow> int km" where
  "irq_op_disable c irq = bindM (chip_port c) (\<lambda>p. thenM (gpio_irq_mask p irq True) (ret 0))"

definition irq_op_raise :: "chip_ref \<Rightarrow> nat \<Rightarrow> int km" where
  "irq_op_raise c irq = ret (- EINVAL)"

definition gpio_ops_table :: irq_chip_ops_table where
  "gpio_ops_table = \<lparr>op_map = Some irq_op_map, op_add = Some irq_op_add, op_remove = Some irq_op_remove,
     op_enable = Some irq_op_enable, op_disable = Some irq_op_disable, op_secure = Some irq_op_secure,
     op_unsecure = Some irq_op_unsecure, op_raise = Some irq_op_raise, op_raise_sgi = None,
     op_set_affinity = None\<rparr>"

text \<open>The two tables of the kernel.\<close>

fun irq_tables :: ops_tables where
  "irq_tables gic_ops = gic_ops_table"
| "irq_tables gpio_irq_ops = gpio_ops_table"

section \<open>Lemmas: the port table\<close>

lemma wp_port_at [wp_simps]: "wp (port_at p) Q = (\<lambda>s. \<exists>pt. ports (gpio s) p = Some pt \<and> Q pt s)"
  by (rule ext) (simp add: port_at_def wp_simps)

lemma wlp_port_at [wp_simps]: "wlp (port_at p) Q = (\<lambda>s. \<forall>pt. ports (gpio s) p = Some pt \<longrightarrow> Q pt s)"
  by (rule ext) (simp add: port_at_def wp_simps)

lemma wp_hwdata [wp_simps]: "wp hwdata Q = (\<lambda>s. \<exists>h. gpio_hwdata (gpio s) = Some h \<and> Q h s)"
  by (rule ext) (simp add: hwdata_def wp_simps)

lemma wlp_hwdata [wp_simps]: "wlp hwdata Q = (\<lambda>s. \<forall>h. gpio_hwdata (gpio s) = Some h \<longrightarrow> Q h s)"
  by (rule ext) (simp add: hwdata_def wp_simps)

definition port_upd :: "nat \<Rightarrow> (mxc_gpio_port \<Rightarrow> mxc_gpio_port) \<Rightarrow> kernel \<Rightarrow> kernel" where
  "port_upd p f s = s\<lparr>gpio := (gpio s)\<lparr>ports := (ports (gpio s))(p \<mapsto> f (the (ports (gpio s) p)))\<rparr>\<rparr>"

lemma wp_upd_port [wp_simps]:
  "wp (upd_port p f) Q = (\<lambda>s. ports (gpio s) p \<noteq> None \<and> Q () (port_upd p f s))"
  by (rule ext) (auto simp: upd_port_def wp_simps port_upd_def)

lemma wlp_upd_port [wp_simps]:
  "wlp (upd_port p f) Q = (\<lambda>s. ports (gpio s) p \<noteq> None \<longrightarrow> Q () (port_upd p f s))"
  by (rule ext) (auto simp: upd_port_def wp_simps port_upd_def)

lemma port_upd_sel [simp]:
  "ports (gpio (port_upd p f s)) = (ports (gpio s))(p \<mapsto> f (the (ports (gpio s) p)))"
  "gpio_hwdata (gpio (port_upd p f s)) = gpio_hwdata (gpio s)" "mach (port_upd p f s) = mach s"
  "mxc_gpio_ports (gpio (port_upd p f s)) = mxc_gpio_ports (gpio s)"
  "emu (port_upd p f s) = emu s" "irqv (port_upd p f s) = irqv s" "dt (port_upd p f s) = dt s"
  by (simp_all add: port_upd_def)

definition port_reg :: "kernel \<Rightarrow> nat \<Rightarrow> (mxc_gpio_hwdata \<Rightarrow> u32) \<Rightarrow> u32" where
  "port_reg s p sel = vbase (the (ports (gpio s) p)) + sel (the (gpio_hwdata (gpio s)))"

definition port_ready :: "kernel \<Rightarrow> nat \<Rightarrow> bool" where
  "port_ready s p \<longleftrightarrow> ports (gpio s) p \<noteq> None \<and> gpio_hwdata (gpio s) \<noteq> None"

lemma wp_gpio_reg: "wp (gpio_reg p sel) Q = (\<lambda>s. port_ready s p \<and> Q (port_reg s p sel) s)"
  by (rule ext) (auto simp: gpio_reg_def wp_simps port_reg_def port_ready_def)

lemma wlp_gpio_reg: "wlp (gpio_reg p sel) Q = (\<lambda>s. port_ready s p \<longrightarrow> Q (port_reg s p sel) s)"
  by (rule ext) (auto simp: gpio_reg_def wp_simps port_reg_def port_ready_def)

lemma wp_gpio_read_reg [wp_simps]:
  "wp (gpio_read_reg p sel) Q = (\<lambda>s. port_ready s p \<and> Q (io (mach s) (port_reg s p sel)) s)"
  by (rule ext) (simp add: gpio_read_reg_def wp_bindM wp_gpio_reg wp_read32)

lemma wlp_gpio_read_reg [wp_simps]:
  "wlp (gpio_read_reg p sel) Q = (\<lambda>s. port_ready s p \<longrightarrow> Q (io (mach s) (port_reg s p sel)) s)"
  by (rule ext) (simp add: gpio_read_reg_def wlp_bindM wlp_gpio_reg wlp_read32)

lemma wp_gpio_write_reg [wp_simps]:
  "wp (gpio_write_reg v p sel) Q = (\<lambda>s. port_ready s p \<and>
     Q () (io_upd (hw (mach s) 4 (port_reg s p sel) v (io (mach s))) s))"
  by (rule ext) (simp add: gpio_write_reg_def wp_bindM wp_gpio_reg wp_write32)

lemma wlp_gpio_write_reg [wp_simps]:
  "wlp (gpio_write_reg v p sel) Q = (\<lambda>s. port_ready s p \<longrightarrow>
     Q () (io_upd (hw (mach s) 4 (port_reg s p sel) v (io (mach s))) s))"
  by (rule ext) (simp add: gpio_write_reg_def wlp_bindM wlp_gpio_reg wlp_write32)

lemma port_ready_upd [simp]:
  "port_ready (io_upd m s) p = port_ready s p"
  "port_ready s q \<Longrightarrow> port_ready (port_upd q f s) p = port_ready s p"
  by (auto simp: port_ready_def)

lemma port_reg_upd [simp]:
  "port_reg (io_upd m s) p sel = port_reg s p sel"
  "vbase (f (the (ports (gpio s) q))) = vbase (the (ports (gpio s) q)) \<Longrightarrow> port_reg (port_upd q f s) p sel = port_reg s p sel"
  by (auto simp: port_reg_def)

section \<open>Securing pins\<close>

definition pin_secure :: "kernel \<Rightarrow> nat \<Rightarrow> nat \<Rightarrow> bool" where
  "pin_secure s p i = bit (secure_mask (the (ports (gpio s) p))) i"

interpretation gpio_irq: irq_securing "irq_op_secure (PORT_CHIP p)" "irq_op_unsecure (PORT_CHIP p)"
  "\<lambda>s. pin_secure s p" "\<lambda>i. i < 32" "\<lambda>s. ports (gpio s) p \<noteq> None" for p
proof
  fix s :: kernel and i
  assume "ports (gpio s) p \<noteq> None" "i < (32 :: nat)"
  then show "wp (irq_op_secure (PORT_CHIP p) i) (\<lambda>r t. r = 0 \<and> ports (gpio t) p \<noteq> None \<and>
      (\<forall>j<32. pin_secure t p j = (j = i \<or> pin_secure s p j))) s"
    by (auto simp: irq_op_secure_def chip_port_def wp_simps pin_secure_def mask_simps)
  assume "ports (gpio s) p \<noteq> None" "i < (32 :: nat)"
  then show "wp (irq_op_unsecure (PORT_CHIP p) i) (\<lambda>r t. r = 0 \<and> ports (gpio t) p \<noteq> None \<and>
      (\<forall>j<32. pin_secure t p j = (j \<noteq> i \<and> pin_secure s p j))) s"
    by (auto simp: irq_op_unsecure_def chip_port_def wp_simps pin_secure_def mask_simps)
qed

text \<open>The functions that may only change registers leave the port table alone.\<close>

definition only_io :: "kernel \<Rightarrow> kernel \<Rightarrow> bool" where
  "only_io s t \<longleftrightarrow> (\<exists>m. t = io_upd m s)"

lemma only_io_refl: "only_io s s"
  unfolding only_io_def by (rule exI [of _ "io (mach s)"]) (simp add: io_upd_def)

lemma wp_gpio_set_dir: "port_ready s p \<Longrightarrow> wp (gpio_set_dir p i d) (\<lambda>_. only_io s) s"
  by (auto simp: gpio_set_dir_def wp_simps only_io_def)

lemma wp_gpio_irq_mask: "port_ready s p \<Longrightarrow> wp (gpio_irq_mask p i b) (\<lambda>_. only_io s) s"
  by (auto simp: gpio_irq_mask_def wp_simps only_io_def)

lemma only_io_trans: "only_io s t \<Longrightarrow> only_io t u \<Longrightarrow> only_io s u"
  by (auto simp: only_io_def)

lemma only_io_sel: "only_io s t \<Longrightarrow> gpio t = gpio s \<and> port_ready t p = port_ready s p"
  by (auto simp: only_io_def)

lemma wp_gpio_acquire_fresh:
  assumes "port_ready s p" "i < 32" "\<not> pin_secure s p i"
  shows "wp (gpio_acquire p i out) (\<lambda>r t. r \<and> only_io (port_upd p (\<lambda>pt. pt\<lparr>secure_mask := secure_mask pt OR bit32 i\<rparr>) s) t) s"
proof -
  let ?s = "port_upd p (\<lambda>pt. pt\<lparr>secure_mask := secure_mask pt OR bit32 i\<rparr>) s"
  have r: "port_ready ?s p" using assms(1) by simp
  have a: "gpio_acquire1 p i s = Inr (True, ?s)"
    using assms by (auto simp: gpio_acquire1_def port_at_def upd_port_def bindM_def gets_def deref_def
        ret_def thenM_def modifyM_def port_upd_def port_ready_def and_bit32_eq_0_iff pin_secure_def)
  have "wp (thenM (gpio_set_dir p i (if out then 1 else 0)) (thenM (gpio_irq_mask p i True) (ret True)))
      (\<lambda>r t. r \<and> only_io ?s t) ?s"
  proof (rule wp_then_rule [OF wp_gpio_set_dir [OF r]])
    fix t assume t: "only_io ?s t"
    then have rt: "port_ready t p" using r only_io_sel by blast
    show "wp (thenM (gpio_irq_mask p i True) (ret True)) (\<lambda>r t. r \<and> only_io ?s t) t"
      by (rule wp_then_rule [OF wp_gpio_irq_mask [OF rt]]) (use t only_io_trans in \<open>auto simp: wp_simps\<close>)
  qed
  then show ?thesis by (simp add: gpio_acquire_def wp_def bindM_def a)
qed

lemma bits_after_clear:
  assumes "st \<noteq> 0"
  shows "rev (filter (bit st) [0..<32]) = (fls st - 1) # rev (filter (bit (st AND NOT (bit32 (fls st - 1)))) [0..<32])"
proof -
  let ?b = "fls st - 1"
  have b: "bit st ?b" "?b < 32" "\<And>j. ?b < j \<Longrightarrow> \<not> bit st j" using fls_spec [OF assms] by auto
  have split: "[0..<32] = [0..<?b] @ ?b # [Suc ?b..<32]"
    using b(2) by (metis upt_add_eq_append upt_conv_Cons le_add_diff_inverse less_imp_le_nat le0)
  have hi: "filter (bit st) [Suc ?b..<32] = []" "filter (bit (st AND NOT (bit32 ?b))) [Suc ?b..<32] = []"
    using b(3) by (auto simp: filter_empty_conv bit_clear32)
  have lo: "filter (bit (st AND NOT (bit32 ?b))) [0..<?b] = filter (bit st) [0..<?b]"
    by (rule filter_cong) (auto simp: bit_clear32)
  show ?thesis unfolding split filter_append filter.simps hi lo using b(1) by (simp add: bit_clear32)
qed


section \<open>Properties\<close>

text \<open>C33: The interrupt loop of a port ends and serves every pending pin exactly once, from the
  highest to the lowest: it is the counted loop over the set bits of the status word.\<close>

theorem gpio_irq_loop_serves_all:
  "gpio_irq_loop body st s = forM (rev (filter (bit st) [0..<32])) body s"
proof (induction body st arbitrary: s rule: gpio_irq_loop.induct)
  case (1 body st)
  show ?case
  proof (cases "st = 0")
    case True
    then show ?thesis by (simp add: gpio_irq_loop.simps)
  next
    case False
    then show ?thesis
      unfolding gpio_irq_loop.simps [of body st] bits_after_clear [OF False]
      using 1 [OF False] by (simp add: thenM_def bindM_def split: sum.splits)
  qed
qed

text \<open>C32: Acquiring and releasing a pin: a free pin can be acquired, which secures exactly that pin;
  a second acquisition fails and changes nothing; releasing it makes the port table what it was.\<close>

theorem gpio_acquire_release:
  assumes "ports (gpio s) p \<noteq> None" "gpio_hwdata (gpio s) \<noteq> None" "i < 32" "\<not> pin_secure s p i"
  shows "wp (gpio_acquire p i out) (\<lambda>r t. r \<and> pin_secure t p i
      \<and> (\<forall>q j. (q, j) \<noteq> (p, i) \<longrightarrow> pin_secure t q j = pin_secure s q j)
      \<and> wp (gpio_acquire p i out) (\<lambda>r u. \<not> r \<and> u = t) t
      \<and> wp (gpio_release p i) (\<lambda>r u. r \<and> ports (gpio u) = ports (gpio s)) t) s"
proof -
  let ?f = "\<lambda>pt. pt\<lparr>secure_mask := secure_mask pt OR bit32 i\<rparr>"
  from assms obtain pt where pt: "ports (gpio s) p = Some pt" by auto
  have nb: "\<not> bit (secure_mask pt) i" using assms(4) pt by (simp add: pin_secure_def)
  have rdy: "port_ready s p" using assms by (simp add: port_ready_def)
  show ?thesis
  proof (rule wp_mono [OF wp_gpio_acquire_fresh [OF rdy assms(3,4)]], elim conjE, intro conjI)
    fix r t
    assume r: r and t: "only_io (port_upd p ?f s) t"
    show r by (rule r)
    have g: "ports (gpio t) = (ports (gpio s))(p \<mapsto> ?f pt)" using only_io_sel [OF t] pt by simp
    show "pin_secure t p i" using assms(3) by (simp add: pin_secure_def g mask_simps)
    show "\<forall>q j. (q, j) \<noteq> (p, i) \<longrightarrow> pin_secure t q j = pin_secure s q j"
      using pt by (auto simp: pin_secure_def g mask_simps)
    show "wp (gpio_acquire p i out) (\<lambda>r u. \<not> r \<and> u = t) t"
      using assms(3) by (simp add: gpio_acquire_def gpio_acquire1_def wp_simps g mask_simps)
    show "wp (gpio_release p i) (\<lambda>r u. r \<and> ports (gpio u) = ports (gpio s)) t"
      using assms(3) pt nb by (auto simp: gpio_release_def wp_simps g and_bit32_eq_0_iff bit_set32 clear_set32)
  qed
qed

definition port_example :: mxc_gpio_port where
  "port_example = \<lparr>pdev = 1, pbase = 0x020A0000, vbase = 0x600A0000,
     irq_pass = \<lparr>desc_chip = GIC_CHIP, desc_irq = 60\<rparr>, both_edges = 0, secure_mask = 0x100, passed_irq_mask = 0\<rparr>"

definition gpio_example :: kernel where
  "gpio_example = (emu_example 0xE5C10001)\<lparr>gpio := \<lparr>ports = [0 \<mapsto> port_example], mxc_gpio_ports = [0],
     gpio_hwtype = Some IMX35_GPIO, gpio_hwdata = Some imx35_gpio_hwdata\<rparr>\<rparr>"

lemma gpio_acquire_release_witness:
  "wp (gpio_acquire 0 5 True) (\<lambda>r t. r \<and> pin_secure t 0 5
      \<and> (\<forall>q j. (q, j) \<noteq> (0, 5) \<longrightarrow> pin_secure t q j = pin_secure gpio_example q j)
      \<and> wp (gpio_acquire 0 5 True) (\<lambda>r u. \<not> r \<and> u = t) t
      \<and> wp (gpio_release 0 5) (\<lambda>r u. r \<and> ports (gpio u) = ports (gpio gpio_example)) t) gpio_example"
proof (rule gpio_acquire_release)
  have "\<not> bit (0x100 :: u32) 5" by code_simp
  then show "\<not> pin_secure gpio_example 0 5" by (simp add: gpio_example_def pin_secure_def port_example_def)
qed (simp_all add: gpio_example_def)

end
