(* ===== verification/Framebuffer.thy ===== *)
theory Framebuffer
  imports Csu Emulation
begin

text \<open>
  core/drivers/imx\_fb.c: the secure frame buffer. Bit fields of the image processing unit's channel
  parameters, taking the display over and giving it back, clearing the buffer and copying images
  into it. \<open>fbmem\<close> is the memory at \<open>CFG_FBMEM_START\<close>, byte by byte; a store behind its
  \<open>CFG_FBMEM_SIZE\<close> bytes is out of bounds.
\<close>

abbreviation (input) IPU_CPMEM_OFFSET :: u32 where "IPU_CPMEM_OFFSET \<equiv> 0x300000"
abbreviation (input) IPU_CHAN0 :: nat where "IPU_CHAN0 \<equiv> 23"
abbreviation (input) IPU_CHAN1 :: nat where "IPU_CHAN1 \<equiv> 69"

record fb_info =
  width :: u32
  height :: u32
  stride :: u32
  buffer :: vaddr
  prev_params_ch0 :: "u32 list"
  prev_params_ch1 :: "u32 list"

record image =
  img_width :: u32
  img_height :: u32
  img_buffer :: "u8 list"

record blit =
  bx :: u32
  by' :: u32
  bimage :: image

section \<open>Channel parameter fields\<close>

definition field_off :: "nat \<Rightarrow> nat \<Rightarrow> nat \<Rightarrow> u32" where
  "field_off channel w b = of_nat (channel * 64 + w * 32 + (b div 32) * 4)"

definition field_mask :: "nat \<Rightarrow> u32" where
  "field_mask sz = bit32 sz - 1"

definition ipu_ch_param_read_field :: "vaddr \<Rightarrow> nat \<Rightarrow> nat \<Rightarrow> nat \<Rightarrow> nat \<Rightarrow> u32 km" where
  "ipu_ch_param_read_field base channel w b sz =
     (let i = b div 32; off = b mod 32; m = field_mask sz; reg = field_off channel w b in
      bindM (read32 (base + reg)) (\<lambda>v.
      let val = m AND drop_bit off v in
      if (b + sz - 1) div 32 > i
      then bindM (read32 (base + reg + 4)) (\<lambda>temp.
        let sh = (if off \<noteq> 0 then 32 - off else 0) in
        ret (val OR push_bit sh (temp AND drop_bit sh m)))
      else ret val))"

definition ipu_ch_param_write_field :: "vaddr \<Rightarrow> nat \<Rightarrow> nat \<Rightarrow> nat \<Rightarrow> nat \<Rightarrow> u32 \<Rightarrow> unit km" where
  "ipu_ch_param_write_field base channel w b sz v =
     (let i = b div 32; off = b mod 32; m = field_mask sz; reg = field_off channel w b in
      bindM (read32 (base + reg)) (\<lambda>temp.
      thenM (write32 ((temp AND NOT (push_bit off m)) OR push_bit off v) (base + reg)) (
      whenM ((b + sz - 1) div 32 > i)
        (bindM (read32 (base + reg + 4)) (\<lambda>temp.
         write32 ((temp AND NOT (drop_bit (32 - off) m)) OR drop_bit (if off \<noteq> 0 then 32 - off else 0) v)
           (base + reg + 4))))))"

section \<open>The guard on the buffer address registers\<close>

definition fb_emu_check :: "region \<Rightarrow> paddr \<Rightarrow> emu_state \<Rightarrow> u32 option \<Rightarrow> (bool \<times> u32 option) km" where
  "fb_emu_check r addr state val =
     (let offset = addr - r_base r in
      if offset = 0x3005E0 \<or> offset = 0x3005E4 \<or> offset = 0x301160
      then ret (state \<noteq> EMU_STATE_WRITE, val)
      else ret (True, val))"

section \<open>Drawing\<close>

definition fb_put :: "fb_info \<Rightarrow> u32 \<Rightarrow> u8 \<Rightarrow> unit km" where
  "fb_put info off v =
     (if buffer info = 0 then throw Null_deref
      else if off < CFG_FBMEM_SIZE
      then modifyM (\<lambda>s. s\<lparr>fb := (fb s)\<lparr>fbmem := (fbmem (fb s))(unat off := v)\<rparr>\<rparr>)
      else throw Out_of_bounds)"

definition fb_clear :: "fb_info \<Rightarrow> u8 \<Rightarrow> u8 \<Rightarrow> u8 \<Rightarrow> unit km" where
  "fb_clear info r g b =
     forM [0..<unat (height info)] (\<lambda>y.
       let line = stride info * of_nat y in
       forM [0..<unat (width info)] (\<lambda>x.
         thenM (fb_put info (line + 3 * of_nat x + 0) r) (
         thenM (fb_put info (line + 3 * of_nat x + 1) g) (
         fb_put info (line + 3 * of_nat x + 2) b))))"

text \<open>\<open>memcpy\<close> from a byte array into the frame buffer.\<close>

definition fb_memcpy :: "fb_info \<Rightarrow> u32 \<Rightarrow> u8 list \<Rightarrow> u32 \<Rightarrow> u32 \<Rightarrow> unit km" where
  "fb_memcpy info dst buf src n =
     forM [0..<unat n] (\<lambda>i. bindM (index_at buf (unat (src + of_nat i))) (\<lambda>v.
       fb_put info (dst + of_nat i) v))"

text \<open>The rows of a copy: while \<open>by < height\<close> and the row is on the screen.\<close>

definition fb_blit :: "fb_info \<Rightarrow> u32 \<Rightarrow> u32 \<Rightarrow> u8 list \<Rightarrow> u32 \<Rightarrow> u32 \<Rightarrow> unit km" where
  "fb_blit info x y buf w h =
     (if x \<ge> width info \<or> y \<ge> height info then ret ()
      else let copy_per_line = (if x + w > width info then 3 * (width info - x) else 3 * w) in
      forM (takeWhile (\<lambda>j. y + of_nat j < height info) [0..<unat h]) (\<lambda>j.
        fb_memcpy info (stride info * (y + of_nat j) + 3 * x) buf (3 * w * of_nat j) copy_per_line))"

definition fb_blit_image :: "fb_info \<Rightarrow> u32 \<Rightarrow> u32 \<Rightarrow> image \<Rightarrow> unit km" where
  "fb_blit_image info x y im = fb_blit info x y (img_buffer im) (img_width im) (img_height im)"

definition fb_blit_all :: "fb_info \<Rightarrow> blit list \<Rightarrow> unit km" where
  "fb_blit_all info blits = forM blits (\<lambda>b. fb_blit_image info (bx b) (by' b) (bimage b))"

section \<open>Taking over the display\<close>

text \<open>The loop that saves the parameters reads the two channels alternately; reads do not interfere,
  so the model reads one channel after the other.\<close>

definition cpmem_addr :: "vaddr \<Rightarrow> nat \<Rightarrow> nat \<Rightarrow> vaddr" where
  "cpmem_addr base ch p = base + of_nat (ch * 64) + of_nat (p * 4)"

fun read_words :: "vaddr list \<Rightarrow> u32 list km" where
  "read_words [] = ret []"
| "read_words (a # as) = bindM (read32 a) (\<lambda>v. bindM (read_words as) (\<lambda>vs. ret (v # vs)))"

text \<open>The writes of the pixel format, as (channel, word, bit, size, value).\<close>

definition fb_format :: "u32 \<Rightarrow> (nat \<times> nat \<times> nat \<times> nat \<times> u32) list" where
  "fb_format str =
    [(IPU_CHAN0, 0, 107, 3, 1), (IPU_CHAN0, 1, 85, 4, 7), (IPU_CHAN0, 1, 78, 7, 19),
     (IPU_CHAN0, 1, 116, 3, 8 - 1), (IPU_CHAN0, 1, 128, 5, 16),
     (IPU_CHAN0, 1, 119, 3, 8 - 1), (IPU_CHAN0, 1, 133, 5, 8),
     (IPU_CHAN0, 1, 122, 3, 8 - 1), (IPU_CHAN0, 1, 138, 5, 0),
     (IPU_CHAN0, 1, 125, 3, 8 - 1), (IPU_CHAN0, 1, 143, 5, 24),
     (IPU_CHAN0, 1, 102, 14, str - 1),
     (IPU_CHAN0, 1, 29 * 0, 29, CFG_FBMEM_START div 8),
     (IPU_CHAN0, 1, 29 * 1, 29, CFG_FBMEM_START div 8),
     (IPU_CHAN1, 1, 29 * 0, 29, CFG_FBMEM_START div 8)]"

definition fb_acquire :: "u8 \<Rightarrow> u8 \<Rightarrow> u8 \<Rightarrow> fb_info km" where
  "fb_acquire r g b =
     bindM (gets fb) (\<lambda>f.
     thenM (emu_add_region (g_base_paddr f) 0x400000 FB_EMU_CHECK) (
     thenM (csu_set_csl 61 True) (
     bindM (read_words (map (cpmem_addr (g_cpmem_vaddr f) IPU_CHAN0) [0..<16])) (\<lambda>p0.
     bindM (read_words (map (cpmem_addr (g_cpmem_vaddr f) IPU_CHAN1) [0..<16])) (\<lambda>p1.
     bindM (ipu_ch_param_read_field (g_cpmem_vaddr f) IPU_CHAN0 0 125 13) (\<lambda>w.
     bindM (ipu_ch_param_read_field (g_cpmem_vaddr f) IPU_CHAN0 0 138 12) (\<lambda>h.
     bindM (phys_to_virt CFG_FBMEM_START MEM_AREA_IO_SEC) (\<lambda>buf.
     let info = \<lparr>width = w + 1, height = h + 1, stride = (w + 1) * 3, buffer = buf,
                 prev_params_ch0 = p0, prev_params_ch1 = p1\<rparr> in
     thenM (fb_clear info r g b) (
     thenM (forM (fb_format (stride info)) (\<lambda>(ch, wd, bt, sz, v).
       ipu_ch_param_write_field (g_cpmem_vaddr f) ch wd bt sz v)) (
     ret info))))))))))"

definition fb_release :: "fb_info \<Rightarrow> fb_info km" where
  "fb_release info =
     (if buffer info = 0 then ret info
      else bindM (gets fb) (\<lambda>f.
        thenM (forM [0..<16] (\<lambda>p.
          thenM (bindM (index_at (prev_params_ch0 info) p) (\<lambda>v. write32 v (cpmem_addr (g_cpmem_vaddr f) IPU_CHAN0 p)))
                (bindM (index_at (prev_params_ch1 info) p) (\<lambda>v. write32 v (cpmem_addr (g_cpmem_vaddr f) IPU_CHAN1 p))))) (
        thenM (csu_set_csl 61 False) (
        thenM (emu_remove_region (g_base_paddr f) 0x400000 FB_EMU_CHECK) (
        ret (info\<lparr>buffer := 0\<rparr>))))))"

section \<open>Fields\<close>

lemma bit_field_mask: "sz \<le> 32 \<Longrightarrow> bit (field_mask sz) i \<longleftrightarrow> i < sz"
proof -
  assume "sz \<le> 32"
  have "field_mask sz = mask sz"
    by (simp add: field_mask_def bit32_def mask_eq_exp_minus_1)
  then show ?thesis using \<open>sz \<le> 32\<close> by (auto simp: bit_mask_iff)
qed

lemma field_span:
  fixes b sz :: nat
  assumes "0 < sz" "sz \<le> 32"
  shows "(b + sz - 1) div 32 > b div 32 \<longleftrightarrow> 32 < b mod 32 + sz"
proof -
  have "b + sz - 1 = b div 32 * 32 + (b mod 32 + sz - 1)"
    using assms(1) div_mult_mod_eq [of b 32] by linarith
  then have "(b + sz - 1) div 32 = b div 32 + (b mod 32 + sz - 1) div 32"
    by (metis div_mult_self3 zero_neq_numeral)
  moreover have "0 < (b mod 32 + sz - 1) div 32 \<longleftrightarrow> 32 < b mod 32 + sz"
    using assms(1) by (auto simp: div_greater_zero_iff)
  ultimately show ?thesis by simp
qed

text \<open>The two words of a field after a write, and what a read makes of them.\<close>

definition field_lo :: "nat \<Rightarrow> nat \<Rightarrow> u32 \<Rightarrow> u32 \<Rightarrow> u32" where
  "field_lo off sz v w = (w AND NOT (push_bit off (field_mask sz))) OR push_bit off v"

definition field_hi :: "nat \<Rightarrow> nat \<Rightarrow> u32 \<Rightarrow> u32 \<Rightarrow> u32" where
  "field_hi off sz v w = (w AND NOT (drop_bit (32 - off) (field_mask sz))) OR drop_bit (32 - off) v"

lemma bit_field_lo:
  assumes "sz \<le> 32" "\<forall>i. bit v i \<longrightarrow> i < sz"
  shows "bit (field_lo off sz v w) i \<longleftrightarrow> (if off \<le> i \<and> i < off + sz then i < 32 \<and> bit v (i - off) else bit w i)"
  using bit_imp_le_length [of w i] assms(2) [rule_format, of "i - off"]
  by (auto simp: field_lo_def bit_or_iff bit_and_iff bit_not_iff bit_push_bit_iff bit_field_mask assms(1))

lemma bit_field_hi:
  assumes "sz \<le> 32" "\<forall>i. bit v i \<longrightarrow> i < sz" "off < 32" "32 < off + sz"
  shows "bit (field_hi off sz v w) i \<longleftrightarrow> (if i + 32 < off + sz then bit v (i + 32 - off) else bit w i)"
  using bit_imp_le_length [of w i] assms(2) [rule_format, of "i + 32 - off"] assms(3,4)
  by (auto simp: field_hi_def bit_or_iff bit_and_iff bit_not_iff bit_drop_bit_eq bit_field_mask assms(1) algebra_simps
      dest: bit_imp_le_length)

lemma field_read_one:
  assumes "sz \<le> 32" "\<forall>i. bit v i \<longrightarrow> i < sz" "off + sz \<le> 32"
  shows "field_mask sz AND drop_bit off (field_lo off sz v w) = v"
  by (rule bit_word_eqI)
    (use assms in \<open>auto simp: bit_and_iff bit_drop_bit_eq bit_field_mask bit_field_lo\<close>)

lemma field_read_two:
  assumes "sz \<le> 32" "\<forall>i. bit v i \<longrightarrow> i < sz" "off < 32" "32 < off + sz"
  shows "field_mask sz AND drop_bit off (field_lo off sz v w) OR
    push_bit (32 - off) (field_hi off sz v w' AND drop_bit (32 - off) (field_mask sz)) = v"
proof (rule bit_word_eqI)
  fix i assume i: "i < LENGTH(32)"
  have "i + off - 32 + 32 = i + off" if "32 - off \<le> i" using that assms(3) by simp
  with i show "bit (field_mask sz AND drop_bit off (field_lo off sz v w) OR
    push_bit (32 - off) (field_hi off sz v w' AND drop_bit (32 - off) (field_mask sz))) i = bit v i"
    using assms
    by (cases "32 - off \<le> i")
      (auto simp: bit_or_iff bit_and_iff bit_drop_bit_eq bit_push_bit_iff bit_field_mask bit_field_lo bit_field_hi)
qed

text \<open>Channel parameter fields: a value that fits its field is read back from the registers it
  was written to, also when the field straddles two words, and every bit outside the field keeps
  its value.\<close>

lemma ipu_field_roundtrip:
  fixes s :: kernel and base :: u32 and ch w b sz :: nat
  defines "A \<equiv> base + field_off ch w b" and "off \<equiv> b mod 32"
  assumes "0 < sz" "sz \<le> 32" "\<forall>i. bit v i \<longrightarrow> i < sz"
    and "plain_reg (hw (mach s)) A" "plain_reg (hw (mach s)) (A + 4)"
  shows "wp (ipu_ch_param_write_field base ch w b sz v) (\<lambda>_ t.
      wp (ipu_ch_param_read_field base ch w b sz) (\<lambda>r _. r = v) t
      \<and> (\<forall>i. \<not> (off \<le> i \<and> i < off + sz) \<longrightarrow> bit (io (mach t) A) i = bit (io (mach s) A) i)
      \<and> (\<forall>i. off + sz \<le> i + 32 \<longrightarrow> bit (io (mach t) (A + 4)) i = bit (io (mach s) (A + 4)) i)
      \<and> (\<forall>a. a \<noteq> A \<longrightarrow> a \<noteq> A + 4 \<longrightarrow> io (mach t) a = io (mach s) a)) s"
proof -
  have off: "off < 32" by (simp add: off_def)
  note st = plain_reg_store [OF assms(6)] plain_reg_store [OF assms(7)]
  note fl = field_read_one [OF assms(4,5)] field_read_two [OF assms(4,5) off]
  show ?thesis
  proof (cases "32 < off + sz")
    case True
    then have "off \<noteq> 0" using assms(4) by auto
    with True show ?thesis
      unfolding ipu_ch_param_write_field_def ipu_ch_param_read_field_def Let_def
      using st fl(2) [OF True]
      by (simp add: wp_simps field_span [OF assms(3,4), unfolded One_nat_def] A_def [symmetric] off_def [symmetric]
          field_lo_def [symmetric] field_hi_def [symmetric] bit_field_lo [OF assms(4,5)]
          bit_field_hi [OF assms(4,5) off])
  next
    case False
    then show ?thesis
      unfolding ipu_ch_param_write_field_def ipu_ch_param_read_field_def Let_def
      using st fl(1)
      by (simp add: wp_simps field_span [OF assms(3,4), unfolded One_nat_def] A_def [symmetric] off_def [symmetric]
          field_lo_def [symmetric] bit_field_lo [OF assms(4,5)])
  qed
qed

lemma bits_below: "unat (v :: u32) < 2 ^ sz \<Longrightarrow> \<forall>i. bit v i \<longrightarrow> i < sz"
proof -
  assume "unat v < 2 ^ sz"
  then have "unat (take_bit sz v) = unat v" by (simp add: unsigned_take_bit_eq take_bit_nat_eq_self)
  then have "take_bit sz v = v" by (simp add: word_unat_eq_iff)
  then show ?thesis by (metis bit_take_bit_iff)
qed

lemma ipu_field_roundtrip_witness:
  "wp (ipu_ch_param_write_field 0x60000000 23 0 125 13 0x4FF) (\<lambda>_ t.
      wp (ipu_ch_param_read_field 0x60000000 23 0 125 13) (\<lambda>r _. r = 0x4FF) t
      \<and> (\<forall>i. \<not> (125 mod 32 \<le> i \<and> i < 125 mod 32 + 13) \<longrightarrow>
           bit (io (mach t) (0x60000000 + field_off 23 0 125)) i = bit (io (mach blank) (0x60000000 + field_off 23 0 125)) i)
      \<and> (\<forall>i. 125 mod 32 + 13 \<le> i + 32 \<longrightarrow>
           bit (io (mach t) (0x60000000 + field_off 23 0 125 + 4)) i = bit (io (mach blank) (0x60000000 + field_off 23 0 125 + 4)) i)
      \<and> (\<forall>a. a \<noteq> 0x60000000 + field_off 23 0 125 \<longrightarrow> a \<noteq> 0x60000000 + field_off 23 0 125 + 4 \<longrightarrow>
           io (mach t) a = io (mach blank) a)) blank"
  by (rule ipu_field_roundtrip) (use bits_below [of "0x4FF" 13] in \<open>simp_all add: blank_def\<close>)

section \<open>Clearing\<close>

definition fb_upd :: "(nat \<Rightarrow> u8) \<Rightarrow> kernel \<Rightarrow> kernel" where
  "fb_upd m s = s\<lparr>fb := (fb s)\<lparr>fbmem := m\<rparr>\<rparr>"

lemma fb_upd_sel [simp]: "fbmem (fb (fb_upd m s)) = m" "fb_upd m' (fb_upd m s) = fb_upd m' s"
  by (simp_all add: fb_upd_def)

lemma fb_upd_same: "fb_upd (fbmem (fb s)) s = s"
  by (simp add: fb_upd_def)

lemma wp_fb_put [wp_simps]: "wp (fb_put info off v) Q = (\<lambda>s. buffer info \<noteq> 0 \<and> off < CFG_FBMEM_SIZE
    \<and> Q () (fb_upd ((fbmem (fb s))(unat off := v)) s))"
  by (rule ext) (simp add: fb_put_def wp_simps fb_upd_def)

text \<open>The colour of byte \<open>k\<close> of a cleared buffer.\<close>

definition rgb :: "u8 \<Rightarrow> u8 \<Rightarrow> u8 \<Rightarrow> nat \<Rightarrow> u8" where
  "rgb r g b k = (if k mod 3 = 0 then r else if k mod 3 = 1 then g else b)"

definition painted :: "(nat \<Rightarrow> u8) \<Rightarrow> nat \<Rightarrow> (nat \<Rightarrow> u8) \<Rightarrow> nat \<Rightarrow> u8" where
  "painted c n m = (\<lambda>k. if k < n then c k else m k)"

lemma painted_step:
  "(painted (rgb r g b) (3 * n) m)(3 * n := r, 3 * n + 1 := g, 3 * n + 2 := b) = painted (rgb r g b) (3 * Suc n) m"
proof
  fix k
  have "k < 3 * Suc n \<longleftrightarrow> k < 3 * n \<or> k = 3 * n \<or> k = 3 * n + 1 \<or> k = 3 * n + 2" by auto
  moreover have "(3 * n) mod 3 = 0" "(3 * n + 1) mod 3 = 1" "(3 * n + 2) mod 3 = 2" by presburger+
  ultimately show "((painted (rgb r g b) (3 * n) m)(3 * n := r, 3 * n + 1 := g, 3 * n + 2 := b)) k
      = painted (rgb r g b) (3 * Suc n) m k"
    by (auto simp: painted_def rgb_def)
qed

text \<open>One pixel, the \<open>n\<close>-th of the screen.\<close>

lemma wp_fb_pixel:
  assumes "buffer info \<noteq> 0" "3 * Suc n \<le> unat CFG_FBMEM_SIZE" "unat off = 3 * n"
  shows "wp (thenM (fb_put info (off + 0) r) (thenM (fb_put info (off + 1) g) (fb_put info (off + 2) b)))
    (\<lambda>_ t. t = fb_upd (painted (rgb r g b) (3 * Suc n) m) s) (fb_upd (painted (rgb r g b) (3 * n) m) s)"
proof -
  have u: "unat (off + 1) = 3 * n + 1" "unat (off + 2) = 3 * n + 2"
    using assms(2,3) by (simp_all add: unat_add32)
  show ?thesis
    using assms painted_step [of r g b n m] by (simp add: wp_simps word_less_nat_alt u)
qed

text \<open>The geometry \<open>fb_acquire\<close> sets up, when the whole screen fits the memory.\<close>

definition fb_fits :: "fb_info \<Rightarrow> bool" where
  "fb_fits info \<longleftrightarrow> buffer info \<noteq> 0 \<and> unat (stride info) = 3 * unat (width info)
     \<and> 3 * unat (width info) * unat (height info) \<le> unat CFG_FBMEM_SIZE"

lemma pixel_offset:
  assumes "fb_fits info" "y < unat (height info)" "x < unat (width info)"
  shows "unat (stride info * of_nat y + 3 * of_nat x) = 3 * (unat (width info) * y + x)
    \<and> 3 * Suc (unat (width info) * y + x) \<le> unat CFG_FBMEM_SIZE"
proof -
  let ?w = "unat (width info)"
  have "?w * y + x < ?w * Suc y" using assms(3) by simp
  also have "\<dots> \<le> ?w * unat (height info)" using assms(2) by (intro mult_le_mono2) simp
  finally have lt: "3 * Suc (?w * y + x) \<le> unat CFG_FBMEM_SIZE"
    using assms(1) by (simp add: fb_fits_def)
  have "stride info = of_nat (3 * ?w)"
    using assms(1) of_nat_unat_word [of "stride info"] by (simp only: fb_fits_def)
  then have "stride info * of_nat y + 3 * of_nat x = of_nat (3 * (?w * y + x))"
    by (simp add: algebra_simps)
  moreover have "unat (of_nat (3 * (?w * y + x)) :: u32) = 3 * (?w * y + x)"
    by (rule unat_of_nat_small) (use lt in simp)
  ultimately show ?thesis using lt by (simp only:)
qed

lemma wp_fb_line:
  assumes "fb_fits info" "y < unat (height info)"
  shows "wp (forM [0..<unat (width info)] (\<lambda>x.
         thenM (fb_put info (stride info * of_nat y + 3 * of_nat x + 0) r) (
         thenM (fb_put info (stride info * of_nat y + 3 * of_nat x + 1) g) (
         fb_put info (stride info * of_nat y + 3 * of_nat x + 2) b))))
    (\<lambda>_ t. t = fb_upd (painted (rgb r g b) (3 * (unat (width info) * Suc y)) m) s)
    (fb_upd (painted (rgb r g b) (3 * (unat (width info) * y)) m) s)"
proof -
  let ?w = "unat (width info)"
  let ?I = "\<lambda>xs t. t = fb_upd (painted (rgb r g b) (3 * (?w * y + length xs)) m) s"
  have "wp (forM [0..<?w] (\<lambda>x.
         thenM (fb_put info (stride info * of_nat y + 3 * of_nat x + 0) r) (
         thenM (fb_put info (stride info * of_nat y + 3 * of_nat x + 1) g) (
         fb_put info (stride info * of_nat y + 3 * of_nat x + 2) b))))
    (\<lambda>_. ?I [0..<?w]) (fb_upd (painted (rgb r g b) (3 * (?w * y)) m) s)"
  proof (rule wp_forM [where I = ?I])
    fix ys x zs t
    assume l: "[0..<?w] = ys @ x # zs" and t: "?I ys t"
    have x: "x = length ys" "x < ?w"
      using upt_splitD [OF l] by simp_all
    note off = pixel_offset [OF assms x(2)]
    have buf: "buffer info \<noteq> 0" using assms(1) by (simp add: fb_fits_def)
    show "wp (thenM (fb_put info (stride info * of_nat y + 3 * of_nat x + 0) r) (
         thenM (fb_put info (stride info * of_nat y + 3 * of_nat x + 1) g) (
         fb_put info (stride info * of_nat y + 3 * of_nat x + 2) b))) (\<lambda>_. ?I (ys @ [x])) t"
      using wp_fb_pixel [OF buf conjunct2 [OF off] conjunct1 [OF off], of r g b m s] t x(1)
      by (simp only: length_append_singleton add_Suc_right)
  qed simp
  then show ?thesis by (rule wp_mono) (simp add: algebra_simps)
qed

text \<open>\<open>fb_clear\<close> on a screen that fits the frame buffer memory returns without a fault, paints
  every pixel of the screen in the colour given and touches nothing else.\<close>

lemma fb_clear_correct:
  assumes "fb_fits info"
  shows "fb_clear info r g b s = Inr ((), fb_upd (\<lambda>k.
    if k < 3 * unat (width info) * unat (height info) then rgb r g b k else fbmem (fb s) k) s)"
proof -
  let ?w = "unat (width info)" and ?h = "unat (height info)" and ?m = "fbmem (fb s)"
  let ?I = "\<lambda>ys t. t = fb_upd (painted (rgb r g b) (3 * (?w * length ys)) ?m) s"
  have "wp (fb_clear info r g b) (\<lambda>_. ?I [0..<?h]) s"
    unfolding fb_clear_def
  proof (rule wp_forM [where I = ?I])
    show "?I [] s" by (simp add: painted_def fb_upd_def)
    fix ys y zs t
    assume l: "[0..<?h] = ys @ y # zs" and t: "?I ys t"
    have y: "y = length ys" "y < ?h"
      using upt_splitD [OF l] by simp_all
    show "wp (let line = stride info * of_nat y in forM [0..<?w] (\<lambda>x.
         thenM (fb_put info (line + 3 * of_nat x + 0) r) (
         thenM (fb_put info (line + 3 * of_nat x + 1) g) (
         fb_put info (line + 3 * of_nat x + 2) b)))) (\<lambda>_. ?I (ys @ [y])) t"
      unfolding Let_def using wp_fb_line [OF assms y(2), of r g b ?m s] t y(1)
      by (simp only: length_append_singleton)
  qed
  then have "fb_clear info r g b s = Inr ((), fb_upd (painted (rgb r g b) (3 * (?w * ?h)) ?m) s)"
    by (auto simp: wp_iff)
  then show ?thesis by (simp add: painted_def mult.assoc)
qed

lemma fb_clear_correct_witness:
  "let info = \<lparr>width = 2, height = 2, stride = 6, buffer = 0x1000, prev_params_ch0 = [], prev_params_ch1 = []\<rparr>
   in fb_clear info 1 2 3 blank = Inr ((), fb_upd (\<lambda>k.
     if k < 3 * unat (width info) * unat (height info) then rgb 1 2 3 k else fbmem (fb blank) k) blank)"
  unfolding Let_def by (rule fb_clear_correct) (simp add: fb_fits_def)

section \<open>Copying images\<close>

text \<open>The frame buffer contents after \<open>n\<close> bytes of \<open>buf\<close> from \<open>src\<close> have been copied to \<open>dst\<close>.\<close>

definition copied :: "u8 list \<Rightarrow> nat \<Rightarrow> nat \<Rightarrow> nat \<Rightarrow> (nat \<Rightarrow> u8) \<Rightarrow> nat \<Rightarrow> u8" where
  "copied buf src dst n m = (\<lambda>k. if dst \<le> k \<and> k < dst + n then buf ! (src + (k - dst)) else m k)"

lemma copied_0: "copied buf src dst 0 m = m"
  by (rule ext) (auto simp: copied_def)

lemma wp_fb_memcpy:
  assumes "buffer info \<noteq> 0" "unat dst + unat n \<le> unat CFG_FBMEM_SIZE"
    and "unat src + unat n \<le> length buf" "length buf < 2 ^ 32"
  shows "wp (fb_memcpy info dst buf src n)
    (\<lambda>_ t. t = fb_upd (copied buf (unat src) (unat dst) (unat n) m) s) (fb_upd m s)"
proof -
  let ?I = "\<lambda>ys t. t = fb_upd (copied buf (unat src) (unat dst) (length ys) m) s"
  have "wp (fb_memcpy info dst buf src n) (\<lambda>_. ?I [0..<unat n]) (fb_upd m s)"
    unfolding fb_memcpy_def
  proof (rule wp_forM [where I = ?I])
    show "?I [] (fb_upd m s)" by (simp add: copied_0)
    fix ys i zs t
    assume l: "[0..<unat n] = ys @ i # zs" and t: "?I ys t"
    have i: "i = length ys" "i < unat n" using upt_splitD [OF l] by simp_all
    have s: "unat (src + of_nat i) = unat src + i" and d: "unat (dst + of_nat i) = unat dst + i"
      using i(2) assms unat_lt32 [of n] by (simp_all add: unat_add32 unat_of_nat_small)
    have "(copied buf (unat src) (unat dst) i m)(unat dst + i := buf ! (unat src + i))
        = copied buf (unat src) (unat dst) (Suc i) m"
      by (rule ext) (auto simp: copied_def)
    then show "wp (bindM (index_at buf (unat (src + of_nat i))) (\<lambda>v. fb_put info (dst + of_nat i) v))
        (\<lambda>_. ?I (ys @ [i])) t"
      unfolding wp_simps s d word_less_nat_alt using assms i t by simp
  qed
  then show ?thesis by simp
qed

text \<open>The bytes of the screen rectangle of \<open>rows\<close> rows from row \<open>y\<close> and of the bytes \<open>c0\<close> to
  \<open>c0 + c\<close> of each row, on lines of \<open>st\<close> bytes.\<close>

definition in_rect :: "nat \<Rightarrow> nat \<Rightarrow> nat \<Rightarrow> nat \<Rightarrow> nat \<Rightarrow> nat \<Rightarrow> bool" where
  "in_rect st y rows c0 c k \<longleftrightarrow> y \<le> k div st \<and> k div st < y + rows \<and> c0 \<le> k mod st \<and> k mod st < c0 + c"

definition blitted :: "nat \<Rightarrow> nat \<Rightarrow> nat \<Rightarrow> nat \<Rightarrow> nat \<Rightarrow> nat \<Rightarrow> u8 list \<Rightarrow> (nat \<Rightarrow> u8) \<Rightarrow> nat \<Rightarrow> u8" where
  "blitted st y rows c0 c w3 buf m = (\<lambda>k. if in_rect st y rows c0 c k
     then buf ! (w3 * (k div st - y) + (k mod st - c0)) else m k)"

lemma blitted_0: "blitted st y 0 c0 c w3 buf m = m"
  by (rule ext) (auto simp: blitted_def in_rect_def)

lemma row_iff:
  fixes st k q c0 c :: nat
  assumes "c0 + c \<le> st"
  shows "k div st = q \<and> c0 \<le> k mod st \<and> k mod st < c0 + c \<longleftrightarrow> st * q + c0 \<le> k \<and> k < st * q + c0 + c"
proof
  assume h: "st * q + c0 \<le> k \<and> k < st * q + c0 + c"
  then obtain r where r: "k = st * q + r" "r < st" using assms
    by (metis add_leD1 le_add_diff_inverse2 nat_le_iff_add add.commute less_diff_conv2 order_less_le_trans add_less_cancel_left add.assoc)
  then show "k div st = q \<and> c0 \<le> k mod st \<and> k mod st < c0 + c" using h by simp
next
  assume "k div st = q \<and> c0 \<le> k mod st \<and> k mod st < c0 + c"
  moreover have "k = st * (k div st) + k mod st" by simp
  ultimately show "st * q + c0 \<le> k \<and> k < st * q + c0 + c" by (metis add.assoc add_le_cancel_left add_less_cancel_left)
qed

lemma copied_row:
  assumes "c0 + c \<le> st"
  shows "copied buf (w3 * j) (st * (y + j) + c0) c (blitted st y j c0 c w3 buf m)
    = blitted st y (Suc j) c0 c w3 buf m"
proof
  fix k
  show "copied buf (w3 * j) (st * (y + j) + c0) c (blitted st y j c0 c w3 buf m) k
    = blitted st y (Suc j) c0 c w3 buf m k"
  proof (cases "st * (y + j) + c0 \<le> k \<and> k < st * (y + j) + c0 + c")
    case True
    then have q: "k div st = y + j" "c0 \<le> k mod st" "k mod st < c0 + c" using row_iff [OF assms] by blast+
    have "k - (st * (y + j) + c0) = k mod st - c0"
      using mult_div_mod_eq [of st k] q(1) by (metis diff_diff_left diff_add_inverse)
    then show ?thesis using True q by (simp add: copied_def blitted_def in_rect_def)
  next
    case False
    then have "\<not> (k div st = y + j \<and> c0 \<le> k mod st \<and> k mod st < c0 + c)" using row_iff [OF assms] by blast
    then have "in_rect st y (Suc j) c0 c k = in_rect st y j c0 c k" by (auto simp: in_rect_def)
    then show ?thesis using False by (auto simp: copied_def blitted_def)
  qed
qed

lemma takeWhile_upt: "takeWhile (\<lambda>j. j < n) [0..<h] = [0..<min n h]"
  by (induction h) (auto simp: takeWhile_append min_def takeWhile_eq_all_conv not_less le_Suc_eq)

lemma blit_rows:
  fixes y h ht :: u32
  assumes "unat y < unat ht" "unat y + unat h < 2 ^ 32"
  shows "takeWhile (\<lambda>j. y + of_nat j < ht) [0..<unat h] = [0..<min (unat ht - unat y) (unat h)]"
proof -
  have "y + of_nat j < ht \<longleftrightarrow> j < unat ht - unat y" if "j < unat h" for j
    using that assms unat_lt32 [of h] by (auto simp: word_less_nat_alt unat_add32 unat_of_nat_small)
  then have "takeWhile (\<lambda>j. y + of_nat j < ht) [0..<unat h] = takeWhile (\<lambda>j. j < unat ht - unat y) [0..<unat h]"
    by (intro takeWhile_cong) simp_all
  then show ?thesis by (simp only: takeWhile_upt)
qed

text \<open>Where a row of the copy goes, and that it stays inside the screen and the image.\<close>

lemma blit_row_addr:
  assumes fits: "fb_fits info" and x: "unat x < unat (width info)"
    and j: "j < min (unat (height info) - unat y) (unat h)" and y: "unat y + unat h < 2 ^ 32"
    and img: "length buf = 3 * unat w * unat h" "length buf < 2 ^ 32" and c: "c \<le> unat w" "unat x + c \<le> unat (width info)"
  shows "unat (stride info * (y + of_nat j) + 3 * x) = unat (stride info) * (unat y + j) + 3 * unat x"
    and "unat (stride info) * (unat y + j) + 3 * unat x + 3 * c \<le> unat CFG_FBMEM_SIZE"
    and "unat (3 * w * of_nat j :: u32) = 3 * unat w * j"
    and "3 * unat w * j + 3 * c \<le> length buf"
proof -
  let ?st = "unat (stride info)"
  have st: "?st = 3 * unat (width info)" and sz: "?st * unat (height info) \<le> unat CFG_FBMEM_SIZE"
    using fits by (simp_all add: fb_fits_def)
  have "?st * (unat y + j) + ?st \<le> ?st * unat (height info)"
    using j mult_le_mono2 [of "Suc (unat y + j)" "unat (height info)" ?st] by (simp add: less_diff_conv Suc_le_eq)
  then show fit: "?st * (unat y + j) + 3 * unat x + 3 * c \<le> unat CFG_FBMEM_SIZE"
    using sz st c(2) by linarith
  have "stride info * (y + of_nat j) + 3 * x = of_nat (?st * (unat y + j) + 3 * unat x)"
    by simp
  moreover have "unat (of_nat (?st * (unat y + j) + 3 * unat x) :: u32) = ?st * (unat y + j) + 3 * unat x"
    by (rule unat_of_nat_small) (use fit in simp)
  ultimately show "unat (stride info * (y + of_nat j) + 3 * x) = ?st * (unat y + j) + 3 * unat x" by (simp only:)
  have "3 * unat w * j + 3 * unat w \<le> 3 * unat w * unat h"
    using j mult_le_mono2 [of "Suc j" "unat h" "3 * unat w"] by simp
  then show src: "3 * unat w * j + 3 * c \<le> length buf" using img(1) c(1) by simp
  have "3 * w * of_nat j = (of_nat (3 * unat w * j) :: u32)" by simp
  moreover have "unat (of_nat (3 * unat w * j) :: u32) = 3 * unat w * j"
    by (rule unat_of_nat_small) (use src img(2) in simp)
  ultimately show "unat (3 * w * of_nat j :: u32) = 3 * unat w * j" by (simp only:)
qed

lemma copy_per_line:
  fixes x w wd :: u32
  assumes "unat x < unat wd" "unat x + unat w < 2 ^ 32" "3 * unat wd < 2 ^ 32"
  shows "unat (if x + w > wd then 3 * (wd - x) else 3 * w) = 3 * min (unat w) (unat wd - unat x)"
proof -
  have "unat (3 * v :: u32) = 3 * unat v" if "unat v \<le> unat wd" for v :: u32
  proof -
    have "3 * v = of_nat (3 * unat v)" by simp
    moreover have "unat (of_nat (3 * unat v) :: u32) = 3 * unat v"
      by (rule unat_of_nat_small) (use that assms(3) in simp)
    ultimately show ?thesis by (simp only:)
  qed
  then show ?thesis using assms by (auto simp: word32_nat)
qed

text \<open>C36: \<open>fb_blit\<close> copies an image to a position on the screen and clips it at the right and bottom
  edges: it returns without a fault, every byte of the visible rectangle is the image's byte at the
  corresponding row and column, and no byte outside the rectangle changes.\<close>

theorem fb_blit_correct:
  assumes fits: "fb_fits info" and x: "unat x < unat (width info)" "unat x + unat w < 2 ^ 32"
    and y: "unat y < unat (height info)" "unat y + unat h < 2 ^ 32"
    and img: "length buf = 3 * unat w * unat h" "length buf < 2 ^ 32"
  shows "fb_blit info x y buf w h s = Inr ((), fb_upd (\<lambda>k.
    let st = unat (stride info); row = k div st; col = k mod st in
    if unat y \<le> row \<and> row < min (unat y + unat h) (unat (height info))
      \<and> 3 * unat x \<le> col \<and> col < 3 * min (unat x + unat w) (unat (width info))
    then buf ! (3 * unat w * (row - unat y) + (col - 3 * unat x)) else fbmem (fb s) k) s)"
proof -
  let ?st = "unat (stride info)" and ?c = "min (unat w) (unat (width info) - unat x)"
  let ?n = "min (unat (height info) - unat y) (unat h)" and ?m = "fbmem (fb s)"
  let ?I = "\<lambda>ys t. t = fb_upd (blitted ?st (unat y) (length ys) (3 * unat x) (3 * ?c) (3 * unat w) buf ?m) s"
  have st: "?st = 3 * unat (width info)" and buf: "buffer info \<noteq> 0" using fits by (simp_all add: fb_fits_def)
  have st32: "3 * unat (width info) < 2 ^ 32" using st unat_lt [of "stride info"] by simp
  note cpl = copy_per_line [OF x st32]
  have "wp (fb_blit info x y buf w h) (\<lambda>_. ?I [0..<?n]) s"
    unfolding fb_blit_def Let_def blit_rows [OF y]
  proof -
    have "\<not> (width info \<le> x \<or> height info \<le> y)" using x y by (simp add: word_le_nat_alt)
    moreover have "wp (forM [0..<?n] (\<lambda>j. fb_memcpy info (stride info * (y + of_nat j) + 3 * x) buf
        (3 * w * of_nat j) (if x + w > width info then 3 * (width info - x) else 3 * w))) (\<lambda>_. ?I [0..<?n]) s"
    proof (rule wp_forM [where I = ?I])
      show "?I [] s" by (simp add: blitted_0 fb_upd_same)
      fix ys j zs t
      assume l: "[0..<?n] = ys @ j # zs" and t: "?I ys t"
      have j: "j = length ys" "j < ?n" using upt_splitD [OF l] by simp_all
      note addr = blit_row_addr [OF fits x(1) j(2) y(2) img, of ?c]
      have sum: "3 * unat x + 3 * ?c \<le> ?st" using x(1) st by simp
      show "wp (fb_memcpy info (stride info * (y + of_nat j) + 3 * x) buf
        (3 * w * of_nat j) (if x + w > width info then 3 * (width info - x) else 3 * w)) (\<lambda>_. ?I (ys @ [j])) t"
        unfolding t
        by (rule wp_mono [OF wp_fb_memcpy])
          (use buf cpl addr x img j copied_row [OF sum] in simp_all)
    qed
    ultimately show "wp (if width info \<le> x \<or> height info \<le> y then ret () else forM [0..<?n] (\<lambda>j. fb_memcpy info (stride info * (y + of_nat j) + 3 * x) buf
        (3 * w * of_nat j) (if x + w > width info then 3 * (width info - x) else 3 * w))) (\<lambda>_. ?I [0..<?n]) s"
      by simp
  qed
  moreover have "unat y + ?n = min (unat y + unat h) (unat (height info))"
    "3 * unat x + 3 * ?c = 3 * min (unat x + unat w) (unat (width info))"
    using x(1) y(1) by (auto simp: min_def)
  ultimately show ?thesis
    by (auto simp: wp_iff blitted_def in_rect_def Let_def)
qed


definition screen_example :: fb_info where
  "screen_example = \<lparr>width = 4, height = 3, stride = 12, buffer = 0x1000, prev_params_ch0 = [], prev_params_ch1 = []\<rparr>"

theorem fb_blit_correct_witness:
  "let info = screen_example; x = 3; y = 2; w = 2; h = 2; buf = replicate 12 7 in
   fb_blit info x y buf w h blank = Inr ((), fb_upd (\<lambda>k.
    let st = unat (stride info); row = k div st; col = k mod st in
    if unat y \<le> row \<and> row < min (unat y + unat h) (unat (height info))
      \<and> 3 * unat x \<le> col \<and> col < 3 * min (unat x + unat w) (unat (width info))
    then buf ! (3 * unat w * (row - unat y) + (col - 3 * unat x)) else fbmem (fb blank) k) blank)"
  unfolding Let_def [of screen_example] Let_def [of 3] Let_def [of 2] Let_def [of "replicate 12 7"]
  by (rule fb_blit_correct) (simp_all add: fb_fits_def screen_example_def)

lemma faults_only_fb_put: "buffer info \<noteq> 0 \<Longrightarrow> faults_only Out_of_bounds (fb_put info off v)"
  by (auto simp: faults_only_def fb_put_def modifyM_def throw_def)

text \<open>\<open>fb_acquire\<close> trusts the screen size the display registers report, at most 8192 by 4096 pixels:
  when the screen needs more bytes than the frame buffer memory has, clearing it stores outside
  that memory, and the secure kernel's own memory follows it.\<close>

lemma fb_clear_overflow:
  assumes "buffer info \<noteq> 0" "unat (stride info) = 3 * unat (width info)"
    and size: "unat (width info) \<le> 8192" "unat (height info) \<le> 4096"
    and big: "unat CFG_FBMEM_SIZE < 3 * unat (width info) * unat (height info)"
  shows "fb_clear info r g b s = Inl Out_of_bounds"
proof -
  define x y where "x = unat (width info) - 1" and "y = unat (height info) - 1"
  have pos: "unat (width info) = Suc x" "unat (height info) = Suc y"
    using big by (auto simp: x_def y_def intro!: Suc_pred [symmetric] gr0I)
  have "3 * Suc x * Suc y \<le> 3 * 8192 * 4096"
    using size by (intro mult_le_mono) (simp_all add: pos)
  then have lt: "3 * Suc x * y + 3 * x + 2 < 2 ^ LENGTH(32)" by simp
  have "stride info = of_nat (3 * Suc x)"
    using assms(2) of_nat_unat_word [of "stride info"] by (simp only: pos)
  then have "stride info * of_nat y + 3 * of_nat x + 2 = of_nat (3 * Suc x * y + 3 * x + 2)"
    by (simp add: algebra_simps)
  then have "unat (stride info * of_nat y + 3 * of_nat x + 2) = 3 * Suc x * y + 3 * x + 2"
    using unat_of_nat_small [OF lt] by (simp only:)
  moreover have "unat CFG_FBMEM_SIZE < 3 * Suc x * y + 3 * x + 2 + 1"
    using big pos by (simp add: algebra_simps)
  ultimately have last: "fb_put info (stride info * of_nat y + 3 * of_nat x + 2) b t = Inl Out_of_bounds" for t
    using assms(1) by (simp add: fb_put_def throw_def word_less_nat_alt)
  have only: "faults_only Out_of_bounds (thenM (fb_put info a r) (thenM (fb_put info a' g) (fb_put info a'' b)))" for a a' a''
    using assms(1) by (intro faults_only_thenM faults_only_fb_put)
  have pixel: "thenM (fb_put info a r) (thenM (fb_put info a' g)
      (fb_put info (stride info * of_nat y + 3 * of_nat x + 2) b)) t = Inl Out_of_bounds" for a a' t
    using faults_only_fb_put [OF assms(1)] last
    by (auto simp: thenM_def bindM_def faults_only_def split: sum.splits prod.splits)
  show ?thesis
    unfolding fb_clear_def Let_def
    by (rule forM_faults [where x = y] faults_only_forM only forM_faults [where x = x] pixel
      | simp add: pos del: upt_Suc)+
qed

lemma fb_clear_overflow_witness:
  "fb_clear (screen_example\<lparr>width := 2560, height := 1600, stride := 7680\<rparr>) 0 0 0 blank = Inl Out_of_bounds"
  by (rule fb_clear_overflow) (simp_all add: screen_example_def)

end
