(* ===== verification/Emu_Dispatch.thy ===== *)
theory Emu_Dispatch
  imports Gpio Framebuffer
begin

text \<open>
  The composition of emulation.c with the drivers that register regions: the function pointers a
  region can hold, bound to \<open>emu_allow_all\<close>, \<open>emu_deny_all\<close>, \<open>gpio_emu_check\<close> of imx\_gpio.c and
  \<open>fb_emu_check\<close> of imx\_fb.c, and what the guarded regions mean for a store or a load of the normal
  world.
\<close>

definition region_check :: emu_dispatch where
  "region_check r a st v = (case r_check r of
       EMU_ALLOW_ALL \<Rightarrow> emu_allow_all v
     | EMU_DENY_ALL \<Rightarrow> emu_deny_all v
     | GPIO_EMU_CHECK \<Rightarrow> gpio_emu_check r a st v
     | FB_EMU_CHECK \<Rightarrow> fb_emu_check r a st v)"

section \<open>The drivers' checks never lose the value\<close>

lemma wlp_check_kept: "wlp (check_kept p sel m (Some x)) (\<lambda>y _. snd y \<noteq> None) s"
  by (simp add: check_kept_def wp_simps)

lemma wlp_check_isr_write: "wlp (check_isr_write p pt (Some x)) (\<lambda>y _. snd y \<noteq> None) s"
  by (simp add: check_isr_write_def wp_simps)

lemma wlp_with_port:
  "(\<And>p pt t. wlp (f p pt) Q t) \<Longrightarrow> wlp (with_port po f) Q s"
  by (simp add: with_port_def wp_simps)

lemma wlp_if_rule: "wlp p Q s \<Longrightarrow> wlp q Q s \<Longrightarrow> wlp (if b then p else q) Q s"
  by simp

lemma wlp_state_rule: "wlp p Q s \<Longrightarrow> wlp q Q s \<Longrightarrow> wlp q' Q s \<Longrightarrow>
    wlp (case st of EMU_STATE_WRITE \<Rightarrow> p | EMU_STATE_READ_BEFORE \<Rightarrow> q | EMU_STATE_READ_AFTER \<Rightarrow> q') Q s"
  by (cases st) simp_all

lemma wlp_gpio_emu_check: "wlp (gpio_emu_check r a st (Some x)) (\<lambda>y _. snd y \<noteq> None) s"
proof -
  have r: "wlp (ret (b, Some y)) (\<lambda>y _. snd y \<noteq> None) t" for b y and t :: kernel by (simp add: wp_simps)
  have d: "wlp (bindM (deref (Some x)) (\<lambda>v. ret (f v, Some x))) (\<lambda>y _. snd y \<noteq> None) t" for f and t :: kernel
    by (simp add: wp_simps)
  show ?thesis
    unfolding gpio_emu_check_def Let_def gpio_port_from_address_def wlp_bindM wlp_gets wlp_hwdata option.map
    by (intro allI impI wlp_if_rule wlp_state_rule wlp_with_port wlp_check_kept wlp_check_isr_write r d)
qed

interpretation emu: emu_checks region_check
proof
  fix r a st x s ok v' t
  assume "region_check r a st (Some x) s = Inr ((ok, v'), t)"
  moreover have "wlp (region_check r a st (Some x)) (\<lambda>y _. snd y \<noteq> None) s"
    using wlp_gpio_emu_check
    by (auto simp: region_check_def emu_allow_all_def emu_deny_all_def fb_emu_check_def Let_def wp_simps
        split: emu_check_fn.split)
  ultimately show "v' \<noteq> None" by (auto dest: wlpD)
qed (simp_all add: region_check_def)

section \<open>Emulated stores to a guarded GPIO port\<close>

lemma emu_check_loop_filter:
  "emu_check_loop chk rs a st al v = emu_check_loop chk (filter (\<lambda>r. in_region r a) rs) a st al v"
  by (induction rs arbitrary: al v) (auto simp: split_beta')

lemma bit_secure_icr_mask:
  "n \<le> 16 \<Longrightarrow> bit (secure_icr_mask sm base n) k \<longleftrightarrow> k div 2 < n \<and> bit sm (k div 2 + base)"
proof (induction n)
  case (Suc n)
  have three: "bit (push_bit (2 * n) 3 :: u32) k \<longleftrightarrow> k div 2 = n"
  proof -
    have m: "(3 :: u32) = mask 2" by (simp add: mask_eq_exp_minus_1)
    show ?thesis unfolding m using Suc.prems by (auto simp: bit_push_bit_iff bit_mask_iff)
  qed
  show ?case using Suc three by (auto simp: bit_or_iff and_bit32_eq_0_iff less_Suc_eq)
qed simp

text \<open>The registers of the port the check protects, and the bits of each that belong to a pin.\<close>

definition pin_bits :: "u32 \<Rightarrow> nat \<Rightarrow> nat set" where
  "pin_bits off i =
     (if off = 0 \<or> off = 4 \<or> off = 0x1C then {i}
      else if off = 0xC \<and> i < 16 then {2 * i, 2 * i + 1}
      else if off = 0x10 \<and> 16 \<le> i then {2 * (i - 16), 2 * (i - 16) + 1}
      else {})"

text \<open>Port \<open>p\<close> is guarded at \<open>a\<close>: its region, which its driver registered, is the only one there.\<close>

definition guarded_port :: "kernel \<Rightarrow> nat \<Rightarrow> region \<Rightarrow> paddr \<Rightarrow> bool" where
  "guarded_port s p r a \<longleftrightarrow> filter (\<lambda>r. in_region r a) (regions (emu s)) = [r]
     \<and> r_check r = GPIO_EMU_CHECK \<and> ports (gpio s) p \<noteq> None
     \<and> find_port (\<lambda>p. map_option pbase (ports (gpio s) p) = Some (r_base r)) (mxc_gpio_ports (gpio s)) = Some p
     \<and> gpio_hwdata (gpio s) = Some imx35_gpio_hwdata"

lemma emu_check_one:
  assumes "filter (\<lambda>r. in_region r a) (regions (emu s)) = [r]"
  shows "emu_check chk a st v s = chk r a st v s"
proof -
  have "in_region r a" using assms by (metis filter_eq_Cons_iff)
  then show ?thesis
    unfolding emu_check_def bindM_def gets_def
    by (subst emu_check_loop_filter) (simp add: assms bindM_def ret_def split: sum.split)
qed

lemma store_one_region:
  assumes "filter (\<lambda>r. in_region r a) (regions (emu s)) = [r]"
  shows "wp (emu_handle_store chk a va v sz) Q s =
    wp (chk r a EMU_STATE_WRITE (Some v)) (\<lambda>x. wp (deref (snd x)) (\<lambda>v.
      wp (whenM (fst x) (write_sized v va sz)) (\<lambda>_. Q v))) s"
  using emu_check_one [OF assms, of chk EMU_STATE_WRITE "Some v"]
  by (simp add: emu_handle_store_def wp_simps split_beta) (simp add: wp_def)

lemma check_kept_store:
  assumes "port_ready s p" "plain_reg (hw (mach s)) (port_reg s p sel)"
  shows "wp (check_kept p sel m (Some v)) (\<lambda>x. wp (deref (snd x)) (\<lambda>v.
      wp (whenM (fst x) (write_sized v (port_reg s p sel) 4)) (\<lambda>_ t. only_io s t
        \<and> io (mach t) (port_reg s p sel) AND m = io (mach s) (port_reg s p sel) AND m))) s"
  using assms by (auto simp: check_kept_def wp_simps write_sized_def only_io_refl plain_reg_store)
    (auto simp: only_io_def)

lemma kept_bit: "x AND m = y AND m \<Longrightarrow> bit m b \<Longrightarrow> bit x b = bit (y :: u32) b"
  by (metis bit_and_iff)

text \<open>The check of a protected register is the comparison of its secure bits.\<close>

definition protected_mask :: "u32 \<Rightarrow> u32 \<Rightarrow> u32" where
  "protected_mask off sm = (if off = 0 \<or> off = 4 \<or> off = 0x1C then sm
     else secure_icr_mask sm (if off = 0x10 then 16 else 0) 16)"

lemma gpio_check_kept:
  assumes "guarded_port s p r a" "a = r_base r + off" "off \<in> {0, 4, 0x1C, 0xC, 0x10}"
  shows "wp (region_check r a EMU_STATE_WRITE (Some v)) Q s =
    wp (check_kept p (\<lambda>_. off) (protected_mask off (secure_mask (the (ports (gpio s) p)))) (Some v)) Q s"
proof -
  obtain pt where pt: "ports (gpio s) p = Some pt" using assms(1) by (auto simp: guarded_port_def)
  have o: "a - r_base r = off" using assms(2) by simp
  have h: "gpio_hwdata (gpio s) = Some imx35_gpio_hwdata" using assms(1) by (simp add: guarded_port_def)
  have rc: "r_check r = GPIO_EMU_CHECK"
    and fp: "find_port (\<lambda>p. map_option pbase (ports (gpio s) p) = Some (r_base r)) (mxc_gpio_ports (gpio s)) = Some p"
    using assms(1) by (simp_all add: guarded_port_def)
  have w: "wp (check_kept p sel m (Some v)) Q s \<longleftrightarrow>
      Q (io (mach s) (vbase pt + sel imx35_gpio_hwdata) AND m = v AND m, Some v) s" for sel m
    using h pt by (simp add: check_kept_def wp_simps port_reg_def port_ready_def)
  have u: "wp (region_check r a EMU_STATE_WRITE (Some v)) Q s =
      wp (if off = 0 then check_kept p dr_reg (secure_mask pt) (Some v)
          else if off = 4 then check_kept p gdir_reg (secure_mask pt) (Some v)
          else if off = 0x1C then check_kept p (\<lambda>h. of_int (edge_sel_reg h)) (secure_mask pt) (Some v)
          else check_kept p (\<lambda>_. off) (secure_icr_mask (secure_mask pt) (if off = 0x10 then 16 else 0) 16) (Some v)) Q s"
    using assms(3)
    by (auto simp: region_check_def rc gpio_emu_check_def gpio_port_from_address_def o wp_bindM wp_gets fp
        wp_hwdata h with_port_def wp_deref wp_port_at pt imx35_gpio_hwdata_def
        simp del: map_option_eq_Some)
  show ?thesis unfolding u using assms(3)
    by (auto simp: w pt protected_mask_def imx35_gpio_hwdata_def)
qed

lemma protected_bit:
  assumes "off \<in> {0, 4, 0x1C, 0xC, 0x10}" "bit sm i" "b \<in> pin_bits off i"
  shows "bit (protected_mask off sm) b"
  using assms bit_imp_le_length [OF assms(2)]
  by (auto simp: pin_bits_def protected_mask_def bit_secure_icr_mask split: if_splits)


definition guarded_example :: "u32 \<Rightarrow> kernel" where
  "guarded_example i = (emu_example i)\<lparr>
     emu := (emu (emu_example i))\<lparr>regions := [\<lparr>r_base = 0x020A0000, r_size = 0x4000, r_check = GPIO_EMU_CHECK\<rparr>]\<rparr>,
     gpio := gpio gpio_example\<rparr>"

lemma guarded_example: "guarded_port (guarded_example i) 0 \<lparr>r_base = 0x020A0000, r_size = 0x4000, r_check = GPIO_EMU_CHECK\<rparr> 0x020A0000"
  by (simp add: guarded_port_def guarded_example_def gpio_example_def in_region_def port_example_def)



section \<open>Denied regions\<close>

definition generic_region :: "region \<Rightarrow> bool" where
  "generic_region r \<longleftrightarrow> r_check r = EMU_ALLOW_ALL \<or> r_check r = EMU_DENY_ALL"

text \<open>A disabled device cannot be reached through emulation: when a region that denies everything
  covers the address (and no driver with a check of its own does), every single-register load or
  store of the normal world to it leaves the whole kernel state, device registers included, as it
  was, a load gives 0 and a store keeps its register.\<close>

lemma denied_device_untouched:
  assumes "emulated s status dpa ipa" "arm_decode (instr_at s ipa) = Some acc"
    and rt: "rt_of (instr_at s ipa) \<le> 12 \<or> rt_of (instr_at s ipa) = 14"
    and ctx: "length (nr0_7 ctx) = 8" "length (nr8_12 ctx) = 5"
    and deny: "r \<in> set (regions (emu s))" "in_region r dpa" "r_check r = EMU_DENY_ALL"
    and gen: "\<forall>r \<in> set (regions (emu s)). in_region r dpa \<longrightarrow> generic_region r"
  shows "emu_handle region_check ctx status dpa ipa s =
    (case acc of Load _ _ \<Rightarrow> Inr (set_reg (rt_of (instr_at s ipa)) 0 ctx, s) | Store _ \<Rightarrow> Inr (ctx, s))"
proof -
  let ?i = "instr_at s ipa"
  have g: "emu.generic_at (regions (emu s)) dpa" using gen by (simp add: emu.generic_at_def generic_region_def)
  have d: "emu.denied_at (regions (emu s)) dpa" using deny by (auto simp: emu.denied_at_def)
  have reg: "\<exists>v. get_reg (rt_of ?i) ctx s = Inr (v, s) \<and> set_reg (rt_of ?i) v ctx = ctx"
  proof -
    have "unat (rt_of ?i) < 8" if "rt_of ?i \<le> 7" using that by (simp add: word_le_nat_alt)
    moreover have "unat (rt_of ?i - 8) < 5" if "\<not> rt_of ?i \<le> 7" "rt_of ?i \<le> 12"
      using that by (simp add: word32_nat)
    ultimately show ?thesis using rt ctx by (auto simp: get_reg_def set_reg_def index_at_def ret_def)
  qed
  then show ?thesis
    using emu.load_generic [OF g d] emu.store_generic [OF g d]
    by (cases acc) (auto simp: emu_handle_access [OF assms(1-3)] emu_transfer_def bindM_def ret_def)
qed

definition denied_example :: kernel where
  "denied_example = (emu_example 0xE5910000)\<lparr>emu := (emu (emu_example 0xE5910000))\<lparr>regions :=
     [\<lparr>r_base = 0x020A0000, r_size = 0x4000, r_check = EMU_DENY_ALL\<rparr>]\<rparr>\<rparr>"

lemma denied_device_untouched_witness:
  "emu_handle region_check ctx_example 0x008 0x020A0000 0x10000000 denied_example =
    (case Load 4 False of Load _ _ \<Rightarrow> Inr (set_reg (rt_of (instr_at denied_example 0x10000000)) 0 ctx_example, denied_example)
     | Store _ \<Rightarrow> Inr (ctx_example, denied_example))"
proof (rule denied_device_untouched [where r = "\<lparr>r_base = 0x020A0000, r_size = 0x4000, r_check = EMU_DENY_ALL\<rparr>"])
  have i: "instr_at denied_example 0x10000000 = 0xE5910000"
    by (simp add: denied_example_def instr_at_def emu_example_def)
  show "arm_decode (instr_at denied_example 0x10000000) = Some (Load 4 False)" unfolding i by code_simp
  show "rt_of (instr_at denied_example 0x10000000) \<le> 12 \<or> rt_of (instr_at denied_example 0x10000000) = 14"
    unfolding i by code_simp
  show "emulated denied_example 0x008 0x020A0000 0x10000000"
    by (simp add: denied_example_def emulated_def emu_example_def)
qed (simp_all add: denied_example_def in_region_def ctx_example_def generic_region_def)

end
