(* ===== verification/Device_Tree.thy ===== *)
theory Device_Tree
  imports Emu_Dispatch
begin

text \<open>
  core/drivers/dt.c, the part that runs after boot: the hash table of the devices found in the device
  tree, the walk over it, and the switch that takes a device away from the normal world or gives it
  back (interrupts, CSU slots, emulation regions), alone or for a whole class of devices.
\<close>

section \<open>The device table\<close>

abbreviation (input) DEVICE_TABLE_SIZE :: nat where "DEVICE_TABLE_SIZE \<equiv> 128"

definition hash_32 :: "u32 \<Rightarrow> nat \<Rightarrow> u32" where
  "hash_32 val bits = drop_bit (32 - bits) (val * 0x61C88647)"

definition device_at :: "nat \<Rightarrow> device km" where
  "device_at d = bindM (gets (\<lambda>s. devs (dt s) d)) deref"

definition bucket_of :: "int \<Rightarrow> nat" where
  "bucket_of n = unat (hash_32 (of_int n) 7)"

text \<open>The list walk of \<open>SLIST_FOREACH\<close> with its \<open>break\<close>; the end of the list is NULL.\<close>

fun find_node :: "(nat \<rightharpoonup> device) \<Rightarrow> int \<Rightarrow> nat list \<Rightarrow> nat option" where
  "find_node m n [] = None"
| "find_node m n (d # ds) = (if map_option node (m d) = Some n then Some d else find_node m n ds)"

definition device_lookup :: "int \<Rightarrow> nat option km" where
  "device_lookup n =
     bindM (gets (\<lambda>s. buckets (dt s))) (\<lambda>bs. bindM (index_at bs (bucket_of n)) (\<lambda>ds.
     gets (\<lambda>s. find_node (devs (dt s)) n ds)))"

definition device_insert :: "nat \<Rightarrow> unit km" where
  "device_insert d =
     bindM (device_at d) (\<lambda>dev.
     bindM (gets (\<lambda>s. buckets (dt s))) (\<lambda>bs. let b = bucket_of (node dev) in
     bindM (index_at bs b) (\<lambda>ds.
     modifyM (\<lambda>s. s\<lparr>dt := (dt s)\<lparr>buckets := bs[b := d # ds]\<rparr>\<rparr>))))"

section \<open>The walk over all devices\<close>

text \<open>\<open>SLIST_NEXT\<close> of a device: its successor in the bucket it is linked into.\<close>

fun slist_next :: "nat \<Rightarrow> nat list \<Rightarrow> nat option" where
  "slist_next d [] = None"
| "slist_next d (e # es) = (if e = d then (case es of [] \<Rightarrow> None | x # _ \<Rightarrow> Some x) else slist_next d es)"

definition slist_first :: "nat list \<Rightarrow> nat option" where
  "slist_first ds = (case ds of [] \<Rightarrow> None | x # _ \<Rightarrow> Some x)"

text \<open>The inner \<open>while\<close>: the first device of the next bucket that is not empty.\<close>

function next_bucket :: "nat list list \<Rightarrow> nat \<Rightarrow> nat \<times> nat option" where
  "next_bucket bs b =
     (if Suc b < DEVICE_TABLE_SIZE
      then case slist_first (bs ! Suc b) of Some d \<Rightarrow> (Suc b, Some d) | None \<Rightarrow> next_bucket bs (Suc b)
      else (Suc b, None))"
  by pat_completeness auto
termination by (relation "measure (\<lambda>(bs, b). DEVICE_TABLE_SIZE - b)") auto

declare next_bucket.simps [simp del]

definition device_next :: "nat \<Rightarrow> nat option \<Rightarrow> (nat \<times> nat option) km" where
  "device_next b dev =
     bindM (gets (\<lambda>s. buckets (dt s))) (\<lambda>bs.
     bindM (case dev of
         None \<Rightarrow> if b = 0 then bindM (index_at bs 0) (\<lambda>ds. ret (slist_first ds)) else throw Null_deref
       | Some d \<Rightarrow> bindM (index_at bs b) (\<lambda>ds. ret (slist_next d ds))) (\<lambda>nxt.
     case nxt of Some d \<Rightarrow> ret (b, Some d) | None \<Rightarrow> ret (next_bucket bs b)))"

text \<open>\<open>device_for_each\<close>: the loop stops at NULL or when the body returns from the function (\<open>Some\<close>).
  Its fuel is one more than the number of devices; out of fuel is \<open>Hang\<close>.\<close>

fun device_loop :: "nat \<Rightarrow> (nat \<Rightarrow> 'a option km) \<Rightarrow> nat \<Rightarrow> nat option \<Rightarrow> 'a option km" where
  "device_loop 0 body b dev = throw Hang"
| "device_loop (Suc n) body b dev =
     bindM (device_next b dev) (\<lambda>(b', nxt).
     case nxt of None \<Rightarrow> ret None
     | Some d \<Rightarrow> bindM (body d) (\<lambda>r. case r of Some x \<Rightarrow> ret (Some x) | None \<Rightarrow> device_loop n body b' (Some d)))"

definition device_for_each :: "(nat \<Rightarrow> 'a option km) \<Rightarrow> 'a option km" where
  "device_for_each body =
     bindM (gets (\<lambda>s. Suc (length (concat (buckets (dt s)))))) (\<lambda>n. device_loop n body 0 None)"

section \<open>Switching a device\<close>

definition upd_device :: "nat \<Rightarrow> (device \<Rightarrow> device) \<Rightarrow> unit km" where
  "upd_device d f = bindM (device_at d) (\<lambda>dev.
     modifyM (\<lambda>s. s\<lparr>dt := (dt s)\<lparr>devs := (devs (dt s))(d \<mapsto> f dev)\<rparr>\<rparr>))"

definition can_protect :: "device \<Rightarrow> bool" where
  "can_protect dev \<longleftrightarrow> csu dev \<noteq> [] \<and> dresource_type dev = RESOURCE_MEM"

definition switch_irqs :: "ops_tables \<Rightarrow> bool \<Rightarrow> irq_info list \<Rightarrow> unit km" where
  "switch_irqs tbl enable is = forM is (\<lambda>i.
     if enable then thenM (irq_unsecure tbl (idesc i)) (thenM (irq_enable tbl (idesc i)) (ret ()))
     else thenM (irq_disable tbl (idesc i)) (thenM (irq_secure tbl (idesc i)) (ret ())))"

definition region_of :: "resource \<Rightarrow> (paddr \<times> u32) km" where
  "region_of r = bindM (index_at (address r) 0) (\<lambda>a. bindM (index_at (rsize r) 0) (\<lambda>z. ret (a, z)))"

definition dt_enable_device :: "ops_tables \<Rightarrow> nat \<Rightarrow> bool \<Rightarrow> bool km" where
  "dt_enable_device tbl d enable =
     bindM (device_at d) (\<lambda>dev.
     if enabled dev = enable then ret (can_protect dev)
     else
       thenM (switch_irqs tbl enable (irqs dev)) (
       thenM (whenM (can_protect dev)
         (if enable then
            thenM (forM (csu dev) (\<lambda>c. csu_set_csl c False))
              (forM (resources dev) (\<lambda>r. bindM (region_of r) (\<lambda>(a, z). emu_remove_region a z EMU_DENY_ALL)))
          else
            thenM (forM (resources dev) (\<lambda>r. bindM (region_of r) (\<lambda>(a, z).
                thenM (emu_add_region a z EMU_DENY_ALL) (ret ()))))
              (forM (csu dev) (\<lambda>c. csu_set_csl c True)))) (
       thenM (upd_device d (\<lambda>dev. dev\<lparr>enabled := enable\<rparr>)) (
       ret (can_protect dev)))))"

section \<open>Switching a class\<close>

definition device_has_class :: "device \<Rightarrow> string \<Rightarrow> bool" where
  "device_has_class dev name \<longleftrightarrow> list_ex (\<lambda>c. c = name) (classes dev)"

text \<open>From a device up through its parents to the first that can be protected. A chain of parents
  is no longer than the table; a longer one is \<open>Hang\<close>.\<close>

fun enable_up :: "nat \<Rightarrow> ops_tables \<Rightarrow> nat option \<Rightarrow> bool \<Rightarrow> unit km" where
  "enable_up n tbl None enable = ret ()"
| "enable_up 0 tbl (Some d) enable = throw Hang"
| "enable_up (Suc n) tbl (Some d) enable =
     bindM (dt_enable_device tbl d enable) (\<lambda>protected.
     if protected then ret ()
     else bindM (device_at d) (\<lambda>dev. enable_up n tbl (parent dev) enable))"

definition dt_enable_class :: "ops_tables \<Rightarrow> string \<Rightarrow> bool \<Rightarrow> unit km" where
  "dt_enable_class tbl name enable =
     thenM (device_for_each (\<lambda>d.
       bindM (device_at d) (\<lambda>dev.
       if device_has_class dev name \<and> enabled dev \<noteq> enable
       then bindM (gets (\<lambda>s. Suc (length (concat (buckets (dt s)))))) (\<lambda>n.
         thenM (enable_up n tbl (Some d) enable) (ret (None :: unit option)))
       else ret None))) (ret ())"

definition dt_is_class_enabled :: "string \<Rightarrow> bool km" where
  "dt_is_class_enabled name =
     bindM (device_for_each (\<lambda>d. bindM (device_at d) (\<lambda>dev.
       if device_has_class dev name then ret (Some (enabled dev)) else ret None))) (\<lambda>r.
     ret (case r of Some b \<Rightarrow> b | None \<Rightarrow> False))"

section \<open>Lemmas: the table\<close>

text \<open>The hash never leaves the table.\<close>

lemma bucket_of_less: "bucket_of n < DEVICE_TABLE_SIZE"
proof -
  have "unat (drop_bit 25 w) = unat w div 2 ^ 25" for w :: u32
    by (subst unat_drop_bit_eq) (rule drop_bit_eq_div)
  then show ?thesis
    using unat_lt32 [of "of_int n * 0x61C88647"]
    by (simp add: bucket_of_def hash_32_def div_less_iff_less_mult)
qed

definition table_ok :: "kernel \<Rightarrow> bool" where
  "table_ok s \<longleftrightarrow> length (buckets (dt s)) = DEVICE_TABLE_SIZE
     \<and> distinct (concat (buckets (dt s)))
     \<and> (\<forall>b < DEVICE_TABLE_SIZE. \<forall>d \<in> set (buckets (dt s) ! b).
          \<exists>dev. devs (dt s) d = Some dev \<and> bucket_of (node dev) = b)"

lemma wp_device_at [wp_simps]: "wp (device_at d) Q = (\<lambda>s. \<exists>dev. devs (dt s) d = Some dev \<and> Q dev s)"
  by (rule ext) (simp add: device_at_def wp_simps)

lemma wlp_device_at [wp_simps]: "wlp (device_at d) Q = (\<lambda>s. \<forall>dev. devs (dt s) d = Some dev \<longrightarrow> Q dev s)"
  by (rule ext) (simp add: device_at_def wp_simps)

section \<open>Lemmas: the walk\<close>

text \<open>The reference: the devices one after the other, up to the first whose body returns.\<close>

fun first_of :: "nat list \<Rightarrow> (nat \<Rightarrow> 'a option km) \<Rightarrow> 'a option km" where
  "first_of [] body = ret None"
| "first_of (d # ds) body = bindM (body d) (\<lambda>r. case r of Some x \<Rightarrow> ret (Some x) | None \<Rightarrow> first_of ds body)"

lemma next_bucket_spec:
  assumes "length bs = DEVICE_TABLE_SIZE"
  shows "case concat (drop (Suc b) bs) of
      [] \<Rightarrow> snd (next_bucket bs b) = None
    | x # xs \<Rightarrow> \<exists>b' es. next_bucket bs b = (b', Some x) \<and> b' < DEVICE_TABLE_SIZE \<and> bs ! b' = x # es
        \<and> xs = es @ concat (drop (Suc b') bs)"
  using assms
proof (induction bs b rule: next_bucket.induct)
  case (1 bs b)
  show ?case
  proof (cases "Suc b < DEVICE_TABLE_SIZE")
    case True
    then have d: "drop (Suc b) bs = bs ! Suc b # drop (Suc (Suc b)) bs"
      using 1(2) by (simp add: Cons_nth_drop_Suc)
    show ?thesis
    proof (cases "bs ! Suc b")
      case Nil
      have "next_bucket bs b = next_bucket bs (Suc b)"
        by (subst next_bucket.simps) (use True Nil in \<open>simp add: slist_first_def\<close>)
      moreover have "concat (drop (Suc b) bs) = concat (drop (Suc (Suc b)) bs)" using d Nil by simp
      moreover have "slist_first (bs ! Suc b) = None" using Nil by (simp add: slist_first_def)
      ultimately show ?thesis using 1 True by (simp only:)
    next
      case (Cons x es)
      then show ?thesis using True d by (simp add: next_bucket.simps [of bs b] slist_first_def)
    qed
  next
    case False
    then show ?thesis using 1(2) by (simp add: next_bucket.simps [of bs b])
  qed
qed

lemma slist_next_split: "d \<notin> set ys \<Longrightarrow> slist_next d (ys @ d # es) = slist_first es"
  by (induction ys) (auto simp: slist_first_def)

text \<open>One step of the walk from a device, or from the start.\<close>

definition at_device :: "nat list list \<Rightarrow> nat \<Rightarrow> nat option \<Rightarrow> nat list \<Rightarrow> bool" where
  "at_device bs b dev rest \<longleftrightarrow> (case dev of
      None \<Rightarrow> b = 0 \<and> rest = concat bs
    | Some d \<Rightarrow> \<exists>ys es. b < DEVICE_TABLE_SIZE \<and> bs ! b = ys @ d # es \<and> d \<notin> set ys
        \<and> rest = es @ concat (drop (Suc b) bs))"

lemma device_next_step:
  assumes "length (buckets (dt s)) = DEVICE_TABLE_SIZE" "at_device (buckets (dt s)) b dev rest"
    and dist: "distinct (concat (buckets (dt s)))"
  shows "\<exists>b'. device_next b dev s = Inr ((b', case rest of [] \<Rightarrow> None | x # _ \<Rightarrow> Some x), s)
    \<and> (\<forall>x xs. rest = x # xs \<longrightarrow> at_device (buckets (dt s)) b' (Some x) xs)"
proof -
  let ?bs = "buckets (dt s)"
  obtain ys es where e: "case dev of None \<Rightarrow> b = 0 \<and> ys = [] \<and> es = ?bs ! 0
      | Some d \<Rightarrow> b < DEVICE_TABLE_SIZE \<and> ?bs ! b = ys @ d # es \<and> d \<notin> set ys"
    and rest: "rest = es @ concat (drop (Suc b) ?bs)"
  proof (cases dev)
    case None
    then show ?thesis using assms that [of "[]" "?bs ! 0"]
      by (simp add: at_device_def) (metis Cons_nth_drop_Suc concat.simps(2) drop0 zero_less_numeral)
  next
    case (Some d)
    then show ?thesis using assms that by (auto simp: at_device_def)
  qed
  have start: "device_next b dev s = (case slist_first es of Some d \<Rightarrow> Inr ((b, Some d), s)
      | None \<Rightarrow> Inr (next_bucket ?bs b, s))"
    using e assms(1) by (auto simp: device_next_def bindM_def gets_def index_at_def ret_def slist_next_split
      split: option.splits)
  show ?thesis
  proof (cases es)
    case (Cons x xs)
    have "at_device ?bs b (Some x) (xs @ concat (drop (Suc b) ?bs))"
    proof (cases dev)
      case None
      then show ?thesis using e Cons assms(1) by (simp add: at_device_def)
    next
      case (Some d)
      then have "?bs ! b = (ys @ [d]) @ x # xs" "b < DEVICE_TABLE_SIZE" using e Cons by simp_all
      moreover from this have "distinct (?bs ! b)" using dist assms(1)
        by (metis distinct_concat_iff nth_mem)
      ultimately show ?thesis unfolding at_device_def option.case
        by (metis disjoint_iff distinct_append list.set_intros(1))
    qed
    then show ?thesis using start Cons rest by (simp add: slist_first_def)
  next
    case Nil
    then have st: "device_next b dev s = Inr (next_bucket ?bs b, s)" "rest = concat (drop (Suc b) ?bs)"
      using start rest by (simp_all add: slist_first_def)
    note spec = next_bucket_spec [OF assms(1), of b, folded st(2)]
    show ?thesis
    proof (cases rest)
      case Nil
      with spec have "snd (next_bucket ?bs b) = None" by simp
      then show ?thesis using st(1) Nil by (cases "next_bucket ?bs b") simp
    next
      case (Cons x xs)
      with spec obtain b' es' where
        b': "next_bucket ?bs b = (b', Some x)" "b' < DEVICE_TABLE_SIZE" "?bs ! b' = x # es'"
        "xs = es' @ concat (drop (Suc b') ?bs)" by auto
      then have "at_device ?bs b' (Some x) xs" unfolding at_device_def option.case
        by (metis append_Nil empty_iff list.set(1))
      then show ?thesis using st(1) b'(1) Cons by simp
    qed
  qed
qed

definition keeps_table :: "(nat \<Rightarrow> 'a km) \<Rightarrow> bool" where
  "keeps_table body \<longleftrightarrow> (\<forall>d s. wlp (body d) (\<lambda>_ t. buckets (dt t) = buckets (dt s)) s)"

lemma device_loop_eq:
  assumes body: "keeps_table body"
    and "length (buckets (dt s)) = DEVICE_TABLE_SIZE" "distinct (concat (buckets (dt s)))"
    and "at_device (buckets (dt s)) b dev rest" "length rest < n"
  shows "device_loop n body b dev s = first_of rest body s"
  using assms(2-)
proof (induction n arbitrary: b dev rest s)
  case (Suc n)
  from device_next_step [OF Suc.prems(1,3,2)] obtain b' where
    b': "device_next b dev s = Inr ((b', case rest of [] \<Rightarrow> None | x # _ \<Rightarrow> Some x), s)"
    "\<And>x xs. rest = x # xs \<Longrightarrow> at_device (buckets (dt s)) b' (Some x) xs" by blast
  show ?case
  proof (cases rest)
    case Nil
    then show ?thesis using b'(1) by (simp add: bindM_def ret_def)
  next
    case (Cons x xs)
    have "device_loop n body b' (Some x) t = first_of xs body t" if "body x s = Inr (r, t)" for r t
      using Suc.IH [of t b' "Some x" xs] Suc.prems Cons b'(2) [OF Cons]
        wlpD [OF body [unfolded keeps_table_def, rule_format] that] by simp
    then show ?thesis using b'(1) Cons
      by (auto simp: bindM_def split: sum.split option.split prod.split)
  qed
qed simp

lemma device_for_each_eq:
  assumes "keeps_table body" "table_ok s"
  shows "device_for_each body s = first_of (concat (buckets (dt s))) body s"
  using device_loop_eq [OF assms(1), where s = s and b = 0 and dev = None and rest = "concat (buckets (dt s))"]
    assms(2) by (simp add: device_for_each_def bindM_def gets_def at_device_def table_ok_def del: device_loop.simps)

section \<open>Properties\<close>

definition lookup_result :: "kernel \<Rightarrow> int \<Rightarrow> nat option" where
  "lookup_result s n = find_node (devs (dt s)) n (buckets (dt s) ! bucket_of n)"

lemma device_lookup_run: "table_ok s \<Longrightarrow> device_lookup n s = Inr (lookup_result s n, s)"
  by (simp add: device_lookup_def bindM_def gets_def index_at_def ret_def lookup_result_def table_ok_def bucket_of_less)

lemma find_node_Some: "find_node m n ds = Some d \<Longrightarrow> d \<in> set ds \<and> map_option node (m d) = Some n"
  by (induction ds) (auto split: if_splits)

lemma find_node_cong: "\<forall>d \<in> set ds. m d = m' d \<Longrightarrow> find_node m n ds = find_node m' n ds"
  by (induction ds) auto

lemma device_insert_run:
  assumes ok: "table_ok s" and d: "devs (dt s) d = Some dev" "d \<notin> set (concat (buckets (dt s)))"
  defines "b \<equiv> bucket_of (node dev)"
  defines "t \<equiv> s\<lparr>dt := (dt s)\<lparr>buckets := (buckets (dt s))[b := d # buckets (dt s) ! b]\<rparr>\<rparr>"
  shows "device_insert d s = Inr ((), t)" "table_ok t" "set (concat (buckets (dt t))) = insert d (set (concat (buckets (dt s))))"
proof -
  let ?bs = "buckets (dt s)"
  have len: "length ?bs = DEVICE_TABLE_SIZE" "b < length ?bs" using ok bucket_of_less [of "node dev"] by (simp_all add: table_ok_def b_def)
  show "device_insert d s = Inr ((), t)"
    using d len by (simp add: device_insert_def device_at_def bindM_def gets_def deref_def ret_def index_at_def modifyM_def Let_def b_def t_def)
  have split: "?bs = take b ?bs @ ?bs ! b # drop (Suc b) ?bs" using len by (simp add: id_take_nth_drop)
  have upd: "?bs[b := d # ?bs ! b] = take b ?bs @ (d # ?bs ! b) # drop (Suc b) ?bs" using len by (simp add: upd_conv_take_nth_drop)
  have "distinct (concat (take b ?bs @ ?bs ! b # drop (Suc b) ?bs))" "d \<notin> set (concat (take b ?bs @ ?bs ! b # drop (Suc b) ?bs))"
    using ok d(2) split by (simp_all add: table_ok_def del: concat_append)
  then have "distinct (concat (?bs[b := d # ?bs ! b]))" unfolding upd by auto
  then show "table_ok t" using ok d(1) len by (auto simp: table_ok_def nth_list_update b_def t_def split: if_splits)
  have "set (concat (take b ?bs @ ?bs ! b # drop (Suc b) ?bs)) = set (concat ?bs)" by (simp only: split [symmetric])
  then show "set (concat (buckets (dt t))) = insert d (set (concat ?bs))" by (simp add: t_def upd del: set_concat)
qed

text \<open>C22: The device table: inserting a device that is not in the table yet returns without a fault, keeps
  the table well-formed (every device in the bucket of its node's hash, no device twice), a lookup
  of its node finds it, and the lookup of every other node gives what it gave before.\<close>

theorem device_lookup_insert:
  assumes ok: "table_ok s" and d: "devs (dt s) d = Some dev" "d \<notin> set (concat (buckets (dt s)))"
  shows "\<exists>t. device_insert d s = Inr ((), t) \<and> table_ok t \<and> device_lookup (node dev) t = Inr (Some d, t)
    \<and> (\<forall>n r. n \<noteq> node dev \<longrightarrow> device_lookup n s = Inr (r, s) \<longrightarrow> device_lookup n t = Inr (r, t))"
proof -
  let ?b = "bucket_of (node dev)" and ?bs = "buckets (dt s)"
  let ?t = "s\<lparr>dt := (dt s)\<lparr>buckets := ?bs[?b := d # ?bs ! ?b]\<rparr>\<rparr>"
  have len: "length ?bs = DEVICE_TABLE_SIZE" using ok by (simp add: table_ok_def)
  note run = device_insert_run [OF ok d]
  have "lookup_result ?t (node dev) = Some d"
    using d(1) len bucket_of_less [of "node dev"] by (simp add: lookup_result_def)
  moreover have "lookup_result ?t n = lookup_result s n" if "n \<noteq> node dev" for n
    using that d(1) len by (simp add: lookup_result_def nth_list_update bucket_of_less)
  ultimately show ?thesis
    using run(1,2) device_lookup_run [OF ok] device_lookup_run [OF run(2)] by auto
qed

text \<open>C37: \<open>dt_is_class_enabled\<close> walks the whole table, never runs past its end or forever, and answers with
  the state of the first device of the class in table order, or false when there is none.\<close>

theorem dt_is_class_enabled_spec:
  assumes "table_ok s"
  shows "dt_is_class_enabled name s = Inr (case find (\<lambda>d. device_has_class (the (devs (dt s) d)) name)
      (concat (buckets (dt s))) of None \<Rightarrow> False | Some d \<Rightarrow> enabled (the (devs (dt s) d)), s)"
proof -
  let ?body = "\<lambda>d. bindM (device_at d) (\<lambda>dev. if device_has_class dev name then ret (Some (enabled dev)) else ret None)"
  have "first_of ds ?body s = Inr (map_option (\<lambda>d. enabled (the (devs (dt s) d)))
      (find (\<lambda>d. device_has_class (the (devs (dt s) d)) name) ds), s)" if "\<forall>d \<in> set ds. devs (dt s) d \<noteq> None" for ds
    using that by (induction ds) (auto simp: bindM_def device_at_def gets_def deref_def ret_def)
  moreover have "\<forall>d \<in> set (concat (buckets (dt s))). devs (dt s) d \<noteq> None"
    using assms by (fastforce simp: table_ok_def in_set_conv_nth)
  moreover have "keeps_table ?body" by (simp add: keeps_table_def wp_simps)
  ultimately show ?thesis
    using device_for_each_eq [OF _ assms, of ?body]
    by (simp add: dt_is_class_enabled_def bindM_def ret_def split: option.split)
qed

definition table_example :: kernel where
  "table_example = blank\<lparr>dt := \<lparr>devs = (\<lambda>d. if d < 3 then Some \<lparr>node = 100 * int d, phandle = 0, dname = ''dev'', parent = None,
     dresource_type = RESOURCE_MEM, resources = [], irqs = [], csu = [], classes = [''wifi''], enabled = True,
     is_simple_bus = False\<rparr> else None), buckets = (replicate 128 [])[bucket_of 100 := [1]], next_dev = 3\<rparr>\<rparr>"

lemma table_example_ok: "table_ok table_example"
proof -
  have "concat (replicate n []) = ([] :: nat list)" for n by (induction n) simp_all
  then have "concat ((replicate 128 [])[bucket_of 100 := [1]]) = [1 :: nat]"
    using bucket_of_less [of 100] by (simp add: upd_conv_take_nth_drop take_replicate drop_replicate)
  then show ?thesis using bucket_of_less [of 100]
    by (auto simp: table_ok_def table_example_def nth_list_update split: if_splits)
qed

theorem device_lookup_insert_witness:
  "\<exists>t. device_insert 2 table_example = Inr ((), t) \<and> table_ok t
    \<and> device_lookup (node (the (devs (dt table_example) 2))) t = Inr (Some 2, t)
    \<and> (\<forall>n r. n \<noteq> node (the (devs (dt table_example) 2)) \<longrightarrow> device_lookup n table_example = Inr (r, table_example)
        \<longrightarrow> device_lookup n t = Inr (r, t))"
  by (rule device_lookup_insert [OF table_example_ok])
    (auto simp: table_example_def dest!: subsetD [OF set_update_subset_insert])

theorem dt_is_class_enabled_spec_witness:
  "dt_is_class_enabled ''wifi'' table_example = Inr (case find (\<lambda>d. device_has_class (the (devs (dt table_example) d)) ''wifi'')
      (concat (buckets (dt table_example))) of None \<Rightarrow> False | Some d \<Rightarrow> enabled (the (devs (dt table_example) d)), table_example)"
  by (rule dt_is_class_enabled_spec [OF table_example_ok])

end
