(* ===== verification/Dt_Switch.thy ===== *)
theory Dt_Switch
  imports Device_Tree "HOL-Library.Multiset"
begin

text \<open>
  What switching a device off and on again does, across the interrupt controller, the CSU and the
  emulation regions: the composition of dt.c with gic.c, imx\_csu.c and emulation.c.
\<close>

section \<open>The registers the interrupt controller touches\<close>

text \<open>A store into the distributor's page changes registers of that page only.\<close>

definition gic_local :: "u32 \<Rightarrow> (nat \<Rightarrow> u32 \<Rightarrow> u32 \<Rightarrow> (u32 \<Rightarrow> u32) \<Rightarrow> u32 \<Rightarrow> u32) \<Rightarrow> bool" where
  "gic_local b h \<longleftrightarrow> (\<forall>n off v m x. unat off < 0x1000 \<longrightarrow> 0x1000 \<le> unat (x - b) \<longrightarrow> h n (b + off) v m x = m x)"

definition gic_foot :: "kernel \<Rightarrow> kernel \<Rightarrow> bool" where
  "gic_foot s t \<longleftrightarrow> (\<exists>m. t = io_upd m s
     \<and> (\<forall>x. 0x1000 \<le> unat (x - gicd_base (gic s)) \<longrightarrow> m x = io (mach s) x))"

lemma gic_foot_refl: "gic_foot s s"
  unfolding gic_foot_def by (rule exI [of _ "io (mach s)"]) (simp add: io_upd_def)

lemma gic_foot_trans: "gic_foot s t \<Longrightarrow> gic_foot t u \<Longrightarrow> gic_foot s u"
  by (auto simp: gic_foot_def)

lemma wlp_gicd_read [wp_simps]: "wlp (gicd_read off) Q = (\<lambda>s. Q (io (mach s) (gicd_base (gic s) + off)) s)"
  by (rule ext) (simp add: gicd_read_def wp_simps)

lemma gicd_write_foot:
  assumes "gic_local (gicd_base (gic s)) (hw (mach s))" "unat off < 0x1000"
  shows "wlp (gicd_write v off) (\<lambda>_. gic_foot s) s"
  using assms by (simp add: gicd_write_def wp_simps gic_foot_def gic_local_def) blast

lemma prio_foot:
  assumes "gic_local (gicd_base (gic s)) (hw (mach s))" "it < 1024"
  shows "wlp (gic_it_set_prio it v) (\<lambda>_. gic_foot s) s"
proof -
  have "unat (GICD_IPRIORITYR 0 + of_nat it) < 0x1000"
    using assms(2) by (simp add: GICD_IPRIORITYR_def unat_add32 unat_of_nat_small)
  then have "gic_foot s (io_upd (hw (mach s) 1 (gicd_base (gic s) + (GICD_IPRIORITYR 0 + of_nat it)) (ucast v) (io (mach s))) s)"
    using assms(1) by (auto simp: gic_foot_def gic_local_def)
  then show ?thesis by (simp add: gic_it_set_prio_def assert_group0_def wp_simps add.assoc)
qed

lemma regs_in_page:
  "it < 1024 \<Longrightarrow> unat (GICD_IGROUPR (it div 32)) < 0x1000 \<and> unat (GICD_ISENABLER (it div 32)) < 0x1000
     \<and> unat (GICD_ICENABLER (it div 32)) < 0x1000"
  by (simp add: regs_unat div_less_iff_less_mult)

text \<open>Chaining footprints through a sequence.\<close>

lemma foot_then:
  assumes "wlp p (\<lambda>_. gic_foot s) s" "\<And>t. gic_foot s t \<Longrightarrow> wlp q (\<lambda>_. gic_foot t) t"
  shows "wlp (thenM p q) (\<lambda>_. gic_foot s) s"
  by (rule wlp_then_rule [OF assms(1)]) (rule wlp_mono [OF assms(2)], assumption, erule (1) gic_foot_trans)

lemma gic_foot_local: "gic_foot s t \<Longrightarrow> gic_local (gicd_base (gic t)) (hw (mach t)) = gic_local (gicd_base (gic s)) (hw (mach s))"
  by (auto simp: gic_foot_def)

lemma foot_when: "wlp p (\<lambda>_. gic_foot s) s \<Longrightarrow> wlp (whenM b p) (\<lambda>_. gic_foot s) s"
  by (simp add: wp_simps gic_foot_refl)

lemma foot_read:
  "(\<And>g. wlp (f g) (\<lambda>_. gic_foot s) s) \<Longrightarrow> wlp (bindM (gicd_read off) f) (\<lambda>_. gic_foot s) s"
  by (simp add: wlp_bindM wlp_gicd_read)

lemma secure_foot:
  assumes "gic_local (gicd_base (gic s)) (hw (mach s))" "it < 1024"
  shows "wlp (gic_it_secure it) (\<lambda>_. gic_foot s) s"
proof -
  note page = regs_in_page [OF assms(2)]
  have w: "wlp (gicd_write v off) (\<lambda>_. gic_foot t) t" if "gic_foot s t" "unat off < 0x1000" for v off t
    using gicd_write_foot [of t off v] gic_foot_local [OF that(1)] assms(1) that(2) by simp
  have p: "wlp (gic_it_set_prio it v) (\<lambda>_. gic_foot t) t" if "gic_foot s t" for v t
    using prio_foot [of t it v] gic_foot_local [OF that(1)] assms by simp
  show ?thesis
    unfolding gic_it_secure_def Let_def wlp_bindM wlp_gicd_read wlp_if wlp_ret
  proof (simp only: gic_foot_refl if_True split: if_split, intro conjI impI TrueI)
    show "wlp (thenM (whenM c (gicd_write (it_mask it) (GICD_ICENABLER (it div 32))))
        (bindM (gicd_read (GICD_IGROUPR (it div 32))) (\<lambda>g'.
          thenM (gicd_write (g' AND NOT (it_mask it)) (GICD_IGROUPR (it div 32)))
            (thenM (gic_it_set_prio it 1) (whenM c (gicd_write (it_mask it) (GICD_ISENABLER (it div 32))))))))
        (\<lambda>_. gic_foot s) s" for c
      by (intro foot_then foot_when foot_read w p gic_foot_refl)
        (use page in \<open>auto intro: gic_foot_trans\<close>)
  qed
qed

section \<open>Switching interrupts off\<close>

definition gic_line :: "kernel \<Rightarrow> nat \<Rightarrow> irq_desc \<Rightarrow> bool" where
  "gic_line s n i \<longleftrightarrow> desc_irq i < n \<and> (\<exists>ch. irq_chips (irqv s) (desc_chip i) = Some ch
     \<and> chip_ops ch = gic_ops \<and> desc_irq i < num_irqs ch)"

text \<open>The state after the interrupts of a device have been switched off: only distributor registers
  differ, and the lines are disabled and secure.\<close>

definition lines_off :: "nat \<Rightarrow> nat set \<Rightarrow> kernel \<Rightarrow> kernel \<Rightarrow> bool" where
  "lines_off n L s t \<longleftrightarrow> gic_foot s t
     \<and> (\<forall>i < n. grp1 t i = (grp1 s i \<and> i \<notin> L) \<and> ena t i = (ena s i \<and> i \<notin> L))"

lemma line_off:
  assumes "gic_inv n s" "gic_local (gicd_base (gic s)) (hw (mach s))" "gic_line s n i"
  shows "wp (thenM (irq_disable irq_tables i) (thenM (irq_secure irq_tables i) (ret ())))
    (\<lambda>_. lines_off n {desc_irq i} s) s"
proof -
  let ?c = "desc_chip i" and ?k = "desc_irq i"
  from assms(3) obtain ch where ch: "irq_chips (irqv s) ?c = Some ch" "chip_ops ch = gic_ops" "?k < num_irqs ch"
    and k: "?k < n" by (auto simp: gic_line_def)
  have n: "?k < 1024" using k assms(1) by (simp add: gic_inv_def gicd_law_def)
  have run: "irq_op irq_tables sel i t = f ?c ?k t"
    if "irqv t = irqv s" "sel gic_ops_table = Some f" for sel f t
    using irq_op_run [of t i ch sel irq_tables f] ch that by simp
  have dis: "wp (gic_it_disable ?k) (\<lambda>_ t. gic_foot s t \<and> gic_post n (grp1 s) (\<lambda>j. ena s j \<and> j \<noteq> ?k) s t) s"
    unfolding gic_it_disable_def
    using wp_conj [OF wp_disable_bit [OF assms(1) k] gicd_write_foot [OF assms(2)]] regs_in_page [OF n]
    by (auto elim: wp_mono)
  have "wp (thenM (gic_it_disable ?k) (gic_it_secure ?k)) (\<lambda>_. lines_off n {?k} s) s"
  proof (rule wp_then_rule [OF dis])
    fix t
    assume t: "gic_foot s t \<and> gic_post n (grp1 s) (\<lambda>j. ena s j \<and> j \<noteq> ?k) s t"
    then have "gic_inv n t" "gic_local (gicd_base (gic t)) (hw (mach t))"
      using assms(1,2) gic_post_inv gic_foot_local by blast+
    from wp_conj [OF wp_gic_it_secure [OF this(1) k] secure_foot [OF this(2) n]]
    show "wp (gic_it_secure ?k) (\<lambda>_. lines_off n {?k} s) t"
      by (rule wp_mono) (use t gic_foot_trans in \<open>auto simp: lines_off_def gic_post_sel\<close>)
  qed
  then obtain t u where t: "gic_it_disable ?k s = Inr ((), t)" "gic_it_secure ?k t = Inr ((), u)"
      "lines_off n {?k} s u" "gic_foot s t"
    using dis by (auto simp: wp_iff thenM_def bindM_def)
  have "irqv t = irqv s" using t(4) by (auto simp: gic_foot_def)
  then show ?thesis
    using t run [of s op_disable gic_op_disable] run [of t op_secure gic_op_secure]
    by (simp add: wp_iff irq_disable_def irq_secure_def thenM_def bindM_def gic_ops_table_def gic_op_disable_def
      gic_op_secure_def ret_def)
qed

lemma lines_off_trans: "lines_off n L s t \<Longrightarrow> lines_off n M t u \<Longrightarrow> lines_off n (L \<union> M) s u"
  unfolding lines_off_def using gic_foot_trans by blast

lemma lines_off_keeps:
  "lines_off n L s t \<Longrightarrow> gic_inv n t = gic_inv n s
     \<and> gic_local (gicd_base (gic t)) (hw (mach t)) = gic_local (gicd_base (gic s)) (hw (mach s))
     \<and> gic_line t n i = gic_line s n i"
  by (auto simp: lines_off_def gic_foot_def gic_inv_def gic_line_def)

lemma switch_irqs_off:
  assumes "gic_inv n s" "gic_local (gicd_base (gic s)) (hw (mach s))" "\<forall>i \<in> set is. gic_line s n (idesc i)"
  shows "wp (switch_irqs irq_tables False is) (\<lambda>_. lines_off n ((desc_irq \<circ> idesc) ` set is) s) s"
  unfolding switch_irqs_def if_False
proof (rule wp_forM [where I = "\<lambda>ys. lines_off n ((desc_irq \<circ> idesc) ` set ys) s"])
  show "lines_off n ((desc_irq \<circ> idesc) ` set []) s s" by (simp add: lines_off_def gic_foot_refl)
  fix ys i zs t
  assume e: "is = ys @ i # zs" and t: "lines_off n ((desc_irq \<circ> idesc) ` set ys) s t"
  have "gic_line s n (idesc i)" using assms(3) e by simp
  with lines_off_keeps [OF t] assms(1,2) have "wp (thenM (irq_disable irq_tables (idesc i))
      (thenM (irq_secure irq_tables (idesc i)) (ret ()))) (\<lambda>_. lines_off n {desc_irq (idesc i)} t) t"
    by (intro line_off) simp_all
  then show "wp (thenM (irq_disable irq_tables (idesc i)) (thenM (irq_secure irq_tables (idesc i)) (ret ())))
      (\<lambda>_. lines_off n ((desc_irq \<circ> idesc) ` set (ys @ [i])) s) t"
    by (rule wp_mono) (use lines_off_trans [OF t] in \<open>force simp: insert_is_Un [of _ "(desc_irq \<circ> idesc) ` set ys"] Un_commute\<close>)
qed

section \<open>Regions and slots\<close>

definition deny_region :: "resource \<Rightarrow> region" where
  "deny_region r = \<lparr>r_base = hd (address r), r_size = hd (rsize r), r_check = EMU_DENY_ALL\<rparr>"

definition mem_resource :: "resource \<Rightarrow> bool" where
  "mem_resource r \<longleftrightarrow> address r \<noteq> [] \<and> rsize r \<noteq> []"

definition emu_upd :: "region list \<Rightarrow> nat \<Rightarrow> kernel \<Rightarrow> kernel" where
  "emu_upd rs k s = s\<lparr>emu := (emu s)\<lparr>regions := rs\<rparr>, mach := (mach s)\<lparr>alloc_n := k\<rparr>\<rparr>"

lemma emu_upd_sel [simp]:
  "regions (emu (emu_upd rs k s)) = rs" "io (mach (emu_upd rs k s)) = io (mach s)"
  "hw (mach (emu_upd rs k s)) = hw (mach s)" "debug (mach (emu_upd rs k s)) = debug (mach s)"
  "alloc_ok (mach (emu_upd rs k s)) = alloc_ok (mach s)"
  "dt (emu_upd rs k s) = dt s" "csuv (emu_upd rs k s) = csuv s" "gic (emu_upd rs k s) = gic s"
  "irqv (emu_upd rs k s) = irqv s"
  "emu_upd rs' k' (emu_upd rs k s) = emu_upd rs' k' s"
  by (simp_all add: emu_upd_def)

lemma region_of_run: "mem_resource r \<Longrightarrow> region_of r s = Inr ((hd (address r), hd (rsize r)), s)"
  by (simp add: region_of_def mem_resource_def bindM_def index_at_def ret_def hd_conv_nth)

lemma wp_add_region:
  assumes "mem_resource r" "\<forall>k. alloc_ok (mach s) k"
  shows "wp (bindM (region_of r) (\<lambda>(a, z). thenM (emu_add_region a z EMU_DENY_ALL) (ret ())))
    (\<lambda>_ t. \<exists>k. t = emu_upd (deny_region r # regions (emu s)) k s) s"
  using assms by (auto simp: wp_def bindM_def region_of_run emu_add_region_def malloc_def gets_def thenM_def
      modifyM_def ret_def upd_regions_def emu_upd_def deny_region_def intro!: exI [of _ "Suc (alloc_n (mach s))"])

lemma emu_upd_same: "emu_upd (regions (emu s)) (alloc_n (mach s)) s = s"
  by (simp add: emu_upd_def)

lemma add_regions:
  assumes "\<forall>r \<in> set rs. mem_resource r" "\<forall>k. alloc_ok (mach s) k"
  shows "wp (forM rs (\<lambda>r. bindM (region_of r) (\<lambda>(a, z). thenM (emu_add_region a z EMU_DENY_ALL) (ret ()))))
    (\<lambda>_ t. \<exists>k. t = emu_upd (rev (map deny_region rs) @ regions (emu s)) k s) s"
proof (rule wp_forM [where I = "\<lambda>ys t. \<exists>k. t = emu_upd (rev (map deny_region ys) @ regions (emu s)) k s"])
  show "\<exists>k. s = emu_upd (rev (map deny_region []) @ regions (emu s)) k s"
    using emu_upd_same [of s] by (auto intro!: exI [of _ "alloc_n (mach s)"])
  fix ys r zs t
  assume e: "rs = ys @ r # zs" and t: "\<exists>k. t = emu_upd (rev (map deny_region ys) @ regions (emu s)) k s"
  show "wp (bindM (region_of r) (\<lambda>(a, z). thenM (emu_add_region a z EMU_DENY_ALL) (ret ())))
    (\<lambda>_ t. \<exists>k. t = emu_upd (rev (map deny_region (ys @ [r])) @ regions (emu s)) k s) t"
    by (rule wp_mono [OF wp_add_region]) (use e t assms in auto)
qed

lemma wp_remove_region:
  assumes "mem_resource r"
  shows "wp (bindM (region_of r) (\<lambda>(a, z). emu_remove_region a z EMU_DENY_ALL))
    (\<lambda>_ t. t = emu_upd (remove1 (deny_region r) (regions (emu s))) (alloc_n (mach s)) s) s"
  using assms by (simp add: wp_def bindM_def region_of_run emu_remove_region_def upd_regions_def modifyM_def
      emu_upd_def deny_region_def remove_region_perm)

lemma remove_regions:
  assumes "\<forall>r \<in> set rs. mem_resource r"
  shows "wp (forM rs (\<lambda>r. bindM (region_of r) (\<lambda>(a, z). emu_remove_region a z EMU_DENY_ALL)))
    (\<lambda>_ t. t = emu_upd (fold remove1 (map deny_region rs) (regions (emu s))) (alloc_n (mach s)) s) s"
  using assms
proof (induction rs arbitrary: s)
  case (Cons r rs)
  show ?case unfolding forM.simps
    by (rule wp_then_rule [OF wp_remove_region], use Cons.prems in simp)
      (rule wp_mono [OF Cons.IH], use Cons.prems in \<open>auto simp: emu_upd_def\<close>)
qed (simp add: wp_simps emu_upd_same)

lemma fold_remove1_prefix: "mset ys = mset xs \<Longrightarrow> fold remove1 xs (ys @ zs) = zs"
proof (induction xs arbitrary: ys)
  case (Cons x xs)
  then have "x \<in> set ys" by (metis list.set_intros(1) mset_eq_setD)
  then have "remove1 x (ys @ zs) = remove1 x ys @ zs" by (simp add: remove1_append)
  moreover have "mset (remove1 x ys) = mset xs" using Cons.prems by (simp add: mset_remove1)
  ultimately show ?case using Cons.IH by simp
qed simp

section \<open>Switching a device off and on\<close>

definition switch_inv :: "nat \<Rightarrow> kernel \<Rightarrow> bool" where
  "switch_inv n s \<longleftrightarrow> csu_inv s \<and> gic_inv n s \<and> gic_local (gicd_base (gic s)) (hw (mach s))
     \<and> (\<forall>a \<in> csu_regs (csu_base (csuv s)). 0x1000 \<le> unat (a - gicd_base (gic s)))"

definition dev_ok :: "nat \<Rightarrow> kernel \<Rightarrow> device \<Rightarrow> bool" where
  "dev_ok n s dev \<longleftrightarrow> (\<forall>c \<in> set (csu dev). csl_valid c) \<and> (\<forall>r \<in> set (resources dev). mem_resource r)
     \<and> (\<forall>i \<in> set (irqs dev). gic_line s n (idesc i))"

definition dev_upd :: "nat \<Rightarrow> device \<Rightarrow> kernel \<Rightarrow> kernel" where
  "dev_upd d dev s = s\<lparr>dt := (dt s)\<lparr>devs := (devs (dt s))(d \<mapsto> dev)\<rparr>\<rparr>"

lemma dev_upd_sel [simp]:
  "mach (dev_upd d dev s) = mach s" "csuv (dev_upd d dev s) = csuv s" "gic (dev_upd d dev s) = gic s"
  "emu (dev_upd d dev s) = emu s" "devs (dt (dev_upd d dev s)) = (devs (dt s))(d \<mapsto> dev)"
  "buckets (dt (dev_upd d dev s)) = buckets (dt s)" "irqv (dev_upd d dev s) = irqv s"
  by (simp_all add: dev_upd_def)

lemma wp_upd_device [wp_simps]:
  "wp (upd_device d f) Q = (\<lambda>s. \<exists>dev. devs (dt s) d = Some dev \<and> Q () (dev_upd d (f dev) s))"
  by (rule ext) (simp add: upd_device_def wp_simps dev_upd_def)

lemma wlp_upd_device [wp_simps]:
  "wlp (upd_device d f) Q = (\<lambda>s. \<forall>dev. devs (dt s) d = Some dev \<longrightarrow> Q () (dev_upd d (f dev) s))"
  by (rule ext) (simp add: upd_device_def wp_simps dev_upd_def)

text \<open>The slots only depend on the CSU registers and the counts.\<close>

lemma csl_same:
  assumes "csuv t = csuv s" "hw (mach t) = hw (mach s)"
    and "\<forall>a \<in> csu_regs (csu_base (csuv s)). io (mach t) a = io (mach s) a"
  shows "csu_inv t = csu_inv s" "csl_held t = csl_held s" "csl_valid c \<Longrightarrow> csl_denied t c = csl_denied s c"
proof -
  have l: "csl_lane t c = csl_lane s c" if "0 \<le> c" "c < 80" for c
    using assms that by (simp add: csl_lane_def csu_regs_def)
  then show "csu_inv t = csu_inv s" using assms(1,2) by (simp add: csu_inv_def csu_hw_def)
  show "csl_held t = csl_held s" using assms(1) by (simp add: csl_held_def fun_eq_iff)
  show "csl_valid c \<Longrightarrow> csl_denied t c = csl_denied s c" using l by (simp add: csl_denied_def csl_valid_def)
qed

lemma lines_off_csl:
  assumes "switch_inv n s" "lines_off n L s t"
  shows "csuv t = csuv s" "hw (mach t) = hw (mach s)"
    "\<forall>a \<in> csu_regs (csu_base (csuv s)). io (mach t) a = io (mach s) a"
  using assms by (auto simp: lines_off_def gic_foot_def switch_inv_def)

lemma lines_off_frame:
  "lines_off n L s t \<Longrightarrow> dt t = dt s \<and> emu t = emu s \<and> alloc_ok (mach t) = alloc_ok (mach s) \<and> gic t = gic s"
  by (auto simp: lines_off_def gic_foot_def)

lemma switch_inv_lines_off: "switch_inv n s \<Longrightarrow> lines_off n L s t \<Longrightarrow> switch_inv n t"
  using lines_off_csl [of n s L t] lines_off_keeps [of n L s t] lines_off_frame [of n L s t] csl_same(1) [of t s]
  by (simp add: switch_inv_def)

lemma switch_inv_emu_upd [simp]: "switch_inv n (emu_upd rs k s) = switch_inv n s"
  using csl_same(1) [of "emu_upd rs k s" s] by (simp add: switch_inv_def gic_inv_def)

lemma switch_inv_dev_upd [simp]: "switch_inv n (dev_upd d dev s) = switch_inv n s"
  using csl_same(1) [of "dev_upd d dev s" s] by (simp add: switch_inv_def gic_inv_def)

text \<open>A CSU operation leaves the interrupt lines, the regions and the devices alone.\<close>

lemma csu_frame_parts:
  assumes "csu_frame s t"
  shows "dt t = dt s" "emu t = emu s" "gic t = gic s" "hw (mach t) = hw (mach s)"
    "alloc_ok (mach t) = alloc_ok (mach s)" "csu_base (csuv t) = csu_base (csuv s)" "irqv t = irqv s"
  using assms by (auto simp: csu_frame_def csu_upd_def)

lemma csu_frame_lines:
  assumes "switch_inv n s" "csu_frame s t" "i < n"
  shows "grp1 t i = grp1 s i" "ena t i = ena s i"
proof -
  have i: "i div 32 < 32" using assms(1,3) by (intro div_less_32 [of i n]) (simp_all add: switch_inv_def gic_inv_def gicd_law_def)
  have same: "io (mach t) (gicd_base (gic s) + off) = io (mach s) (gicd_base (gic s) + off)" if "unat off < 0x1000" for off
  proof -
    have "gicd_base (gic s) + off \<notin> csu_regs (csu_base (csuv s))"
      using assms(1) that by (force simp: switch_inv_def)
    then show ?thesis using assms(2) by (auto simp: csu_frame_def)
  qed
  show "grp1 t i = grp1 s i" "ena t i = ena s i"
    using same i by (simp_all add: grp1_def ena_def it_group1_def it_enabled_def csu_frame_parts [OF assms(2)] regs_unat)
qed

lemma switch_inv_csu: "switch_inv n s \<Longrightarrow> csu_frame s t \<Longrightarrow> csu_inv t \<Longrightarrow> switch_inv n t"
  using csu_frame_parts [of s t] by (simp add: switch_inv_def gic_inv_def)

text \<open>What holds once a device has been taken away.\<close>

definition taken :: "nat \<Rightarrow> nat \<Rightarrow> device \<Rightarrow> kernel \<Rightarrow> kernel \<Rightarrow> bool" where
  "taken n d dev s t \<longleftrightarrow> switch_inv n t
    \<and> (\<forall>c \<in> set (csu dev). csl_denied t c)
    \<and> (\<forall>c. csl_valid c \<longrightarrow> csl_denied s c \<longrightarrow> csl_denied t c)
    \<and> regions (emu t) = rev (map deny_region (resources dev)) @ regions (emu s)
    \<and> (\<forall>i \<in> set (irqs dev). \<not> ena t (desc_irq (idesc i)) \<and> \<not> grp1 t (desc_irq (idesc i)))
    \<and> devs (dt t) = (devs (dt s))(d \<mapsto> dev\<lparr>enabled := False\<rparr>)"

lemma taken_finish:
  assumes inv: "switch_inv n s" and d: "devs (dt s) d = Some dev" and lines: "\<forall>i \<in> set (irqs dev). gic_line s n (idesc i)"
    and t: "lines_off n ((desc_irq \<circ> idesc) ` set (irqs dev)) s t"
    and u: "csu_inv u" "csu_frame (emu_upd (rev (map deny_region (resources dev)) @ regions (emu s)) k t) u"
      "\<forall>c \<in> set (csu dev). csl_denied u c" "\<forall>c. csl_valid c \<longrightarrow> csl_denied t c \<longrightarrow> csl_denied u c"
  shows "wp (upd_device d (\<lambda>dev. dev\<lparr>enabled := False\<rparr>)) (\<lambda>_. taken n d dev s) u"
proof -
  let ?R = "rev (map deny_region (resources dev)) @ regions (emu s)"
  note f = csu_frame_parts [OF u(2)] and lf = lines_off_frame [OF t]
  have it: "switch_inv n (emu_upd ?R k t)" using switch_inv_lines_off [OF inv t] by simp
  have g: "desc_irq (idesc i) < n" if "i \<in> set (irqs dev)" for i using lines that by (auto simp: gic_line_def)
  have "grp1 (emu_upd ?R k t) j = grp1 t j" "ena (emu_upd ?R k t) j = ena t j" for j
    by (simp_all add: grp1_def ena_def)
  then have off: "\<not> ena u (desc_irq (idesc i)) \<and> \<not> grp1 u (desc_irq (idesc i))" if "i \<in> set (irqs dev)" for i
    using t g [OF that] that csu_frame_lines [OF it u(2) g [OF that]] by (auto simp: lines_off_def)
  have "csl_denied u c" if "csl_valid c" "csl_denied s c" for c
    using csl_same(3) [OF lines_off_csl [OF inv t] that(1)] u(4) that by simp
  then show ?thesis
    using d f lf u(1,3) off switch_inv_csu [OF it u(2,1)]
    by (auto simp: taken_def wp_simps csl_denied_def csl_lane_def grp1_def ena_def)
qed

lemma take_slots:
  assumes inv: "switch_inv n s" and d: "devs (dt s) d = Some dev" and ok: "dev_ok n s dev"
    and t: "lines_off n ((desc_irq \<circ> idesc) ` set (irqs dev)) s t"
  shows "wp (thenM (forM (csu dev) (\<lambda>c. csu_set_csl c True)) (upd_device d (\<lambda>dev. dev\<lparr>enabled := False\<rparr>)))
    (\<lambda>_. taken n d dev s) (emu_upd (rev (map deny_region (resources dev)) @ regions (emu s)) k t)"
proof -
  let ?u = "emu_upd (rev (map deny_region (resources dev)) @ regions (emu s)) k t"
  have val: "\<forall>c \<in> set (csu dev). csl_valid c" and lines: "\<forall>i \<in> set (irqs dev). gic_line s n (idesc i)"
    using ok by (simp_all add: dev_ok_def)
  have iu: "csu_inv ?u" using switch_inv_lines_off [OF inv t] csl_same(1) [of ?u t] by (simp add: switch_inv_def)
  show ?thesis
    unfolding wp_thenM
    using wp_conj [OF csu.acquire_all_guards [OF iu val] wp_imp_wlp [OF csu.acquire_all [OF iu val]]]
    by (rule wp_mono) (rule taken_finish [OF inv d lines t, of _ k], auto simp: csl_denied_def csl_lane_def)
qed

text \<open>C2: Taking a device away from the normal world: \<open>dt_enable_device\<close> on an enabled device that can be
  protected, with slots, memory resources and interrupt lines of the GIC, returns true; afterwards
  every CSU slot of the device denies the normal world (and so does every slot that did before),
  every memory resource has a region that denies emulated accesses, every interrupt line is
  disabled and secure, the device is marked disabled, and the invariants of the drivers hold.\<close>

theorem dt_disable_device_correct:
  assumes inv: "switch_inv n s" and d: "devs (dt s) d = Some dev" "enabled dev" "can_protect dev"
    and ok: "dev_ok n s dev" and mem: "\<forall>k. alloc_ok (mach s) k"
  shows "wp (dt_enable_device irq_tables d False) (\<lambda>r t. r \<and> switch_inv n t
    \<and> (\<forall>c \<in> set (csu dev). csl_denied t c)
    \<and> (\<forall>c. csl_valid c \<longrightarrow> csl_denied s c \<longrightarrow> csl_denied t c)
    \<and> regions (emu t) = rev (map deny_region (resources dev)) @ regions (emu s)
    \<and> (\<forall>i \<in> set (irqs dev). \<not> ena t (desc_irq (idesc i)) \<and> \<not> grp1 t (desc_irq (idesc i)))
    \<and> devs (dt t) = (devs (dt s))(d \<mapsto> dev\<lparr>enabled := False\<rparr>)) s"
proof -
  have res: "\<forall>r \<in> set (resources dev). mem_resource r"
    and lines: "\<forall>i \<in> set (irqs dev). gic_line s n (idesc i)" using ok by (simp_all add: dev_ok_def)
  have gi: "gic_inv n s" "gic_local (gicd_base (gic s)) (hw (mach s))" using inv by (simp_all add: switch_inv_def)
  have "wp (thenM (switch_irqs irq_tables False (irqs dev))
      (thenM (forM (resources dev) (\<lambda>r. bindM (region_of r) (\<lambda>(a, z). thenM (emu_add_region a z EMU_DENY_ALL) (ret ()))))
        (thenM (forM (csu dev) (\<lambda>c. csu_set_csl c True)) (upd_device d (\<lambda>dev. dev\<lparr>enabled := False\<rparr>)))))
      (\<lambda>_. taken n d dev s) s"
  proof (rule wp_then_rule [OF switch_irqs_off [OF gi lines]])
    fix t assume t: "lines_off n ((desc_irq \<circ> idesc) ` set (irqs dev)) s t"
    have a: "\<forall>k. alloc_ok (mach t) k" and e: "emu t = emu s" using mem lines_off_frame [OF t] by simp_all
    show "wp (thenM (forM (resources dev) (\<lambda>r. bindM (region_of r) (\<lambda>(a, z).
          thenM (emu_add_region a z EMU_DENY_ALL) (ret ()))))
        (thenM (forM (csu dev) (\<lambda>c. csu_set_csl c True)) (upd_device d (\<lambda>dev. dev\<lparr>enabled := False\<rparr>))))
      (\<lambda>_. taken n d dev s) t"
      by (rule wp_then_rule [OF add_regions [OF res a]], elim exE)
        (use take_slots [OF inv d(1) ok t] e in simp)
  qed
  then show ?thesis using d
    by (simp add: dt_enable_device_def wp_simps taken_def whenM_def)
qed

section \<open>A device for witnesses\<close>

lemma off_index_less: "off_index a base = Some k \<Longrightarrow> k < 32"
  by (auto simp: off_index_def Let_def split: if_splits)

lemma gic_local_gic_hw: "gic_local b (gic_hw b)"
proof -
  have "gic_hw b n (b + off) v m x = m x" if "unat off < 0x1000" "0x1000 \<le> unat (x - b)" for n off v m x
  proof -
    have "x \<noteq> b + GICD_ISENABLER k" if "k < 32" for k
      using that \<open>0x1000 \<le> unat (x - b)\<close> by (auto simp: regs_unat)
    moreover have "x \<noteq> b + off" using that by auto
    ultimately show ?thesis
      by (auto simp: gic_hw_def split: option.split dest: off_index_less)
  qed
  then show ?thesis by (simp add: gic_local_def)
qed

lemma gic_hw_plain: "0x1000 \<le> unat (a - b) \<Longrightarrow> plain_reg (gic_hw b) a"
  using off_index_iff [of "0x100" b "a - b"] off_index_iff [of "0x180" b "a - b"]
  by (simp add: plain_reg_def gic_hw_def)

definition device_example :: device where
  "device_example = \<lparr>node = 100, phandle = 7, dname = ''wifi'', parent = Some 0, dresource_type = RESOURCE_MEM,
     resources = [\<lparr>address = [0x02190000], rsize = [0x4000]\<rparr>],
     irqs = [\<lparr>idesc = \<lparr>desc_chip = GIC_CHIP, desc_irq = 54\<rparr>, iflags = 4\<rparr>],
     csu = [42], classes = [''wifi''], enabled = True, is_simple_bus = False\<rparr>"

definition switch_example :: kernel where
  "switch_example = gic_example\<lparr>csuv := \<lparr>csu_base = 0x4C2C0000, csu_csl_counts = replicate 80 0\<rparr>,
     irqv := \<lparr>irq_chips = [GIC_CHIP \<mapsto> \<lparr>chip_dev = 3, chip_ops = gic_ops, num_irqs = 159, default_handler = False,
       handlers = replicate 159 None\<rparr>], chips = [GIC_CHIP]\<rparr>,
     dt := \<lparr>devs = [1 \<mapsto> device_example], buckets = (replicate 128 [])[bucket_of 100 := [1]], next_dev = 2\<rparr>\<rparr>"

lemma csu_far: "a \<in> csu_regs 0x4C2C0000 \<Longrightarrow> 0x1000 \<le> unat (a - 0x50000000)"
proof -
  assume "a \<in> csu_regs 0x4C2C0000"
  then obtain c where c: "a = 0x4C2C0000 + 4 * of_int (c div 2)" "0 \<le> c" "c < 80"
    by (auto simp: csu_regs_def csl_addr_def)
  define k where "k = nat (c div 2)"
  have k: "c div 2 = int k" "k < 40" using c(2,3) by (auto simp: k_def)
  have "unat (0x4C2C0000 + 4 * of_nat k :: u32) = 0x4C2C0000 + 4 * k"
    using k unat_of_nat_small [of "0x4C2C0000 + 4 * k", where 'a = 32] by simp
  then have "unat a = 0x4C2C0000 + 4 * k" using c(1) k(1) by simp
  then show ?thesis using k(2) by (simp add: unat_sub32)
qed

lemma switch_example_inv: "switch_inv 159 switch_example"
proof -
  have "csu_inv switch_example"
    using csu_far gic_hw_plain [of _ "0x50000000"]
    by (auto simp: csu_inv_def switch_example_def csu_hw_def csl_lane_def lane_consts csl_byte_def gic_example_def)
  then show ?thesis
    using csu_far by (simp add: switch_inv_def gic_inv_def gicd_law_gic_hw switch_example_def gic_example_def gic_local_gic_hw)
qed

theorem dt_disable_device_correct_witness:
  "wp (dt_enable_device irq_tables 1 False) (\<lambda>r t. r \<and> switch_inv 159 t
    \<and> (\<forall>c \<in> set (csu device_example). csl_denied t c)
    \<and> (\<forall>c. csl_valid c \<longrightarrow> csl_denied switch_example c \<longrightarrow> csl_denied t c)
    \<and> regions (emu t) = rev (map deny_region (resources device_example)) @ regions (emu switch_example)
    \<and> (\<forall>i \<in> set (irqs device_example). \<not> ena t (desc_irq (idesc i)) \<and> \<not> grp1 t (desc_irq (idesc i)))
    \<and> devs (dt t) = (devs (dt switch_example))(1 \<mapsto> device_example\<lparr>enabled := False\<rparr>)) switch_example"
  by (rule dt_disable_device_correct [OF switch_example_inv])
    (simp_all add: switch_example_def device_example_def can_protect_def dev_ok_def csl_valid_def mem_resource_def
      gic_line_def gic_example_def blank_def)

section \<open>Giving a device back\<close>

text \<open>The memory side of the switch, for a device without interrupt lines.\<close>

lemma csl_held_emu_upd [simp]: "csl_held (emu_upd rs k s) = csl_held s" "csu_inv (emu_upd rs k s) = csu_inv s"
  "csl_held (dev_upd d dev s) = csl_held s" "csu_inv (dev_upd d dev s) = csu_inv s"
  using csl_same [of "emu_upd rs k s" s] csl_same [of "dev_upd d dev s" s] by simp_all

lemma disable_memory:
  assumes inv: "csu_inv s" and d: "devs (dt s) d = Some dev" "enabled dev" "can_protect dev" "irqs dev = []"
    and ok: "\<forall>c \<in> set (csu dev). csl_valid c" "\<forall>r \<in> set (resources dev). mem_resource r" and mem: "\<forall>k. alloc_ok (mach s) k"
  shows "wp (dt_enable_device irq_tables d False) (\<lambda>r t. r \<and> csu_inv t
    \<and> csl_held t = (\<lambda>c. csl_held s c + int (count_list (csu dev) c))
    \<and> regions (emu t) = rev (map deny_region (resources dev)) @ regions (emu s)
    \<and> devs (dt t) = (devs (dt s))(d \<mapsto> dev\<lparr>enabled := False\<rparr>)) s"
proof -
  have "wp (thenM (forM (resources dev) (\<lambda>r. bindM (region_of r) (\<lambda>(a, z). thenM (emu_add_region a z EMU_DENY_ALL) (ret ()))))
        (forM (csu dev) (\<lambda>c. csu_set_csl c True)))
      (\<lambda>_ t. csu_inv t \<and> csl_held t = (\<lambda>c. csl_held s c + int (count_list (csu dev) c))
        \<and> regions (emu t) = rev (map deny_region (resources dev)) @ regions (emu s) \<and> dt t = dt s) s"
  proof (rule wp_then_rule [OF add_regions [OF ok(2) mem]], elim exE)
    fix t k assume t: "t = emu_upd (rev (map deny_region (resources dev)) @ regions (emu s)) k s"
    show "wp (forM (csu dev) (\<lambda>c. csu_set_csl c True))
      (\<lambda>_ t. csu_inv t \<and> csl_held t = (\<lambda>c. csl_held s c + int (count_list (csu dev) c))
        \<and> regions (emu t) = rev (map deny_region (resources dev)) @ regions (emu s) \<and> dt t = dt s) t"
      by (rule wp_mono [OF csu.acquire_all [OF _ ok(1)]]) (use t inv csu_frame_parts in auto)
  qed
  then show ?thesis using d by (simp add: dt_enable_device_def wp_simps switch_irqs_def whenM_def) (auto elim!: wp_mono)
qed

lemma enable_memory:
  assumes inv: "csu_inv s" and d: "devs (dt s) d = Some dev" "\<not> enabled dev" "can_protect dev" "irqs dev = []"
    and ok: "\<forall>c \<in> set (csu dev). csl_valid c" "\<forall>r \<in> set (resources dev). mem_resource r"
    and held: "\<forall>c. int (count_list (csu dev) c) \<le> csl_held s c"
  shows "wp (dt_enable_device irq_tables d True) (\<lambda>r t. r \<and> csu_inv t
    \<and> csl_held t = (\<lambda>c. csl_held s c - int (count_list (csu dev) c))
    \<and> regions (emu t) = fold remove1 (map deny_region (resources dev)) (regions (emu s))
    \<and> devs (dt t) = (devs (dt s))(d \<mapsto> dev\<lparr>enabled := True\<rparr>)) s"
proof -
  have "wp (thenM (forM (csu dev) (\<lambda>c. csu_set_csl c False))
        (forM (resources dev) (\<lambda>r. bindM (region_of r) (\<lambda>(a, z). emu_remove_region a z EMU_DENY_ALL))))
      (\<lambda>_ t. csu_inv t \<and> csl_held t = (\<lambda>c. csl_held s c - int (count_list (csu dev) c))
        \<and> regions (emu t) = fold remove1 (map deny_region (resources dev)) (regions (emu s)) \<and> dt t = dt s) s"
  proof (rule wp_then_rule [OF csu.release_all [OF inv ok(1) held]])
    fix t assume t: "csu_inv t \<and> csu_frame s t \<and> csl_held t = (\<lambda>c. csl_held s c - int (count_list (csu dev) c))"
    show "wp (forM (resources dev) (\<lambda>r. bindM (region_of r) (\<lambda>(a, z). emu_remove_region a z EMU_DENY_ALL)))
      (\<lambda>_ t. csu_inv t \<and> csl_held t = (\<lambda>c. csl_held s c - int (count_list (csu dev) c))
        \<and> regions (emu t) = fold remove1 (map deny_region (resources dev)) (regions (emu s)) \<and> dt t = dt s) t"
      by (rule wp_mono [OF remove_regions [OF ok(2)]]) (use t csu_frame_parts in auto)
  qed
  then show ?thesis using d by (simp add: dt_enable_device_def wp_simps switch_irqs_def whenM_def) (auto elim!: wp_mono)
qed



end
