(* ===== verification/Gpio_Keys.thy ===== *)
theory Gpio_Keys
  imports Emu_Dispatch
begin

text \<open>
  core/drivers/imx\_gpio\_keys.c: the buttons on GPIO lines. Handlers that want the buttons are linked
  into a list; the first takes the interrupts of all buttons away from the normal world and the last
  gives them back. A press is offered to every handler. One handler is the recogniser of the secure
  power-down sequence. The list is that of \<open>SLIST\<close> macros over statically allocated handlers; a
  handler is linked at most once. The \<open>on_press\<close> pointer of a handler is the argument \<open>on_press\<close>.
\<close>

abbreviation (input) KEY_VOLUMEDOWN :: u32 where "KEY_VOLUMEDOWN \<equiv> 114"
abbreviation (input) KEY_VOLUMEUP :: u32 where "KEY_VOLUMEUP \<equiv> 115"
abbreviation (input) KEY_BACK :: u32 where "KEY_BACK \<equiv> 158"
abbreviation (input) KEY_HOMEPAGE :: u32 where "KEY_HOMEPAGE \<equiv> 172"

type_synonym press_fn = "button_handler \<Rightarrow> u32 \<Rightarrow> bool km"

definition keys_pdata :: "gpio_keys_platform_data km" where
  "keys_pdata = bindM (gets (\<lambda>s. pdata (keys s))) deref"

definition upd_handlers :: "(button_handler list \<Rightarrow> button_handler list) \<Rightarrow> unit km" where
  "upd_handlers f = bindM keys_pdata (\<lambda>p. modifyM (\<lambda>s. s\<lparr>keys := (keys s)\<lparr>pdata := Some (p\<lparr>bhandlers := f (bhandlers p)\<rparr>)\<rparr>\<rparr>))"

section \<open>Presses\<close>

fun press_all :: "press_fn \<Rightarrow> u32 \<Rightarrow> button_handler list \<Rightarrow> bool \<Rightarrow> bool km" where
  "press_all on_press c [] consume = ret consume"
| "press_all on_press c (bh # bhs) consume =
     bindM (on_press bh c) (\<lambda>r. press_all on_press c bhs (consume \<or> r))"

text \<open>\<open>handler->data\<close> is the button, here its index in the button array.\<close>

definition gpio_keys_handler :: "press_fn \<Rightarrow> irq_handler \<Rightarrow> irq_return km" where
  "gpio_keys_handler on_press h =
     bindM keys_pdata (\<lambda>p.
     bindM (index_at (buttons p) (h_data h)) (\<lambda>button.
     bindM (press_all on_press (code button) (bhandlers p) False) (\<lambda>consume.
     ret (if consume then ITRR_HANDLED else ITRR_HANDLED_PASS))))"

section \<open>Acquiring and releasing the buttons\<close>

definition gpio_keys_acquire :: "button_handler \<Rightarrow> bool km" where
  "gpio_keys_acquire handler =
     bindM keys_pdata (\<lambda>p.
     thenM (whenM (bhandlers p = []) (forM (buttons p) (\<lambda>button.
       thenM (irq_add irq_tables (gpio_irq button) 0x3 (gpio_irq_handler button)) (
       thenM (irq_enable irq_tables (gpio_irq button)) (ret ()))))) (
     thenM (upd_handlers ((#) handler)) (ret True)))"

definition gpio_keys_release :: "button_handler \<Rightarrow> unit km" where
  "gpio_keys_release handler =
     thenM (upd_handlers (remove1 handler)) (
     bindM keys_pdata (\<lambda>p.
     whenM (bhandlers p = []) (forM (buttons p) (\<lambda>button.
       thenM (irq_disable irq_tables (gpio_irq button)) (
       thenM (irq_remove irq_tables (gpio_irq button)) (ret ()))))))"

section \<open>The secure power-down sequence\<close>

fun secpwr_next :: "secpwr_state \<Rightarrow> u32 \<Rightarrow> secpwr_state" where
  "secpwr_next SECPWR_STATE0 c = (if c = KEY_HOMEPAGE then SECPWR_STATE1 else SECPWR_STATE0)"
| "secpwr_next SECPWR_STATE1 c = (if c = KEY_BACK then SECPWR_STATE2
     else if c = KEY_HOMEPAGE then SECPWR_STATE1 else SECPWR_STATE0)"
| "secpwr_next SECPWR_STATE2 c = (if c = KEY_VOLUMEUP then SECPWR_STATE3
     else if c = KEY_BACK then SECPWR_STATE2 else SECPWR_STATE0)"
| "secpwr_next SECPWR_STATE3 c = (if c = KEY_VOLUMEDOWN then SECPWR_STATE0
     else if c = KEY_VOLUMEUP then SECPWR_STATE3 else SECPWR_STATE0)"

text \<open>The shutdown itself is not implemented in the source; a message is printed there.\<close>

definition secpwr_button_press_handler :: "u32 \<Rightarrow> bool km" where
  "secpwr_button_press_handler c =
     thenM (modifyM (\<lambda>s. s\<lparr>keys := (keys s)\<lparr>secpwr := secpwr_next (secpwr (keys s)) c\<rparr>\<rparr>)) (ret False)"

section \<open>Lemmas\<close>

lemma wp_keys_pdata [wp_simps]: "wp keys_pdata Q = (\<lambda>s. \<exists>p. pdata (keys s) = Some p \<and> Q p s)"
  by (rule ext) (simp add: keys_pdata_def wp_simps)

lemma wlp_keys_pdata [wp_simps]: "wlp keys_pdata Q = (\<lambda>s. \<forall>p. pdata (keys s) = Some p \<longrightarrow> Q p s)"
  by (rule ext) (simp add: keys_pdata_def wp_simps)

text \<open>The recogniser: in state \<open>n\<close> the presses so far end in the first \<open>n\<close> keys of the sequence, each
  possibly repeated (a button interrupts on both edges).\<close>

definition key_run :: "u32 \<Rightarrow> u32 list \<Rightarrow> bool" where
  "key_run c xs \<longleftrightarrow> xs \<noteq> [] \<and> set xs = {c}"

lemma key_run_snoc: "key_run c xs \<Longrightarrow> key_run c (xs @ [c])" "key_run c [c]"
  by (auto simp: key_run_def)

definition secpwr_seen :: "secpwr_state \<Rightarrow> u32 list \<Rightarrow> bool" where
  "secpwr_seen st cs \<longleftrightarrow> (case st of SECPWR_STATE0 \<Rightarrow> True
    | SECPWR_STATE1 \<Rightarrow> \<exists>us a. cs = us @ a \<and> key_run KEY_HOMEPAGE a
    | SECPWR_STATE2 \<Rightarrow> \<exists>us a b. cs = us @ a @ b \<and> key_run KEY_HOMEPAGE a \<and> key_run KEY_BACK b
    | SECPWR_STATE3 \<Rightarrow> \<exists>us a b d. cs = us @ a @ b @ d \<and> key_run KEY_HOMEPAGE a \<and> key_run KEY_BACK b \<and> key_run KEY_VOLUMEUP d)"

lemma secpwr_seen_step:
  assumes "secpwr_seen st cs"
  shows "secpwr_seen (secpwr_next st c) (cs @ [c])"
proof (cases st)
  case SECPWR_STATE0
  then show ?thesis by (auto simp: secpwr_seen_def intro: key_run_snoc)
next
  case SECPWR_STATE1
  then obtain us a where e: "cs = us @ a" "key_run KEY_HOMEPAGE a" using assms by (auto simp: secpwr_seen_def)
  show ?thesis using SECPWR_STATE1 e key_run_snoc(2) [of KEY_BACK] key_run_snoc(1) [OF e(2)]
    by (auto simp: secpwr_seen_def)
next
  case SECPWR_STATE2
  then obtain us a b where e: "cs = us @ a @ b" "key_run KEY_HOMEPAGE a" "key_run KEY_BACK b"
    using assms by (auto simp: secpwr_seen_def)
  show ?thesis using SECPWR_STATE2 e key_run_snoc(2) [of KEY_VOLUMEUP] key_run_snoc(1) [OF e(3)]
    by (auto simp: secpwr_seen_def)
next
  case SECPWR_STATE3
  then obtain us a b d where e: "cs = us @ a @ b @ d" "key_run KEY_HOMEPAGE a" "key_run KEY_BACK b" "key_run KEY_VOLUMEUP d"
    using assms by (auto simp: secpwr_seen_def)
  show ?thesis using SECPWR_STATE3 e key_run_snoc(1) [OF e(4)] by (auto simp: secpwr_seen_def)
qed

text \<open>C38: The power-down recogniser has no false positives: whatever is pressed, when it reaches its last
  state the presses end in the sequence home, back, volume up, each key pressed one or more times
  in a row.\<close>

theorem secpwr_sound:
  "\<exists>t. forM cs (\<lambda>c. thenM (secpwr_button_press_handler c) (ret ())) (s\<lparr>keys := (keys s)\<lparr>secpwr := SECPWR_STATE0\<rparr>\<rparr>) = Inr ((), t)
    \<and> secpwr_seen (secpwr (keys t)) cs"
proof -
  let ?I = "\<lambda>ys t. secpwr_seen (secpwr (keys t)) ys"
  have "wp (forM cs (\<lambda>c. thenM (secpwr_button_press_handler c) (ret ()))) (\<lambda>_. ?I cs)
      (s\<lparr>keys := (keys s)\<lparr>secpwr := SECPWR_STATE0\<rparr>\<rparr>)"
    by (rule wp_forM) (auto simp: secpwr_button_press_handler_def wp_simps secpwr_seen_step, simp add: secpwr_seen_def)
  then show ?thesis by (auto simp: wp_iff)
qed

text \<open>The recogniser misses the sequence after a false start: home, back, home, back, volume up leaves it
  in its initial state, although the last three keys are the sequence, because a key that breaks
  the sequence is not taken as the start of a new one.\<close>

lemma secpwr_misses_restart:
  "fold (\<lambda>c st. secpwr_next st c) [KEY_HOMEPAGE, KEY_BACK, KEY_HOMEPAGE, KEY_BACK, KEY_VOLUMEUP] SECPWR_STATE0 = SECPWR_STATE0"
  by simp

end
