(* ===== verification/Frames.thy ===== *)
theory Frames
  imports Device_Tree Gpio_Keys
begin

text \<open>
  What the drivers leave alone. A part of the kernel state that depends on none of the drivers'
  variables and not on the machine, such as the device table or the saved settings, is kept by every
  driver operation. The parts are the instances of one locale.
\<close>

locale outer_part =
  fixes f :: "kernel \<Rightarrow> 'b"
  assumes mach: "f (s\<lparr>mach := m\<rparr>) = f s" and thr: "f (s\<lparr>thr := a\<rparr>) = f s" and irqv: "f (s\<lparr>irqv := b\<rparr>) = f s"
    and csuv: "f (s\<lparr>csuv := c\<rparr>) = f s" and emu: "f (s\<lparr>emu := e\<rparr>) = f s" and gpio: "f (s\<lparr>gpio := g\<rparr>) = f s"
    and keys: "f (s\<lparr>keys := k\<rparr>) = f s" and fb: "f (s\<lparr>fb := h\<rparr>) = f s"
begin

lemmas parts = mach thr irqv csuv emu gpio keys fb

lemma keeps_io [keeps_intros]:
  "keeps f (write32 v a)" "keeps f (write8 w a)" "keeps f (write16 x a)" "keeps f malloc"
  by (rule keeps_store; simp add: mach)+

lemma keeps_gicd [keeps_intros]:
  "keeps f (gicd_read off)" "keeps f (gicd_write v off)" "keeps f (gicc_write v off)" "keeps f (assert_group0 it)"
  by (auto simp: gicd_read_def gicd_write_def gicc_write_def assert_group0_def intro!: keeps_intros)

lemma keeps_gic_it [keeps_intros]:
  "keeps f (gic_it_set_prio it p)" "keeps f (gic_it_set_cpu_mask it m)" "keeps f (gic_it_add it)"
  "keeps f (gic_it_set_pending it)"
  by (auto simp: gic_it_set_prio_def gic_it_set_cpu_mask_def gic_it_add_def gic_it_set_pending_def Let_def intro!: keeps_intros)

lemma keeps_gic_ops:
  "keeps f (gic_op_enable c i)" "keeps f (gic_op_disable c i)" "keeps f (gic_op_secure c i)"
  "keeps f (gic_op_unsecure c i)" "keeps f (gic_op_add c i fl)" "keeps f (gic_op_raise c i)"
  by (auto simp: gic_op_enable_def gic_op_disable_def gic_op_secure_def gic_op_unsecure_def gic_op_add_def
    gic_op_raise_def gic_it_enable_def gic_it_disable_def gic_it_secure_def gic_it_unsecure_def Let_def intro!: keeps_intros)

lemma keeps_ports [keeps_intros]:
  "keeps f (port_at p)" "keeps f hwdata" "keeps f (gpio_read_reg p sel)" "keeps f (gpio_write_reg v p sel)"
  "keeps f (upd_port p u)" "keeps f (chip_port c)"
  by (auto simp: port_at_def gpio_read_reg_def gpio_write_reg_def gpio_reg_def hwdata_def upd_port_def chip_port_def gpio
    intro!: keeps_intros keeps_modifyM split: chip_ref.split)

lemma keeps_pins [keeps_intros]:
  "keeps f (gpio_irq_mask p i b)" "keeps f (gpio_irq_ack p i)" "keeps f (gpio_set_dir p i d)" "keeps f (mxc_flip_edge p i)"
  "keeps f (gpio_get_value p i)" "keeps f (gpio_edge p i fl)"
  by (auto simp: gpio_irq_mask_def gpio_irq_ack_def gpio_set_dir_def mxc_flip_edge_def gpio_get_value_def gpio_edge_def Let_def
    intro!: keeps_intros)

lemma keeps_irq_type [keeps_intros]: "keeps f (gpio_set_irq_type p i fl)"
  by (auto simp: gpio_set_irq_type_def Let_def intro!: keeps_intros)

lemma keeps_gpio_ops:
  "keeps f (irq_op_enable c i)" "keeps f (irq_op_disable c i)" "keeps f (irq_op_secure c i)"
  "keeps f (irq_op_unsecure c i)" "keeps f (irq_op_add c i fl)" "keeps f (irq_op_remove c i)" "keeps f (irq_op_raise c i)"
  by (auto simp: irq_op_enable_def irq_op_disable_def irq_op_secure_def irq_op_unsecure_def irq_op_add_def
    irq_op_remove_def irq_op_raise_def intro!: keeps_intros)

lemma keeps_table_call:
  assumes "\<And>g c k. sel gic_ops_table = Some g \<Longrightarrow> keeps f (g c k)" "\<And>g c k. sel gpio_ops_table = Some g \<Longrightarrow> keeps f (g c k)"
  shows "keeps f (bindM (deref (sel (irq_tables ops))) (\<lambda>g. g c k))"
  using assms by (cases ops; cases "sel (irq_tables ops)")
    (auto simp: deref_def bindM_def keeps_def wlp_def ret_def throw_def)

lemma keeps_chip [keeps_intros]: "keeps f (chip_at c)" "keeps f (irq_check_valid ch i)" "keeps f (set_handler c i h)"
  by (auto simp: chip_at_def irq_check_valid_def set_handler_def irqv intro!: keeps_intros keeps_modifyM)

lemma keeps_irq_op:
  assumes "\<And>g c k. sel gic_ops_table = Some g \<Longrightarrow> keeps f (g c k)" "\<And>g c k. sel gpio_ops_table = Some g \<Longrightarrow> keeps f (g c k)"
  shows "keeps f (irq_op irq_tables sel i)"
  unfolding irq_op_def by (intro keeps_bindM [OF _ keeps_bindM [OF _ keeps_table_call]] keeps_chip) (use assms in auto)

lemmas table_defs = gic_ops_table_def gpio_ops_table_def

lemma keeps_irq [keeps_intros]:
  "keeps f (irq_enable irq_tables i)" "keeps f (irq_disable irq_tables i)" "keeps f (irq_secure irq_tables i)"
  "keeps f (irq_unsecure irq_tables i)" "keeps f (irq_raise irq_tables i)" "keeps f (irq_remove irq_tables i)"
  "keeps f (irq_add irq_tables i fl h)"
proof -
  show "keeps f (irq_enable irq_tables i)" "keeps f (irq_disable irq_tables i)" "keeps f (irq_secure irq_tables i)"
    "keeps f (irq_unsecure irq_tables i)" "keeps f (irq_raise irq_tables i)"
    unfolding irq_enable_def irq_disable_def irq_secure_def irq_unsecure_def irq_raise_def
    by (rule keeps_irq_op; auto simp: table_defs keeps_gic_ops keeps_gpio_ops)+
  have "keeps f (irq_op irq_tables op_remove i)" by (rule keeps_irq_op) (auto simp: table_defs keeps_gpio_ops)
  then show "keeps f (irq_remove irq_tables i)" unfolding irq_remove_def by (intro keeps_intros)
  have "keeps f (bindM (deref (op_add (irq_tables ops))) (\<lambda>g. g c k fl))" for ops c k
    by (cases ops) (simp_all add: table_defs bindM_deref keeps_gic_ops keeps_gpio_ops)
  then show "keeps f (irq_add irq_tables i fl h)" unfolding irq_add_def
    by (intro keeps_bindM [OF _ keeps_bindM [OF _ keeps_thenM]] keeps_chip)
qed

lemma keeps_csu [keeps_intros]: "keeps f (csu_set_csl c p)"
  by (auto simp: csu_set_csl_def csl_count_def upd_csl_count_def csuv intro!: keeps_intros keeps_modifyM)

lemma keeps_emu [keeps_intros]: "keeps f (emu_add_region a z c)" "keeps f (emu_remove_region a z c)" "keeps f (region_of r)"
  by (auto simp: emu_add_region_def emu_remove_region_def upd_regions_def region_of_def emu intro!: keeps_intros keeps_modifyM)

lemma keeps_fields [keeps_intros]:
  "keeps f (ipu_ch_param_read_field b ch w bt sz)" "keeps f (ipu_ch_param_write_field b ch w bt sz v)" "keeps f (fb_put info off x)"
  by (auto simp: ipu_ch_param_read_field_def ipu_ch_param_write_field_def fb_put_def fb Let_def intro!: keeps_intros keeps_modifyM)

lemma keeps_draw [keeps_intros]:
  "keeps f (fb_clear info r g b)" "keeps f (fb_memcpy info dst buf src n)" "keeps f (fb_blit info x y buf w h)"
  "keeps f (fb_blit_image info x y im)" "keeps f (fb_blit_all info bs)"
  by (auto simp: fb_clear_def fb_memcpy_def fb_blit_def fb_blit_image_def fb_blit_all_def Let_def intro!: keeps_intros)

lemma keeps_exceptions [keeps_intros]:
  "keeps f thread_get_core_local" "keeps f (upd_core_local c u)" "keeps f thread_get_exceptions"
  "keeps f thread_foreign_intr_disabled"
  by (auto simp: thread_get_core_local_def upd_core_local_def thread_get_exceptions_def thread_foreign_intr_disabled_def thr
    intro!: keeps_intros keeps_modifyM)

lemma keeps_masks [keeps_intros]:
  "keeps f (thread_mask_exceptions e)" "keeps f (thread_unmask_exceptions e)" "keeps f spinlock_count_incr"
  "keeps f spinlock_count_decr"
  by (auto simp: thread_mask_exceptions_def thread_unmask_exceptions_def thread_set_exceptions_def assert_have_no_spinlock_def
    have_spinlock_def spinlock_count_incr_def spinlock_count_decr_def mach intro!: keeps_intros keeps_modifyM)

lemma keeps_translate [keeps_intros]: "keeps f (phys_to_virt pa ty)"
  by (auto simp: phys_to_virt_def check_va_matches_pa_def virt_to_phys_def check_pa_matches_va_def arm_va2pa_helper_def Let_def
    intro!: keeps_intros)

lemma keeps_read_words [keeps_intros]: "keeps f (read_words as)"
  by (induction as) (auto intro!: keeps_intros)

lemma keeps_display [keeps_intros]: "keeps f (fb_acquire r g b)" "keeps f (fb_release info)"
  by (auto simp: fb_acquire_def fb_release_def Let_def intro!: keeps_intros)

lemma keeps_keys [keeps_intros]:
  "keeps f keys_pdata" "keeps f (upd_handlers u)" "keeps f (secpwr_button_press_handler c)"
  by (auto simp: keys_pdata_def upd_handlers_def secpwr_button_press_handler_def keys intro!: keeps_intros keeps_modifyM)

lemma keeps_acquire_keys [keeps_intros]: "keeps f (gpio_keys_acquire h)" "keeps f (gpio_keys_release h)"
  by (auto simp: gpio_keys_acquire_def gpio_keys_release_def intro!: keeps_intros)

text \<open>Interrupt handling, given that the registered handlers keep the part.\<close>

lemma keeps_irq_handle:
  assumes "\<And>h. keeps f (call h)"
  shows "keeps f (irq_handle irq_tables call c i)"
proof -
  have d: "keeps f (bindM (deref (op_disable (irq_tables ops))) (\<lambda>g. thenM (g c i) (ret x)))" for ops and x :: 'x
    by (cases ops) (simp_all add: table_defs bindM_deref keeps_thenM keeps_gic_ops keeps_gpio_ops keeps_pure)
  show ?thesis unfolding irq_handle_def
    by (intro keeps_bindM keeps_chip keeps_pure keeps_option keeps_if keeps_thenM keeps_whenM assms d)
qed

lemma keeps_irq_loop: "(\<And>i. keeps f (body i)) \<Longrightarrow> keeps f (gpio_irq_loop body w)"
proof (induction body w rule: gpio_irq_loop.induct)
  case (1 body w)
  then show ?case by (subst gpio_irq_loop.simps) (auto intro!: keeps_intros)
qed

lemma keeps_port_handler:
  assumes "\<And>h. keeps f (call h)"
  shows "keeps f (mx3_gpio_irq_handler irq_tables call h)" "keeps f (mx2_gpio_irq_handler irq_tables call)"
proof -
  have b: "keeps f (gpio_irq_body irq_tables call p i)" for p i
    unfolding gpio_irq_body_def
    by (intro keeps_bindM keeps_thenM keeps_irq_handle assms) (auto intro!: keeps_intros split: irq_return.split)
  have h: "keeps f (mxc_gpio_irq_handler irq_tables call p w)" for p w
    unfolding mxc_gpio_irq_handler_def by (intro keeps_thenM keeps_irq_loop b) (intro keeps_intros)
  show "keeps f (mx3_gpio_irq_handler irq_tables call h)" "keeps f (mx2_gpio_irq_handler irq_tables call)"
    unfolding mx3_gpio_irq_handler_def mx2_gpio_irq_handler_def by (intro keeps_intros h)+
qed

lemma keeps_gic_handle:
  assumes "\<And>h. keeps f (call h)"
  shows "keeps f (gic_it_handle irq_tables call)"
  unfolding gic_it_handle_def Let_def
  by (intro keeps_bindM keeps_thenM keeps_whenM keeps_if keeps_irq_handle assms) (intro keeps_intros)+

lemma keeps_press_all: "(\<And>b c. keeps f (pr b c)) \<Longrightarrow> keeps f (press_all pr c bs x)"
  by (induction bs arbitrary: x) (auto intro!: keeps_intros)

lemma keeps_keys_handler: "(\<And>b c. keeps f (pr b c)) \<Longrightarrow> keeps f (gpio_keys_handler pr h)"
  unfolding gpio_keys_handler_def by (intro keeps_intros keeps_press_all)

end

end
