(* ===== verification/Dt_Class.thy ===== *)
theory Dt_Class
  imports Dt_Switch Frames
begin

text \<open>
  Switching whole classes of devices (\<open>dt_enable_class\<close> of dt.c): the interrupt, CSU and emulation code
  below never changes the device table, a switch of a class moves devices in one direction only,
  and afterwards every device of the class is in the requested state.
\<close>

section \<open>Nothing below the device table changes it\<close>

interpretation dt_part: outer_part dt
  by unfold_locales simp_all

section \<open>Classes\<close>

text \<open>Between two states, devices may have been switched to \<open>en\<close>, and nothing else about the table
  changed.\<close>

definition switched :: "bool \<Rightarrow> kernel \<Rightarrow> kernel \<Rightarrow> bool" where
  "switched en s t \<longleftrightarrow> buckets (dt t) = buckets (dt s) \<and>
     (\<forall>d. devs (dt t) d = devs (dt s) d \<or> devs (dt t) d = map_option (\<lambda>dev. dev\<lparr>enabled := en\<rparr>) (devs (dt s) d))"

lemma switched_refl: "switched en s s"
  by (simp add: switched_def)

lemma switched_trans: "switched en s t \<Longrightarrow> switched en t u \<Longrightarrow> switched en s u"
proof (unfold switched_def, elim conjE, intro conjI allI)
  fix d
  assume st: "\<forall>d. devs (dt t) d = devs (dt s) d \<or> devs (dt t) d = map_option (\<lambda>dev. dev\<lparr>enabled := en\<rparr>) (devs (dt s) d)"
    and tu: "\<forall>d. devs (dt u) d = devs (dt t) d \<or> devs (dt u) d = map_option (\<lambda>dev. dev\<lparr>enabled := en\<rparr>) (devs (dt t) d)"
  show "devs (dt u) d = devs (dt s) d \<or> devs (dt u) d = map_option (\<lambda>dev. dev\<lparr>enabled := en\<rparr>) (devs (dt s) d)"
    using st [rule_format, of d] tu [rule_format, of d] by (cases "devs (dt s) d") auto
qed simp

lemma switched_dev:
  assumes "switched en s t" "devs (dt s) d = Some dev"
  shows "\<exists>dev'. devs (dt t) d = Some dev' \<and> classes dev' = classes dev \<and> (enabled dev = en \<longrightarrow> enabled dev' = en)"
proof -
  have "devs (dt t) d = Some dev \<or> devs (dt t) d = Some (dev\<lparr>enabled := en\<rparr>)"
    using assms unfolding switched_def by (metis option.map(2))
  then show ?thesis by auto
qed

lemma wlp_enable_device:
  "wlp (dt_enable_device irq_tables d en)
    (\<lambda>_ t. switched en s t \<and> map_option enabled (devs (dt t) d) = Some en) s"
proof -
  have keep: "keeps dt (thenM (switch_irqs irq_tables en is) (whenM c (if en
      then thenM (forM cs (\<lambda>c. csu_set_csl c False))
        (forM rs (\<lambda>r. bindM (region_of r) (\<lambda>(a, z). emu_remove_region a z EMU_DENY_ALL)))
      else thenM (forM rs (\<lambda>r. bindM (region_of r) (\<lambda>(a, z). thenM (emu_add_region a z EMU_DENY_ALL) (ret ()))))
        (forM cs (\<lambda>c. csu_set_csl c True)))))" for "is" c cs rs
    unfolding switch_irqs_def by (intro keeps_intros)
  have "wlp (thenM (thenM (switch_irqs irq_tables en (irqs dev)) (whenM c (if en
      then thenM (forM (csu dev) (\<lambda>c. csu_set_csl c False))
        (forM (resources dev) (\<lambda>r. bindM (region_of r) (\<lambda>(a, z). emu_remove_region a z EMU_DENY_ALL)))
      else thenM (forM (resources dev) (\<lambda>r. bindM (region_of r) (\<lambda>(a, z). thenM (emu_add_region a z EMU_DENY_ALL) (ret ()))))
        (forM (csu dev) (\<lambda>c. csu_set_csl c True)))))
      (thenM (upd_device d (\<lambda>dev. dev\<lparr>enabled := en\<rparr>)) (ret x)))
    (\<lambda>_ t. switched en s t \<and> map_option enabled (devs (dt t) d) = Some en) s" for dev c and x :: bool
    by (rule wlp_then_rule [OF keeps_wlp [OF keep]]) (auto simp: wp_simps switched_def)
  then have "wlp (thenM (switch_irqs irq_tables en (irqs dev)) (thenM (whenM (can_protect dev) (if en
      then thenM (forM (csu dev) (\<lambda>c. csu_set_csl c False))
        (forM (resources dev) (\<lambda>r. bindM (region_of r) (\<lambda>(a, z). emu_remove_region a z EMU_DENY_ALL)))
      else thenM (forM (resources dev) (\<lambda>r. bindM (region_of r) (\<lambda>(a, z). thenM (emu_add_region a z EMU_DENY_ALL) (ret ()))))
        (forM (csu dev) (\<lambda>c. csu_set_csl c True))))
      (thenM (upd_device d (\<lambda>dev. dev\<lparr>enabled := en\<rparr>)) (ret (can_protect dev)))))
    (\<lambda>_ t. switched en s t \<and> map_option enabled (devs (dt t) d) = Some en) s" for dev
    by (simp only: wlp_thenM)
  then show ?thesis
    unfolding dt_enable_device_def wlp_bindM wlp_device_at wlp_if wlp_ret by (simp add: switched_refl)
qed

lemma wlp_enable_up: "wlp (enable_up n irq_tables od en) (\<lambda>_. switched en s) s"
proof (induction n arbitrary: od s)
  case 0
  show ?case by (cases od) (simp_all add: wp_simps switched_refl)
next
  case (Suc n)
  show ?case
  proof (cases od)
    case (Some d)
    have "wlp (if p then ret () else bindM (device_at d) (\<lambda>dev. enable_up n irq_tables (parent dev) en)) (\<lambda>_. switched en s) t"
      if "switched en s t" for t p
      using that switched_trans [OF that] by (auto simp: wp_simps intro: wlp_mono [OF Suc.IH])
    then show ?thesis using Some by (auto intro: wlp_bind_rule [OF wlp_enable_device])
  qed (simp add: wp_simps switched_refl)
qed

lemma wlp_enable_up_dev:
  "wlp (enable_up (Suc n) irq_tables (Some d) en)
    (\<lambda>_ t. switched en s t \<and> map_option enabled (devs (dt t) d) = Some en) s"
proof -
  have "wlp (if p then ret () else bindM (device_at d) (\<lambda>dev. enable_up n irq_tables (parent dev) en))
      (\<lambda>_ t. switched en s t \<and> map_option enabled (devs (dt t) d) = Some en) t"
    if t: "switched en s t" "map_option enabled (devs (dt t) d) = Some en" for t p
  proof -
    have "map_option enabled (devs (dt u) d) = Some en" if "switched en t u" for u
      using t(2) switched_dev [OF that] by auto
    then show ?thesis using t switched_trans [OF t(1)]
      by (auto simp: wp_simps intro!: wlp_mono [OF wlp_enable_up])
  qed
  then show ?thesis by (auto intro: wlp_bind_rule [OF wlp_enable_device])
qed

lemma wlp_first_of:
  assumes "I [] s"
    and "\<And>ys x zs t. xs = ys @ x # zs \<Longrightarrow> I ys t \<Longrightarrow> wlp (body x) (\<lambda>r u. r = None \<and> I (ys @ [x]) u) t"
  shows "wlp (first_of xs body) (\<lambda>_. I xs) s"
proof -
  have "wlp (first_of zs body) (\<lambda>_. I xs) s" if "xs = ys @ zs" "I ys s" for ys zs s
    using that
  proof (induction zs arbitrary: ys s)
    case (Cons z zs)
    show ?case unfolding first_of.simps
      by (rule wlp_bind_rule [OF assms(2) [OF Cons.prems]]) (use Cons.IH [of "ys @ [z]"] Cons.prems(1) in auto)
  qed (simp add: wp_simps)
  from this [of "[]" xs s] assms(1) show ?thesis by simp
qed

definition class_set :: "string \<Rightarrow> bool \<Rightarrow> nat set \<Rightarrow> kernel \<Rightarrow> bool" where
  "class_set name en D s \<longleftrightarrow> (\<forall>d \<in> D. \<forall>dev. devs (dt s) d = Some dev \<longrightarrow> device_has_class dev name \<longrightarrow> enabled dev = en)"

lemma switched_back:
  assumes "switched en s t" "devs (dt t) d = Some dev'"
  shows "\<exists>dev. devs (dt s) d = Some dev \<and> (dev' = dev \<or> dev' = dev\<lparr>enabled := en\<rparr>)"
proof -
  have "devs (dt t) d = devs (dt s) d \<or> devs (dt t) d = map_option (\<lambda>dev. dev\<lparr>enabled := en\<rparr>) (devs (dt s) d)"
    using assms(1) by (simp add: switched_def)
  then show ?thesis using assms(2) by (cases "devs (dt s) d") auto
qed

lemma class_set_switched: "class_set name en D s \<Longrightarrow> switched en s t \<Longrightarrow> class_set name en D t"
  unfolding class_set_def by (fastforce simp: device_has_class_def dest!: switched_back)

lemma class_set_append:
  "class_set name en (set (ys @ [x])) t \<longleftrightarrow> class_set name en (set ys) t \<and> class_set name en {x} t"
  by (auto simp: class_set_def)

definition class_body :: "string \<Rightarrow> bool \<Rightarrow> nat \<Rightarrow> unit option km" where
  "class_body name en d = bindM (device_at d) (\<lambda>dev.
       if device_has_class dev name \<and> enabled dev \<noteq> en
       then bindM (gets (\<lambda>s. Suc (length (concat (buckets (dt s)))))) (\<lambda>n.
         thenM (enable_up n irq_tables (Some d) en) (ret (None :: unit option)))
       else ret None)"

lemma wlp_class_body:
  "wlp (class_body name en d) (\<lambda>r t. r = None \<and> switched en s t \<and> class_set name en {d} t) s"
proof -
  have "wlp (enable_up (Suc n) irq_tables (Some d) en) (\<lambda>_ t. switched en s t \<and> class_set name en {d} t) s" for n
    by (rule wlp_mono [OF wlp_enable_up_dev]) (auto simp: class_set_def)
  then show ?thesis
    by (auto simp: class_body_def wp_simps switched_refl class_set_def simp del: enable_up.simps)
qed

lemma wlp_dt_enable_class:
  assumes "table_ok s"
  shows "wlp (dt_enable_class irq_tables name en)
    (\<lambda>_ t. switched en s t \<and> class_set name en (set (concat (buckets (dt s)))) t) s"
proof -
  have k: "keeps_table (class_body name en)"
    unfolding keeps_table_def by (intro allI wlp_mono [OF wlp_class_body]) (simp add: switched_def)
  have "wlp (first_of (concat (buckets (dt s))) (class_body name en))
    (\<lambda>_ t. switched en s t \<and> class_set name en (set (concat (buckets (dt s)))) t) s"
  proof (rule wlp_first_of [where I = "\<lambda>ys t. switched en s t \<and> class_set name en (set ys) t"])
    fix ys x zs t
    assume t: "switched en s t \<and> class_set name en (set ys) t"
    show "wlp (class_body name en x) (\<lambda>r u. r = None \<and> switched en s u \<and> class_set name en (set (ys @ [x])) u) t"
      by (rule wlp_mono [OF wlp_class_body])
        (use t in \<open>auto simp: class_set_append intro: switched_trans class_set_switched simp del: set_append\<close>)
  qed (simp add: switched_refl class_set_def)
  then show ?thesis
    using device_for_each_eq [OF k assms]
    by (simp add: dt_enable_class_def class_body_def [abs_def] wlp_thenM wlp_ret) (simp add: wlp_def)
qed
end
