(* ===== verification/Cloak_Entry.thy ===== *)
theory Cloak_Entry
  imports Dt_Class Gpio_Keys
begin

text \<open>
  core/arch/arm/secloak/entry.c: the calls of the normal world that set and read the SeCloak settings.
  A set request is shown on the secure screen, the user confirms or denies it with a button, and
  on confirmation the classes of devices are switched. Also \<open>main_fiq\<close> of plat-imx/main.c, the
  interrupt entry that runs while the code waits for the user. The pixel data of the images are
  generated files; they are the argument \<open>pix\<close>, by the name of the array.
\<close>

abbreviation (input) OPTEE_SMC_CLOAK_SET :: u32 where "OPTEE_SMC_CLOAK_SET \<equiv> 0x32000063"
abbreviation (input) OPTEE_SMC_CLOAK_GET :: u32 where "OPTEE_SMC_CLOAK_GET \<equiv> 0x32000064"
abbreviation (input) OPTEE_SMC_RETURN_OK :: u32 where "OPTEE_SMC_RETURN_OK \<equiv> 0"
abbreviation (input) OPTEE_SMC_RETURN_EBUSY :: u32 where "OPTEE_SMC_RETURN_EBUSY \<equiv> 2"
abbreviation (input) OPTEE_SMC_RETURN_EBADCMD :: u32 where "OPTEE_SMC_RETURN_EBADCMD \<equiv> 5"

abbreviation (input) CLOAK_CONFIRM_NONE :: nat where "CLOAK_CONFIRM_NONE \<equiv> 0"
abbreviation (input) CLOAK_CONFIRM_ALLOW :: nat where "CLOAK_CONFIRM_ALLOW \<equiv> 1"
abbreviation (input) CLOAK_CONFIRM_DENY :: nat where "CLOAK_CONFIRM_DENY \<equiv> 2"

section \<open>The display tables\<close>

definition img :: "(string \<Rightarrow> u8 list) \<Rightarrow> string \<Rightarrow> u32 \<Rightarrow> u32 \<Rightarrow> image" where
  "img pix name w h = \<lparr>img_width = w, img_height = h, img_buffer = pix name\<rparr>"

definition blit_at :: "u32 \<Rightarrow> u32 \<Rightarrow> image \<Rightarrow> blit" where
  "blit_at x y im = \<lparr>bx = x, by' = y, bimage = im\<rparr>"

definition display_static :: "(string \<Rightarrow> u8 list) \<Rightarrow> blit list" where
  "display_static pix =
    [blit_at 0 0 (img pix ''header_rotated'' 128 800),
     blit_at 148 0 (img pix ''bluerect_rotated'' 64 800),
     blit_at 1051 80 (img pix ''footer_rotated'' 128 640),
     blit_at 230 608 (img pix ''group_networking_rotated'' 64 192),
     blit_at 502 608 (img pix ''group_multimedia_rotated'' 64 192),
     blit_at 776 608 (img pix ''group_sensor_rotated'' 64 192),
     blit_at 148 593 (img pix ''mode_none_rotated'' 64 96),
     blit_at 148 402 (img pix ''mode_airplane_rotated'' 64 128),
     blit_at 148 272 (img pix ''mode_movie_rotated'' 64 96),
     blit_at 148 113 (img pix ''mode_stealth_rotated'' 64 96),
     blit_at 358 192 (img pix ''bt_rotated'' 64 416),
     blit_at 566 192 (img pix ''camera_rotated'' 64 416),
     blit_at 422 192 (img pix ''cellular_rotated'' 64 416),
     blit_at 840 192 (img pix ''gps_rotated'' 64 416),
     blit_at 694 192 (img pix ''mic_rotated'' 64 416),
     blit_at 904 192 (img pix ''sensor_rotated'' 64 416),
     blit_at 630 192 (img pix ''speaker_rotated'' 64 416),
     blit_at 294 192 (img pix ''wifi_rotated'' 64 416)]"

definition display_switches_white :: "(string \<Rightarrow> u8 list) \<Rightarrow> image list" where
  "display_switches_white pix = [img pix ''switch_dis_off_w_rotated'' 64 192,
     img pix ''switch_dis_on_w_rotated'' 64 192, img pix ''switch_en_off_w_rotated'' 64 192,
     img pix ''switch_en_on_w_rotated'' 64 192]"

definition display_switches_blue :: "(string \<Rightarrow> u8 list) \<Rightarrow> image list" where
  "display_switches_blue pix = [img pix ''switch_dis_off_rotated'' 64 192,
     img pix ''switch_dis_on_rotated'' 64 192, img pix ''switch_en_off_rotated'' 64 192,
     img pix ''switch_en_on_rotated'' 64 192]"

definition display_icons_wifi :: "(string \<Rightarrow> u8 list) \<Rightarrow> image list" where
  "display_icons_wifi pix = [img pix ''icon_nowifi_rotated'' 64 192, img pix ''icon_wifi_rotated'' 64 192]"

definition display_icons_bt :: "(string \<Rightarrow> u8 list) \<Rightarrow> image list" where
  "display_icons_bt pix = [img pix ''icon_nobt_rotated'' 64 192, img pix ''icon_bt_rotated'' 64 192]"

definition display_icons_camera :: "(string \<Rightarrow> u8 list) \<Rightarrow> image list" where
  "display_icons_camera pix = [img pix ''icon_nocamera_rotated'' 64 192,
     img pix ''icon_camera_rotated'' 64 192]"

definition display_icons_cellular :: "(string \<Rightarrow> u8 list) \<Rightarrow> image list" where
  "display_icons_cellular pix = [img pix ''icon_nocellular_rotated'' 64 192,
     img pix ''icon_cellular_rotated'' 64 192]"

definition display_icons_speaker :: "(string \<Rightarrow> u8 list) \<Rightarrow> image list" where
  "display_icons_speaker pix = [img pix ''icon_nospeaker_rotated'' 64 192,
     img pix ''icon_speaker_rotated'' 64 192]"

definition display_icons_mic :: "(string \<Rightarrow> u8 list) \<Rightarrow> image list" where
  "display_icons_mic pix = [img pix ''icon_nomic_rotated'' 64 192, img pix ''icon_mic_rotated'' 64 192]"

definition display_icons_gps :: "(string \<Rightarrow> u8 list) \<Rightarrow> image list" where
  "display_icons_gps pix = [img pix ''icon_nogps_rotated'' 64 192, img pix ''icon_gps_rotated'' 64 192]"

definition display_icons_sensor :: "(string \<Rightarrow> u8 list) \<Rightarrow> image list" where
  "display_icons_sensor pix = [img pix ''icon_nosensor_rotated'' 64 192,
     img pix ''icon_sensor_rotated'' 64 192]"

definition display_group_on :: "(string \<Rightarrow> u8 list) \<Rightarrow> image list" where
  "display_group_on pix = [img pix ''group_dis_on_rotated'' 64 64, img pix ''group_en_on_rotated'' 64 64]"

definition display_group_off :: "(string \<Rightarrow> u8 list) \<Rightarrow> image list" where
  "display_group_off pix = [img pix ''group_dis_off_rotated'' 64 64, img pix ''group_en_off_rotated'' 64 64]"

definition display_group_custom :: "(string \<Rightarrow> u8 list) \<Rightarrow> image list" where
  "display_group_custom pix = [img pix ''group_dis_custom_rotated'' 64 128,
     img pix ''group_en_custom_rotated'' 64 128]"

definition display_group_radio :: "(string \<Rightarrow> u8 list) \<Rightarrow> image list" where
  "display_group_radio pix = [img pix ''group_dis_deselect_rotated'' 64 32,
     img pix ''group_dis_select_rotated'' 64 32, img pix ''group_en_deselect_rotated'' 64 32,
     img pix ''group_en_select_rotated'' 64 32]"

definition display_mode :: "(string \<Rightarrow> u8 list) \<Rightarrow> image list" where
  "display_mode pix = [img pix ''mode_deselect_rotated'' 64 32, img pix ''mode_select_rotated'' 64 32]"

section \<open>Drawing the request\<close>

definition cloak_blit_device :: "fb_info \<Rightarrow> u32 \<Rightarrow> u32 \<Rightarrow> image list \<Rightarrow> image list \<Rightarrow> bool km" where
  "cloak_blit_device info bits x switches icons =
     (let allow = (bits AND 0x2 \<noteq> 0) in
      bindM (index_at switches (unat bits)) (\<lambda>sw.
      thenM (fb_blit_image info x 0 sw) (
      bindM (index_at icons 1) (\<lambda>ic.
      thenM (fb_blit_image info x 608 ic) (ret allow)))))"

definition cloak_is_group_enabled :: "u32 \<Rightarrow> bool km" where
  "cloak_is_group_enabled g =
     (if g = 0 \<or> g = 4 then ret False
      else if g = 1 \<or> g = 7 \<or> g = 5 then ret True
      else panic)"

definition cloak_blit_group :: "(string \<Rightarrow> u8 list) \<Rightarrow> fb_info \<Rightarrow> u32 \<Rightarrow> u32 \<Rightarrow> unit km" where
  "cloak_blit_group pix info bits x =
     bindM (cloak_is_group_enabled bits) (\<lambda>en.
     let pick = (\<lambda>tbl y. bindM (index_at tbl (if en then 1 else 0)) (fb_blit_image info x y));
         radio = (\<lambda>on y. bindM (index_at (display_group_radio pix) ((if en then 2 else 0) + (if on then 1 else 0)))
           (fb_blit_image info x y));
         is_on = (bits = 7); is_off = (bits = 0 \<or> bits = 1); is_custom = (bits = 4 \<or> bits = 5) in
     thenM (pick (display_group_on pix) 507) (
     thenM (pick (display_group_off pix) 348) (
     thenM (pick (display_group_custom pix) 123) (
     thenM (radio is_on 573) (
     thenM (radio is_off 414) (
     radio is_custom 253))))))"

section \<open>The confirmation\<close>

definition cloak_button_press_handler :: "u32 \<Rightarrow> bool km" where
  "cloak_button_press_handler c =
     thenM (if c = KEY_HOMEPAGE then modifyM (\<lambda>s. s\<lparr>cloak := (cloak s)\<lparr>cloak_confirm_status := CLOAK_CONFIRM_ALLOW\<rparr>\<rparr>)
       else if c = KEY_BACK then modifyM (\<lambda>s. s\<lparr>cloak := (cloak s)\<lparr>cloak_confirm_status := CLOAK_CONFIRM_DENY\<rparr>\<rparr>)
       else ret ()) (ret True)"

fun on_press :: press_fn where
  "on_press CLOAK_BUTTON_HANDLER = cloak_button_press_handler"
| "on_press SECPWR_BUTTON_HANDLER = secpwr_button_press_handler"

text \<open>The function pointers of registered handlers. A port's handler dispatches to the handlers of
  the port's own pins, which are key handlers: two levels are all there are.\<close>

fun call_handler :: "nat \<Rightarrow> irq_handler \<Rightarrow> irq_return km" where
  "call_handler 0 h = throw Hang"
| "call_handler (Suc n) h = (case h_handle h of
     MX3_GPIO_IRQ_HANDLER \<Rightarrow> mx3_gpio_irq_handler irq_tables (call_handler n) h
   | MX2_GPIO_IRQ_HANDLER \<Rightarrow> mx2_gpio_irq_handler irq_tables (call_handler n)
   | GPIO_KEYS_HANDLER \<Rightarrow> gpio_keys_handler on_press h)"

definition main_fiq :: "unit km" where
  "main_fiq = gic_it_handle irq_tables (call_handler 2)"

text \<open>The busy wait for the user. Between two tests of the flag an interrupt may arrive: the device
  registers change (an element of \<open>evs\<close> is that change) and \<open>main_fiq\<close> runs. When no more
  interrupts come the wait does not end.\<close>

fun wait_confirm :: "((u32 \<Rightarrow> u32) \<Rightarrow> u32 \<Rightarrow> u32) list \<Rightarrow> nat km" where
  "wait_confirm [] =
     bindM (gets (\<lambda>s. cloak_confirm_status (cloak s))) (\<lambda>st.
     if st \<noteq> CLOAK_CONFIRM_NONE then ret st else throw Hang)"
| "wait_confirm (e # es) =
     bindM (gets (\<lambda>s. cloak_confirm_status (cloak s))) (\<lambda>st.
     if st \<noteq> CLOAK_CONFIRM_NONE then ret st
     else thenM (modifyM (\<lambda>s. io_upd (e (io (mach s))) s)) (thenM main_fiq (wait_confirm es)))"

section \<open>The calls\<close>

definition lock_put :: "u32 \<Rightarrow> kernel \<Rightarrow> kernel" where
  "lock_put v s = s\<lparr>cloak := (cloak s)\<lparr>cloak_lock := v\<rparr>\<rparr>"

definition cloak_trylock :: "bool km" where
  "cloak_trylock = cpu_spin_trylock (\<lambda>s. cloak_lock (cloak s)) lock_put"

definition cloak_unlock :: "unit km" where
  "cloak_unlock = cpu_spin_unlock lock_put"

definition cloak_draw :: "(string \<Rightarrow> u8 list) \<Rightarrow> fb_info \<Rightarrow> u32 \<Rightarrow> (string \<times> bool) list km" where
  "cloak_draw pix info a =
     (let bits = (\<lambda>sh. drop_bit sh a AND 0x3); grp = (\<lambda>sh. drop_bit sh a AND 0x7);
          blue = display_switches_blue pix; white = display_switches_white pix; mode = a AND 0x3;
          mark = (\<lambda>y m. bindM (index_at (display_mode pix) (if mode = m then 1 else 0)) (fb_blit_image info 148 y)) in
      thenM (fb_blit_all info (display_static pix)) (
      bindM (cloak_blit_device info (bits 5) 294 blue (display_icons_wifi pix)) (\<lambda>wifi.
      bindM (cloak_blit_device info (bits 7) 358 white (display_icons_bt pix)) (\<lambda>bt.
      bindM (cloak_blit_device info (bits 9) 422 blue (display_icons_cellular pix)) (\<lambda>cellular.
      bindM (cloak_blit_device info (bits 14) 566 blue (display_icons_camera pix)) (\<lambda>camera.
      bindM (cloak_blit_device info (bits 16) 630 white (display_icons_speaker pix)) (\<lambda>speaker.
      bindM (cloak_blit_device info (bits 18) 694 blue (display_icons_mic pix)) (\<lambda>mic.
      bindM (cloak_blit_device info (bits 23) 840 blue (display_icons_gps pix)) (\<lambda>gps.
      bindM (cloak_blit_device info (bits 25) 904 white (display_icons_sensor pix)) (\<lambda>inertial.
      thenM (cloak_blit_group pix info (grp 2) 230) (
      thenM (cloak_blit_group pix info (grp 11) 502) (
      thenM (cloak_blit_group pix info (grp 20) 776) (
      thenM (mark 693 0) (thenM (mark 534 1) (thenM (mark 372 2) (thenM (mark 213 3) (
      ret [(''wifi'', wifi), (''bluetooth'', bt), (''cellular'', cellular), (''camera'', camera),
           (''audio-out'', speaker), (''audio-in'', mic), (''gps'', gps), (''inertial'', inertial)])))))))))))))))))"

definition cloak_apply :: "(string \<times> bool) list \<Rightarrow> unit km" where
  "cloak_apply cs =
     thenM (forM cs (\<lambda>c. dt_enable_class irq_tables (fst c) True))
       (forM cs (\<lambda>c. whenM (\<not> snd c) (dt_enable_class irq_tables (fst c) False)))"

definition cloak_entry_set ::
    "(string \<Rightarrow> u8 list) \<Rightarrow> ((u32 \<Rightarrow> u32) \<Rightarrow> u32 \<Rightarrow> u32) list \<Rightarrow> thread_smc_args \<Rightarrow> thread_smc_args km" where
  "cloak_entry_set pix evs args =
     bindM cloak_trylock (\<lambda>ok.
     if \<not> ok then thenM cloak_unlock (ret (args\<lparr>a0 := OPTEE_SMC_RETURN_EBUSY\<rparr>))
     else bindM (fb_acquire 0xFF 0xFF 0xFF) (\<lambda>info.
       bindM (gpio_keys_acquire CLOAK_BUTTON_HANDLER) (\<lambda>ok.
       if \<not> ok then thenM (fb_release info) (thenM cloak_unlock (ret (args\<lparr>a0 := OPTEE_SMC_RETURN_EBADCMD\<rparr>)))
       else
         bindM (cloak_draw pix info (a1 args)) (\<lambda>cs.
         thenM (modifyM (\<lambda>s. s\<lparr>cloak := (cloak s)\<lparr>cloak_confirm_status := CLOAK_CONFIRM_NONE\<rparr>\<rparr>)) (
         bindM (wait_confirm evs) (\<lambda>st.
         thenM (if st = CLOAK_CONFIRM_ALLOW then
             thenM (cloak_apply cs) (
             thenM (modifyM (\<lambda>s. s\<lparr>cloak := (cloak s)\<lparr>cloak_prev_settings := a1 args\<rparr>\<rparr>))
               (fb_clear info 0x00 0xFF 0x00))
           else fb_clear info 0xFF 0x00 0x00) (
         thenM (gpio_keys_release CLOAK_BUTTON_HANDLER) (
         thenM (fb_release info) (
         thenM cloak_unlock (ret (args\<lparr>a0 := OPTEE_SMC_RETURN_OK\<rparr>)))))))))))"

definition cloak_entry_get :: "thread_smc_args \<Rightarrow> thread_smc_args km" where
  "cloak_entry_get args =
     bindM cloak_trylock (\<lambda>ok.
     if \<not> ok then thenM cloak_unlock (ret (args\<lparr>a0 := OPTEE_SMC_RETURN_EBUSY\<rparr>))
     else bindM (gets (\<lambda>s. cloak_prev_settings (cloak s))) (\<lambda>v.
       thenM cloak_unlock (ret (args\<lparr>a1 := v, a0 := OPTEE_SMC_RETURN_OK\<rparr>))))"

definition cloak_entry ::
    "(string \<Rightarrow> u8 list) \<Rightarrow> ((u32 \<Rightarrow> u32) \<Rightarrow> u32 \<Rightarrow> u32) list \<Rightarrow> thread_smc_args \<Rightarrow> thread_smc_args km" where
  "cloak_entry pix evs args =
     (if a0 args = OPTEE_SMC_CLOAK_SET then cloak_entry_set pix evs args
      else if a1 args = OPTEE_SMC_CLOAK_GET then cloak_entry_get args
      else ret (args\<lparr>a0 := OPTEE_SMC_RETURN_EBADCMD\<rparr>))"

section \<open>What the call leaves alone\<close>

definition settings :: "kernel \<Rightarrow> dt_vars \<times> u32" where
  "settings s = (dt s, cloak_prev_settings (cloak s))"

interpretation set_part: outer_part settings
  by unfold_locales (simp_all add: settings_def)

interpretation cloak_part: outer_part cloak
  by unfold_locales simp_all

lemma keeps_press: "keeps settings (on_press b c)"
  by (cases b) (auto simp: cloak_button_press_handler_def settings_def intro!: keeps_intros keeps_modifyM)

lemma keeps_call: "keeps settings (call_handler n h)"
proof (induction n arbitrary: h)
  case (Suc n)
  then show ?case
    by (auto intro: set_part.keeps_port_handler set_part.keeps_keys_handler keeps_press split: irq_handle_fn.split)
qed (simp add: keeps_pure)

lemma keeps_wait: "keeps settings (wait_confirm evs)"
proof (induction evs)
  case (Cons e es)
  have "keeps settings (modifyM (\<lambda>s. io_upd (e (io (mach s))) s))"
    by (rule keeps_modifyM) (simp add: settings_def)
  then show ?case unfolding wait_confirm.simps main_fiq_def
    by (intro keeps_bindM keeps_thenM keeps_if keeps_pure set_part.keeps_gic_handle keeps_call Cons)
qed (auto intro!: keeps_intros)

lemma keeps_lock: "keeps settings cloak_trylock" "keeps settings cloak_unlock"
  by (auto simp: cloak_trylock_def cloak_unlock_def cpu_spin_trylock_def cpu_spin_unlock_def lock_put_def settings_def
    intro!: keeps_intros keeps_modifyM)

lemma keeps_blit_device: "keeps settings (cloak_blit_device info bits x sw ic)" "keeps settings (cloak_blit_group pix info bits x)"
  by (auto simp: cloak_blit_device_def cloak_blit_group_def cloak_is_group_enabled_def Let_def intro!: keeps_intros)

lemma keeps_cloak_draw: "keeps settings (cloak_draw pix info a)"
  unfolding cloak_draw_def Let_def by (intro keeps_intros keeps_blit_device)

section \<open>The classes of a request\<close>

definition cloak_classes :: "u32 \<Rightarrow> (string \<times> bool) list" where
  "cloak_classes a = [(''wifi'', bit a 6), (''bluetooth'', bit a 8), (''cellular'', bit a 10), (''camera'', bit a 15),
     (''audio-out'', bit a 17), (''audio-in'', bit a 19), (''gps'', bit a 24), (''inertial'', bit a 26)]"

lemma allow_bit: "(drop_bit sh a AND 3) AND 2 \<noteq> (0 :: u32) \<longleftrightarrow> bit a (Suc sh)"
proof -
  have "(drop_bit sh a AND 3) AND 2 = drop_bit sh a AND bit32 1"
    by (simp add: bit32_def and.assoc)
  then show ?thesis by (simp add: and_bit32_eq_0_iff bit_drop_bit_eq)
qed

lemma wlp_blit_device: "wlp (cloak_blit_device info (drop_bit sh a AND 3) x sw ic) (\<lambda>r _. r = bit a (Suc sh)) s"
proof -
  have "wlp p (\<lambda>_ _. True) t" for p :: "unit km" and t by (simp add: wlp_iff)
  then show ?thesis
    unfolding cloak_blit_device_def Let_def allow_bit by (auto simp: wp_simps)
qed

lemma wlp_then_any: "(\<And>t. wlp q Q t) \<Longrightarrow> wlp (thenM p q) Q s"
  by (simp add: wlp_thenM) (simp add: wlp_iff)

lemma wlp_bind_const: "wlp p (\<lambda>r _. r = c) s \<Longrightarrow> (\<And>t. wlp (q c) Q t) \<Longrightarrow> wlp (bindM p q) Q s"
  unfolding wlp_bindM by (erule wlp_mono) simp

lemma wlp_cloak_draw: "wlp (cloak_draw pix info a) (\<lambda>cs _. cs = cloak_classes a) s"
  unfolding cloak_draw_def Let_def
  by (intro wlp_then_any wlp_bind_const [OF wlp_blit_device]) (simp add: wlp_ret cloak_classes_def)

section \<open>Applying a request\<close>

lemma switched_dev_node:
  assumes "switched en s t" "devs (dt s) d = Some dev"
  shows "\<exists>dev'. devs (dt t) d = Some dev' \<and> node dev' = node dev"
  using switched_dev [OF assms] switched_back [OF assms(1)] assms(2) by fastforce

lemma table_ok_switched: "table_ok s \<Longrightarrow> switched en s t \<Longrightarrow> table_ok t"
proof -
  assume ok: "table_ok s" and sw: "switched en s t"
  have b: "buckets (dt t) = buckets (dt s)" using sw by (simp add: switched_def)
  show "table_ok t" unfolding table_ok_def b
    using ok switched_dev_node [OF sw] unfolding table_ok_def by (intro conjI allI impI ballI) (blast | metis)+
qed

definition table :: "kernel \<Rightarrow> nat set" where
  "table s = set (concat (buckets (dt s)))"

lemma wlp_cloak_apply:
  assumes "table_ok s"
  shows "wlp (cloak_apply cs) (\<lambda>_ t. buckets (dt t) = buckets (dt s)
    \<and> (\<forall>c \<in> set cs. \<not> snd c \<longrightarrow> class_set (fst c) False (table s) t)) s"
proof -
  let ?I = "\<lambda>t. table_ok t \<and> buckets (dt t) = buckets (dt s)"
  have step: "wlp (dt_enable_class irq_tables name en) (\<lambda>_ u. ?I u \<and> switched en t u \<and> class_set name en (table s) u) t"
    if "?I t" for name en t
    by (rule wlp_mono [OF wlp_dt_enable_class]) (use that table_ok_switched in \<open>auto simp: table_def switched_def\<close>)
  have "wlp (forM cs (\<lambda>c. dt_enable_class irq_tables (fst c) True)) (\<lambda>_. ?I) s"
    by (rule wlp_forM_inv) (use assms in \<open>auto intro: wlp_mono [OF step]\<close>)
  moreover have "wlp (forM cs (\<lambda>c. whenM (\<not> snd c) (dt_enable_class irq_tables (fst c) False)))
      (\<lambda>_ u. ?I u \<and> (\<forall>c \<in> set cs. \<not> snd c \<longrightarrow> class_set (fst c) False (table s) u)) t" if "?I t" for t
  proof (rule wlp_forM [where I = "\<lambda>ys u. ?I u \<and> (\<forall>c \<in> set ys. \<not> snd c \<longrightarrow> class_set (fst c) False (table s) u)"])
    fix ys c zs u
    assume u: "?I u \<and> (\<forall>c \<in> set ys. \<not> snd c \<longrightarrow> class_set (fst c) False (table s) u)"
    show "wlp (whenM (\<not> snd c) (dt_enable_class irq_tables (fst c) False))
      (\<lambda>_ u. ?I u \<and> (\<forall>c \<in> set (ys @ [c]). \<not> snd c \<longrightarrow> class_set (fst c) False (table s) u)) u"
      unfolding wlp_whenM using u by (auto intro!: wlp_mono [OF step] dest: class_set_switched)
  qed (use that in simp)
  ultimately show ?thesis unfolding cloak_apply_def
    by (intro wlp_mono [OF wlp_then_rule]) blast+
qed

section \<open>Properties\<close>

lemma keep_bind:
  "keeps settings p \<Longrightarrow> settings t = v \<Longrightarrow> (\<And>x u. settings u = v \<Longrightarrow> wlp (q x) Q u) \<Longrightarrow> wlp (bindM p q) Q t"
  by (rule wlp_bind_rule [OF keeps_wlp]) auto

lemma keep_then:
  "keeps settings p \<Longrightarrow> settings t = v \<Longrightarrow> (\<And>u. settings u = v \<Longrightarrow> wlp q Q u) \<Longrightarrow> wlp (thenM p q) Q t"
  by (rule wlp_then_rule [OF keeps_wlp]) auto

definition denied_off :: "u32 \<Rightarrow> kernel \<Rightarrow> kernel \<Rightarrow> bool" where
  "denied_off a s t \<longleftrightarrow> (\<forall>name. (name, False) \<in> set (cloak_classes a) \<longrightarrow> class_set name False (table s) t)"

text \<open>The outcome of a set request, relative to the state at its start.\<close>

definition cloak_post :: "thread_smc_args \<Rightarrow> kernel \<Rightarrow> thread_smc_args \<Rightarrow> kernel \<Rightarrow> bool" where
  "cloak_post args s r t \<longleftrightarrow> settings t = settings s
    \<or> a0 r = 0 \<and> cloak_prev_settings (cloak t) = a1 args \<and> buckets (dt t) = buckets (dt s) \<and> denied_off (a1 args) s t"

lemma cloak_post_cong: "cloak_post args s r t \<Longrightarrow> settings u = settings t \<Longrightarrow> cloak_post args s r u"
  by (auto simp: cloak_post_def settings_def denied_off_def class_set_def)

lemma cloak_post_same: "settings t = settings s \<Longrightarrow> cloak_post args s r t"
  by (simp add: cloak_post_def)

lemma cloak_tail:
  assumes "cloak_post args s r t"
  shows "wlp (thenM (gpio_keys_release CLOAK_BUTTON_HANDLER) (thenM (fb_release info) (thenM cloak_unlock (ret r))))
    (cloak_post args s) t"
  by (rule keep_then [OF _ refl] keep_then keeps_intros keeps_lock | assumption)+
    (use cloak_post_cong [OF assms] in \<open>simp add: wlp_ret\<close>)

lemma cloak_allow:
  assumes "table_ok s" "settings t = settings s"
  shows "wlp (thenM (cloak_apply (cloak_classes (a1 args))) (thenM (modifyM (\<lambda>s. s\<lparr>cloak := (cloak s)\<lparr>cloak_prev_settings := a1 args\<rparr>\<rparr>))
       (fb_clear info r g b))) (\<lambda>_. cloak_post args s (args\<lparr>a0 := 0\<rparr>)) t"
proof -
  have t: "table_ok t" "table t = table s" "buckets (dt t) = buckets (dt s)"
    using assms by (simp_all add: settings_def table_ok_def table_def)
  show ?thesis
    by (rule wlp_then_rule [OF wlp_cloak_apply [OF t(1)]], unfold wlp_thenM wlp_modifyM)
      (rule wlp_mono [OF keeps_wlp [OF set_part.keeps_draw(1)]],
       use t in \<open>auto simp: cloak_post_def settings_def denied_off_def class_set_def\<close>)
qed

lemma cloak_finish:
  assumes "table_ok s" "settings t = settings s"
  shows "wlp (thenM (if c then thenM (cloak_apply (cloak_classes (a1 args))) (thenM (modifyM (\<lambda>s. s\<lparr>cloak := (cloak s)
        \<lparr>cloak_prev_settings := a1 args\<rparr>\<rparr>)) (fb_clear info 0 0xFF 0)) else fb_clear info 0xFF 0 0)
      (thenM (gpio_keys_release CLOAK_BUTTON_HANDLER) (thenM (fb_release info) (thenM cloak_unlock (ret (args\<lparr>a0 := 0\<rparr>))))))
    (cloak_post args s) t"
proof (rule wlp_then_rule [OF _ cloak_tail], cases c)
  case False
  then show "wlp (if c then thenM (cloak_apply (cloak_classes (a1 args))) (thenM (modifyM (\<lambda>s. s\<lparr>cloak := (cloak s)
      \<lparr>cloak_prev_settings := a1 args\<rparr>\<rparr>)) (fb_clear info 0 0xFF 0)) else fb_clear info 0xFF 0 0)
    (\<lambda>_. cloak_post args s (args\<lparr>a0 := 0\<rparr>)) t"
    using assms(2) by (auto intro!: wlp_mono [OF keeps_wlp [OF set_part.keeps_draw(1)]] cloak_post_same)
qed (use cloak_allow [OF assms] in simp_all)

text \<open>C1: A set request changes devices only after the user has allowed it, and then as shown: when
  the call returns, either no device and no saved setting has changed, or the call succeeded, the
  saved settings are the requested ones, and every device in the table that belongs to a class the
  request denies is disabled.\<close>

theorem cloak_set_denies:
  assumes ok: "table_ok s"
  shows "wlp (cloak_entry_set pix evs args) (\<lambda>r t.
      dt t = dt s \<and> cloak_prev_settings (cloak t) = cloak_prev_settings (cloak s)
    \<or> a0 r = OPTEE_SMC_RETURN_OK \<and> cloak_prev_settings (cloak t) = a1 args \<and> buckets (dt t) = buckets (dt s)
      \<and> (\<forall>d \<in> set (concat (buckets (dt s))). \<forall>dev name. devs (dt t) d = Some dev \<longrightarrow> name \<in> set (classes dev)
          \<longrightarrow> (name, False) \<in> set (cloak_classes (a1 args)) \<longrightarrow> \<not> enabled dev)) s"
proof -
  let ?Q = "cloak_post args s"
  have draw: "wlp (bindM (cloak_draw pix info (a1 args)) q) ?Q t"
    if "settings t = settings s" "\<And>u. settings u = settings s \<Longrightarrow> wlp (q (cloak_classes (a1 args))) ?Q u" for info q t
    by (rule wlp_bind_rule [OF wlp_conj [OF wlp_cloak_draw keeps_wlp [OF keeps_cloak_draw]]]) (use that in auto)
  have busy: "wlp (thenM cloak_unlock (ret r)) ?Q t" if "settings t = settings s" for r t
    by (rule keep_then [OF keeps_lock(2) that]) (simp add: wlp_ret cloak_post_same)
  have reset: "keeps settings (modifyM (\<lambda>s. s\<lparr>cloak := (cloak s)\<lparr>cloak_confirm_status := 0\<rparr>\<rparr>))"
    by (rule keeps_modifyM) (simp add: settings_def)
  have "wlp (cloak_entry_set pix evs args) ?Q s"
    unfolding cloak_entry_set_def
    by (rule keep_bind [OF keeps_lock(1) refl] wlp_if_rule busy keep_bind [OF set_part.keeps_display(1)]
        keep_bind [OF set_part.keeps_acquire_keys(1)] keep_then [OF set_part.keeps_display(2)] draw
        keep_then [OF reset] keep_bind [OF keeps_wait] cloak_finish [OF ok] | assumption)+
  then show ?thesis
    by (rule wlp_mono)
      (auto simp: cloak_post_def settings_def denied_off_def class_set_def table_def device_has_class_def list_ex_iff)
qed

text \<open>A kernel with one button on a GPIO port whose interrupt reaches the GIC, a display of one pixel and
  a wireless device; the home button is pressed while the call waits.\<close>

definition run_example :: kernel where
  "run_example = switch_example\<lparr>
     mach := \<lparr>io = (\<lambda>_. 0), hw = plain_hw, debug = False, alloc_ok = (\<lambda>_. True), alloc_n = 0, cpsr = 0x1D3,
       core_pos = 0\<rparr>,
     irqv := \<lparr>irq_chips = [
       GIC_CHIP \<mapsto> \<lparr>chip_dev = 3, chip_ops = gic_ops, num_irqs = 100, default_handler = False,
         handlers = (replicate 100 None)[98 := Some \<lparr>h_handle = MX3_GPIO_IRQ_HANDLER, h_data = 0\<rparr>]\<rparr>,
       GPC_CHIP \<mapsto> \<lparr>chip_dev = 4, chip_ops = gic_ops, num_irqs = 100, default_handler = False, handlers = replicate 100 None\<rparr>,
       PORT_CHIP 0 \<mapsto> \<lparr>chip_dev = 5, chip_ops = gpio_irq_ops, num_irqs = 32, default_handler = True,
         handlers = replicate 32 None\<rparr>], chips = [PORT_CHIP 0, GPC_CHIP, GIC_CHIP]\<rparr>,
     gic := \<lparr>gicc_base = 0x50001000, gicd_base = 0x50000000, max_it = 100\<rparr>,
     gpio := gpio gpio_example,
     keys := \<lparr>pdata = Some \<lparr>buttons = [\<lparr>code = 172, gpio_irq = \<lparr>desc_chip = PORT_CHIP 0, desc_irq = 8\<rparr>, gpio_irq_flags = 3,
         gpio_irq_handler = \<lparr>h_handle = GPIO_KEYS_HANDLER, h_data = 0\<rparr>\<rparr>], bhandlers = []\<rparr>, secpwr = SECPWR_STATE0\<rparr>,
     fb := \<lparr>g_base_paddr = 0x02400000, g_base_vaddr = 0x61000000, g_cpmem_vaddr = 0x61300000, fbmem = (\<lambda>_. 0)\<rparr>,
     mmu := (mmu blank)\<lparr>static_memory_map := [\<lparr>mtype = MEM_AREA_IO_SEC, region_size = 0x100000, mpa = CFG_FBMEM_START, mva = 0x70000000,
       msize = 0x800000, mattr = 0\<rparr>]\<rparr>\<rparr>"

definition home_pressed :: "(u32 \<Rightarrow> u32) \<Rightarrow> u32 \<Rightarrow> u32" where
  "home_pressed m = m(0x5000100C := 98, 0x600A0018 := 0x100)"

lemma run_example_ok: "table_ok run_example"
proof -
  have "concat (replicate n []) = ([] :: nat list)" for n by (induction n) simp_all
  then have "concat ((replicate 128 [])[bucket_of 100 := [1]]) = [1 :: nat]"
    using bucket_of_less [of 100] by (simp add: upd_conv_take_nth_drop take_replicate drop_replicate)
  then show ?thesis using bucket_of_less [of 100]
    by (auto simp: table_ok_def run_example_def switch_example_def device_example_def nth_list_update split: if_splits)
qed

theorem cloak_set_denies_witness:
  "let args = \<lparr>a0 = OPTEE_SMC_CLOAK_SET, a1 = 0, a2 = 0, a3 = 0, a4 = 0, a5 = 0, a6 = 0, a7 = 0\<rparr>; s = run_example in
   wlp (cloak_entry_set (\<lambda>_. [0, 0, 0]) [home_pressed] args) (\<lambda>r t.
      dt t = dt s \<and> cloak_prev_settings (cloak t) = cloak_prev_settings (cloak s)
    \<or> a0 r = OPTEE_SMC_RETURN_OK \<and> cloak_prev_settings (cloak t) = a1 args \<and> buckets (dt t) = buckets (dt s)
      \<and> (\<forall>d \<in> set (concat (buckets (dt s))). \<forall>dev name. devs (dt t) d = Some dev \<longrightarrow> name \<in> set (classes dev)
          \<longrightarrow> (name, False) \<in> set (cloak_classes (a1 args)) \<longrightarrow> \<not> enabled dev)) s"
  unfolding Let_def by (rule cloak_set_denies [OF run_example_ok])

text \<open>A request with an undefined group value (2, 3 or 6 in the bits of a group) stops the secure
  kernel: drawing it panics, so the normal world can halt the secure world with one call.\<close>

lemma cloak_invalid_group_panics:
  "cloak_is_group_enabled g s = (if g \<in> {0, 4} then Inr (False, s) else if g \<in> {1, 5, 7} then Inr (True, s) else Inl Panic)
   \<and> cloak_blit_group pix info 2 x s = Inl Panic \<and> cloak_blit_group pix info 3 x s = Inl Panic \<and> cloak_blit_group pix info 6 x s = Inl Panic"
  by (simp add: cloak_is_group_enabled_def cloak_blit_group_def bindM_def ret_def panic_def throw_def)



text \<open>The get call is selected by the wrong register: a call with the documented function
  identifier in \<open>a0\<close> is refused as a bad command unless \<open>a1\<close> happens to hold the identifier.\<close>

lemma cloak_get_dispatch:
  "cloak_entry pix evs (args\<lparr>a0 := OPTEE_SMC_CLOAK_GET\<rparr>) s =
    (if a1 args = OPTEE_SMC_CLOAK_GET then cloak_entry_get (args\<lparr>a0 := OPTEE_SMC_CLOAK_GET\<rparr>) s
     else Inr (args\<lparr>a0 := OPTEE_SMC_RETURN_EBADCMD\<rparr>, s))"
  by (simp add: cloak_entry_def ret_def)

end
