(* ===== verification/Mmu_V7.thy ===== *)
theory Mmu_V7
  imports Core_Mmu
begin

unbundle bit_operations_syntax

text \<open>
  core/arch/arm/mm/core\_mmu\_v7.c: the ARMv7 short-descriptor translation tables. Conversion between
  memory attributes and descriptors, the construction of the tables from the static memory map, and
  changing single entries. The tables are read and written through pointers, as in the code: a
  pointer that leads into neither table is an access out of bounds.
\<close>

section \<open>Constants\<close>

abbreviation (input) SECTION_SIZE :: u32 where "SECTION_SIZE \<equiv> 0x00100000"
abbreviation (input) SECTION_MASK :: u32 where "SECTION_MASK \<equiv> 0x000FFFFF"
abbreviation (input) SMALL_PAGE_SIZE :: u32 where "SMALL_PAGE_SIZE \<equiv> 0x1000"
abbreviation (input) SMALL_PAGE_MASK :: u32 where "SMALL_PAGE_MASK \<equiv> 0xFFF"
abbreviation (input) NUM_L1_ENTRIES :: nat where "NUM_L1_ENTRIES \<equiv> 4096"
abbreviation (input) NUM_L2_ENTRIES :: nat where "NUM_L2_ENTRIES \<equiv> 256"
abbreviation (input) MAX_XLAT_TABLES :: nat where "MAX_XLAT_TABLES \<equiv> 8"

abbreviation (input) TEE_MATTR_VALID_BLOCK :: u32 where "TEE_MATTR_VALID_BLOCK \<equiv> 0x1"
abbreviation (input) TEE_MATTR_HIDDEN_BLOCK :: u32 where "TEE_MATTR_HIDDEN_BLOCK \<equiv> 0x2"
abbreviation (input) TEE_MATTR_HIDDEN_DIRTY_BLOCK :: u32 where "TEE_MATTR_HIDDEN_DIRTY_BLOCK \<equiv> 0x4"
abbreviation (input) TEE_MATTR_TABLE :: u32 where "TEE_MATTR_TABLE \<equiv> 0x8"
abbreviation (input) TEE_MATTR_PR :: u32 where "TEE_MATTR_PR \<equiv> 0x10"
abbreviation (input) TEE_MATTR_PW :: u32 where "TEE_MATTR_PW \<equiv> 0x20"
abbreviation (input) TEE_MATTR_PX :: u32 where "TEE_MATTR_PX \<equiv> 0x40"
abbreviation (input) TEE_MATTR_UR :: u32 where "TEE_MATTR_UR \<equiv> 0x80"
abbreviation (input) TEE_MATTR_UW :: u32 where "TEE_MATTR_UW \<equiv> 0x100"
abbreviation (input) TEE_MATTR_UX :: u32 where "TEE_MATTR_UX \<equiv> 0x200"
abbreviation (input) TEE_MATTR_GLOBAL :: u32 where "TEE_MATTR_GLOBAL \<equiv> 0x400"

definition ROUNDDOWN :: "u32 \<Rightarrow> u32 \<Rightarrow> u32" where
  "ROUNDDOWN v sz = v AND NOT (sz - 1)"

definition ROUNDUP :: "u32 \<Rightarrow> u32 \<Rightarrow> u32" where
  "ROUNDUP v sz = (v + (sz - 1)) AND NOT (sz - 1)"

section \<open>Descriptors\<close>

datatype desc_type = DESC_TYPE_PAGE_TABLE | DESC_TYPE_SECTION | DESC_TYPE_SUPER_SECTION
  | DESC_TYPE_LARGE_PAGE | DESC_TYPE_SMALL_PAGE | DESC_TYPE_INVALID

definition get_desc_type :: "nat \<Rightarrow> u32 \<Rightarrow> desc_type km" where
  "get_desc_type level desc =
     thenM (cassert (level \<ge> 1 \<and> level \<le> 2)) (ret (
       if level = 1 then
         if desc AND 3 = 1 then DESC_TYPE_PAGE_TABLE
         else if desc AND 2 = 2 then
           (if desc AND 0x40000 \<noteq> 0 then DESC_TYPE_SUPER_SECTION else DESC_TYPE_SECTION)
         else DESC_TYPE_INVALID
       else
         if desc AND 3 = 1 then DESC_TYPE_LARGE_PAGE
         else if desc AND 2 = 2 then DESC_TYPE_SMALL_PAGE
         else DESC_TYPE_INVALID))"

definition texcb_to_mattr :: "u32 \<Rightarrow> u32" where
  "texcb_to_mattr texcb = push_bit 12 texcb"

definition mattr_to_texcb :: "u32 \<Rightarrow> u32" where
  "mattr_to_texcb attr = drop_bit 12 attr AND 7"

definition SECTION_TEXCB :: "u32 \<Rightarrow> u32" where
  "SECTION_TEXCB texcb = push_bit 12 (drop_bit 2 texcb) OR push_bit 3 (drop_bit 1 texcb AND 1)
     OR push_bit 2 (texcb AND 1)"

definition SMALL_PAGE_TEXCB :: "u32 \<Rightarrow> u32" where
  "SMALL_PAGE_TEXCB texcb = push_bit 6 (drop_bit 2 texcb) OR push_bit 3 (drop_bit 1 texcb AND 1)
     OR push_bit 2 (texcb AND 1)"

definition desc_to_mattr :: "nat \<Rightarrow> u32 \<Rightarrow> u32 km" where
  "desc_to_mattr level desc =
     bindM (get_desc_type level desc) (\<lambda>ty. ret (case ty of
       DESC_TYPE_PAGE_TABLE \<Rightarrow>
         TEE_MATTR_TABLE OR (if desc AND 8 = 0 then TEE_MATTR_SECURE else 0)
     | DESC_TYPE_SECTION \<Rightarrow>
         (let a = TEE_MATTR_VALID_BLOCK;
              a = (if desc AND 0x400 \<noteq> 0 then a OR (TEE_MATTR_PR OR TEE_MATTR_PX) OR (TEE_MATTR_UR OR TEE_MATTR_UX) else a);
              a = (if desc AND 0x8000 = 0 then a OR (TEE_MATTR_PW OR TEE_MATTR_UW) else a);
              a = (if desc AND 0x10 \<noteq> 0 then a AND NOT (TEE_MATTR_PX OR TEE_MATTR_UX) else a);
              a = (if desc AND 1 \<noteq> 0 then a AND NOT TEE_MATTR_PX else a);
              a = a OR texcb_to_mattr ((drop_bit 12 desc AND 7) OR (drop_bit 2 desc AND 3));
              a = (if desc AND 0x20000 = 0 then a OR TEE_MATTR_GLOBAL else a)
          in (if desc AND 0x80000 = 0 then a OR TEE_MATTR_SECURE else a))
     | DESC_TYPE_SMALL_PAGE \<Rightarrow>
         (let a = TEE_MATTR_VALID_BLOCK;
              a = (if desc AND 0x10 \<noteq> 0 then a OR (TEE_MATTR_PR OR TEE_MATTR_PX) OR (TEE_MATTR_UR OR TEE_MATTR_UX) else a);
              a = (if desc AND 0x200 = 0 then a OR (TEE_MATTR_PW OR TEE_MATTR_UW) else a);
              a = (if desc AND 1 \<noteq> 0 then a AND NOT (TEE_MATTR_PX OR TEE_MATTR_UX) else a);
              a = a OR texcb_to_mattr ((drop_bit 6 desc AND 7) OR (drop_bit 2 desc AND 3))
          in (if desc AND 0x800 = 0 then a OR TEE_MATTR_GLOBAL else a))
     | DESC_TYPE_INVALID \<Rightarrow>
         (if desc AND 4 \<noteq> 0 then TEE_MATTR_HIDDEN_BLOCK
          else if desc AND 8 \<noteq> 0 then TEE_MATTR_HIDDEN_DIRTY_BLOCK else 0)
     | _ \<Rightarrow> 0))"

text \<open>The four adjustments of the attributes before the descriptor is composed.\<close>

definition imply_access :: "u32 \<Rightarrow> u32" where
  "imply_access attr =
     (let a = (if attr AND (TEE_MATTR_PX OR TEE_MATTR_PW) \<noteq> 0 then attr OR TEE_MATTR_PR else attr);
          a = (if a AND (TEE_MATTR_UX OR TEE_MATTR_UW) \<noteq> 0 then a OR TEE_MATTR_UR else a);
          a = (if a AND TEE_MATTR_UR \<noteq> 0 then a OR TEE_MATTR_PR else a)
      in (if a AND TEE_MATTR_UW \<noteq> 0 then a OR TEE_MATTR_PW else a))"

definition section_desc :: "u32 \<Rightarrow> u32" where
  "section_desc a =
     0x2 OR 0x10000
     OR (if a AND (TEE_MATTR_PX OR TEE_MATTR_UX) = 0 then 0x10 else 0)
     OR (if a AND TEE_MATTR_UR \<noteq> 0 then 0x800 else 0)
     OR (if a AND TEE_MATTR_PW = 0 then 0x8000 else 0)
     OR (if a AND (TEE_MATTR_UR OR TEE_MATTR_PR) \<noteq> 0 then 0x400 else 0)
     OR (if a AND TEE_MATTR_GLOBAL = 0 then 0x20000 else 0)
     OR (if a AND TEE_MATTR_SECURE = 0 then 0x80000 else 0)
     OR SECTION_TEXCB (mattr_to_texcb a)"

definition small_page_desc :: "u32 \<Rightarrow> u32" where
  "small_page_desc a =
     0x2 OR 0x400
     OR (if a AND (TEE_MATTR_PX OR TEE_MATTR_UX) = 0 then 0x1 else 0)
     OR (if a AND TEE_MATTR_UR \<noteq> 0 then 0x20 else 0)
     OR (if a AND TEE_MATTR_PW = 0 then 0x200 else 0)
     OR (if a AND (TEE_MATTR_UR OR TEE_MATTR_PR) \<noteq> 0 then 0x10 else 0)
     OR (if a AND TEE_MATTR_GLOBAL = 0 then 0x800 else 0)
     OR SMALL_PAGE_TEXCB (mattr_to_texcb a)"

definition mattr_to_desc :: "nat \<Rightarrow> u32 \<Rightarrow> u32" where
  "mattr_to_desc level attr =
     (if attr AND TEE_MATTR_HIDDEN_BLOCK \<noteq> 0 then 0x4
      else if attr AND TEE_MATTR_HIDDEN_DIRTY_BLOCK \<noteq> 0 then 0x8
      else if level = 1 \<and> attr AND TEE_MATTR_TABLE \<noteq> 0 then
        0x1 OR (if attr AND TEE_MATTR_SECURE = 0 then 0x8 else 0)
      else if attr AND TEE_MATTR_VALID_BLOCK = 0 then 0
      else if level = 1 then section_desc (imply_access attr)
      else small_page_desc (imply_access attr))"

definition desc_to_pa :: "nat \<Rightarrow> u32 \<Rightarrow> paddr km" where
  "desc_to_pa level desc =
     bindM (get_desc_type level desc) (\<lambda>ty.
     let shift_mask = (case ty of DESC_TYPE_PAGE_TABLE \<Rightarrow> 10 | DESC_TYPE_SECTION \<Rightarrow> 20
       | DESC_TYPE_SUPER_SECTION \<Rightarrow> 24 | DESC_TYPE_LARGE_PAGE \<Rightarrow> 16 | DESC_TYPE_SMALL_PAGE \<Rightarrow> 12
       | DESC_TYPE_INVALID \<Rightarrow> 4) in
     ret (desc AND NOT (bit32 shift_mask - 1)))"

section \<open>Table memory\<close>

text \<open>The word \<open>p[i]\<close> of a table: the array a pointer leads into and the index there.\<close>

definition table_slot :: "mmu_vars \<Rightarrow> vaddr \<Rightarrow> nat \<Rightarrow> (bool \<times> nat) option" where
  "table_slot m p i =
     (let o1 = unat (p - l1_ttb_va m) div 4 + i; o2 = unat (p - l2_ttb_va m) div 4 + i in
      if o1 < NUM_L1_ENTRIES then Some (True, o1)
      else if o2 < MAX_XLAT_TABLES * NUM_L2_ENTRIES then Some (False, o2) else None)"

definition table_get :: "vaddr \<Rightarrow> nat \<Rightarrow> u32 km" where
  "table_get p i = bindM (gets mmu) (\<lambda>m. case table_slot m p i of
       None \<Rightarrow> throw Out_of_bounds
     | Some (l1, n) \<Rightarrow> ret (if l1 then main_mmu_l1_ttb m n else main_mmu_l2_ttb m n))"

definition table_set :: "vaddr \<Rightarrow> nat \<Rightarrow> u32 \<Rightarrow> unit km" where
  "table_set p i v = bindM (gets mmu) (\<lambda>m. case table_slot m p i of
       None \<Rightarrow> throw Out_of_bounds
     | Some (l1, n) \<Rightarrow> modifyM (\<lambda>s. s\<lparr>mmu :=
         (if l1 then (mmu s)\<lparr>main_mmu_l1_ttb := (main_mmu_l1_ttb (mmu s))(n := v)\<rparr>
          else (mmu s)\<lparr>main_mmu_l2_ttb := (main_mmu_l2_ttb (mmu s))(n := v)\<rparr>)\<rparr>))"

definition core_mmu_get_main_ttb_va :: "vaddr km" where
  "core_mmu_get_main_ttb_va = gets (\<lambda>s. l1_ttb_va (mmu s))"

definition core_mmu_get_main_ttb_pa :: "paddr km" where
  "core_mmu_get_main_ttb_pa =
     bindM core_mmu_get_main_ttb_va (\<lambda>va. bindM (virt_to_phys va) (\<lambda>pa.
     if pa AND 0x3FFF \<noteq> 0 then panic else ret pa))"

text \<open>NULL is the address 0.\<close>

definition core_mmu_alloc_l2 :: "u32 \<Rightarrow> vaddr km" where
  "core_mmu_alloc_l2 sz =
     bindM (gets (\<lambda>s. tables_used (mmu s))) (\<lambda>used.
     let to_alloc = unat (ROUNDUP sz SECTION_SIZE) div 0x100000 in
     if used + to_alloc > MAX_XLAT_TABLES then ret 0
     else thenM (modifyM (\<lambda>s. s\<lparr>mmu := (mmu s)\<lparr>
            main_mmu_l2_ttb := (\<lambda>i. if NUM_L2_ENTRIES * used \<le> i \<and> i < NUM_L2_ENTRIES * (used + to_alloc)
              then 0 else main_mmu_l2_ttb (mmu s) i),
            tables_used := used + to_alloc\<rparr>\<rparr>))
          (gets (\<lambda>s. l2_ttb_va (mmu s) + 4 * of_nat (NUM_L2_ENTRIES * used))))"

section \<open>Finding tables and single entries\<close>

record core_mmu_table_info =
  tbl_table :: vaddr
  tbl_va_base :: vaddr
  tbl_level :: nat
  tbl_shift :: nat
  tbl_num_entries :: nat

definition core_mmu_set_info_table :: "nat \<Rightarrow> vaddr \<Rightarrow> vaddr \<Rightarrow> core_mmu_table_info km" where
  "core_mmu_set_info_table level va_base table =
     thenM (cassert (level \<le> 2)) (ret
       \<lparr>tbl_table = table, tbl_va_base = va_base, tbl_level = level,
        tbl_shift = (if level = 1 then 20 else 12),
        tbl_num_entries = (if level = 1 then NUM_L1_ENTRIES else NUM_L2_ENTRIES)\<rparr>)"

text \<open>\<open>None\<close>: the function returns false. \<open>MEM_AREA_TEE_RAM_RW_DATA\<close> is \<open>MEM_AREA_TEE_RAM_RW\<close>.\<close>

definition core_mmu_find_table :: "vaddr \<Rightarrow> nat \<Rightarrow> core_mmu_table_info option km" where
  "core_mmu_find_table va max_level =
     bindM core_mmu_get_main_ttb_va (\<lambda>tbl.
     let n = unat (drop_bit 20 va) in
     bindM (table_get tbl n) (\<lambda>d.
     if max_level = 1 \<or> d AND 3 \<noteq> 1 then
       bindM (core_mmu_set_info_table 1 0 tbl) (\<lambda>i. ret (Some i))
     else bindM (phys_to_virt (d AND NOT 0x3FF) MEM_AREA_TEE_RAM_RW) (\<lambda>l2tbl.
       if l2tbl = 0 then ret None
       else bindM (core_mmu_set_info_table 2 (push_bit 20 (of_nat n)) l2tbl) (\<lambda>i. ret (Some i)))))"

definition core_mmu_set_entry_primitive :: "vaddr \<Rightarrow> nat \<Rightarrow> nat \<Rightarrow> paddr \<Rightarrow> u32 \<Rightarrow> unit km" where
  "core_mmu_set_entry_primitive table level idx pa attr =
     table_set table idx (mattr_to_desc level attr OR pa)"

definition core_mmu_get_entry_primitive :: "vaddr \<Rightarrow> nat \<Rightarrow> nat \<Rightarrow> (paddr \<times> u32) km" where
  "core_mmu_get_entry_primitive table level idx =
     bindM (table_get table idx) (\<lambda>d.
     bindM (desc_to_pa level d) (\<lambda>pa. bindM (desc_to_mattr level d) (\<lambda>attr. ret (pa, attr))))"

definition core_mmu_set_entry :: "core_mmu_table_info \<Rightarrow> nat \<Rightarrow> paddr \<Rightarrow> u32 \<Rightarrow> unit km" where
  "core_mmu_set_entry ti idx pa attr =
     thenM (cassert (idx < tbl_num_entries ti))
       (core_mmu_set_entry_primitive (tbl_table ti) (tbl_level ti) idx pa attr)"

definition core_mmu_get_entry :: "core_mmu_table_info \<Rightarrow> nat \<Rightarrow> (paddr \<times> u32) km" where
  "core_mmu_get_entry ti idx =
     thenM (cassert (idx < tbl_num_entries ti))
       (core_mmu_get_entry_primitive (tbl_table ti) (tbl_level ti) idx)"

definition core_mmu_va2idx :: "core_mmu_table_info \<Rightarrow> vaddr \<Rightarrow> nat" where
  "core_mmu_va2idx ti va = unat (drop_bit (tbl_shift ti) (va - tbl_va_base ti))"

definition core_mmu_idx2va :: "core_mmu_table_info \<Rightarrow> nat \<Rightarrow> vaddr" where
  "core_mmu_idx2va ti idx = push_bit (tbl_shift ti) (of_nat idx) + tbl_va_base ti"

definition core_mmu_get_block_offset :: "core_mmu_table_info \<Rightarrow> paddr \<Rightarrow> u32" where
  "core_mmu_get_block_offset ti pa = pa AND (bit32 (tbl_shift ti) - 1)"

definition core_mmu_is_dynamic_vaspace :: "tee_mmap_region \<Rightarrow> bool" where
  "core_mmu_is_dynamic_vaspace mm \<longleftrightarrow>
     mtype mm = MEM_AREA_RES_VASPACE \<or> mtype mm = MEM_AREA_SHM_VASPACE"

section \<open>Building the tables\<close>

text \<open>The loop over the pages of a second-level table.\<close>

definition set_pages :: "vaddr \<Rightarrow> u32 \<Rightarrow> paddr \<Rightarrow> nat \<Rightarrow> nat \<Rightarrow> unit km" where
  "set_pages l2 attr pa pg_first pg_end =
     forM [pg_first ..< pg_end] (\<lambda>pg_idx.
       let desc = (if attr \<noteq> 0 then attr OR (pa + of_nat pg_idx * SMALL_PAGE_SIZE) else attr) in
       bindM (table_get l2 pg_idx) (\<lambda>old.
       thenM (cassert (desc = 0 \<or> old = 0 \<or> old = desc))
         (table_set l2 pg_idx desc)))"

text \<open>It runs while \<open>pg_idx * SMALL_PAGE_SIZE\<close> is below the end of the area in its section.\<close>

definition map_page_memarea :: "tee_mmap_region \<Rightarrow> u32 \<Rightarrow> paddr km" where
  "map_page_memarea mm xlat =
     bindM (if xlat = 0 then core_mmu_alloc_l2 (msize mm)
            else phys_to_virt (xlat AND NOT 0x3FF) MEM_AREA_TEE_RAM_RW) (\<lambda>l2.
     thenM (cassert (l2 \<noteq> 0)) (
     let off = mva mm AND SECTION_MASK in
     thenM (set_pages l2 (mattr_to_desc 2 (mattr mm)) (mpa mm AND NOT SECTION_MASK)
       (unat off div 0x1000) ((unat (msize mm + off) + 0xFFF) div 0x1000)) (
     virt_to_phys l2)))"

text \<open>The loop \<open>while (n--)\<close> shared by the section and the page mappings.\<close>

definition set_sections :: "vaddr \<Rightarrow> nat \<Rightarrow> paddr \<Rightarrow> u32 \<Rightarrow> nat \<Rightarrow> unit km" where
  "set_sections ttb idx pa attr n =
     forM [0..<n] (\<lambda>k. let v = (pa + of_nat k * SECTION_SIZE) OR attr in
       bindM (table_get ttb (idx + k)) (\<lambda>old.
       thenM (cassert (attr = 0 \<or> old = 0 \<or> old = v)) (table_set ttb (idx + k) v)))"

definition map_page_memarea_in_pgdirs :: "tee_mmap_region \<Rightarrow> vaddr \<Rightarrow> unit km" where
  "map_page_memarea_in_pgdirs mm ttb =
     (let idx = unat (drop_bit 20 (mva mm)) in
      if msize mm = 0 then ret ()
      else bindM (if mattr mm AND TEE_MATTR_VALID_BLOCK \<noteq> 0 then
             bindM (table_get ttb idx) (\<lambda>xlat. bindM (map_page_memarea mm xlat) (\<lambda>pa.
             ret (mattr_to_desc 1 (mattr mm OR TEE_MATTR_TABLE), pa)))
           else ret (0, 0)) (\<lambda>(attr, pa).
        set_sections ttb idx pa attr (unat (drop_bit 20 (ROUNDUP (msize mm) SECTION_SIZE)))))"

definition map_memarea_sections :: "tee_mmap_region \<Rightarrow> vaddr \<Rightarrow> unit km" where
  "map_memarea_sections mm ttb =
     (let attr = mattr_to_desc 1 (mattr mm); idx = unat (drop_bit 20 (mva mm)) in
      if msize mm = 0 then ret ()
      else set_sections ttb idx (if attr \<noteq> 0 then mpa mm else 0) attr
        (unat (drop_bit 20 (ROUNDUP (msize mm) SECTION_SIZE))))"

text \<open>The part of an area of \<open>size\<close> bytes at \<open>va\<close> that lies in the section of \<open>va\<close>.\<close>

definition piece_size :: "vaddr \<Rightarrow> u32 \<Rightarrow> u32" where
  "piece_size va sz = min sz (SECTION_SIZE - (va - ROUNDDOWN va SECTION_SIZE))"

lemma round_parts: "v AND NOT (mask n) = (v :: u32) - take_bit n v"
proof -
  have "v - take_bit n v = v AND NOT (take_bit n v)"
    by (rule disjunctive_diff_eq_and_not) (auto intro!: bit_word_eqI simp: bit_simps)
  also have "\<dots> = v AND NOT (mask n)" by (auto intro!: bit_word_eqI simp: bit_simps)
  finally show ?thesis ..
qed

lemma section_offset: "va - ROUNDDOWN va SECTION_SIZE = take_bit 20 va"
  using round_parts [of va 20] by (simp add: ROUNDDOWN_def mask_eq_exp_minus_1)

lemma unat_take_bit32: "unat (take_bit n (v :: u32)) = unat v mod 2 ^ n"
  by (simp only: unsigned_take_bit_eq take_bit_eq_mod [of n "unat v"])

lemma piece_size_nat: "unat (piece_size va sz) = min (unat sz) (0x100000 - unat va mod 0x100000)"
proof -
  have "unat (SECTION_SIZE - take_bit 20 va) = 0x100000 - unat va mod 0x100000"
    by (simp add: unat_sub32 unat_take_bit32)
  then show ?thesis by (simp add: piece_size_def section_offset min_def word_le_nat_alt)
qed

lemma piece_size_pos: "sz \<noteq> 0 \<Longrightarrow> 0 < unat (piece_size va sz) \<and> unat (piece_size va sz) \<le> unat sz"
  by (simp add: piece_size_nat unat_gt_0)

function map_pieces :: "tee_mmap_region \<Rightarrow> u32 \<Rightarrow> vaddr \<Rightarrow> unit km" where
  "map_pieces mm2 sz ttb =
     (if sz = 0 then ret ()
      else let n = piece_size (mva mm2) sz in
        thenM (map_page_memarea_in_pgdirs (mm2\<lparr>msize := n\<rparr>) ttb)
          (map_pieces (mm2\<lparr>msize := n, mpa := mpa mm2 + n, mva := mva mm2 + n\<rparr>) (sz - n) ttb))"
  by pat_completeness auto

termination
proof (relation "measure (\<lambda>(mm, sz, ttb). unat sz)")
  fix mm2 :: tee_mmap_region and sz n :: u32 and ttb :: vaddr
  assume "sz \<noteq> 0" "n = piece_size (mva mm2) sz"
  with piece_size_pos [of sz "mva mm2"] have "0 < unat n" "unat n \<le> unat sz" by auto
  then have "unat (sz - n) < unat sz" by (simp add: unat_sub32)
  then show "((mm2\<lparr>msize := n, mpa := mpa mm2 + n, mva := mva mm2 + n\<rparr>, sz - n, ttb), mm2, sz, ttb)
      \<in> measure (\<lambda>(mm, sz, ttb). unat sz)" by simp
qed simp

definition map_memarea :: "tee_mmap_region \<Rightarrow> vaddr \<Rightarrow> unit km" where
  "map_memarea mm ttb =
     (if mva mm < 0x2000000 then panic
      else if (mva mm OR mpa mm OR msize mm) AND SECTION_MASK = 0 then map_memarea_sections mm ttb
      else if (mva mm OR mpa mm OR msize mm) AND SMALL_PAGE_MASK \<noteq> 0 then panic
      else map_pieces mm (msize mm) ttb)"

definition core_init_mmu_tables :: "tee_mmap_region list \<Rightarrow> unit km" where
  "core_init_mmu_tables ms =
     bindM core_mmu_get_main_ttb_va (\<lambda>ttb1.
     thenM (modifyM (\<lambda>s. s\<lparr>mmu := (mmu s)\<lparr>main_mmu_l1_ttb := (\<lambda>_. 0)\<rparr>\<rparr>)) (
     forM (takeWhile (\<lambda>m. msize m \<noteq> 0) ms) (\<lambda>m.
       whenM (\<not> core_mmu_is_dynamic_vaspace m) (map_memarea m ttb1))))"

section \<open>Registers and faults\<close>

definition core_mmu_place_tee_ram_at_top :: "paddr \<Rightarrow> bool" where
  "core_mmu_place_tee_ram_at_top pa \<longleftrightarrow> pa > 0x80000000"

definition core_init_mmu_regs :: "unit km" where
  "core_init_mmu_regs =
     bindM core_mmu_get_main_ttb_pa (\<lambda>ttb_pa.
     modifyM (\<lambda>s. s\<lparr>mmu := (mmu s)\<lparr>cp15 :=
       \<lparr>sctlr = sctlr (cp15 (mmu s)) OR 0x20000000 OR 0x10000000,
        prrr = 0x1 OR (0x8 OR 0x2000000) OR (0x80000 OR 0x20000),
        nmrr = 0x0 OR (0x4 OR 0x40000),
        dacr = 0x1 OR 0x4,
        ttbcr = 7,
        ttbr0 = ttb_pa OR (0x2 OR 0x20 OR 0x40 OR 0x8),
        ttbr1 = ttb_pa OR (0x2 OR 0x20 OR 0x40 OR 0x8)\<rparr>\<rparr>\<rparr>))"

datatype core_mmu_fault = CORE_MMU_FAULT_ALIGNMENT | CORE_MMU_FAULT_DEBUG_EVENT
  | CORE_MMU_FAULT_TRANSLATION | CORE_MMU_FAULT_WRITE_PERMISSION | CORE_MMU_FAULT_READ_PERMISSION
  | CORE_MMU_FAULT_ASYNC_EXTERNAL | CORE_MMU_FAULT_ACCESS_BIT | CORE_MMU_FAULT_OTHER

definition core_mmu_get_fault_type :: "u32 \<Rightarrow> core_mmu_fault km" where
  "core_mmu_get_fault_type fsr =
     thenM (cassert (fsr AND 0x200 = 0)) (
     let fs = fsr AND 0x40F in
     ret (if fs = 0x1 then CORE_MMU_FAULT_ALIGNMENT
       else if fs = 0x2 then CORE_MMU_FAULT_DEBUG_EVENT
       else if fs = 0x4 \<or> fs = 0x5 \<or> fs = 0x7 then CORE_MMU_FAULT_TRANSLATION
       else if fs = 0xD \<or> fs = 0xF then
         (if fsr AND 0x800 \<noteq> 0 then CORE_MMU_FAULT_WRITE_PERMISSION else CORE_MMU_FAULT_READ_PERMISSION)
       else if fs = 0x3 \<or> fs = 0x6 then CORE_MMU_FAULT_ACCESS_BIT
       else if fs = 0x406 then CORE_MMU_FAULT_ASYNC_EXTERNAL
       else CORE_MMU_FAULT_OTHER))"

definition cpu_mmu_enabled :: "bool km" where
  "cpu_mmu_enabled = gets (\<lambda>s. sctlr (cp15 (mmu s)) AND 1 \<noteq> 0)"

definition core_mmu_get_va :: "paddr \<Rightarrow> teecore_memtypes \<Rightarrow> vaddr km" where
  "core_mmu_get_va pa type =
     bindM cpu_mmu_enabled (\<lambda>e. if e then phys_to_virt pa type else ret pa)"

section \<open>Descriptors as bits\<close>


lemma and_pow2_eq_0 [mask_simps]:
  fixes a :: u32
  shows "a AND 0x1 = 0 \<longleftrightarrow> \<not> bit a 0" "a AND 0x2 = 0 \<longleftrightarrow> \<not> bit a 1" "a AND 0x4 = 0 \<longleftrightarrow> \<not> bit a 2"
    "a AND 0x8 = 0 \<longleftrightarrow> \<not> bit a 3" "a AND 0x10 = 0 \<longleftrightarrow> \<not> bit a 4" "a AND 0x20 = 0 \<longleftrightarrow> \<not> bit a 5"
    "a AND 0x40 = 0 \<longleftrightarrow> \<not> bit a 6" "a AND 0x80 = 0 \<longleftrightarrow> \<not> bit a 7" "a AND 0x100 = 0 \<longleftrightarrow> \<not> bit a 8"
    "a AND 0x200 = 0 \<longleftrightarrow> \<not> bit a 9" "a AND 0x400 = 0 \<longleftrightarrow> \<not> bit a 10" "a AND 0x800 = 0 \<longleftrightarrow> \<not> bit a 11"
    "a AND 0x8000 = 0 \<longleftrightarrow> \<not> bit a 15" "a AND 0x20000 = 0 \<longleftrightarrow> \<not> bit a 17"
    "a AND 0x40000 = 0 \<longleftrightarrow> \<not> bit a 18" "a AND 0x80000 = 0 \<longleftrightarrow> \<not> bit a 19"
  using and_bit32_eq_0_iff [of a 0] and_bit32_eq_0_iff [of a 1] and_bit32_eq_0_iff [of a 2]
    and_bit32_eq_0_iff [of a 3] and_bit32_eq_0_iff [of a 4] and_bit32_eq_0_iff [of a 5]
    and_bit32_eq_0_iff [of a 6] and_bit32_eq_0_iff [of a 7] and_bit32_eq_0_iff [of a 8]
    and_bit32_eq_0_iff [of a 9] and_bit32_eq_0_iff [of a 10] and_bit32_eq_0_iff [of a 11]
    and_bit32_eq_0_iff [of a 15] and_bit32_eq_0_iff [of a 17] and_bit32_eq_0_iff [of a 18]
    and_bit32_eq_0_iff [of a 19]
  by (simp_all add: bit32_def)

lemma and_pairs_eq_0 [mask_simps]:
  fixes a :: u32
  shows "a AND 0x60 = 0 \<longleftrightarrow> \<not> bit a 6 \<and> \<not> bit a 5" "a AND 0x300 = 0 \<longleftrightarrow> \<not> bit a 9 \<and> \<not> bit a 8"
    "a AND 0x240 = 0 \<longleftrightarrow> \<not> bit a 6 \<and> \<not> bit a 9" "a AND 0x90 = 0 \<longleftrightarrow> \<not> bit a 7 \<and> \<not> bit a 4"
proof -
  have *: "a AND m = 0 \<longleftrightarrow> \<not> bit a i \<and> \<not> bit a j" if "m = bit32 i OR bit32 j" for m i j
    using that by (simp add: bit.conj_disj_distrib or_eq_0_iff and_bit32_eq_0_iff)
  show "a AND 0x60 = 0 \<longleftrightarrow> \<not> bit a 6 \<and> \<not> bit a 5" by (rule *) (simp add: bit32_def)
  show "a AND 0x300 = 0 \<longleftrightarrow> \<not> bit a 9 \<and> \<not> bit a 8" by (rule *) (simp add: bit32_def)
  show "a AND 0x240 = 0 \<longleftrightarrow> \<not> bit a 6 \<and> \<not> bit a 9" by (rule *) (simp add: bit32_def)
  show "a AND 0x90 = 0 \<longleftrightarrow> \<not> bit a 7 \<and> \<not> bit a 4" by (rule *) (simp add: bit32_def)
qed

lemma imply_access_bits:
  "bit (imply_access a) 4 \<longleftrightarrow> bit a 4 \<or> bit a 5 \<or> bit a 6 \<or> bit a 7 \<or> bit a 8 \<or> bit a 9"
  "bit (imply_access a) 5 \<longleftrightarrow> bit a 5 \<or> bit a 8"
  "bit (imply_access a) 6 \<longleftrightarrow> bit a 6"
  "bit (imply_access a) 7 \<longleftrightarrow> bit a 7 \<or> bit a 8 \<or> bit a 9"
  "bit (imply_access a) 9 \<longleftrightarrow> bit a 9"
  "bit (imply_access a) 10 \<longleftrightarrow> bit a 10"
  "bit (imply_access a) 11 \<longleftrightarrow> bit a 11"
  "bit (imply_access a) 12 \<longleftrightarrow> bit a 12"
  "bit (imply_access a) 13 \<longleftrightarrow> bit a 13"
  "bit (imply_access a) 14 \<longleftrightarrow> bit a 14"
  unfolding imply_access_def Let_def by (auto simp: mask_simps bit_or_iff)

lemma texcb_imply_access: "mattr_to_texcb (imply_access a) = mattr_to_texcb a"
  unfolding imply_access_def Let_def mattr_to_texcb_def by (simp add: drop_bit_or)

lemma mattr_to_texcb_bits:
  "bit (mattr_to_texcb a) i \<longleftrightarrow> i < 3 \<and> bit a (12 + i)"
proof -
  have "mattr_to_texcb a = take_bit 3 (drop_bit 12 a)"
    by (simp add: mattr_to_texcb_def take_bit_eq_mask mask_eq_exp_minus_1)
  then show ?thesis by (simp add: bit_take_bit_iff bit_drop_bit_eq)
qed

text \<open>The fields of a section and of a small page descriptor.\<close>

lemma pow2_bit32:
  "(0x1 :: u32) = bit32 0" "(0x2 :: u32) = bit32 1" "(0x4 :: u32) = bit32 2" "(0x8 :: u32) = bit32 3"
  "(0x10 :: u32) = bit32 4" "(0x20 :: u32) = bit32 5" "(0x200 :: u32) = bit32 9" "(0x400 :: u32) = bit32 10"
  "(0x800 :: u32) = bit32 11" "(0x8000 :: u32) = bit32 15" "(0x10000 :: u32) = bit32 16"
  "(0x20000 :: u32) = bit32 17" "(0x80000 :: u32) = bit32 19"
  by (simp_all add: bit32_def)

lemma bit_pow2:
  "bit (0x1 :: u32) i \<longleftrightarrow> i = 0" "bit (0x2 :: u32) i \<longleftrightarrow> i = 1" "bit (0x4 :: u32) i \<longleftrightarrow> i = 2"
  "bit (0x8 :: u32) i \<longleftrightarrow> i = 3" "bit (0x10 :: u32) i \<longleftrightarrow> i = 4" "bit (0x20 :: u32) i \<longleftrightarrow> i = 5"
  "bit (0x200 :: u32) i \<longleftrightarrow> i = 9" "bit (0x400 :: u32) i \<longleftrightarrow> i = 10" "bit (0x800 :: u32) i \<longleftrightarrow> i = 11"
  "bit (0x8000 :: u32) i \<longleftrightarrow> i = 15" "bit (0x10000 :: u32) i \<longleftrightarrow> i = 16"
  "bit (0x20000 :: u32) i \<longleftrightarrow> i = 17" "bit (0x80000 :: u32) i \<longleftrightarrow> i = 19"
  unfolding pow2_bit32 bit_bit32 by auto

lemma bit_if: "bit (if P then x else 0 :: u32) i \<longleftrightarrow> P \<and> bit x i"
  by simp

lemma perm_tests:
  fixes a :: u32
  shows "a AND (0x40 OR 0x200) = 0 \<longleftrightarrow> \<not> bit a 6 \<and> \<not> bit a 9"
    "a AND (0x80 OR 0x10) = 0 \<longleftrightarrow> \<not> bit a 7 \<and> \<not> bit a 4"
  by (simp_all add: and_pairs_eq_0)

lemma bit_shifted_and_1: "k < 32 \<Longrightarrow> bit (push_bit k (w AND 1 :: u32)) i \<longleftrightarrow> i = k \<and> bit w 0"
  by (auto simp only: bit_push_bit_iff bit_and_iff pow2_bit32 bit_bit32) auto

lemma bit_texcb:
  "bit (SECTION_TEXCB (mattr_to_texcb a)) i \<longleftrightarrow>
     (i = 2 \<and> bit a 12) \<or> (i = 3 \<and> bit a 13) \<or> (i = 12 \<and> bit a 14)"
  "bit (SMALL_PAGE_TEXCB (mattr_to_texcb a)) i \<longleftrightarrow>
     (i = 2 \<and> bit a 12) \<or> (i = 3 \<and> bit a 13) \<or> (i = 6 \<and> bit a 14)"
proof -
  have hi: "bit (push_bit k (drop_bit 2 (mattr_to_texcb a))) i \<longleftrightarrow> i = k \<and> bit a 14" if "k < 32" for k
  proof -
    have "k \<le> i \<and> 2 + (i - k) < 3 \<longleftrightarrow> i = k" by auto
    then show ?thesis using that
      by (auto simp only: bit_push_bit_iff bit_drop_bit_eq comp_def mattr_to_texcb_bits) auto
  qed
  show "bit (SECTION_TEXCB (mattr_to_texcb a)) i \<longleftrightarrow>
     (i = 2 \<and> bit a 12) \<or> (i = 3 \<and> bit a 13) \<or> (i = 12 \<and> bit a 14)"
    "bit (SMALL_PAGE_TEXCB (mattr_to_texcb a)) i \<longleftrightarrow>
     (i = 2 \<and> bit a 12) \<or> (i = 3 \<and> bit a 13) \<or> (i = 6 \<and> bit a 14)"
    unfolding SECTION_TEXCB_def SMALL_PAGE_TEXCB_def bit_or_iff
    using hi [of 12] hi [of 6] bit_shifted_and_1 [of 3 "drop_bit 1 (mattr_to_texcb a)" i]
      bit_shifted_and_1 [of 2 "mattr_to_texcb a" i] mattr_to_texcb_bits [of a 0] mattr_to_texcb_bits [of a 1]
    by (auto simp: bit_drop_bit_eq)
qed

lemma section_desc_bits:
  "bit (section_desc a) i \<longleftrightarrow> i = 1 \<or> i = 16 \<or> (i = 4 \<and> \<not> bit a 6 \<and> \<not> bit a 9) \<or> (i = 11 \<and> bit a 7)
     \<or> (i = 15 \<and> \<not> bit a 5) \<or> (i = 10 \<and> (bit a 4 \<or> bit a 7)) \<or> (i = 17 \<and> \<not> bit a 10)
     \<or> (i = 19 \<and> \<not> bit a 11) \<or> (i = 2 \<and> bit a 12) \<or> (i = 3 \<and> bit a 13) \<or> (i = 12 \<and> bit a 14)"
  unfolding section_desc_def bit_or_iff bit_texcb bit_if perm_tests and_pow2_eq_0
  unfolding bit_pow2 by (simp add: conj_comms)

lemma small_page_desc_bits:
  "bit (small_page_desc a) i \<longleftrightarrow> i = 1 \<or> i = 10 \<or> (i = 0 \<and> \<not> bit a 6 \<and> \<not> bit a 9) \<or> (i = 5 \<and> bit a 7)
     \<or> (i = 9 \<and> \<not> bit a 5) \<or> (i = 4 \<and> (bit a 4 \<or> bit a 7)) \<or> (i = 11 \<and> \<not> bit a 10)
     \<or> (i = 2 \<and> bit a 12) \<or> (i = 3 \<and> bit a 13) \<or> (i = 6 \<and> bit a 14)"
  unfolding small_page_desc_def bit_or_iff bit_texcb bit_if perm_tests and_pow2_eq_0
  unfolding bit_pow2 by (simp add: conj_comms)

end
