(* ===== verification/Mmu_Tables.thy ===== *)
theory Mmu_Tables
  imports Mmu_V7
begin

text \<open>
  What the translation tables of core\_mmu\_v7.c mean: the table walk of the ARMv7 architecture, the
  loops that fill the tables, and the invariant that ties the tables to a translation function.
\<close>


section \<open>The table walk of the architecture\<close>

record xlat =
  x_pa :: paddr
  x_write :: bool
  x_exec :: bool
  x_user :: bool
  x_secure :: bool
  x_type :: nat

text \<open>The fields of a short-descriptor entry with the access flag enabled and TEX remap, as
  \<open>core_init_mmu_regs\<close> sets them; an entry whose access flag is clear faults.\<close>

definition section_xlat :: "u32 \<Rightarrow> vaddr \<Rightarrow> xlat option" where
  "section_xlat d va = (if bit d 10 then Some
     \<lparr>x_pa = (d AND NOT (mask 20)) OR take_bit 20 va, x_write = (\<not> bit d 15), x_exec = (\<not> bit d 4),
      x_user = bit d 11, x_secure = (\<not> bit d 19),
      x_type = of_bool (bit d 2) + 2 * of_bool (bit d 3) + 4 * of_bool (bit d 12)\<rparr> else None)"

definition page_xlat :: "bool \<Rightarrow> u32 \<Rightarrow> vaddr \<Rightarrow> xlat option" where
  "page_xlat ns e va = (if bit e 4 then Some
     \<lparr>x_pa = (e AND NOT (mask 12)) OR take_bit 12 va, x_write = (\<not> bit e 9), x_exec = (\<not> bit e 0),
      x_user = bit e 5, x_secure = (\<not> ns),
      x_type = of_bool (bit e 2) + 2 * of_bool (bit e 3) + 4 * of_bool (bit e 6)\<rparr> else None)"

definition l1_index :: "vaddr \<Rightarrow> nat" where
  "l1_index va = unat va div 0x100000"

definition l2_index :: "vaddr \<Rightarrow> nat" where
  "l2_index va = unat va div 0x1000 mod 256"

text \<open>A page table is one of the second-level tables at \<open>l2\<close>, which are flat mapped; supersections
  are not used.\<close>

definition walk :: "vaddr \<Rightarrow> (nat \<Rightarrow> u32) \<Rightarrow> (nat \<Rightarrow> u32) \<Rightarrow> vaddr \<Rightarrow> xlat option" where
  "walk l2 t1 t2 va =
     (let d = t1 (l1_index va) in
      if bit d 1 then (if bit d 18 then None else section_xlat d va)
      else if bit d 0 then
        (let k = unat ((d AND NOT (mask 10)) - l2) div 4; e = t2 (k + l2_index va) in
         if k + l2_index va < 2048 \<and> bit e 1 then page_xlat (bit d 3) e va else None)
      else None)"

text \<open>What the attributes of an area ask for.\<close>

definition attr_xlat :: "u32 \<Rightarrow> paddr \<Rightarrow> xlat" where
  "attr_xlat a pa = \<lparr>x_pa = pa, x_write = (bit a 5 \<or> bit a 8), x_exec = (bit a 6 \<or> bit a 9),
     x_user = (bit a 7 \<or> bit a 8 \<or> bit a 9), x_secure = bit a 11, x_type = unat (mattr_to_texcb a)\<rparr>"

definition attr_ok :: "u32 \<Rightarrow> bool" where
  "attr_ok a \<longleftrightarrow> bit a 0 \<and> \<not> bit a 1 \<and> \<not> bit a 2 \<and> \<not> bit a 3
     \<and> (bit a 4 \<or> bit a 5 \<or> bit a 6 \<or> bit a 7 \<or> bit a 8 \<or> bit a 9)"

lemma unat_mattr_to_texcb:
  "unat (mattr_to_texcb a) = of_bool (bit a 12) + 2 * of_bool (bit a 13) + 4 * of_bool (bit a 14)"
proof -
  have "mattr_to_texcb a = take_bit 3 (drop_bit 12 a)"
    by (simp add: mattr_to_texcb_def take_bit_eq_mask mask_eq_exp_minus_1)
  then have "unat (mattr_to_texcb a) = take_bit 3 (unat (drop_bit 12 a))"
    by (simp only: unsigned_take_bit_eq)
  also have "\<dots> = of_bool (bit (drop_bit 12 a) 0) + 2 * of_bool (bit (drop_bit 12 a) 1) + 4 * of_bool (bit (drop_bit 12 a) 2)"
    by (simp add: numeral_3_eq_3 take_bit_Suc bit_unsigned_iff mod2_eq_if flip: bit_0 bit_Suc)
      (simp add: numeral_2_eq_2)
  finally show ?thesis by (simp add: bit_drop_bit_eq)
qed

lemma or_high:
  fixes p d :: u32
  assumes "take_bit n p = 0" "take_bit n d = d"
  shows "(p OR d) AND NOT (mask n) = p" "i < n \<Longrightarrow> bit (p OR d) i = bit d i" "p OR d = p + d"
proof -
  have p: "\<not> bit p j" if "j < n" for j
    using assms(1) that by (metis bit_0_eq bit_take_bit_iff bot_apply bot_bool_def)
  have d: "\<not> bit d j" if "n \<le> j" for j
    using assms(2) that by (metis bit_take_bit_iff not_less)
  show "(p OR d) AND NOT (mask n) = p"
  proof (rule bit_word_eqI)
    fix j show "bit ((p OR d) AND NOT (mask n)) j = bit p j" if "j < LENGTH(32)"
      using that p [of j] d [of j] by (cases "j < n") (auto simp: bit_simps)
  qed
  show "i < n \<Longrightarrow> bit (p OR d) i = bit d i" using p by (simp add: bit_or_iff)
  have "p AND d = 0" by (rule bit_word_eqI) (use p d in \<open>auto simp: bit_and_iff not_less [symmetric]\<close>)
  then show "p OR d = p + d" by (simp add: disjunctive_add_eq_or)
qed

lemma take_bit_nat: "take_bit n va = (of_nat (unat va mod 2 ^ n) :: u32)"
  by (metis of_nat_unat_word unat_take_bit32)

lemma unat_va_parts: "unat va = l1_index va * 0x100000 + l2_index va * 0x1000 + unat va mod 0x1000"
proof -
  define y where "y = unat va div 0x1000"
  have "unat va = y * 0x1000 + unat va mod 0x1000" "y = y div 256 * 256 + y mod 256"
    unfolding y_def by simp_all
  moreover have "l1_index va = y div 256" unfolding l1_index_def y_def by (simp add: div_mult2_eq [symmetric])
  ultimately show ?thesis unfolding l2_index_def y_def [symmetric] by linarith
qed

lemma va_parts:
  "va = of_nat (l1_index va) * 0x100000 + of_nat (l2_index va) * 0x1000 + take_bit 12 va"
  "va = of_nat (l1_index va) * 0x100000 + take_bit 20 va"
proof -
  have "unat va = l1_index va * 0x100000 + l2_index va * 0x1000 + unat va mod 2 ^ 12"
    using unat_va_parts [of va] by simp
  from arg_cong [OF this, of "of_nat :: nat \<Rightarrow> u32"]
  show "va = of_nat (l1_index va) * 0x100000 + of_nat (l2_index va) * 0x1000 + take_bit 12 va"
    unfolding take_bit_nat by simp
  have "unat va = l1_index va * 0x100000 + unat va mod 2 ^ 20"
    unfolding l1_index_def by simp
  from arg_cong [OF this, of "of_nat :: nat \<Rightarrow> u32"]
  show "va = of_nat (l1_index va) * 0x100000 + take_bit 20 va"
    unfolding take_bit_nat by simp
qed

lemma attr_ok_desc:
  assumes "attr_ok a"
  shows "mattr_to_desc 1 a = section_desc (imply_access a)" "mattr_to_desc 2 a = small_page_desc (imply_access a)"
  using assms by (simp_all add: mattr_to_desc_def attr_ok_def mask_simps)

lemma desc_small:
  "take_bit 20 (section_desc a) = section_desc a" "take_bit 12 (small_page_desc a) = small_page_desc a"
proof -
  show "take_bit 20 (section_desc a) = section_desc a"
    by (rule bit_word_eqI) (auto simp: bit_take_bit_iff section_desc_bits)
  show "take_bit 12 (small_page_desc a) = small_page_desc a"
    by (rule bit_word_eqI) (auto simp: bit_take_bit_iff small_page_desc_bits)
qed

lemma take_bit_low: "m \<le> n \<Longrightarrow> take_bit n (take_bit m (w :: u32)) = take_bit m w"
  by (simp add: min_def)

lemma section_entry:
  assumes "attr_ok a" "take_bit 20 pa = 0"
  defines "d \<equiv> pa OR mattr_to_desc 1 a"
  shows "bit d 1 \<and> \<not> bit d 18 \<and> bit d 10 \<and> section_xlat d va = Some (attr_xlat a (pa + take_bit 20 va))"
proof -
  note o = or_high [OF assms(2) desc_small(1) [of "imply_access a"]]
  have b: "bit d i = bit (section_desc (imply_access a)) i" if "i < 20" for i
    unfolding d_def attr_ok_desc [OF assms(1)] by (rule o(2) [OF that])
  have pa: "d AND NOT (mask 20) = pa" unfolding d_def attr_ok_desc [OF assms(1)] by (rule o(1))
  have "pa OR take_bit 20 va = pa + take_bit 20 va"
    by (rule or_high(3) [OF assms(2)]) simp
  then show ?thesis using assms(1)
    by (auto simp: section_xlat_def attr_xlat_def pa b section_desc_bits imply_access_bits attr_ok_def unat_mattr_to_texcb)
qed

lemma page_entry:
  assumes "attr_ok a" "take_bit 12 pa = 0"
  defines "e \<equiv> mattr_to_desc 2 a OR pa"
  shows "bit e 1 \<and> bit e 4 \<and> page_xlat (\<not> bit a 11) e va = Some (attr_xlat a (pa + take_bit 12 va))"
proof -
  note o = or_high [OF assms(2) desc_small(2) [of "imply_access a"]]
  have e: "e = pa OR small_page_desc (imply_access a)"
    unfolding e_def attr_ok_desc [OF assms(1)] by (simp add: or.commute)
  have b: "bit e i = bit (small_page_desc (imply_access a)) i" if "i < 12" for i
    unfolding e by (rule o(2) [OF that])
  have pa: "e AND NOT (mask 12) = pa" unfolding e by (rule o(1))
  have "pa OR take_bit 12 va = pa + take_bit 12 va"
    by (rule or_high(3) [OF assms(2)]) simp
  then show ?thesis using assms(1)
    by (auto simp: page_xlat_def attr_xlat_def pa b small_page_desc_bits imply_access_bits attr_ok_def unat_mattr_to_texcb)
qed


section \<open>Table memory\<close>

text \<open>The kernel's own memory is flat mapped, and interrupts are masked while the map is built.\<close>

definition excp_masked :: "kernel \<Rightarrow> bool" where
  "excp_masked s \<longleftrightarrow> (\<forall>i \<in> {6, 7, 8}. bit (cpsr (mach s)) i)"

definition flat_at :: "kernel \<Rightarrow> vaddr \<Rightarrow> bool" where
  "flat_at s va \<longleftrightarrow> va \<noteq> 0 \<and> mmu_translates s va va
     \<and> core_va2pa_helper va (static_memory_map (mmu s)) = Some va
     \<and> phys_to_virt_tee_ram va (static_memory_map (mmu s)) = va"

definition l2_table :: "kernel \<Rightarrow> nat \<Rightarrow> vaddr" where
  "l2_table s k = l2_ttb_va (mmu s) + 4 * of_nat (256 * k)"

definition tables_placed :: "kernel \<Rightarrow> bool" where
  "tables_placed s \<longleftrightarrow> excp_masked s \<and> take_bit 10 (l2_ttb_va (mmu s)) = 0
     \<and> unat (l2_ttb_va (mmu s)) + 8192 \<le> 2 ^ 32
     \<and> 16384 \<le> unat (l2_ttb_va (mmu s) - l1_ttb_va (mmu s))
     \<and> unat (l2_ttb_va (mmu s) - l1_ttb_va (mmu s)) + 8192 \<le> 2 ^ 32
     \<and> (\<forall>k < 8. flat_at s (l2_table s k))"

definition set_tabs :: "(nat \<Rightarrow> u32) \<Rightarrow> (nat \<Rightarrow> u32) \<Rightarrow> nat \<Rightarrow> kernel \<Rightarrow> kernel" where
  "set_tabs t1 t2 u s = s\<lparr>mmu := (mmu s)\<lparr>main_mmu_l1_ttb := t1, main_mmu_l2_ttb := t2, tables_used := u\<rparr>\<rparr>"

lemma set_tabs_sel [simp]:
  "main_mmu_l1_ttb (mmu (set_tabs t1 t2 u s)) = t1" "main_mmu_l2_ttb (mmu (set_tabs t1 t2 u s)) = t2"
  "tables_used (mmu (set_tabs t1 t2 u s)) = u" "l1_ttb_va (mmu (set_tabs t1 t2 u s)) = l1_ttb_va (mmu s)"
  "l2_ttb_va (mmu (set_tabs t1 t2 u s)) = l2_ttb_va (mmu s)"
  "static_memory_map (mmu (set_tabs t1 t2 u s)) = static_memory_map (mmu s)"
  "mach (set_tabs t1 t2 u s) = mach s" "l2_table (set_tabs t1 t2 u s) = l2_table s"
  "set_tabs t1' t2' u' (set_tabs t1 t2 u s) = set_tabs t1' t2' u' s"
  by (simp_all add: set_tabs_def l2_table_def fun_eq_iff)

lemma set_tabs_same: "set_tabs (main_mmu_l1_ttb (mmu s)) (main_mmu_l2_ttb (mmu s)) (tables_used (mmu s)) s = s"
  by (simp add: set_tabs_def)

lemma placed_set_tabs [simp]: "tables_placed (set_tabs t1 t2 u s) = tables_placed s"
proof -
  have "mmu_translates (set_tabs t1 t2 u s) = mmu_translates s"
    by (simp add: mmu_translates_def fun_eq_iff set_tabs_def)
  then show ?thesis by (simp add: tables_placed_def excp_masked_def flat_at_def)
qed

lemma masked_bits:
  assumes "excp_masked s"
  shows "drop_bit 6 (cpsr (mach s)) AND 7 = 7"
    "(cpsr (mach s) AND NOT (push_bit 6 7)) OR push_bit 6 7 = cpsr (mach s)"
proof -
  have b: "bit (cpsr (mach s)) (6 + i)" if "i < 3" for i
  proof -
    have "i = 0 \<or> i = 1 \<or> i = 2" using that by linarith
    then show ?thesis using assms by (auto simp: excp_masked_def)
  qed
  have seven: "(7 :: u32) = mask 3" by (simp add: mask_eq_exp_minus_1)
  show "drop_bit 6 (cpsr (mach s)) AND 7 = 7"
    unfolding seven by (rule bit_word_eqI) (auto simp: bit_simps b)
  show "(cpsr (mach s) AND NOT (push_bit 6 7)) OR push_bit 6 7 = cpsr (mach s)"
  proof (rule bit_word_eqI)
    fix i assume "i < LENGTH(32)"
    moreover have "bit (cpsr (mach s)) i" if "6 \<le> i" "i < 9" using b [of "i - 6"] that by simp
    ultimately show "bit ((cpsr (mach s) AND NOT (push_bit 6 7)) OR push_bit 6 7) i = bit (cpsr (mach s)) i"
      unfolding seven by (auto simp: bit_simps simp del: push_bit_mask_eq)
  qed
qed

lemma masked_mask:
  assumes "excp_masked s"
  shows "thread_mask_exceptions THREAD_EXCP_ALL s = Inr (7, s)" "thread_unmask_exceptions 7 s = Inr ((), s)"
proof -
  have set: "thread_set_exceptions 7 s = Inr ((), s)"
    using masked_bits(2) [OF assms]
    by (simp add: thread_set_exceptions_def bindM_def thenM_def gets_def whenM_def ret_def modifyM_def)
  show "thread_unmask_exceptions 7 s = Inr ((), s)" using set by (simp add: thread_unmask_exceptions_def)
  show "thread_mask_exceptions THREAD_EXCP_ALL s = Inr (7, s)"
    using set masked_bits(1) [OF assms]
    by (simp add: thread_mask_exceptions_def thread_get_exceptions_def bindM_def thenM_def gets_def ret_def)
qed

lemma virt_to_phys_flat:
  assumes "excp_masked s" "flat_at s va"
  shows "virt_to_phys va s = Inr (va, s)"
proof -
  have "arm_va2pa_helper va s = Inr (Some va, s)"
    using assms masked_mask [OF assms(1)]
    by (auto simp: arm_va2pa_helper_def bindM_def thenM_def gets_def ret_def flat_at_def mmu_translates_def
        Let_def bit_0 and_one_eq even_iff_mod_2_eq_zero split: if_splits)
  then show ?thesis using assms(2)
    by (simp add: virt_to_phys_def check_pa_matches_va_def bindM_def thenM_def gets_def ret_def whenM_def flat_at_def)
qed

lemma phys_to_virt_flat:
  assumes "excp_masked s" "flat_at s va"
  shows "phys_to_virt va MEM_AREA_TEE_RAM_RW s = Inr (va, s)"
  using virt_to_phys_flat [OF assms] assms(2)
  by (simp add: phys_to_virt_def check_va_matches_pa_def bindM_def thenM_def gets_def ret_def whenM_def flat_at_def)

lemma slot_l1: "i < 4096 \<Longrightarrow> table_slot (mmu s) (l1_ttb_va (mmu s)) i = Some (True, i)"
  by (simp add: table_slot_def)

lemma slot_l2:
  assumes "tables_placed s" "k < 8" "i < 256"
  shows "table_slot (mmu s) (l2_table s k) i = Some (False, 256 * k + i)"
proof -
  have k: "unat (4 * of_nat (256 * k) :: u32) = 1024 * k"
    using assms(2) unat_of_nat_small [of "1024 * k", where 'a = 32] by simp
  have "unat (l2_table s k - l2_ttb_va (mmu s)) = 1024 * k" by (simp add: l2_table_def k del: of_nat_mult)
  moreover have "unat (l2_table s k - l1_ttb_va (mmu s)) = unat (l2_ttb_va (mmu s) - l1_ttb_va (mmu s)) + 1024 * k"
  proof -
    have "l2_table s k - l1_ttb_va (mmu s) = (l2_ttb_va (mmu s) - l1_ttb_va (mmu s)) + 4 * of_nat (256 * k)"
      by (simp add: l2_table_def)
    then show ?thesis using assms unfolding tables_placed_def by (simp only: unat_add32 k) auto
  qed
  ultimately show ?thesis using assms unfolding table_slot_def tables_placed_def Let_def by auto
qed

lemma table_l1_wp [wp_simps]:
  "i < 4096 \<Longrightarrow> wp (table_get (l1_ttb_va (mmu s)) i) Q s = Q (main_mmu_l1_ttb (mmu s) i) s"
  "i < 4096 \<Longrightarrow> wp (table_set (l1_ttb_va (mmu s)) i v) R s =
     R () (set_tabs ((main_mmu_l1_ttb (mmu s))(i := v)) (main_mmu_l2_ttb (mmu s)) (tables_used (mmu s)) s)"
  by (simp_all add: table_get_def table_set_def wp_simps slot_l1 set_tabs_def)

lemma table_l2_wp:
  assumes "tables_placed s" "k < 8" "i < 256"
  shows "wp (table_get (l2_table s k) i) Q s = Q (main_mmu_l2_ttb (mmu s) (256 * k + i)) s"
  "wp (table_set (l2_table s k) i v) R s =
     R () (set_tabs (main_mmu_l1_ttb (mmu s)) ((main_mmu_l2_ttb (mmu s))(256 * k + i := v)) (tables_used (mmu s)) s)"
  by (simp_all add: table_get_def table_set_def wp_simps slot_l2 [OF assms] set_tabs_def)

section \<open>The loops\<close>

lemma empty_range: "(\<lambda>i. if a \<le> i \<and> i < (a :: nat) then f i else g i) = g"
  by (rule ext) auto

lemma set_sections_wp:
  fixes s :: kernel
  defines "t1 \<equiv> main_mmu_l1_ttb (mmu s)"
  assumes "idx + n \<le> 4096"
    and "\<forall>k < n. attr = 0 \<or> t1 (idx + k) = 0 \<or> t1 (idx + k) = (pa + of_nat k * SECTION_SIZE) OR attr"
  shows "wp (set_sections (l1_ttb_va (mmu s)) idx pa attr n) (\<lambda>_ t. t =
    set_tabs (\<lambda>i. if idx \<le> i \<and> i < idx + n then (pa + of_nat (i - idx) * SECTION_SIZE) OR attr else t1 i)
      (main_mmu_l2_ttb (mmu s)) (tables_used (mmu s)) s) s"
proof -
  define I where "I ys t \<longleftrightarrow> t = set_tabs (\<lambda>i. if idx \<le> i \<and> i < idx + length ys
      then (pa + of_nat (i - idx) * SECTION_SIZE) OR attr else t1 i)
      (main_mmu_l2_ttb (mmu s)) (tables_used (mmu s)) s" for ys :: "nat list" and t
  have "wp (set_sections (l1_ttb_va (mmu s)) idx pa attr n) (\<lambda>_. I [0..<n]) s"
    unfolding set_sections_def
  proof (rule wp_forM)
    show "I [] s" by (simp add: I_def empty_range t1_def set_tabs_same)
  next
    fix ys x zs t
    assume split: "[0..<n] = ys @ x # zs" and t: "I ys t"
    from split have x: "x = length ys" "x < n" by (auto dest: upt_splitD)
    have old: "main_mmu_l1_ttb (mmu t) (idx + x) = t1 (idx + x)" and l1: "l1_ttb_va (mmu s) = l1_ttb_va (mmu t)"
      using t x by (simp_all add: I_def)
    have ok: "attr = 0 \<or> t1 (idx + x) = 0 \<or> t1 (idx + x) = (pa + of_nat x * SECTION_SIZE) OR attr"
      using assms(3) x by blast
    have i: "idx + x < 4096" using x assms(2) by simp
    let ?v = "(pa + of_nat x * SECTION_SIZE) OR attr"
    have upd: "I (ys @ [x]) (set_tabs ((main_mmu_l1_ttb (mmu t))(idx + x := ?v)) (main_mmu_l2_ttb (mmu t)) (tables_used (mmu t)) t)"
      using t x by (auto simp: I_def fun_eq_iff intro!: arg_cong [where f = "\<lambda>f. set_tabs f _ _ s"])
    show "wp (let v = (pa + of_nat x * SECTION_SIZE) OR attr in
        bindM (table_get (l1_ttb_va (mmu s)) (idx + x)) (\<lambda>old.
        thenM (cassert (attr = 0 \<or> old = 0 \<or> old = v)) (table_set (l1_ttb_va (mmu s)) (idx + x) v)))
      (\<lambda>_. I (ys @ [x])) t"
      unfolding l1 Let_def using ok upd i
      by (simp add: wp_bindM table_l1_wp wp_thenM wp_cassert old)
  qed
  then show ?thesis by (rule wp_mono) (simp add: I_def)
qed

lemma set_pages_wp:
  fixes s :: kernel
  defines "t2 \<equiv> main_mmu_l2_ttb (mmu s)"
  assumes "tables_placed s" "k < 8" "p1 \<le> 256" "attr \<noteq> 0"
    and "\<forall>j. p0 \<le> j \<and> j < p1 \<longrightarrow> t2 (256 * k + j) = 0"
  shows "wp (set_pages (l2_table s k) attr pa p0 p1) (\<lambda>_ t. t =
    set_tabs (main_mmu_l1_ttb (mmu s)) (\<lambda>i. if 256 * k + p0 \<le> i \<and> i < 256 * k + p1
       then attr OR (pa + of_nat (i - 256 * k) * SMALL_PAGE_SIZE) else t2 i) (tables_used (mmu s)) s) s"
proof -
  define I where "I ys t \<longleftrightarrow> t = set_tabs (main_mmu_l1_ttb (mmu s)) (\<lambda>i. if 256 * k + p0 \<le> i \<and> i < 256 * k + p0 + length ys
       then attr OR (pa + of_nat (i - 256 * k) * SMALL_PAGE_SIZE) else t2 i) (tables_used (mmu s)) s" for ys :: "nat list" and t
  have "wp (set_pages (l2_table s k) attr pa p0 p1) (\<lambda>_. I [p0..<p1]) s"
    unfolding set_pages_def
  proof (rule wp_forM)
    show "I [] s" by (simp add: I_def empty_range t2_def set_tabs_same)
  next
    fix ys x zs t
    assume split: "[p0..<p1] = ys @ x # zs" and t: "I ys t"
    have "p0 + length ys < p1" using arg_cong [OF split, of length] by simp
    moreover have "x = p0 + length ys" using arg_cong [OF split, of "\<lambda>l. l ! length ys"] calculation
      by simp
    ultimately have x: "x = p0 + length ys" "x < p1" by simp_all
    have old: "main_mmu_l2_ttb (mmu t) (256 * k + x) = 0" and l2: "l2_table s = l2_table t" and pl: "tables_placed t"
      using t x assms(2,6) by (simp_all add: I_def)
    have i: "x < 256" using x assms(4) by simp
    let ?v = "attr OR (pa + of_nat x * SMALL_PAGE_SIZE)"
    have upd: "I (ys @ [x]) (set_tabs (main_mmu_l1_ttb (mmu t)) ((main_mmu_l2_ttb (mmu t))(256 * k + x := ?v)) (tables_used (mmu t)) t)"
      using t x by (auto simp: I_def fun_eq_iff intro!: arg_cong [where f = "\<lambda>f. set_tabs _ f _ s"])
    show "wp (let desc = if attr \<noteq> 0 then attr OR (pa + of_nat x * SMALL_PAGE_SIZE) else attr in
        bindM (table_get (l2_table s k) x) (\<lambda>old.
        thenM (cassert (desc = 0 \<or> old = 0 \<or> old = desc)) (table_set (l2_table s k) x desc)))
      (\<lambda>_. I (ys @ [x])) t"
      unfolding l2 Let_def using upd assms(5)
      by (simp add: wp_bindM table_l2_wp [OF pl assms(3) i] wp_thenM wp_cassert old)
  qed
  then show ?thesis
    by (rule wp_mono) (auto simp: I_def fun_eq_iff intro!: arg_cong [where f = "\<lambda>f. set_tabs _ f _ s"])
qed

section \<open>The invariant of the tables\<close>

definition pt_entry :: "kernel \<Rightarrow> nat \<Rightarrow> bool \<Rightarrow> u32" where
  "pt_entry s k sec = l2_table s k OR (if sec then 1 else 9)"

definition section_like :: "u32 \<Rightarrow> bool" where
  "section_like d \<longleftrightarrow> bit d 1 \<and> \<not> bit d 18 \<and> bit d 10"

text \<open>
  The tables translate as \<open>M\<close> says. \<open>K\<close> numbers the sections that have a second-level table, one
  table each, and these sections are among \<open>S\<close>; \<open>sec\<close> is the security state of the areas in them.
\<close>

definition tab_inv ::
    "kernel \<Rightarrow> nat set \<Rightarrow> (nat \<Rightarrow> bool) \<Rightarrow> (vaddr \<Rightarrow> xlat option) \<Rightarrow> (nat \<rightharpoonup> nat)
     \<Rightarrow> (nat \<Rightarrow> u32) \<Rightarrow> (nat \<Rightarrow> u32) \<Rightarrow> nat \<Rightarrow> bool" where
  "tab_inv s S sec M K t1 t2 u \<longleftrightarrow>
     (\<forall>va. walk (l2_ttb_va (mmu s)) t1 t2 va = M va)
   \<and> finite S \<and> card S \<le> 8 \<and> dom K \<subseteq> S \<and> dom K \<subseteq> {..<4096} \<and> u = card (dom K) \<and> inj_on K (dom K)
   \<and> (\<forall>n k. K n = Some k \<longrightarrow> k < u \<and> t1 n = pt_entry s k (sec n)
        \<and> (\<forall>j < 256. t2 (256 * k + j) = 0 \<or> bit (t2 (256 * k + j)) 1 \<and> bit (t2 (256 * k + j)) 4))
   \<and> (\<forall>n < 4096. K n = None \<longrightarrow> t1 n = 0 \<or> section_like (t1 n))"

lemma l1_index_less: "l1_index va < 4096"
  using unat_lt32 [of va] by (simp add: l1_index_def)

lemma l2_index_less: "l2_index va < 256"
  by (simp add: l2_index_def)

lemma tab_inv_used: "tab_inv s S sec M K t1 t2 u \<Longrightarrow> u \<le> 8"
  unfolding tab_inv_def using card_mono [of S "dom K"] by fastforce

lemma aligned_dvd: "take_bit n (w :: u32) = 0 \<longleftrightarrow> 2 ^ n dvd unat w"
  by (metis mod_eq_0_iff_dvd unat_eq_zero unat_take_bit32)

lemma pow2_dvd_32: "n \<le> 32 \<Longrightarrow> (2 :: nat) ^ n dvd 2 ^ LENGTH(32)"
  by (rule le_imp_power_dvd) simp

lemma aligned_add: "take_bit n a = 0 \<Longrightarrow> take_bit n b = 0 \<Longrightarrow> n \<le> 32 \<Longrightarrow> take_bit n (a + b :: u32) = 0"
  unfolding aligned_dvd unat_word_ariths(1) by (rule dvd_mod [OF _ pow2_dvd_32]) simp_all

lemma aligned_mult: "n \<le> 32 \<Longrightarrow> take_bit n (of_nat (k * 2 ^ n) :: u32) = 0"
  unfolding aligned_dvd unat_of_nat by (rule dvd_mod [OF _ pow2_dvd_32]) simp_all

lemma l2_table_aligned: "tables_placed s \<Longrightarrow> take_bit 10 (l2_table s k) = 0"
  unfolding l2_table_def
  by (rule aligned_add) (use aligned_mult [of 10 k] in \<open>simp_all add: tables_placed_def mult.commute\<close>)

lemma pt_entry_bits:
  assumes "tables_placed s"
  shows "bit (pt_entry s k sec) 0" "\<not> bit (pt_entry s k sec) 1" "bit (pt_entry s k sec) 3 = (\<not> sec)"
    "pt_entry s k sec AND NOT (mask 10) = l2_table s k" "pt_entry s k sec \<noteq> 0"
proof -
  let ?d = "(if sec then 1 else 9) :: u32"
  have "take_bit 10 ?d = ?d" by simp
  note o = or_high [OF l2_table_aligned [OF assms, of k] this, folded pt_entry_def]
  show b0: "bit (pt_entry s k sec) 0" and "\<not> bit (pt_entry s k sec) 1" "bit (pt_entry s k sec) 3 = (\<not> sec)"
    using o(2) [of 0] o(2) [of 1] o(2) [of 3] by auto
  show "pt_entry s k sec AND NOT (mask 10) = l2_table s k" by (rule o(1))
  show "pt_entry s k sec \<noteq> 0" using b0 by force
qed

lemma l2_table_index:
  assumes "k < 8"
  shows "unat (l2_table s k - l2_ttb_va (mmu s)) div 4 = 256 * k"
proof -
  have "unat (4 * of_nat (256 * k) :: u32) = 1024 * k"
    using assms unat_of_nat_small [of "1024 * k", where 'a = 32] by simp
  then show ?thesis by (simp add: l2_table_def del: of_nat_mult)
qed

lemma pt_entry_inj:
  assumes "tables_placed s" "pt_entry s k sec = pt_entry s k' sec'" "k < 8" "k' < 8"
  shows "k = k'"
proof -
  have "l2_table s k = l2_table s k'" using assms pt_entry_bits(4) by metis
  then have "256 * k = 256 * k'" using l2_table_index [OF assms(3), of s] l2_table_index [OF assms(4), of s] by metis
  then show ?thesis by simp
qed

lemma walk_pt:
  assumes "tables_placed s" "k < 8" "t1 (l1_index va) = pt_entry s k sec"
  shows "walk (l2_ttb_va (mmu s)) t1 t2 va =
    (let e = t2 (256 * k + l2_index va) in if bit e 1 then page_xlat (\<not> sec) e va else None)"
  using assms l2_index_less [of va]
  by (simp add: walk_def Let_def pt_entry_bits l2_table_index del: One_nat_def)

lemma walk_empty: "t1 (l1_index va) = 0 \<Longrightarrow> walk l2 t1 t2 va = None"
  by (simp add: walk_def)

lemma walk_section: "section_like (t1 (l1_index va)) \<Longrightarrow> walk l2 t1 t2 va = section_xlat (t1 (l1_index va)) va
    \<and> section_xlat (t1 (l1_index va)) va \<noteq> None"
  by (simp add: walk_def section_like_def section_xlat_def Let_def)

lemma walk_cong:
  assumes "t1' (l1_index va) = t1 (l1_index va)"
    and "\<And>k. k < 8 \<Longrightarrow> t1 (l1_index va) = pt_entry s k sec \<Longrightarrow> t2' (256 * k + l2_index va) = t2 (256 * k + l2_index va)"
    and "t1 (l1_index va) = 0 \<or> section_like (t1 (l1_index va)) \<or> (\<exists>k < 8. t1 (l1_index va) = pt_entry s k sec)"
    and "tables_placed s"
  shows "walk (l2_ttb_va (mmu s)) t1' t2' va = walk (l2_ttb_va (mmu s)) t1 t2 va"
  using assms(3)
proof (elim disjE exE conjE)
  fix k assume k: "k < 8" "t1 (l1_index va) = pt_entry s k sec"
  then show ?thesis using assms(1,2,4) by (simp add: walk_pt [of s k])
qed (use assms(1) walk_empty walk_section in \<open>simp_all\<close>)

lemma tab_inv_entry:
  assumes "tab_inv s S sec M K t1 t2 u" "n < 4096"
  shows "K n = None \<and> t1 n = 0 \<or> K n = None \<and> section_like (t1 n)
    \<or> (\<exists>k < 8. K n = Some k \<and> t1 n = pt_entry s k (sec n))"
  using assms tab_inv_used [OF assms(1)] unfolding tab_inv_def by (cases "K n") fastforce+

text \<open>A fresh table changes no translation.\<close>

lemma tab_inv_alloc:
  assumes inv: "tab_inv s S sec M K t1 t2 u" and pl: "tables_placed s"
    and n: "n < 4096" "K n = None" "t1 n = 0" "n \<in> S"
  shows "u < 8" "tab_inv s S sec M (K(n \<mapsto> u)) (t1(n := pt_entry s u (sec n)))
    (\<lambda>i. if 256 * u \<le> i \<and> i < 256 * (u + 1) then 0 else t2 i) (u + 1)"
proof -
  have S: "finite S" "card S \<le> 8" "dom K \<subseteq> S" "u = card (dom K)" using inv by (auto simp: tab_inv_def)
  have nd: "n \<notin> dom K" using n(2) by auto
  have fin: "finite (dom K)" using S finite_subset by blast
  have "card (insert n (dom K)) \<le> card S" by (rule card_mono) (use S n in auto)
  then show u8: "u < 8" using S nd fin by simp
  let ?t1 = "t1(n := pt_entry s u (sec n))"
  let ?t2 = "\<lambda>i. if 256 * u \<le> i \<and> i < 256 * (u + 1) then 0 else t2 i"
  have w: "walk (l2_ttb_va (mmu s)) ?t1 ?t2 va = M va" for va
  proof (cases "l1_index va = n")
    case True
    then have "walk (l2_ttb_va (mmu s)) ?t1 ?t2 va = None"
      using l2_index_less [of va] by (subst walk_pt [OF pl u8]) (auto simp: Let_def)
    moreover have "M va = None" using inv walk_empty [of t1 va "l2_ttb_va (mmu s)" t2] n(3) True by (simp add: tab_inv_def)
    ultimately show ?thesis by simp
  next
    case False
    have "walk (l2_ttb_va (mmu s)) ?t1 ?t2 va = walk (l2_ttb_va (mmu s)) t1 t2 va"
    proof (rule walk_cong [where sec = "sec (l1_index va)", OF _ _ _ pl])
      fix k assume k: "k < 8" "t1 (l1_index va) = pt_entry s k (sec (l1_index va))"
      from tab_inv_entry [OF inv l1_index_less, of va] obtain k' where k': "K (l1_index va) = Some k'"
        "t1 (l1_index va) = pt_entry s k' (sec (l1_index va))" "k' < 8"
        using k(2) pt_entry_bits [OF pl] by (auto simp: section_like_def)
      have "k = k'" using k k' by (metis pt_entry_inj [OF pl])
      then have "k < u" using inv k'(1) by (auto simp: tab_inv_def)
      then have "256 * k + l2_index va < 256 * u" using l2_index_less [of va] by linarith
      then show "?t2 (256 * k + l2_index va) = t2 (256 * k + l2_index va)" by simp
    next
      show "?t1 (l1_index va) = t1 (l1_index va)" using False by simp
      show "t1 (l1_index va) = 0 \<or> section_like (t1 (l1_index va)) \<or> (\<exists>k < 8. t1 (l1_index va) = pt_entry s k (sec (l1_index va)))"
        using tab_inv_entry [OF inv l1_index_less, of va] by blast
    qed
    then show ?thesis using inv by (simp add: tab_inv_def)
  qed
  have K: "k < u" "t1 m = pt_entry s k (sec m)"
    "\<forall>j < 256. t2 (256 * k + j) = 0 \<or> bit (t2 (256 * k + j)) 1 \<and> bit (t2 (256 * k + j)) 4" if "K m = Some k" for m k
    using inv that by (auto simp: tab_inv_def)
  have inj: "inj_on (K(n \<mapsto> u)) (dom (K(n \<mapsto> u)))"
  proof -
    have "inj_on K (dom K)" using inv by (simp add: tab_inv_def)
    moreover have "K m \<noteq> Some u" for m using K(1) by fastforce
    ultimately show ?thesis using nd by (auto simp: inj_on_def)
  qed
  show "tab_inv s S sec M (K(n \<mapsto> u)) ?t1 ?t2 (u + 1)"
    unfolding tab_inv_def
  proof (intro conjI allI impI)
    show "u + 1 = card (dom (K(n \<mapsto> u)))" using S nd fin by simp
    show "inj_on (K(n \<mapsto> u)) (dom (K(n \<mapsto> u)))" by (rule inj)
    fix m k assume mk: "(K(n \<mapsto> u)) m = Some k"
    show "k < u + 1" using mk K(1) by (fastforce split: if_splits)
    show "?t1 m = pt_entry s k (sec m)" using mk K(2) by (auto split: if_splits)
    fix j :: nat assume j: "j < 256"
    show "?t2 (256 * k + j) = 0 \<or> bit (?t2 (256 * k + j)) 1 \<and> bit (?t2 (256 * k + j)) 4"
      using mk K(3) j by (cases "m = n") auto
  qed (use inv w n in \<open>auto simp: tab_inv_def\<close>)
qed

end
