(* ===== verification/Mmu_Build.thy ===== *)
theory Mmu_Build
  imports Mmu_Tables
begin

text \<open>
  Building the tables: every piece of an area that is mapped, by pages or by sections, changes the
  translation by exactly that piece. After \<open>core_init_mmu_tables\<close> the table walk translates every
  address of the static memory map to the physical address and with the permissions the map asks for,
  and no other address at all.
\<close>

section \<open>Adding an area\<close>

definition in_area :: "tee_mmap_region \<Rightarrow> vaddr \<Rightarrow> bool" where
  "in_area m va \<longleftrightarrow> unat (mva m) \<le> unat va \<and> unat va < unat (mva m) + unat (msize m)"

definition area_xlat :: "tee_mmap_region \<Rightarrow> vaddr \<Rightarrow> xlat" where
  "area_xlat m va = attr_xlat (mattr m) (mpa m + (va - mva m))"

definition add_area :: "tee_mmap_region \<Rightarrow> (vaddr \<Rightarrow> xlat option) \<Rightarrow> vaddr \<Rightarrow> xlat option" where
  "add_area m M va = (if in_area m va then Some (area_xlat m va) else M va)"

text \<open>The part of a page-mapped area inside one section.\<close>

definition page_piece :: "tee_mmap_region \<Rightarrow> bool" where
  "page_piece m \<longleftrightarrow> attr_ok (mattr m) \<and> 0 < unat (msize m) \<and> 0x1000 dvd unat (mva m) \<and> 0x1000 dvd unat (msize m)
     \<and> take_bit 20 (mpa m) = take_bit 20 (mva m) \<and> unat (mva m) mod 0x100000 + unat (msize m) \<le> 0x100000"

abbreviation (input) piece_first :: "tee_mmap_region \<Rightarrow> nat" where
  "piece_first m \<equiv> unat (mva m) mod 0x100000 div 0x1000"

abbreviation (input) piece_end :: "tee_mmap_region \<Rightarrow> nat" where
  "piece_end m \<equiv> (unat (mva m) mod 0x100000 + unat (msize m)) div 0x1000"

lemma piece_end_le: "page_piece m \<Longrightarrow> piece_end m \<le> 256"
proof -
  assume "page_piece m"
  then have "piece_end m \<le> 0x100000 div 0x1000" unfolding page_piece_def by (intro div_le_mono) simp
  then show ?thesis by simp
qed

lemma in_piece_iff:
  assumes "page_piece m"
  shows "in_area m va \<longleftrightarrow> l1_index va = l1_index (mva m) \<and> piece_first m \<le> l2_index va \<and> l2_index va < piece_end m"
proof -
  define a z where "a = unat (mva m)" and "z = unat (msize m)"
  define o1 where "o1 = a mod 0x100000"
  have dv: "0x1000 dvd a" "0x1000 dvd z" using assms by (simp_all add: page_piece_def a_def z_def)
  then have "0x1000 dvd o1" unfolding o1_def by (simp add: dvd_mod)
  with dv obtain p q where pq: "o1 = p * 0x1000" "o1 + z = q * 0x1000"
    by (metis dvd_add dvd_div_mult_self)
  have a: "a = l1_index (mva m) * 0x100000 + o1" unfolding a_def o1_def l1_index_def by simp
  have q: "q \<le> 256" using assms pq unfolding page_piece_def o1_def a_def z_def by linarith
  have pf: "piece_first m = p" "piece_end m = q"
    using pq unfolding o1_def a_def z_def by simp_all
  have v: "unat va = l1_index va * 0x100000 + l2_index va * 0x1000 + unat va mod 0x1000" "unat va mod 0x1000 < 0x1000" "l2_index va < 256"
    using unat_va_parts l2_index_less by simp_all
  have "in_area m va \<longleftrightarrow> a \<le> unat va \<and> unat va < a + z" by (simp add: in_area_def a_def z_def)
  also have "\<dots> \<longleftrightarrow> l1_index va = l1_index (mva m) \<and> p \<le> l2_index va \<and> l2_index va < q"
  proof (cases "l1_index va" "l1_index (mva m)" rule: linorder_cases)
    case less
    then show ?thesis using a v by linarith
  next
    case greater
    then show ?thesis using a v pq q by linarith
  next
    case equal
    then show ?thesis using a v pq by linarith
  qed
  finally show ?thesis unfolding pf .
qed

lemma page_desc_xlat:
  assumes "page_piece m" "in_area m va"
  defines "e \<equiv> mattr_to_desc 2 (mattr m) OR ((mpa m AND NOT SECTION_MASK) + of_nat (l2_index va) * SMALL_PAGE_SIZE)"
  shows "bit e 1 \<and> bit e 4 \<and> page_xlat (\<not> bit (mattr m) 11) e va = Some (area_xlat m va)"
proof -
  let ?b = "mpa m AND NOT SECTION_MASK"
  have mask: "SECTION_MASK = mask 20" by (simp add: mask_eq_exp_minus_1)
  have b: "?b = mpa m - take_bit 20 (mpa m)" unfolding mask by (rule round_parts)
  have al: "take_bit 12 (?b + of_nat (l2_index va) * SMALL_PAGE_SIZE) = 0"
  proof (rule aligned_add)
    show "take_bit 12 ?b = 0" unfolding mask by (rule bit_word_eqI) (auto simp: bit_simps)
    show "take_bit 12 (of_nat (l2_index va) * SMALL_PAGE_SIZE) = 0"
      using aligned_mult [of 12 "l2_index va"] by simp
  qed simp
  have n: "l1_index va = l1_index (mva m)" using assms(2) in_piece_iff [OF assms(1)] by simp
  have "?b + of_nat (l2_index va) * SMALL_PAGE_SIZE + take_bit 12 va = mpa m + (va - mva m)"
  proof -
    have ring: "v = x + j + r \<Longrightarrow> w = x + o1 \<Longrightarrow> p - o1 + j + r = p + (v - w)" for v w x j r o1 p :: u32
      by simp
    have o1: "take_bit 20 (mpa m) = take_bit 20 (mva m)" using assms(1) by (simp add: page_piece_def)
    show ?thesis unfolding b o1 by (rule ring [OF va_parts(1) [of va, unfolded n] va_parts(2)])
  qed
  then show ?thesis
    using page_entry [OF _ al, of "mattr m" va] assms(1) unfolding e_def area_xlat_def page_piece_def by simp
qed

lemma va_of_indices:
  assumes "n < 4096" "j < 256"
  shows "\<exists>va. l1_index va = n \<and> l2_index va = j"
proof (intro exI conjI)
  let ?va = "of_nat (n * 0x100000 + j * 0x1000) :: u32"
  have "unat ?va = n * 0x100000 + j * 0x1000" using assms by (intro unat_of_nat_small) simp
  then show "l1_index ?va = n" "l2_index ?va = j" using assms(2) by (simp_all add: l1_index_def l2_index_def)
qed

lemma tab_inv_pages:
  assumes inv: "tab_inv s S sec M K t1 t2 u" and pl: "tables_placed s" and pc: "page_piece m"
    and K: "K (l1_index (mva m)) = Some k" "sec (l1_index (mva m)) = bit (mattr m) 11"
  defines "t2' \<equiv> (\<lambda>i. if 256 * k + piece_first m \<le> i \<and> i < 256 * k + piece_end m
    then mattr_to_desc 2 (mattr m) OR ((mpa m AND NOT SECTION_MASK) + of_nat (i - 256 * k) * SMALL_PAGE_SIZE) else t2 i)"
  shows "tab_inv s S sec (add_area m M) K t1 t2' u"
proof -
  let ?n = "l1_index (mva m)"
  have K': "\<And>n k. K n = Some k \<Longrightarrow> k < 8 \<and> t1 n = pt_entry s k (sec n)"
    "\<And>n k j. K n = Some k \<Longrightarrow> j < 256 \<Longrightarrow> t2 (256 * k + j) = 0 \<or> bit (t2 (256 * k + j)) 1 \<and> bit (t2 (256 * k + j)) 4"
    using inv tab_inv_used [OF inv] unfolding tab_inv_def by (blast intro: less_le_trans)+
  have other: "t2' (256 * k' + j) = t2 (256 * k' + j)" if "k' \<noteq> k" "j < 256" for k' j
    using that piece_end_le [OF pc] unfolding t2'_def by (cases "k' < k") auto
  have here: "t2' (256 * k + l2_index va) = (if in_area m va
      then mattr_to_desc 2 (mattr m) OR ((mpa m AND NOT SECTION_MASK) + of_nat (l2_index va) * SMALL_PAGE_SIZE)
      else t2 (256 * k + l2_index va))" if "l1_index va = ?n" for va
    using that by (simp add: t2'_def in_piece_iff [OF pc])
  have w: "walk (l2_ttb_va (mmu s)) t1 t2' va = add_area m M va" for va
  proof (cases "l1_index va = ?n")
    case True
    then have e: "t1 (l1_index va) = pt_entry s k (bit (mattr m) 11)" and k8: "k < 8" using K K'(1) by auto
    have old: "walk (l2_ttb_va (mmu s)) t1 t2 va = M va" using inv by (simp add: tab_inv_def)
    show ?thesis
    proof (cases "in_area m va")
      case False
      then show ?thesis using walk_pt [of s k t1 va "bit (mattr m) 11"] pl k8 e here [OF True] old
        by (simp add: add_area_def)
    qed (use walk_pt [of s k t1 va "bit (mattr m) 11" t2'] pl k8 e here [OF True] page_desc_xlat [OF pc] in
      \<open>simp add: add_area_def Let_def\<close>)
  next
    case False
    have "walk (l2_ttb_va (mmu s)) t1 t2' va = walk (l2_ttb_va (mmu s)) t1 t2 va"
    proof (rule walk_cong [where sec = "sec (l1_index va)", OF refl _ _ pl])
      show "t1 (l1_index va) = 0 \<or> section_like (t1 (l1_index va)) \<or> (\<exists>k < 8. t1 (l1_index va) = pt_entry s k (sec (l1_index va)))"
        using tab_inv_entry [OF inv l1_index_less, of va] by blast
      fix k' assume k': "k' < 8" "t1 (l1_index va) = pt_entry s k' (sec (l1_index va))"
      have "k' \<noteq> k"
      proof
        assume eq: "k' = k"
        from tab_inv_entry [OF inv l1_index_less, of va] obtain k2 where k2: "K (l1_index va) = Some k2" "k2 < 8"
          "t1 (l1_index va) = pt_entry s k2 (sec (l1_index va))"
          using k'(2) pt_entry_bits [OF pl] by (auto simp: section_like_def)
        then have "k2 = k" using k' eq pt_entry_inj [OF pl] by metis
        then show False using k2(1) K(1) False inv by (auto simp: tab_inv_def inj_on_def dom_def)
      qed
      then show "t2' (256 * k' + l2_index va) = t2 (256 * k' + l2_index va)" using other l2_index_less by simp
    qed
    moreover have "\<not> in_area m va" using False in_piece_iff [OF pc] by blast
    ultimately show ?thesis using inv by (simp add: tab_inv_def add_area_def)
  qed
  have pages: "t2' (256 * k' + j) = 0 \<or> bit (t2' (256 * k' + j)) 1 \<and> bit (t2' (256 * k' + j)) 4"
    if "K n = Some k'" "j < 256" for n k' j
  proof (cases "k' = k \<and> piece_first m \<le> j \<and> j < piece_end m")
    case True
    note j = that(2)
    obtain va where v: "l1_index va = ?n" "l2_index va = j" using va_of_indices [OF l1_index_less j] by blast
    then have "in_area m va" using True in_piece_iff [OF pc] by simp
    then show ?thesis using here [OF v(1)] page_desc_xlat [OF pc \<open>in_area m va\<close>] True unfolding v(2) by simp
  next
    case False
    then have "t2' (256 * k' + j) = t2 (256 * k' + j)" using other [of k' j] that by (cases "k' = k") (auto simp: t2'_def)
    then show ?thesis using K'(2) [OF that] by simp
  qed
  show ?thesis unfolding tab_inv_def
  proof (intro conjI allI impI)
    fix n k' assume n: "K n = Some k'"
    show "k' < u" "t1 n = pt_entry s k' (sec n)" using inv n unfolding tab_inv_def by blast+
    fix j :: nat assume "j < 256"
    then show "t2' (256 * k' + j) = 0 \<or> bit (t2' (256 * k' + j)) 1 \<and> bit (t2' (256 * k' + j)) 4"
      by (rule pages [OF n])
  qed (use inv w in \<open>simp_all add: tab_inv_def\<close>)
qed

text \<open>One piece: the second-level table is found or made, filled, and entered in the first level.\<close>

lemma table_attr:
  assumes "attr_ok a"
  shows "mattr_to_desc 1 (a OR TEE_MATTR_TABLE) = (if bit a 11 then 1 else 9)"
  using assms by (auto simp: mattr_to_desc_def attr_ok_def mask_simps bit_or_iff bit_pow2 del: One_nat_def)

lemma offset_nat: "unat (mva m AND SECTION_MASK) = unat (mva m) mod 0x100000"
  using unat_take_bit32 [of 20 "mva m"] by (simp add: take_bit_eq_mask mask_eq_exp_minus_1)

lemma unat_drop_bit32: "unat (drop_bit n (w :: u32)) = unat w div 2 ^ n"
  by (metis drop_bit_eq_div unat_drop_bit_eq)

lemma round_section:
  assumes "0 < unat z" "unat z \<le> 0x100000"
  shows "unat (ROUNDUP z SECTION_SIZE) = 0x100000" "unat (drop_bit 20 (ROUNDUP z SECTION_SIZE)) = 1"
proof -
  let ?w = "z + 0xFFFFF"
  have w: "unat ?w = unat z + 0xFFFFF" using assms by (simp add: unat_add32)
  have mod: "unat ?w mod 0x100000 = unat ?w - 0x100000"
    using assms unfolding w by (simp add: mod_if)
  have "ROUNDUP z SECTION_SIZE = ?w - take_bit 20 ?w"
    using round_parts [of ?w 20] by (simp add: ROUNDUP_def mask_eq_exp_minus_1)
  then show 1: "unat (ROUNDUP z SECTION_SIZE) = 0x100000"
    using assms w mod by (simp add: unat_sub32 unat_take_bit32)
  show "unat (drop_bit 20 (ROUNDUP z SECTION_SIZE)) = 1"
    unfolding unat_drop_bit32 1 by simp
qed

lemma piece_bounds:
  assumes "page_piece m"
  shows "unat (mva m AND SECTION_MASK) div 0x1000 = piece_first m"
    "(unat (msize m + (mva m AND SECTION_MASK)) + 0xFFF) div 0x1000 = piece_end m"
    "unat (msize m) \<le> 0x100000"
proof -
  have le: "unat (mva m) mod 0x100000 + unat (msize m) \<le> 0x100000" using assms by (simp add: page_piece_def)
  then show "unat (msize m) \<le> 0x100000" by simp
  show "unat (mva m AND SECTION_MASK) div 0x1000 = piece_first m" by (simp only: offset_nat)
  have "unat (msize m + (mva m AND SECTION_MASK)) = unat (mva m) mod 0x100000 + unat (msize m)"
    unfolding unat_add32 offset_nat using le by auto
  moreover have "0x1000 dvd unat (mva m) mod 0x100000 + unat (msize m)"
    using assms by (auto simp: page_piece_def intro!: dvd_add dvd_mod)
  ultimately show "(unat (msize m + (mva m AND SECTION_MASK)) + 0xFFF) div 0x1000 = piece_end m"
    by (auto elim!: dvdE)
qed

lemma page_desc_nonzero: "attr_ok a \<Longrightarrow> mattr_to_desc 2 a \<noteq> 0"
  using small_page_desc_bits [of "imply_access a" 1] by (auto simp: attr_ok_desc simp del: One_nat_def)

abbreviation (input) piece_pages :: "tee_mmap_region \<Rightarrow> nat \<Rightarrow> (nat \<Rightarrow> u32) \<Rightarrow> nat \<Rightarrow> u32" where
  "piece_pages m k t2 \<equiv> (\<lambda>i. if 256 * k + piece_first m \<le> i \<and> i < 256 * k + piece_end m
    then mattr_to_desc 2 (mattr m) OR ((mpa m AND NOT SECTION_MASK) + of_nat (i - 256 * k) * SMALL_PAGE_SIZE) else t2 i)"

lemma fill_table_wp:
  assumes pl: "tables_placed s" and k: "k < 8" and pc: "page_piece m"
    and zero: "\<forall>j. piece_first m \<le> j \<and> j < piece_end m \<longrightarrow> main_mmu_l2_ttb (mmu s) (256 * k + j) = 0"
    and Q: "Q (l2_table s k) (set_tabs (main_mmu_l1_ttb (mmu s)) (piece_pages m k (main_mmu_l2_ttb (mmu s))) (tables_used (mmu s)) s)"
  shows "wp (thenM (cassert (l2_table s k \<noteq> 0)) (
     let off = mva m AND SECTION_MASK in
     thenM (set_pages (l2_table s k) (mattr_to_desc 2 (mattr m)) (mpa m AND NOT SECTION_MASK)
       (unat off div 0x1000) ((unat (msize m + off) + 0xFFF) div 0x1000)) (virt_to_phys (l2_table s k)))) Q s"
proof -
  have flat: "flat_at s (l2_table s k)" using pl k by (simp add: tables_placed_def)
  have nz: "l2_table s k \<noteq> 0" using flat by (simp add: flat_at_def)
  have at: "mattr_to_desc 2 (mattr m) \<noteq> 0" using pc by (simp add: page_piece_def page_desc_nonzero)
  have v: "wp (virt_to_phys (l2_table s k)) Q (set_tabs t1 t2 u s) = Q (l2_table s k) (set_tabs t1 t2 u s)" for t1 t2 u
    using virt_to_phys_flat [of "set_tabs t1 t2 u s" "l2_table s k"] pl k
      placed_set_tabs [of t1 t2 u s] by (simp add: wp_def tables_placed_def)
  show ?thesis
    unfolding wp_thenM wp_cassert Let_def piece_bounds [OF pc]
    by (intro conjI impI nz wp_mono [OF set_pages_wp [OF pl k piece_end_le [OF pc] at zero]])
      (use Q in \<open>simp only: v\<close>)
qed

text \<open>The second-level table of a piece is found or made, filled, and entered in the first level.\<close>

lemma alloc_l2_wp:
  assumes "unat (ROUNDUP z SECTION_SIZE) = 0x100000" "tables_used (mmu s) < 8"
    and "Q (l2_table s (tables_used (mmu s))) (set_tabs (main_mmu_l1_ttb (mmu s))
      (\<lambda>i. if 256 * tables_used (mmu s) \<le> i \<and> i < 256 * (tables_used (mmu s) + 1) then 0 else main_mmu_l2_ttb (mmu s) i)
      (tables_used (mmu s) + 1) s)"
  shows "wp (core_mmu_alloc_l2 z) Q s"
  using assms by (simp add: core_mmu_alloc_l2_def wp_simps set_tabs_def l2_table_def)

lemma map_piece_wp:
  assumes inv: "tab_inv s S sec M K (main_mmu_l1_ttb (mmu s)) (main_mmu_l2_ttb (mmu s)) (tables_used (mmu s))"
    and pl: "tables_placed s" and pc: "page_piece m"
    and n: "l1_index (mva m) \<in> S" "sec (l1_index (mva m)) = bit (mattr m) 11"
    and free: "\<And>va. in_area m va \<Longrightarrow> M va = None"
  shows "wp (map_page_memarea_in_pgdirs m (l1_ttb_va (mmu s))) (\<lambda>_ t. \<exists>K t1 t2 u. t = set_tabs t1 t2 u s
     \<and> tab_inv s S sec (add_area m M) K t1 t2 u) s"
proof -
  let ?n = "l1_index (mva m)" and ?t1 = "main_mmu_l1_ttb (mmu s)" and ?t2 = "main_mmu_l2_ttb (mmu s)"
    and ?u = "tables_used (mmu s)"
  let ?z = "\<lambda>i. if 256 * ?u \<le> i \<and> i < 256 * (?u + 1) then 0 else ?t2 i"
  have ok: "attr_ok (mattr m)" "0 < unat (msize m)" using pc by (auto simp: page_piece_def)
  note rs = round_section [OF ok(2) piece_bounds(3) [OF pc]]
  have idx: "unat (drop_bit 20 (mva m)) = ?n" by (simp add: unat_drop_bit32 l1_index_def)
  have valid: "mattr m AND TEE_MATTR_VALID_BLOCK \<noteq> 0" "msize m \<noteq> 0" using ok by (auto simp: attr_ok_def mask_simps)
  define Q where "Q = (\<lambda>(_ :: unit) t. \<exists>K t1 t2 u. t = set_tabs t1 t2 u s \<and> tab_inv s S sec (add_area m M) K t1 t2 u)"
  let ?R = "\<lambda>pa. wp (set_sections (l1_ttb_va (mmu s)) ?n pa (if bit (mattr m) 11 then 1 else 9) 1) Q"
  have enter: "wp (set_sections (l1_ttb_va (mmu s)) ?n (l2_table s k) (if bit (mattr m) 11 then 1 else 9) 1) Q (set_tabs ?t1 t2 u s)"
    if "?t1 ?n = 0 \<or> ?t1 ?n = pt_entry s k (bit (mattr m) 11)"
      "tab_inv s S sec (add_area m M) K' (?t1(?n := pt_entry s k (bit (mattr m) 11))) t2 u" for k t2 u K'
  proof -
    let ?s = "set_tabs ?t1 t2 u s"
    define d :: u32 where "d = (if bit (mattr m) 11 then 1 else 9)"
    have e: "pt_entry s k (bit (mattr m) 11) = l2_table s k OR d" by (simp add: pt_entry_def d_def)
    have f: "(\<lambda>i. if ?n \<le> i \<and> i < ?n + 1 then (l2_table s k + of_nat (i - ?n) * SECTION_SIZE) OR d else ?t1 i) =
        ?t1(?n := pt_entry s k (bit (mattr m) 11))" by (auto simp: fun_eq_iff e)
    have "wp (set_sections (l1_ttb_va (mmu ?s)) ?n (l2_table s k) d 1) (\<lambda>_ t. t =
        set_tabs (?t1(?n := pt_entry s k (bit (mattr m) 11))) t2 u s) ?s"
      using set_sections_wp [of ?n 1 d ?s "l2_table s k", unfolded set_tabs_sel f] that(1) l1_index_less [of "mva m"]
      by (simp add: e)
    then have "wp (set_sections (l1_ttb_va (mmu s)) ?n (l2_table s k) d 1) (\<lambda>_ t. t =
        set_tabs (?t1(?n := pt_entry s k (bit (mattr m) 11))) t2 u s) ?s" by simp
    then show ?thesis unfolding Q_def d_def by (rule wp_mono) (use that(2) in blast)
  qed
  have pages: "wp (map_page_memarea m (?t1 ?n)) (\<lambda>pa. wp (set_sections (l1_ttb_va (mmu s)) ?n pa (if bit (mattr m) 11 then 1 else 9) 1) Q) s"
    using tab_inv_entry [OF inv l1_index_less, of "mva m"]
  proof (elim disjE exE conjE)
    assume "K ?n = None" "section_like (?t1 ?n)"
    then have "M (mva m) \<noteq> None" using walk_section [of ?t1 "mva m"] inv unfolding tab_inv_def by metis
    then show ?thesis using free [of "mva m"] ok(2) by (simp add: in_area_def)
  next
    assume z: "K ?n = None" "?t1 ?n = 0"
    note al = tab_inv_alloc [OF inv pl l1_index_less z n(1)]
    let ?s = "set_tabs ?t1 ?z (?u + 1) s"
    have "tab_inv s S sec (add_area m M) (K(?n \<mapsto> ?u)) (?t1(?n := pt_entry s ?u (sec ?n))) (piece_pages m ?u ?z) (?u + 1)"
      by (rule tab_inv_pages [OF al(2) pl pc]) (use n in simp_all)
    then have "wp (set_sections (l1_ttb_va (mmu s)) ?n (l2_table s ?u) (if bit (mattr m) 11 then 1 else 9) 1) Q
        (set_tabs ?t1 (piece_pages m ?u ?z) (?u + 1) s)" using z n by (intro enter) simp_all
    note fill = fill_table_wp [of ?s ?u m ?R, unfolded set_tabs_sel placed_set_tabs, OF pl al(1) pc _ this]
    have "\<forall>j. piece_first m \<le> j \<and> j < piece_end m \<longrightarrow> ?z (256 * ?u + j) = 0"
      using piece_end_le [OF pc] by auto
    from fill [OF this] show ?thesis
      unfolding map_page_memarea_def wp_bindM z(2) if_P [OF refl] by (rule alloc_l2_wp [OF rs(1) al(1)])
  next
    fix k assume k: "k < 8" "K ?n = Some k" "?t1 ?n = pt_entry s k (sec ?n)"
    have zero: "\<forall>j. piece_first m \<le> j \<and> j < piece_end m \<longrightarrow> ?t2 (256 * k + j) = 0"
    proof (intro allI impI)
      fix j assume j: "piece_first m \<le> j \<and> j < piece_end m"
      then have j256: "j < 256" using piece_end_le [OF pc] by simp
      obtain va where va: "l1_index va = ?n" "l2_index va = j" using va_of_indices [OF l1_index_less j256] by blast
      then have "M va = None" using free in_piece_iff [OF pc] j by simp
      then have "walk (l2_ttb_va (mmu s)) ?t1 ?t2 va = None" using inv by (simp add: tab_inv_def)
      then have "\<not> (bit (?t2 (256 * k + j)) 1 \<and> bit (?t2 (256 * k + j)) 4)"
        using walk_pt [of s k ?t1 va "sec ?n" ?t2] pl k va by (auto simp: Let_def page_xlat_def split: if_splits)
      then show "?t2 (256 * k + j) = 0" using inv k(2) j256 unfolding tab_inv_def by blast
    qed
    have pt: "?t1 ?n = pt_entry s k (bit (mattr m) 11)" using k(3) n(2) by simp
    have "tab_inv s S sec (add_area m M) K ?t1 (piece_pages m k ?t2) ?u"
      by (rule tab_inv_pages [OF inv pl pc k(2) n(2)])
    then have "wp (set_sections (l1_ttb_va (mmu s)) ?n (l2_table s k) (if bit (mattr m) 11 then 1 else 9) 1) Q
        (set_tabs ?t1 (piece_pages m k ?t2) ?u s)" using pt by (intro enter) (simp_all add: fun_upd_idem)
    note fill = fill_table_wp [of s k m ?R, OF pl k(1) pc zero this]
    have nz: "?t1 ?n \<noteq> 0" using k(3) pt_entry_bits(5) [OF pl] by simp
    have "?t1 ?n AND NOT 0x3FF = l2_table s k"
      using k(3) pt_entry_bits(4) [OF pl, of k "sec ?n"] by (simp add: mask_eq_exp_minus_1)
    then have "phys_to_virt (?t1 ?n AND NOT 0x3FF) MEM_AREA_TEE_RAM_RW s = Inr (l2_table s k, s)"
      using phys_to_virt_flat [of s "l2_table s k"] pl k(1) by (simp add: tables_placed_def)
    then have "wp (phys_to_virt (?t1 ?n AND NOT 0x3FF) MEM_AREA_TEE_RAM_RW) R s = R (l2_table s k) s" for R
      by (simp add: wp_def)
    then show ?thesis unfolding map_page_memarea_def wp_bindM using nz fill by (simp only: if_False)
  qed
  show ?thesis
    unfolding map_page_memarea_in_pgdirs_def Let_def idx rs table_attr [OF ok(1)] Q_def [symmetric]
    using pages valid l1_index_less [of "mva m"] by (simp add: wp_bindM wp_if table_l1_wp wp_ret)
qed

lemma tab_inv_set_tabs [simp]: "tab_inv (set_tabs t1' t2' u' s) = tab_inv s"
  by (intro ext) (simp add: tab_inv_def pt_entry_def)

lemma take_bit_add_cong:
  assumes "take_bit n a = take_bit n b" "n \<le> 32"
  shows "take_bit n (a + c) = take_bit n (b + c :: u32)"
proof -
  have "(2 :: nat) ^ n dvd 2 ^ 32" by (rule le_imp_power_dvd) (rule assms(2))
  then have m: "unat (x + c) mod 2 ^ n = (unat x mod 2 ^ n + unat c) mod 2 ^ n" for x :: u32
    by (simp add: unat_word_ariths(1) mod_mod_cancel mod_add_left_eq)
  have "unat a mod 2 ^ n = unat b mod 2 ^ n" using arg_cong [OF assms(1), of unat] by (simp only: unat_take_bit32)
  then have "unat (take_bit n (a + c)) = unat (take_bit n (b + c))" by (simp only: unat_take_bit32 m)
  then show ?thesis by (simp only: word_unat_eq_iff)
qed

text \<open>An area that page tables map, and where it lies.\<close>

definition page_area :: "nat set \<Rightarrow> (nat \<Rightarrow> bool) \<Rightarrow> tee_mmap_region \<Rightarrow> bool" where
  "page_area S sec m \<longleftrightarrow> attr_ok (mattr m) \<and> take_bit 12 (mva m) = 0 \<and> take_bit 12 (msize m) = 0
     \<and> take_bit 20 (mpa m) = take_bit 20 (mva m) \<and> unat (mva m) + unat (msize m) \<le> 2 ^ 32
     \<and> (\<forall>va. in_area m va \<longrightarrow> l1_index va \<in> S \<and> sec (l1_index va) = bit (mattr m) 11)"

lemma first_piece:
  fixes m :: tee_mmap_region
  assumes "page_area S sec m" "msize m \<noteq> 0"
  defines "n \<equiv> piece_size (mva m) (msize m)"
  defines "m1 \<equiv> m\<lparr>msize := n\<rparr>" and "m2 \<equiv> m\<lparr>msize := msize m - n, mpa := mpa m + n, mva := mva m + n\<rparr>"
  shows "page_piece m1" "l1_index (mva m1) \<in> S" "sec (l1_index (mva m1)) = bit (mattr m1) 11"
    "page_area S sec m2" "in_area m va \<longleftrightarrow> in_area m1 va \<or> in_area m2 va" "\<not> (in_area m1 va \<and> in_area m2 va)"
    "area_xlat m1 va = area_xlat m va" "area_xlat m2 va = area_xlat m va"
proof -
  define a z where "a = unat (mva m)" and "z = unat (msize m)"
  have al: "0x1000 dvd a" "0x1000 dvd z" and az: "a + z \<le> 2 ^ 32"
    using assms(1) by (simp_all add: page_area_def aligned_dvd a_def z_def)
  have z0: "0 < z" using assms(2) by (simp add: z_def unat_gt_0)
  have n: "unat n = min z (0x100000 - a mod 0x100000)" unfolding n_def piece_size_nat a_def z_def ..
  have n0: "0 < unat n" "unat n \<le> z" "a mod 0x100000 + unat n \<le> 0x100000" using z0 unfolding n by simp_all
  have "0x1000 dvd 0x100000 - a mod 0x100000" using al(1) by (intro dvd_diff_nat dvd_mod) simp_all
  then have nal: "0x1000 dvd unat n" using al unfolding n by (simp add: min_def)
  have zn: "unat (msize m - n) = z - unat n" using n0 by (simp add: unat_sub32 z_def)
  have an: "unat (mva m + n) = a + unat n" if "unat n < z" using that az by (simp add: unat_add32 a_def)
  have in1: "in_area m1 va \<longleftrightarrow> a \<le> unat va \<and> unat va < a + unat n" for va by (simp add: in_area_def m1_def a_def)
  have in2: "in_area m2 va \<longleftrightarrow> a + unat n \<le> unat va \<and> unat va < a + z" for va
  proof (cases "unat n < z")
    case True
    then show ?thesis by (simp add: in_area_def m2_def an zn)
  next
    case False
    then show ?thesis using n0 by (auto simp: in_area_def m2_def zn)
  qed
  have in0: "in_area m va \<longleftrightarrow> a \<le> unat va \<and> unat va < a + z" for va by (simp add: in_area_def a_def z_def)
  show un: "in_area m va \<longleftrightarrow> in_area m1 va \<or> in_area m2 va" and "\<not> (in_area m1 va \<and> in_area m2 va)" for va
    using n0 unfolding in0 in1 in2 by auto
  show "page_piece m1"
    using assms(1) n0 nal al by (simp add: page_piece_def page_area_def m1_def a_def)
  have "in_area m (mva m)" using z0 unfolding in0 by (simp add: a_def)
  then show "l1_index (mva m1) \<in> S" "sec (l1_index (mva m1)) = bit (mattr m1) 11"
    using assms(1) by (simp_all add: page_area_def m1_def)
  have t: "take_bit 12 n = 0" using nal by (simp add: aligned_dvd)
  have "take_bit 12 (msize m - n) = 0"
    unfolding aligned_dvd zn using al nal by simp
  moreover have "unat (mva m2) + unat (msize m2) \<le> 2 ^ 32"
    using az an n0 unat_lt [of "mva m2"] by (cases "unat n < z") (simp_all add: m2_def zn)
  moreover have "take_bit 20 (mpa m + n) = take_bit 20 (mva m + n)"
    by (rule take_bit_add_cong) (use assms(1) in \<open>simp_all add: page_area_def\<close>)
  ultimately show "page_area S sec m2"
    using assms(1) t un unfolding page_area_def by (auto simp: m2_def intro: aligned_add)
  show "area_xlat m1 va = area_xlat m va" "area_xlat m2 va = area_xlat m va"
    by (simp_all add: area_xlat_def m1_def m2_def)
qed

lemma map_pieces_msize: "map_pieces (m\<lparr>msize := x\<rparr>) sz ttb = map_pieces m sz ttb"
  by (subst (1 2) map_pieces.simps) (simp add: Let_def)

lemma map_pieces_wp:
  assumes "page_area S sec m" "tables_placed s"
    "tab_inv s S sec M K (main_mmu_l1_ttb (mmu s)) (main_mmu_l2_ttb (mmu s)) (tables_used (mmu s))"
    "\<And>va. in_area m va \<Longrightarrow> M va = None"
  shows "wp (map_pieces m (msize m) (l1_ttb_va (mmu s))) (\<lambda>_ t. \<exists>K t1 t2 u. t = set_tabs t1 t2 u s
     \<and> tab_inv s S sec (add_area m M) K t1 t2 u) s"
  using assms
proof (induction "unat (msize m)" arbitrary: m M K s rule: less_induct)
  case less
  show ?case
  proof (cases "msize m = 0")
    case True
    then have "add_area m M = M" by (auto simp: add_area_def in_area_def fun_eq_iff)
    moreover have "s = set_tabs (main_mmu_l1_ttb (mmu s)) (main_mmu_l2_ttb (mmu s)) (tables_used (mmu s)) s"
      by (simp add: set_tabs_same)
    ultimately show ?thesis using True less.prems(3)
      by (subst map_pieces.simps) (simp add: wp_ret, blast)
  next
    case False
    define n where "n = piece_size (mva m) (msize m)"
    define m1 m2 where "m1 = m\<lparr>msize := n\<rparr>" and "m2 = m\<lparr>msize := msize m - n, mpa := mpa m + n, mva := mva m + n\<rparr>"
    note fp = first_piece [OF less.prems(1) False, folded n_def, folded m1_def m2_def]
    have smaller: "unat (msize m2) < unat (msize m)"
      using piece_size_pos [OF False, of "mva m"] by (simp add: m2_def n_def unat_sub32)
    have rest: "wp (map_pieces m2 (msize m2) (l1_ttb_va (mmu s))) (\<lambda>_ t. \<exists>K t1 t2 u. t = set_tabs t1 t2 u s
        \<and> tab_inv s S sec (add_area m M) K t1 t2 u) (set_tabs t1 t2 u s)"
      if "tab_inv s S sec (add_area m1 M) K' t1 t2 u" for K' t1 t2 u
    proof -
      have eq: "add_area m2 (add_area m1 M) = add_area m M"
        using fp(5-8) by (auto simp: add_area_def fun_eq_iff)
      have free: "add_area m1 M va = None" if "in_area m2 va" for va
        using that fp(5,6) less.prems(4) by (auto simp: add_area_def)
      from less.hyps [OF smaller fp(4), of "set_tabs t1 t2 u s" "add_area m1 M" K'] less.prems(2) that free eq
      show ?thesis by simp
    qed
    have "wp (map_page_memarea_in_pgdirs m1 (l1_ttb_va (mmu s))) (\<lambda>_ t. \<exists>K t1 t2 u. t = set_tabs t1 t2 u s
        \<and> tab_inv s S sec (add_area m1 M) K t1 t2 u) s"
      by (rule map_piece_wp [OF less.prems(3,2) fp(1-3)]) (use fp(5) less.prems(4) in blast)
    then have "wp (map_page_memarea_in_pgdirs m1 (l1_ttb_va (mmu s)))
        (\<lambda>_. wp (map_pieces m2 (msize m2) (l1_ttb_va (mmu s))) (\<lambda>_ t. \<exists>K t1 t2 u. t = set_tabs t1 t2 u s
        \<and> tab_inv s S sec (add_area m M) K t1 t2 u)) s"
      by (rule wp_mono) (use rest in blast)
    moreover have "map_pieces m (msize m) ttb = thenM (map_page_memarea_in_pgdirs m1 ttb) (map_pieces m2 (msize m2) ttb)" for ttb
      using False map_pieces_msize [where m = "m\<lparr>mpa := mpa m + n, mva := mva m + n\<rparr>" and x = n]
        map_pieces_msize [where m = "m\<lparr>mpa := mpa m + n, mva := mva m + n\<rparr>" and x = "msize m - n"]
      by (subst map_pieces.simps) (simp add: Let_def m1_def m2_def n_def)
    ultimately show ?thesis by (simp add: wp_thenM)
  qed
qed

text \<open>An area mapped by sections: its sections have no page tables.\<close>

definition section_area :: "nat set \<Rightarrow> tee_mmap_region \<Rightarrow> bool" where
  "section_area S m \<longleftrightarrow> attr_ok (mattr m) \<and> 0 < unat (msize m) \<and> take_bit 20 (mva m) = 0
     \<and> take_bit 20 (msize m) = 0 \<and> take_bit 20 (mpa m) = 0 \<and> unat (mva m) + unat (msize m) \<le> 2 ^ 32
     \<and> (\<forall>va. in_area m va \<longrightarrow> l1_index va \<notin> S)"

abbreviation (input) area_sections :: "tee_mmap_region \<Rightarrow> nat" where
  "area_sections m \<equiv> unat (msize m) div 0x100000"

lemma in_section_area_iff:
  assumes "section_area S m"
  shows "in_area m va \<longleftrightarrow> l1_index (mva m) \<le> l1_index va \<and> l1_index va < l1_index (mva m) + area_sections m"
proof -
  obtain a z where az: "unat (mva m) = 0x100000 * a" "unat (msize m) = 0x100000 * z"
    using assms unfolding section_area_def aligned_dvd by (auto elim!: dvdE)
  have v: "unat va = l1_index va * 0x100000 + unat va mod 0x100000" "unat va mod 0x100000 < 0x100000"
    by (simp_all add: l1_index_def)
  have "l1_index (mva m) = a" by (simp add: l1_index_def az)
  then show ?thesis unfolding in_area_def az using v by auto
qed

lemma section_area_fits:
  assumes "section_area S m"
  shows "l1_index (mva m) + area_sections m \<le> 4096"
  using assms unfolding section_area_def aligned_dvd l1_index_def by (auto elim!: dvdE)

lemma round_aligned:
  assumes "take_bit 20 z = 0"
  shows "ROUNDUP z SECTION_SIZE = z"
proof -
  let ?w = "z + 0xFFFFF"
  obtain k where k: "unat z = 0x100000 * k" using assms by (auto simp: aligned_dvd elim!: dvdE)
  then have w: "unat ?w = 0x100000 * k + 0xFFFFF" using unat_lt32 [of z] by (simp add: unat_add32)
  have "take_bit 20 ?w = 0xFFFFF" by (simp add: word_unat_eq_iff unat_take_bit32 w)
  then show ?thesis using round_parts [of ?w 20] by (simp add: ROUNDUP_def mask_eq_exp_minus_1)
qed

lemma section_area_xlat:
  assumes "section_area S m" "in_area m va"
  defines "d \<equiv> (mpa m + of_nat (l1_index va - l1_index (mva m)) * SECTION_SIZE) OR mattr_to_desc 1 (mattr m)"
  shows "section_like d \<and> section_xlat d va = Some (area_xlat m va)"
proof -
  let ?k = "l1_index va - l1_index (mva m)"
  have ok: "attr_ok (mattr m)" "take_bit 20 (mpa m) = 0" "take_bit 20 (mva m) = 0" using assms(1) by (simp_all add: section_area_def)
  have al: "take_bit 20 (mpa m + of_nat ?k * SECTION_SIZE) = 0"
    by (rule aligned_add) (use ok aligned_mult [of 20 ?k] in simp_all)
  have "l1_index va = l1_index (mva m) + ?k" using in_section_area_iff [OF assms(1)] assms(2) by simp
  then have "va = of_nat (l1_index (mva m)) * SECTION_SIZE + of_nat ?k * SECTION_SIZE + take_bit 20 va"
    using va_parts(2) [of va] by (metis of_nat_add distrib_right)
  moreover have "mva m = of_nat (l1_index (mva m)) * SECTION_SIZE" using va_parts(2) [of "mva m"] ok(3) by simp
  moreover have "v = x + j + r \<Longrightarrow> w = x \<Longrightarrow> v - w = j + r" for v w x j r :: u32 by simp
  ultimately have "va - mva m = of_nat ?k * SECTION_SIZE + take_bit 20 va" by blast
  then show ?thesis using section_entry [OF ok(1) al, of va]
    by (simp add: d_def section_like_def area_xlat_def add.assoc del: One_nat_def)
qed

lemma tab_inv_sections:
  assumes inv: "tab_inv s S sec M K t1 t2 u" and pl: "tables_placed s" and ar: "section_area S m"
  defines "t1' \<equiv> (\<lambda>i. if l1_index (mva m) \<le> i \<and> i < l1_index (mva m) + area_sections m
    then (mpa m + of_nat (i - l1_index (mva m)) * SECTION_SIZE) OR mattr_to_desc 1 (mattr m) else t1 i)"
  shows "tab_inv s S sec (add_area m M) K t1' t2 u"
proof -
  have new: "section_like (t1' (l1_index va)) \<and> section_xlat (t1' (l1_index va)) va = Some (area_xlat m va)" if "in_area m va" for va
    using section_area_xlat [OF ar that] that unfolding t1'_def in_section_area_iff [OF ar] by simp
  have old: "t1' (l1_index va) = t1 (l1_index va)" if "\<not> in_area m va" for va
    using that unfolding in_section_area_iff [OF ar] by (simp only: t1'_def if_False)
  have at: "\<exists>va. l1_index va = n" if "n < 4096" for n using va_of_indices [OF that, of 0] by auto
  have w: "walk (l2_ttb_va (mmu s)) t1' t2 va = add_area m M va" for va
  proof (cases "in_area m va")
    case True
    then show ?thesis using walk_section [of t1' va] new by (simp add: add_area_def)
  next
    case False
    then have "walk (l2_ttb_va (mmu s)) t1' t2 va = walk (l2_ttb_va (mmu s)) t1 t2 va"
      by (simp add: walk_def old)
    then show ?thesis using inv False by (simp add: tab_inv_def add_area_def)
  qed
  show ?thesis unfolding tab_inv_def
  proof (intro conjI allI impI)
    fix n k assume n: "K n = Some k"
    then have kn: "k < u" "t1 n = pt_entry s k (sec n)" "n < 4096" "n \<in> S"
      and pg: "\<And>j. j < 256 \<Longrightarrow> t2 (256 * k + j) = 0 \<or> bit (t2 (256 * k + j)) 1 \<and> bit (t2 (256 * k + j)) 4"
      using inv unfolding tab_inv_def by blast+
    show "k < u" by (rule kn)
    obtain va where va: "l1_index va = n" using at [OF kn(3)] by blast
    then have "\<not> in_area m va" using ar kn(4) by (auto simp: section_area_def)
    then show "t1' n = pt_entry s k (sec n)" using old va kn(2) by metis
    show "t2 (256 * k + j) = 0 \<or> bit (t2 (256 * k + j)) 1 \<and> bit (t2 (256 * k + j)) 4" if "j < 256" for j using that by (rule pg)
  next
    fix n assume n: "n < 4096" "K n = None"
    obtain va where va: "l1_index va = n" using at [OF n(1)] by blast
    then show "t1' n = 0 \<or> section_like (t1' n)"
      using new [of va] old [of va] inv n unfolding tab_inv_def by (cases "in_area m va") auto
  qed (use inv w in \<open>simp_all add: tab_inv_def\<close>)
qed

lemma map_sections_wp:
  assumes ar: "section_area S m" and pl: "tables_placed s"
    and inv: "tab_inv s S sec M K (main_mmu_l1_ttb (mmu s)) (main_mmu_l2_ttb (mmu s)) (tables_used (mmu s))"
    and free: "\<And>va. in_area m va \<Longrightarrow> M va = None"
  shows "wp (map_memarea_sections m (l1_ttb_va (mmu s))) (\<lambda>_ t. \<exists>K t1 t2 u. t = set_tabs t1 t2 u s
     \<and> tab_inv s S sec (add_area m M) K t1 t2 u) s"
proof -
  let ?t1 = "main_mmu_l1_ttb (mmu s)" and ?n = "l1_index (mva m)"
  have zero: "?t1 (?n + k) = 0" if "k < area_sections m" for k
  proof -
    have lt: "?n + k < 4096" using that section_area_fits [OF ar] by simp
    obtain va where va: "l1_index va = ?n + k" using va_of_indices [OF lt, of 0] by auto
    have ia: "in_area m va" using va that in_section_area_iff [OF ar] by simp
    then have "?n + k \<notin> S" "M va = None" using ar va free by (auto simp: section_area_def)
    moreover from this(1) have "K (?n + k) = None" using inv by (auto simp: tab_inv_def)
    moreover have "walk (l2_ttb_va (mmu s)) ?t1 (main_mmu_l2_ttb (mmu s)) va = M va" using inv by (simp add: tab_inv_def)
    ultimately show ?thesis using tab_inv_entry [OF inv lt] walk_section [of ?t1 va] va by auto
  qed
  have ok: "attr_ok (mattr m)" "msize m \<noteq> 0" "take_bit 20 (msize m) = 0" using ar by (auto simp: section_area_def)
  have nz: "mattr_to_desc 1 (mattr m) \<noteq> 0"
    using section_desc_bits [of "imply_access (mattr m)" 1] by (auto simp: attr_ok_desc [OF ok(1)] simp del: One_nat_def)
  have idx: "unat (drop_bit 20 (mva m)) = ?n" by (simp add: unat_drop_bit32 l1_index_def)
  have cnt: "unat (drop_bit 20 (ROUNDUP (msize m) SECTION_SIZE)) = area_sections m"
    unfolding round_aligned [OF ok(3)] by (simp add: unat_drop_bit32)
  have "wp (set_sections (l1_ttb_va (mmu s)) ?n (mpa m) (mattr_to_desc 1 (mattr m)) (area_sections m))
    (\<lambda>_ t. \<exists>K t1 t2 u. t = set_tabs t1 t2 u s \<and> tab_inv s S sec (add_area m M) K t1 t2 u) s"
    by (rule wp_mono [OF set_sections_wp [OF section_area_fits [OF ar]]])
      (use zero tab_inv_sections [OF inv pl ar] in blast)+
  then show ?thesis using ok nz by (simp add: map_memarea_sections_def Let_def idx cnt)
qed

section \<open>The whole map\<close>

abbreviation (input) mapped :: "tee_mmap_region \<Rightarrow> bool" where
  "mapped m \<equiv> \<not> core_mmu_is_dynamic_vaspace m"

definition by_sections :: "tee_mmap_region \<Rightarrow> bool" where
  "by_sections m \<longleftrightarrow> take_bit 20 (mva m) = 0 \<and> take_bit 20 (msize m) = 0"

definition area_ok :: "tee_mmap_region \<Rightarrow> bool" where
  "area_ok m \<longleftrightarrow> attr_ok (mattr m) \<and> 0x2000000 \<le> unat (mva m) \<and> unat (mva m) + unat (msize m) \<le> 2 ^ 32
     \<and> take_bit 12 (mva m) = 0 \<and> take_bit 12 (msize m) = 0 \<and> take_bit 20 (mpa m) = take_bit 20 (mva m)"

definition areas_disjoint :: "tee_mmap_region \<Rightarrow> tee_mmap_region \<Rightarrow> bool" where
  "areas_disjoint m m' \<longleftrightarrow> unat (mva m) + unat (msize m) \<le> unat (mva m') \<or> unat (mva m') + unat (msize m') \<le> unat (mva m)"

text \<open>The sections that need a second-level table.\<close>

definition touches :: "tee_mmap_region \<Rightarrow> nat \<Rightarrow> bool" where
  "touches m n \<longleftrightarrow> mapped m \<and> \<not> by_sections m \<and> unat (mva m) < (n + 1) * 0x100000
     \<and> n * 0x100000 < unat (mva m) + unat (msize m)"

definition page_sections :: "tee_mmap_region list \<Rightarrow> nat set" where
  "page_sections ms = {n. n < 4096 \<and> (\<exists>m \<in> set ms. touches m n)}"

definition map_ok :: "tee_mmap_region list \<Rightarrow> bool" where
  "map_ok ms \<longleftrightarrow> (\<forall>m \<in> set ms. msize m \<noteq> 0 \<and> (mapped m \<longrightarrow> area_ok m))
     \<and> sorted_wrt (\<lambda>m m'. mapped m \<and> mapped m' \<longrightarrow> areas_disjoint m m') ms
     \<and> card (page_sections ms) \<le> 8
     \<and> (\<forall>m \<in> set ms. \<forall>m' \<in> set ms. \<forall>n. touches m n \<and> touches m' n \<longrightarrow> bit (mattr m) 11 = bit (mattr m') 11)"

text \<open>What the map asks for: the area that holds the address, if any.\<close>

definition map_spec :: "tee_mmap_region list \<Rightarrow> vaddr \<Rightarrow> xlat option" where
  "map_spec ms va = map_option (\<lambda>m. area_xlat m va) (find (\<lambda>m. mapped m \<and> in_area m va) ms)"

lemma areas_disjoint_in: "areas_disjoint m m' \<Longrightarrow> \<not> (in_area m va \<and> in_area m' va)"
  by (auto simp: areas_disjoint_def in_area_def)

lemma touches_in: "in_area m va \<Longrightarrow> mapped m \<Longrightarrow> \<not> by_sections m \<Longrightarrow> touches m (l1_index va)"
proof -
  have "l1_index va * 0x100000 \<le> unat va" "unat va < (l1_index va + 1) * 0x100000"
    unfolding l1_index_def by (simp_all add: div_times_less_eq_dividend dividend_less_div_times)
  then show "in_area m va \<Longrightarrow> mapped m \<Longrightarrow> \<not> by_sections m \<Longrightarrow> touches m (l1_index va)"
    unfolding touches_def in_area_def by linarith
qed

lemma sorted_wrt_pair:
  "sorted_wrt P xs \<Longrightarrow> x \<in> set xs \<Longrightarrow> y \<in> set xs \<Longrightarrow> x \<noteq> y \<Longrightarrow> P x y \<or> P y x"
  by (induction xs) auto

lemma map_ok_disjoint:
  assumes "map_ok ms" "m \<in> set ms" "m' \<in> set ms" "m \<noteq> m'" "mapped m" "mapped m'"
  shows "areas_disjoint m m'"
  using sorted_wrt_pair [of _ ms m m'] assms unfolding map_ok_def areas_disjoint_def by blast

lemma find_snoc: "find P (xs @ [x]) = (case find P xs of Some y \<Rightarrow> Some y | None \<Rightarrow> if P x then Some x else None)"
  by (induction xs) auto

lemma map_spec_snoc:
  assumes "\<And>va. mapped x \<Longrightarrow> in_area x va \<Longrightarrow> map_spec ys va = None"
  shows "map_spec (ys @ [x]) = (if mapped x then add_area x (map_spec ys) else map_spec ys)"
  using assms by (auto simp: map_spec_def add_area_def find_snoc fun_eq_iff split: option.splits)

lemma map_ok_section_area:
  assumes "map_ok ms" "m \<in> set ms" "mapped m" "by_sections m"
  shows "section_area (page_sections ms) m"
proof -
  have ok: "area_ok m" "msize m \<noteq> 0" using assms by (auto simp: map_ok_def)
  obtain a z where az: "unat (mva m) = 0x100000 * a" "unat (msize m) = 0x100000 * z"
    using assms(4) unfolding by_sections_def aligned_dvd by (auto elim!: dvdE)
  have "l1_index va \<notin> page_sections ms" if "in_area m va" for va
  proof
    assume "l1_index va \<in> page_sections ms"
    then obtain m' where m': "m' \<in> set ms" "touches m' (l1_index va)" by (auto simp: page_sections_def)
    then have "areas_disjoint m m'" using map_ok_disjoint [of ms m m'] assms by (auto simp: touches_def)
    moreover have "a \<le> l1_index va" "l1_index va < a + z"
      using that unfolding in_area_def az l1_index_def by (simp_all add: less_mult_imp_div_less less_eq_div_iff_mult_less_eq)
    ultimately show False using m'(2) unfolding areas_disjoint_def az touches_def by auto
  qed
  then show ?thesis
    using ok assms(4) unfolding section_area_def area_ok_def by_sections_def by (simp add: unat_gt_0)
qed

lemma map_ok_page_area:
  assumes "map_ok ms" "m \<in> set ms" "mapped m" "\<not> by_sections m"
  shows "page_area (page_sections ms) (\<lambda>n. \<exists>m \<in> set ms. touches m n \<and> bit (mattr m) 11) m"
proof -
  have "area_ok m" using assms by (auto simp: map_ok_def)
  moreover have "l1_index va \<in> page_sections ms \<and> (\<exists>m \<in> set ms. touches m (l1_index va) \<and> bit (mattr m) 11) = bit (mattr m) 11"
    if "in_area m va" for va
    using touches_in [OF that assms(3,4)] assms(1,2) l1_index_less [of va] unfolding page_sections_def map_ok_def by blast
  ultimately show ?thesis unfolding page_area_def area_ok_def by simp
qed

lemma or_aligned: "(a OR b OR c) AND mask n = (0 :: u32) \<longleftrightarrow> take_bit n a = 0 \<and> take_bit n b = 0 \<and> take_bit n c = 0"
  by (simp add: take_bit_eq_mask [symmetric] take_bit_or or_eq_0_iff and.assoc)

lemma map_memarea_wp:
  assumes ok: "map_ok ms" and m: "m \<in> set ms" "mapped m" and pl: "tables_placed s"
    and inv: "tab_inv s (page_sections ms) (\<lambda>n. \<exists>m \<in> set ms. touches m n \<and> bit (mattr m) 11) M K
      (main_mmu_l1_ttb (mmu s)) (main_mmu_l2_ttb (mmu s)) (tables_used (mmu s))"
    and free: "\<And>va. in_area m va \<Longrightarrow> M va = None"
  shows "wp (map_memarea m (l1_ttb_va (mmu s))) (\<lambda>_ t. \<exists>K t1 t2 u. t = set_tabs t1 t2 u s
     \<and> tab_inv s (page_sections ms) (\<lambda>n. \<exists>m \<in> set ms. touches m n \<and> bit (mattr m) 11) (add_area m M) K t1 t2 u) s"
proof -
  have a: "area_ok m" using ok m by (auto simp: map_ok_def)
  have m20: "SECTION_MASK = mask 20" and m12: "SMALL_PAGE_MASK = mask 12" by (simp_all add: mask_eq_exp_minus_1)
  have va: "\<not> mva m < 0x2000000" using a by (simp add: area_ok_def word_less_nat_alt)
  have p12: "take_bit 12 (mpa m) = 0"
  proof -
    have "take_bit 12 (take_bit 20 (mpa m)) = take_bit 12 (take_bit 20 (mva m))" using a by (simp add: area_ok_def)
    then show ?thesis using a by (simp add: area_ok_def)
  qed
  show ?thesis
  proof (cases "by_sections m")
    case True
    then have s: "(mva m OR mpa m OR msize m) AND SECTION_MASK = 0"
      unfolding m20 or_aligned using a by (simp add: by_sections_def area_ok_def)
    show ?thesis unfolding map_memarea_def if_not_P [OF va] if_P [OF s]
      by (rule map_sections_wp [OF map_ok_section_area [OF ok m True] pl inv free])
  next
    case False
    then have s: "(mva m OR mpa m OR msize m) AND SECTION_MASK \<noteq> 0"
      unfolding m20 or_aligned by (auto simp: by_sections_def)
    have p: "\<not> (mva m OR mpa m OR msize m) AND SMALL_PAGE_MASK \<noteq> 0"
      unfolding m12 or_aligned using a p12 by (simp add: area_ok_def)
    show ?thesis unfolding map_memarea_def if_not_P [OF va] if_not_P [OF s] if_not_P [OF p]
      by (rule map_pieces_wp [OF map_ok_page_area [OF ok m False] pl inv free])
  qed
qed

lemma core_init_mmu_tables_wp:
  assumes "map_ok ms" "tables_placed s" "tables_used (mmu s) = 0"
  shows "wp (core_init_mmu_tables ms) (\<lambda>_ t. (\<exists>t1 t2 u. t = set_tabs t1 t2 u s) \<and> (\<forall>va.
    walk (l2_ttb_va (mmu t)) (main_mmu_l1_ttb (mmu t)) (main_mmu_l2_ttb (mmu t)) va = map_spec ms va)) s"
proof -
  let ?S = "page_sections ms" and ?sec = "\<lambda>n. \<exists>m \<in> set ms. touches m n \<and> bit (mattr m) 11"
  define s0 where "s0 = set_tabs (\<lambda>_. 0) (main_mmu_l2_ttb (mmu s)) 0 s"
  define I where "I ys t \<longleftrightarrow> (\<exists>K t1 t2 u. t = set_tabs t1 t2 u s \<and> tab_inv s ?S ?sec (map_spec ys) K t1 t2 u)" for ys t
  have "tab_inv s ?S ?sec (map_spec []) Map.empty (\<lambda>_. 0) (main_mmu_l2_ttb (mmu s)) 0"
    using assms(1) by (simp add: tab_inv_def map_ok_def map_spec_def walk_empty page_sections_def)
  then have start: "I [] s0" unfolding I_def s0_def by blast
  have "wp (forM ms (\<lambda>m. whenM (mapped m) (map_memarea m (l1_ttb_va (mmu s))))) (\<lambda>_. I ms) s0"
  proof (rule wp_forM [where I = I, OF start])
    fix ys x zs t
    assume split: "ms = ys @ x # zs" and "I ys t"
    then obtain K t1 t2 u where t: "t = set_tabs t1 t2 u s" "tab_inv s ?S ?sec (map_spec ys) K t1 t2 u"
      unfolding I_def by blast
    have free: "map_spec ys va = None" if x: "mapped x" "in_area x va" for va
    proof -
      have "\<not> (mapped y \<and> in_area y va)" if "y \<in> set ys" for y
        using assms(1) that x areas_disjoint_in [of y x va] unfolding map_ok_def split
        by (auto simp: sorted_wrt_append)
      then show ?thesis by (simp add: map_spec_def find_None_iff)
    qed
    show "wp (whenM (mapped x) (map_memarea x (l1_ttb_va (mmu s)))) (\<lambda>_. I (ys @ [x])) t"
    proof (cases "mapped x")
      case True
      have "wp (map_memarea x (l1_ttb_va (mmu t))) (\<lambda>_ t'. \<exists>K t1 t2 u. t' = set_tabs t1 t2 u t
          \<and> tab_inv t ?S ?sec (add_area x (map_spec ys)) K t1 t2 u) t"
        by (rule map_memarea_wp [OF assms(1) _ True]) (use t assms(2) split free True in simp_all)
      then have "wp (map_memarea x (l1_ttb_va (mmu t))) (\<lambda>_. I (ys @ [x])) t"
        by (rule wp_mono) (auto simp: I_def map_spec_snoc [OF free] True t(1))
      then show ?thesis using True t(1) by (simp add: wp_whenM)
    next
      case False
      have "map_spec (ys @ [x]) = map_spec ys" using map_spec_snoc [of x ys] free False by simp
      then have "I (ys @ [x]) t" unfolding I_def using t by auto
      then show ?thesis using False by (simp add: wp_whenM)
    qed
  qed
  moreover have tw: "takeWhile (\<lambda>m. msize m \<noteq> 0) ms = ms" using assms(1) by (auto simp: map_ok_def takeWhile_eq_all_conv)
  moreover have "s\<lparr>mmu := (mmu s)\<lparr>main_mmu_l1_ttb := \<lambda>_. 0\<rparr>\<rparr> = s0" using assms(3) by (simp add: s0_def set_tabs_def)
  ultimately have "wp (core_init_mmu_tables ms) (\<lambda>_. I ms) s"
    unfolding core_init_mmu_tables_def tw by (simp add: core_mmu_get_main_ttb_va_def wp_simps)
  then show ?thesis by (rule wp_mono) (auto simp: I_def tab_inv_def)
qed

text \<open>C11: The translation tables implement the memory map. Given a map whose areas are page aligned,
  lie above the user address range, do not overlap, have a physical and a virtual address in the same
  position of a section, and need at most eight second-level tables, \<open>core_init_mmu_tables\<close> returns
  without failing an assertion, and then the ARMv7 table walk translates every virtual address of an
  area to its physical address with the write, execute, user, security and cache attributes of the
  area, and faults on every other address.\<close>

theorem core_init_mmu_tables_correct:
  assumes "map_ok ms" "tables_placed s" "tables_used (mmu s) = 0"
  shows "wp (core_init_mmu_tables ms) (\<lambda>_ t. \<forall>va.
    walk (l2_ttb_va (mmu t)) (main_mmu_l1_ttb (mmu t)) (main_mmu_l2_ttb (mmu t)) va = map_spec ms va) s"
  by (rule wp_mono [OF core_init_mmu_tables_wp [OF assms]]) simp

definition mmap :: "teecore_memtypes \<Rightarrow> u32 \<Rightarrow> paddr \<Rightarrow> vaddr \<Rightarrow> u32 \<Rightarrow> u32 \<Rightarrow> tee_mmap_region" where
  "mmap ty rs pa va sz at = \<lparr>mtype = ty, region_size = rs, mpa = pa, mva = va, msize = sz, mattr = at\<rparr>"

lemma mmap_sel [simp]:
  "mtype (mmap ty rs pa va sz at) = ty" "mpa (mmap ty rs pa va sz at) = pa" "mva (mmap ty rs pa va sz at) = va"
  "msize (mmap ty rs pa va sz at) = sz" "mattr (mmap ty rs pa va sz at) = at"
  by (simp_all add: mmap_def)

text \<open>The kernel's own three areas in one section, the devices, and the reserved address space.\<close>

definition map_example :: "tee_mmap_region list" where
  "map_example =
    [mmap MEM_AREA_TEE_RAM_RX 0x1000 0x4C000000 0x4C000000 0x30000 0x1C51,
     mmap MEM_AREA_TEE_RAM_RO 0x1000 0x4C030000 0x4C030000 0x10000 0x1C11,
     mmap MEM_AREA_TEE_RAM_RW 0x1000 0x4C040000 0x4C040000 0xC0000 0x1C31,
     mmap MEM_AREA_IO_SEC 0x100000 0x00100000 0x4C100000 0x03300000 0xC31,
     mmap MEM_AREA_RES_VASPACE 0x100000 0 0x4F400000 0xA00000 0]"

definition map_kernel :: kernel where
  "map_kernel = blank\<lparr>mmu := (mmu blank)\<lparr>static_memory_map := map_example, ats1cpr := (\<lambda>va. va AND 0xFFFFF000)\<rparr>\<rparr>"

lemma map_example_ok: "map_ok map_example"
proof -
  have "page_sections map_example \<subseteq> {0x4C0}"
    by (auto simp: page_sections_def map_example_def touches_def by_sections_def core_mmu_is_dynamic_vaspace_def)
  then have "card (page_sections map_example) \<le> card {0x4C0 :: nat}" by (intro card_mono) simp_all
  then have 1: "card (page_sections map_example) \<le> 8" by simp
  have 2: "\<forall>m \<in> set map_example. mapped m \<longrightarrow> bit (mattr m) 11"
    by (simp add: map_example_def core_mmu_is_dynamic_vaspace_def)
  have 3: "\<forall>m \<in> set map_example. msize m \<noteq> 0 \<and> (mapped m \<longrightarrow> area_ok m)"
    by (simp add: map_example_def area_ok_def attr_ok_def core_mmu_is_dynamic_vaspace_def)
  have 4: "sorted_wrt (\<lambda>m m'. mapped m \<and> mapped m' \<longrightarrow> areas_disjoint m m') map_example"
    by (simp add: map_example_def areas_disjoint_def)
  from 2 have "\<forall>m \<in> set map_example. \<forall>m' \<in> set map_example. \<forall>n. touches m n \<and> touches m' n \<longrightarrow>
      bit (mattr m) 11 = bit (mattr m') 11" unfolding touches_def by blast
  with 1 3 4 show ?thesis unfolding map_ok_def by (intro conjI)
qed

lemma map_kernel_placed: "tables_placed map_kernel"
proof -
  have "list_all (\<lambda>k. flat_at map_kernel (l2_table map_kernel k)) [0..<8]" by code_simp
  then have "\<forall>k < 8. flat_at map_kernel (l2_table map_kernel k)" by (simp only: list_all_iff set_upt) auto
  then show ?thesis by (simp add: tables_placed_def map_kernel_def blank_def excp_masked_def)
qed

lemma core_init_mmu_tables_correct_witness:
  "wp (core_init_mmu_tables map_example) (\<lambda>_ t. \<forall>va.
    walk (l2_ttb_va (mmu t)) (main_mmu_l1_ttb (mmu t)) (main_mmu_l2_ttb (mmu t)) va = map_spec map_example va) map_kernel"
  by (rule core_init_mmu_tables_correct [OF map_example_ok map_kernel_placed])
    (simp add: map_kernel_def blank_def)

end
