(* ===== verification/Mmu_Map.thy ===== *)
theory Mmu_Map
  imports Mmu_Build
begin

text \<open>
  The part of core\_mmu.c that changes translation tables while the system runs: entering a region into a
  table, and \<open>core_mmu_add_mapping\<close>, by which drivers map their registers into the reserved virtual
  address space.
\<close>

section \<open>Operations\<close>

definition set_region :: "core_mmu_table_info \<Rightarrow> tee_mmap_region \<Rightarrow> unit km" where
  "set_region ti region =
     thenM (cassert (core_mmu_get_block_offset ti (mva region) = 0)) (
     thenM (cassert (core_mmu_get_block_offset ti (msize region) = 0)) (
     thenM (cassert (core_mmu_get_block_offset ti (mpa region) = 0)) (
     let idx = core_mmu_va2idx ti (mva region); idx_end = core_mmu_va2idx ti (mva region + msize region) in
     forM [idx ..< idx_end] (\<lambda>i.
       core_mmu_set_entry ti i (mpa region + of_nat (i - idx) * bit32 (tbl_shift ti)) (mattr region)))))"

text \<open>\<open>static_memory_map\<close> has 14 entries; the list holds those in front of the terminating one.\<close>

abbreviation (input) MAX_MMAP_REGIONS :: nat where "MAX_MMAP_REGIONS \<equiv> 13"

definition used_entries :: "tee_mmap_region list \<Rightarrow> tee_mmap_region list" where
  "used_entries ms = takeWhile (\<lambda>m. mtype m \<noteq> MEM_AREA_NOTYPE) ms"

text \<open>The index of the entry \<open>find_map_by_type (MEM_AREA_RES_VASPACE)\<close> points to.\<close>

definition res_index :: "tee_mmap_region list \<Rightarrow> nat" where
  "res_index ms = length (takeWhile (\<lambda>m. mtype m \<noteq> MEM_AREA_RES_VASPACE) ms)"

text \<open>The new entry takes the start of the reserved space, or the whole entry when the table is full.\<close>

definition take_reserved :: "tee_mmap_region list \<Rightarrow> tee_mmap_region \<Rightarrow> u32 \<Rightarrow> tee_mmap_region \<Rightarrow> tee_mmap_region list" where
  "take_reserved ms res l new =
     (if length ms < MAX_MMAP_REGIONS
      then ms[res_index ms := res\<lparr>mva := mva res + l, msize := msize res - l\<rparr>] @ [new]
      else ms[res_index ms := new])"

definition core_mmu_add_mapping :: "teecore_memtypes \<Rightarrow> paddr \<Rightarrow> u32 \<Rightarrow> bool km" where
  "core_mmu_add_mapping type addr len =
     (if len = 0 then ret True
      else bindM (gets (\<lambda>s. static_memory_map (mmu s))) (\<lambda>ms.
        if (case find_map_by_type_and_pa type addr ms of None \<Rightarrow> False
            | Some m \<Rightarrow> pbuf_inside_map_area addr len m) then ret True
        else case find_map_by_type MEM_AREA_RES_VASPACE ms of None \<Rightarrow> ret False
        | Some res \<Rightarrow>
          bindM (core_mmu_find_table (mva res) 0xFFFFFFFF) (\<lambda>tio. case tio of None \<Rightarrow> ret False
          | Some ti \<Rightarrow>
            let granule = bit32 (tbl_shift ti); p = ROUNDDOWN addr granule;
                l = ROUNDUP (len + addr - p) granule in
            if core_mmu_va2idx ti (mva res + len) \<ge> tbl_num_entries ti then ret False
            else bindM (case core_mmu_type_to_attr type of None \<Rightarrow> panic | Some a \<Rightarrow> ret a) (\<lambda>attr.
              let new = \<lparr>mtype = type, region_size = granule, mpa = p, mva = mva res, msize = l, mattr = attr\<rparr> in
              thenM (modifyM (\<lambda>s. s\<lparr>mmu := (mmu s)\<lparr>static_memory_map := take_reserved (used_entries ms) res l new\<rparr>\<rparr>)) (
              thenM (set_region ti new) (ret True))))))"

section \<open>Entries read back\<close>

text \<open>The attributes of kernel mappings: valid, readable, not for user mode, and with one of the two
  cache settings \<open>core_mmu_mattr_is_ok\<close> allows.\<close>

definition kernel_attr :: "u32 \<Rightarrow> bool" where
  "kernel_attr a \<longleftrightarrow> (\<exists>w x g sc c. a = 0x11 OR (if w then 0x20 else 0) OR (if x then 0x40 else 0)
     OR (if g then 0x400 else 0) OR (if sc then 0x800 else 0) OR (if c then 0x1000 else 0))"

lemma kernel_attr_bits:
  assumes "a = 0x11 OR (if w then 0x20 else 0) OR (if x then 0x40 else 0)
     OR (if g then 0x400 else 0) OR (if sc then 0x800 else 0) OR (if c then 0x1000 else 0)"
  shows "attr_ok a" "core_mmu_mattr_is_ok a" "bit a 4" "bit a 5 = w" "bit a 6 = x" "\<not> bit a 7" "\<not> bit a 8" "\<not> bit a 9"
    "bit a 10 = g" "bit a 11 = sc" "bit a 12 = c" "\<not> bit a 13" "\<not> bit a 14"
  unfolding assms by (auto simp: attr_ok_def bit_or_iff core_mmu_mattr_is_ok_def Let_def split: if_splits)

lemma desc_word:
  assumes "attr_ok a"
  shows "take_bit 20 pa = 0 \<Longrightarrow> i < 20 \<Longrightarrow> bit (mattr_to_desc 1 a OR pa) i = bit (section_desc (imply_access a)) i"
    "take_bit 20 pa = 0 \<Longrightarrow> (mattr_to_desc 1 a OR pa) AND NOT (mask 20) = pa"
    "take_bit 12 pa = 0 \<Longrightarrow> i < 12 \<Longrightarrow> bit (mattr_to_desc 2 a OR pa) i = bit (small_page_desc (imply_access a)) i"
    "take_bit 12 pa = 0 \<Longrightarrow> (mattr_to_desc 2 a OR pa) AND NOT (mask 12) = pa"
  using or_high(1,2) [OF _ desc_small(1) [of "imply_access a"], of pa] or_high(1,2) [OF _ desc_small(2) [of "imply_access a"], of pa]
  by (simp_all only: attr_ok_desc [OF assms] or.commute [of _ pa])

lemma cb_field:
  fixes d :: u32
  assumes "\<not> bit d hi" "\<not> bit d (hi + 1)" "\<not> bit d (hi + 2)" "\<not> bit d 3"
  shows "texcb_to_mattr ((drop_bit hi d AND 7) OR (drop_bit 2 d AND 3)) = (if bit d 2 then 0x1000 else 0)"
proof -
  have m: "(7 :: u32) = mask 3" "(3 :: u32) = mask 2" by (simp_all add: mask_eq_exp_minus_1)
  have "\<not> bit d (hi + n)" if "n < 3" for n
    using that assms(1-3) by (auto simp: numeral_3_eq_3 less_Suc_eq numeral_2_eq_2)
  then have a: "drop_bit hi d AND mask 3 = 0"
    by (intro bit_word_eqI) (auto simp: bit_simps)
  have "drop_bit 2 d AND mask 2 = (if bit d 2 then 1 else 0)"
  proof (rule bit_word_eqI)
    fix n :: nat
    assume "n < LENGTH(32)"
    show "bit (drop_bit 2 d AND mask 2) n = bit ((if bit d 2 then 1 else 0) :: u32) n"
      using assms(4) by (cases "n = 0"; cases "n = 1") (auto simp: bit_simps bit_pow2)
  qed
  then show ?thesis unfolding m a texcb_to_mattr_def by simp
qed

lemma and_type_field:
  fixes d :: u32
  assumes "bit d 1"
  shows "d AND 3 \<noteq> 1" "d AND 2 = 2"
proof -
  have "bit (d AND 3) 1" "\<not> bit (1 :: u32) 1" using assms by (auto simp: bit_and_iff bit_pow2)
  then show "d AND 3 \<noteq> 1" by metis
  show "d AND 2 = 2" using assms
    by (intro bit_word_eqI) (auto simp only: bit_and_iff bit_pow2)
qed

lemma section_readback:
  assumes k: "kernel_attr a" and pa: "take_bit 20 pa = 0"
  shows "wp (desc_to_pa 1 (mattr_to_desc 1 a OR pa)) (\<lambda>p t. p = pa \<and> t = s) s"
    "wp (desc_to_mattr 1 (mattr_to_desc 1 a OR pa)) (\<lambda>r t. r AND NOT 0x380 = a \<and> t = s) s"
proof -
  from k obtain w x g sc c where a: "a = 0x11 OR (if w then 0x20 else 0) OR (if x then 0x40 else 0)
     OR (if g then 0x400 else 0) OR (if sc then 0x800 else 0) OR (if c then 0x1000 else 0)"
    by (auto simp: kernel_attr_def)
  note ab = kernel_attr_bits [OF a]
  define d where "d = mattr_to_desc 1 a OR pa"
  have b: "bit d i = bit (section_desc (imply_access a)) i" if "i < 20" for i
    unfolding d_def by (rule desc_word(1) [OF ab(1) pa that])
  have bits: "\<not> bit d 0" "bit d 1" "bit d 2 = c" "\<not> bit d 3" "bit d 4 = (\<not> x)" "bit d 10" "\<not> bit d 12" "\<not> bit d 13" "\<not> bit d 14"
    "bit d 15 = (\<not> w)" "bit d 17 = (\<not> g)" "\<not> bit d 18" "bit d 19 = (\<not> sc)"
    by (simp_all add: b section_desc_bits imply_access_bits ab del: One_nat_def)
  have ty: "get_desc_type 1 d = (\<lambda>s. Inr (DESC_TYPE_SECTION, s))"
    using and_type_field [of d] bits
    by (simp add: get_desc_type_def fun_eq_iff thenM_def bindM_def cassert_def gets_def ret_def and_pow2_eq_0 del: One_nat_def)
  show "wp (desc_to_pa 1 (mattr_to_desc 1 a OR pa)) (\<lambda>p t. p = pa \<and> t = s) s"
    using desc_word(2) [OF ab(1) pa] unfolding d_def [symmetric]
    by (simp add: desc_to_pa_def wp_def bindM_def ty ret_def bit32_def mask_eq_exp_minus_1 del: One_nat_def)
  have "texcb_to_mattr ((drop_bit 12 d AND 7) OR (drop_bit 2 d AND 3)) = (if c then 0x1000 else 0)"
    using cb_field [of d 12] bits by simp
  then show "wp (desc_to_mattr 1 (mattr_to_desc 1 a OR pa)) (\<lambda>r t. r AND NOT 0x380 = a \<and> t = s) s"
    unfolding d_def [symmetric]
    by (simp add: desc_to_mattr_def wp_def bindM_def ty ret_def Let_def and_pow2_eq_0 bits a split del: if_split del: One_nat_def)
       (simp split: if_split)
qed

lemma page_readback:
  assumes k: "kernel_attr a" and pa: "take_bit 12 pa = 0"
  shows "wp (desc_to_pa 2 (mattr_to_desc 2 a OR pa)) (\<lambda>p t. p = pa \<and> t = s) s"
    "wp (desc_to_mattr 2 (mattr_to_desc 2 a OR pa)) (\<lambda>r t. r AND NOT 0x380 = a AND NOT 0x800 \<and> t = s) s"
proof -
  from k obtain w x g sc c where a: "a = 0x11 OR (if w then 0x20 else 0) OR (if x then 0x40 else 0)
     OR (if g then 0x400 else 0) OR (if sc then 0x800 else 0) OR (if c then 0x1000 else 0)"
    by (auto simp: kernel_attr_def)
  note ab = kernel_attr_bits [OF a]
  define d where "d = mattr_to_desc 2 a OR pa"
  have b: "bit d i = bit (small_page_desc (imply_access a)) i" if "i < 12" for i
    unfolding d_def by (rule desc_word(3) [OF ab(1) pa that])
  have bits: "bit d 0 = (\<not> x)" "bit d 1" "bit d 2 = c" "\<not> bit d 3" "bit d 4" "\<not> bit d 6" "\<not> bit d 7" "\<not> bit d 8"
    "bit d 9 = (\<not> w)" "bit d 11 = (\<not> g)"
    by (simp_all add: b small_page_desc_bits imply_access_bits ab del: One_nat_def)
  have ty: "get_desc_type 2 d = (\<lambda>s. Inr (DESC_TYPE_SMALL_PAGE, s))"
    using and_type_field [of d] bits
    by (simp add: get_desc_type_def fun_eq_iff thenM_def bindM_def cassert_def gets_def ret_def and_pow2_eq_0 del: One_nat_def)
  show "wp (desc_to_pa 2 (mattr_to_desc 2 a OR pa)) (\<lambda>p t. p = pa \<and> t = s) s"
    using desc_word(4) [OF ab(1) pa] unfolding d_def [symmetric]
    by (simp add: desc_to_pa_def wp_def bindM_def ty ret_def bit32_def mask_eq_exp_minus_1 del: One_nat_def)
  have "texcb_to_mattr ((drop_bit 6 d AND 7) OR (drop_bit 2 d AND 3)) = (if c then 0x1000 else 0)"
    using cb_field [of d 6] bits by simp
  then show "wp (desc_to_mattr 2 (mattr_to_desc 2 a OR pa)) (\<lambda>r t. r AND NOT 0x380 = a AND NOT 0x800 \<and> t = s) s"
    unfolding d_def [symmetric]
    by (simp add: desc_to_mattr_def wp_def bindM_def ty ret_def Let_def and_pow2_eq_0 bits a split del: if_split del: One_nat_def)
       (simp split: if_split)
qed

lemma read_both:
  assumes "wp p (\<lambda>x t. x = pa \<and> t = s) s" "wp q (\<lambda>r t. P r \<and> t = s) s"
  shows "wp p (\<lambda>x. wp q (\<lambda>r. wp (ret (x, r)) (\<lambda>(x, r) t. x = pa \<and> P r))) s"
  using assms by (auto simp: wp_iff wp_ret ret_def)



section \<open>Mapping devices at run time\<close>

lemma type_attr_kernel:
  assumes "core_mmu_type_to_attr ty = Some a" "a \<noteq> 0"
  shows "attr_ok a"
  using assms by (cases ty) (auto simp: core_mmu_type_to_attr_def attr_ok_def Let_def)

lemma find_map_None: "\<forall>m \<in> set ms. mtype m \<noteq> MEM_AREA_NOTYPE \<Longrightarrow> find_map p ms = None \<longleftrightarrow> (\<forall>m \<in> set ms. \<not> p m)"
  by (induction ms) auto

lemma find_map_snoc:
  "\<forall>m \<in> set ms. mtype m \<noteq> MEM_AREA_NOTYPE \<Longrightarrow> find_map p ms = None \<Longrightarrow> mtype x \<noteq> MEM_AREA_NOTYPE \<Longrightarrow> p x
     \<Longrightarrow> find_map p (ms @ [x]) = Some x"
  by (induction ms) (auto split: if_splits)

lemma res_index_nth:
  assumes "find_map_by_type MEM_AREA_RES_VASPACE ms = Some res"
  shows "res_index ms < length ms" "ms ! res_index ms = res"
  using assms unfolding find_map_by_type_def res_index_def
  by (induction ms) (auto split: if_splits)

definition l1_info :: "kernel \<Rightarrow> core_mmu_table_info" where
  "l1_info s = \<lparr>tbl_table = l1_ttb_va (mmu s), tbl_va_base = 0, tbl_level = 1, tbl_shift = 20, tbl_num_entries = 4096\<rparr>"

lemma fill_l1_wp:
  assumes "idx_end \<le> 4096" "idx \<le> idx_end"
  shows "wp (forM [idx ..< idx_end] (\<lambda>i. core_mmu_set_entry (l1_info s) i (f i) a)) (\<lambda>_ t. t =
    set_tabs (\<lambda>i. if idx \<le> i \<and> i < idx_end then mattr_to_desc 1 a OR f i else main_mmu_l1_ttb (mmu s) i)
      (main_mmu_l2_ttb (mmu s)) (tables_used (mmu s)) s) s"
proof -
  define I where "I ys t \<longleftrightarrow> t = set_tabs (\<lambda>i. if idx \<le> i \<and> i < idx + length ys then mattr_to_desc 1 a OR f i
      else main_mmu_l1_ttb (mmu s) i) (main_mmu_l2_ttb (mmu s)) (tables_used (mmu s)) s" for ys :: "nat list" and t
  have "wp (forM [idx ..< idx_end] (\<lambda>i. core_mmu_set_entry (l1_info s) i (f i) a)) (\<lambda>_. I [idx ..< idx_end]) s"
  proof (rule wp_forM)
    show "I [] s" by (simp add: I_def empty_range set_tabs_same)
  next
    fix ys x zs t
    assume split: "[idx ..< idx_end] = ys @ x # zs" and t: "I ys t"
    have "idx + length ys < idx_end" using arg_cong [OF split, of length] by simp
    moreover have "x = idx + length ys" using arg_cong [OF split, of "\<lambda>l. l ! length ys"] calculation by simp
    ultimately have x: "x = idx + length ys" "x < 4096" using assms(1) by simp_all
    have i: "l1_info s = l1_info t" using t by (simp add: I_def l1_info_def)
    have "I (ys @ [x]) (set_tabs ((main_mmu_l1_ttb (mmu t))(x := mattr_to_desc 1 a OR f x)) (main_mmu_l2_ttb (mmu t)) (tables_used (mmu t)) t)"
      using t x by (auto simp: I_def fun_eq_iff intro!: arg_cong [where f = "\<lambda>f. set_tabs f _ _ s"])
    then show "wp (core_mmu_set_entry (l1_info s) x (f x) a) (\<lambda>_. I (ys @ [x])) t"
      unfolding i core_mmu_set_entry_def core_mmu_set_entry_primitive_def using x
      by (simp add: l1_info_def wp_thenM wp_cassert table_l1_wp del: One_nat_def)
  qed
  then show ?thesis using assms(2)
    by (elim wp_mono) (auto simp: I_def fun_eq_iff intro!: arg_cong [where f = "\<lambda>f. set_tabs f _ _ s"])
qed

text \<open>The entry a request makes, in terms of the request and the reserved space.\<close>

definition new_mapping :: "teecore_memtypes \<Rightarrow> paddr \<Rightarrow> u32 \<Rightarrow> tee_mmap_region \<Rightarrow> u32 \<Rightarrow> tee_mmap_region" where
  "new_mapping type addr len res a = \<lparr>mtype = type, region_size = 0x100000, mpa = addr - take_bit 20 addr, mva = mva res,
     msize = ROUNDUP (len + take_bit 20 addr) SECTION_SIZE, mattr = a\<rparr>"

text \<open>A request that fits the reserved space, whose sections are free.\<close>

definition request_ok :: "nat set \<Rightarrow> (vaddr \<Rightarrow> xlat option) \<Rightarrow> paddr \<Rightarrow> u32 \<Rightarrow> tee_mmap_region \<Rightarrow> bool" where
  "request_ok S M addr len res \<longleftrightarrow> len \<noteq> 0 \<and> unat addr + unat len \<le> 2 ^ 32
     \<and> take_bit 20 (mva res) = 0 \<and> take_bit 20 (msize res) = 0 \<and> mva res \<noteq> 0
     \<and> unat (mva res) + unat (msize res) < 2 ^ 32 \<and> unat len + unat addr mod 0x100000 \<le> unat (msize res)
     \<and> (\<forall>va. in_area res va \<longrightarrow> l1_index va \<notin> S \<and> M va = None)"

lemma round_up_nat:
  assumes "unat z + 0xFFFFF < 2 ^ 32"
  shows "unat (ROUNDUP z SECTION_SIZE) = (unat z + 0xFFFFF) div 0x100000 * 0x100000"
proof -
  let ?w = "z + 0xFFFFF"
  have w: "unat ?w = unat z + 0xFFFFF" using assms by (simp add: unat_add32)
  have "ROUNDUP z SECTION_SIZE = ?w - take_bit 20 ?w"
    using round_parts [of ?w 20] by (simp add: ROUNDUP_def mask_eq_exp_minus_1)
  then have "unat (ROUNDUP z SECTION_SIZE) = unat ?w - unat ?w mod 0x100000"
    by (simp add: unat_sub32 unat_take_bit32)
  then show ?thesis unfolding w by (simp add: minus_mod_eq_div_mult)
qed

lemma new_mapping_area:
  fixes ty
  assumes "request_ok S M addr len res" "attr_ok a"
  defines "new \<equiv> new_mapping ty addr len res a"
  shows "section_area S new" "unat (msize new) \<le> unat (msize res)"
    "unat len + unat addr mod 0x100000 \<le> unat (msize new)" "in_area new va \<Longrightarrow> in_area res va"
    "unat (msize new) < unat len + unat addr mod 0x100000 + 0x100000"
proof -
  let ?z = "len + take_bit 20 addr"
  obtain q where q: "unat (msize res) = 0x100000 * q" using assms(1) by (auto simp: request_ok_def aligned_dvd elim!: dvdE)
  have le: "unat len + unat addr mod 0x100000 \<le> 0x100000 * q" and q4: "0x100000 * q < 2 ^ 32"
    using assms(1) unfolding request_ok_def q by linarith+
  have z: "unat ?z = unat len + unat addr mod 0x100000" using le q4 by (simp add: unat_add32 unat_take_bit32)
  have "unat ?z + 0xFFFFF < 2 ^ 32" using le q4 unfolding z by auto
  note r = round_up_nat [OF this]
  have new: "unat (msize new) = (unat len + unat addr mod 0x100000 + 0xFFFFF) div 0x100000 * 0x100000"
    by (simp add: new_def new_mapping_def r z)
  have "(unat len + unat addr mod 0x100000 + 0xFFFFF) div 0x100000 < q + 1"
    by (rule less_mult_imp_div_less) (use le in simp)
  then show sz: "unat (msize new) \<le> unat (msize res)" unfolding new q by simp
  show ge: "unat len + unat addr mod 0x100000 \<le> unat (msize new)" unfolding new
    using div_mult_mod_eq [of "unat len + unat addr mod 0x100000 + 0xFFFFF" "0x100000"]
      mod_less_divisor [of "0x100000" "unat len + unat addr mod 0x100000 + 0xFFFFF"] by linarith
  show "unat (msize new) < unat len + unat addr mod 0x100000 + 0x100000" unfolding new
    using div_mult_mod_eq [of "unat len + unat addr mod 0x100000 + 0xFFFFF" "0x100000"] by linarith
  have l0: "0 < unat len" using assms(1) by (simp add: request_ok_def unat_gt_0)
  show ia: "in_area new va \<Longrightarrow> in_area res va" for va using sz by (simp add: in_area_def new_def new_mapping_def)
  have "take_bit 20 (msize new) = 0" unfolding aligned_dvd new by simp
  moreover have "take_bit 20 (mpa new) = 0"
    using round_parts [of addr 20] by (auto simp: new_def new_mapping_def intro!: bit_word_eqI) (auto simp: bit_simps simp flip: round_parts)
  moreover have "0 < unat (msize new)" using ge l0 by linarith
  ultimately show "section_area S new"
    using assms(1,2) sz ia by (simp add: section_area_def request_ok_def new_def new_mapping_def)
qed

lemma find_table_l1:
  assumes "tab_inv s S sec M K (main_mmu_l1_ttb (mmu s)) (main_mmu_l2_ttb (mmu s)) (tables_used (mmu s))"
    and "l1_index va \<notin> S" "M va = None"
  shows "wp (core_mmu_find_table va 0xFFFFFFFF) (\<lambda>r t. r = Some (l1_info s) \<and> t = s) s"
proof -
  have "K (l1_index va) = None" using assms(1,2) by (auto simp: tab_inv_def)
  moreover have "walk (l2_ttb_va (mmu s)) (main_mmu_l1_ttb (mmu s)) (main_mmu_l2_ttb (mmu s)) va = None"
    using assms(1,3) by (simp add: tab_inv_def)
  ultimately have "main_mmu_l1_ttb (mmu s) (l1_index va) = 0"
    using tab_inv_entry [OF assms(1) l1_index_less, of va] walk_section [of "main_mmu_l1_ttb (mmu s)" va] by auto
  moreover have "unat (drop_bit 20 va) = l1_index va" by (simp add: unat_drop_bit32 l1_index_def)
  ultimately show ?thesis
    using l1_index_less [of va]
    by (simp add: core_mmu_find_table_def core_mmu_get_main_ttb_va_def core_mmu_set_info_table_def l1_info_def wp_simps)
qed

lemma set_region_wp:
  assumes "section_area S m" "unat (mva m) + unat (msize m) < 2 ^ 32"
  shows "wp (set_region (l1_info s) m) (\<lambda>_ t. t = set_tabs
    (\<lambda>i. if l1_index (mva m) \<le> i \<and> i < l1_index (mva m) + area_sections m
      then (mpa m + of_nat (i - l1_index (mva m)) * SECTION_SIZE) OR mattr_to_desc 1 (mattr m) else main_mmu_l1_ttb (mmu s) i)
    (main_mmu_l2_ttb (mmu s)) (tables_used (mmu s)) s) s"
proof -
  have off: "core_mmu_get_block_offset (l1_info s) w = take_bit 20 w" for w
    by (simp add: core_mmu_get_block_offset_def l1_info_def bit32_def take_bit_eq_mask mask_eq_exp_minus_1)
  obtain k where k: "unat (msize m) = 0x100000 * k" using assms(1) by (auto simp: section_area_def aligned_dvd elim!: dvdE)
  have idx: "core_mmu_va2idx (l1_info s) w = l1_index w" for w
    by (simp add: core_mmu_va2idx_def l1_info_def unat_drop_bit32 l1_index_def)
  have "unat (mva m + msize m) = unat (mva m) + unat (msize m)" using assms(2) by (simp add: unat_add32)
  then have e: "l1_index (mva m + msize m) = l1_index (mva m) + area_sections m" by (simp add: l1_index_def k)
  have "bit32 20 = SECTION_SIZE" by (simp add: bit32_def)
  then have sh: "bit32 (tbl_shift (l1_info s)) = SECTION_SIZE" by (simp add: l1_info_def)
  have al: "take_bit 20 (mva m) = 0" "take_bit 20 (msize m) = 0" "take_bit 20 (mpa m) = 0"
    using assms(1) by (simp_all add: section_area_def)
  have "wp (forM [l1_index (mva m) ..< l1_index (mva m) + area_sections m] (\<lambda>i. core_mmu_set_entry (l1_info s) i
      (mpa m + of_nat (i - l1_index (mva m)) * SECTION_SIZE) (mattr m))) (\<lambda>_ t. t = set_tabs
    (\<lambda>i. if l1_index (mva m) \<le> i \<and> i < l1_index (mva m) + area_sections m
      then mattr_to_desc 1 (mattr m) OR (mpa m + of_nat (i - l1_index (mva m)) * SECTION_SIZE) else main_mmu_l1_ttb (mmu s) i)
    (main_mmu_l2_ttb (mmu s)) (tables_used (mmu s)) s) s"
    by (rule fill_l1_wp) (use section_area_fits [OF assms(1)] in simp_all)
  then show ?thesis unfolding set_region_def wp_thenM wp_cassert off al idx Let_def e sh or.commute [of "mattr_to_desc 1 (mattr m)"]
    by (simp only: simp_thms)
qed

lemma new_mapping_found:
  assumes ms: "\<forall>m \<in> set ms. mtype m \<noteq> MEM_AREA_NOTYPE" "find_map_by_type_and_pa type addr ms = None"
    and res: "find_map_by_type MEM_AREA_RES_VASPACE ms = Some res" "request_ok S M addr len res" and a: "attr_ok a"
    and ty: "type \<noteq> MEM_AREA_NOTYPE" "type \<noteq> MEM_AREA_RES_VASPACE"
  defines "new \<equiv> new_mapping type addr len res a"
  shows "map_pa2va (find_map_by_type_and_pa type addr
      (ms[res_index ms := res\<lparr>mva := v, msize := z\<rparr>] @ [new])) addr = mva res + take_bit 20 addr"
proof -
  note ar = new_mapping_area [OF res(2) a, of type, folded new_def]
  let ?q = "\<lambda>m. if mtype m \<noteq> type then False else pa_is_in_map (Some m) addr"
  have rt: "mtype res = MEM_AREA_RES_VASPACE" using res(1) by (auto simp: find_map_by_type_def dest: find_map_SomeD)
  have upd: "set (ms[res_index ms := res\<lparr>mva := v, msize := z\<rparr>]) \<subseteq> insert (res\<lparr>mva := v, msize := z\<rparr>) (set ms)"
    by (rule set_update_subset_insert)
  have al: "0x100000 dvd unat (mpa new)" "0x100000 dvd unat (msize new)"
    using ar(1) by (simp_all add: section_area_def aligned_dvd)
  have pn: "unat (mpa new) = unat addr - unat addr mod 0x100000"
    by (simp add: new_def new_mapping_def unat_sub32 unat_take_bit32)
  have in_new: "pa_is_in_map (Some new) addr"
  proof -
    obtain A B where ab: "unat (mpa new) = 0x100000 * A" "unat (msize new) = 0x100000 * B" using al by (auto elim!: dvdE)
    have off: "unat addr mod 0x100000 \<le> unat addr" by simp
    have "0x100000 * A + 0x100000 * B < 2 ^ 32 + 0x100000"
      using ar(5) res(2) off pn unfolding ab request_ok_def by linarith
    then have "A + B < 4097" by simp
    then have "0x100000 * A + 0x100000 * B \<le> 2 ^ 32" by simp
    moreover have "0 < unat (msize new)" "unat (mva new) + unat (msize new) \<le> 2 ^ 32" using ar(1) by (simp_all add: section_area_def)
    ultimately have ok: "map_entry_ok new" by (simp add: map_entry_ok_def ab)
    have "0 < unat len" using res(2) by (simp add: request_ok_def unat_gt_0)
    then show ?thesis unfolding pa_in_map_iff [OF ok] span_def pn using ar(3) off by auto
  qed
  have "find_map_by_type_and_pa type addr (ms[res_index ms := res\<lparr>mva := v, msize := z\<rparr>] @ [new]) = Some new"
    unfolding find_map_by_type_and_pa_def
  proof (rule find_map_snoc)
    have cases: "m = res\<lparr>mva := v, msize := z\<rparr> \<or> m \<in> set ms" if "m \<in> set (ms[res_index ms := res\<lparr>mva := v, msize := z\<rparr>])" for m
      using subsetD [OF upd that] by simp
    show nt: "\<forall>m \<in> set (ms[res_index ms := res\<lparr>mva := v, msize := z\<rparr>]). mtype m \<noteq> MEM_AREA_NOTYPE"
    proof
      fix m assume "m \<in> set (ms[res_index ms := res\<lparr>mva := v, msize := z\<rparr>])"
      from cases [OF this] show "mtype m \<noteq> MEM_AREA_NOTYPE" using ms(1) rt by (elim disjE) simp_all
    qed
    have old: "\<forall>m \<in> set ms. \<not> ?q m"
      using ms(2) unfolding find_map_by_type_and_pa_def find_map_None [OF ms(1)] .
    have new': "\<not> ?q (res\<lparr>mva := v, msize := z\<rparr>)" using rt ty(2) by simp
    show "find_map ?q (ms[res_index ms := res\<lparr>mva := v, msize := z\<rparr>]) = None"
      unfolding find_map_None [OF nt] using cases old new' by metis
  qed (use ty in_new in \<open>auto simp: new_def new_mapping_def\<close>)
  then show ?thesis using in_new by (simp add: map_pa2va_def) (simp add: new_def new_mapping_def)
qed

lemma new_mapping_translates:
  assumes "request_ok S M addr len res" "attr_ok a"
  shows "mva res + take_bit 20 addr \<noteq> 0"
    and "i < unat len \<Longrightarrow> add_area (new_mapping type addr len res a) M (mva res + take_bit 20 addr + of_nat i) = Some (attr_xlat a (addr + of_nat i))"
    and "M va \<noteq> None \<Longrightarrow> add_area (new_mapping type addr len res a) M va = M va"
proof -
  define new where "new = new_mapping type addr len res a"
  note ar = new_mapping_area [OF assms, of type, folded new_def]
  have rq: "len \<noteq> 0" "unat (mva res) + unat (msize res) < 2 ^ 32" "mva res \<noteq> 0" using assms(1) by (simp_all add: request_ok_def)
  have mn: "mva new = mva res" "mpa new = addr - take_bit 20 addr" "mattr new = a" by (simp_all add: new_def new_mapping_def)
  have n: "unat (mva res + take_bit 20 addr + of_nat i) = unat (mva res) + unat addr mod 0x100000 + i" if "i < unat len" for i
  proof -
    have i: "unat (of_nat i :: u32) = i" using that unat_lt32 [of len] by (intro unat_of_nat_small) simp
    show ?thesis using that rq(2) ar(2,3) by (simp add: unat_add32 unat_take_bit32 i)
  qed
  have pos: "0 < unat len" "0 < unat (mva res)" using rq(1,3) by (simp_all add: unat_gt_0)
  show "mva res + take_bit 20 addr \<noteq> 0"
  proof
    assume z: "mva res + take_bit 20 addr = 0"
    show False using n [OF pos(1)] pos(2) unfolding z by simp
  qed
  show "add_area (new_mapping type addr len res a) M (mva res + take_bit 20 addr + of_nat i) = Some (attr_xlat a (addr + of_nat i))"
    if "i < unat len"
  proof -
    have "in_area new (mva res + take_bit 20 addr + of_nat i)"
      unfolding in_area_def mn n [OF that] using that ar(3) by linarith
    then show ?thesis unfolding new_def [symmetric] by (simp add: add_area_def area_xlat_def mn algebra_simps)
  qed
  show "add_area (new_mapping type addr len res a) M va = M va" if "M va \<noteq> None"
    using that ar(4) [of va] assms(1) unfolding new_def by (auto simp: add_area_def request_ok_def)
qed

lemma new_mapping_entry:
  "\<lparr>mtype = type, region_size = bit32 20, mpa = ROUNDDOWN addr (bit32 20), mva = mva res,
     msize = ROUNDUP (len + addr - ROUNDDOWN addr (bit32 20)) (bit32 20), mattr = a\<rparr> = new_mapping type addr len res a"
proof -
  have "ROUNDDOWN addr SECTION_SIZE = addr - take_bit 20 addr"
    using round_parts [of addr 20] by (simp add: ROUNDDOWN_def mask_eq_exp_minus_1)
  then show ?thesis by (simp add: new_mapping_def bit32_def)
qed


lemma map_kernel_empty:
  "tab_inv map_kernel {} (\<lambda>_. True) (\<lambda>_. None) Map.empty (main_mmu_l1_ttb (mmu map_kernel)) (main_mmu_l2_ttb (mmu map_kernel))
    (tables_used (mmu map_kernel))"
  by (simp add: tab_inv_def map_kernel_def blank_def walk_empty)


text \<open>The size of the reserved space is not checked: a request for more than is left succeeds, is mapped
  over the addresses behind it, and the size that is left wraps around.\<close>

lemma reserved_space_overrun:
  "wp (core_mmu_add_mapping MEM_AREA_IO_SEC 0x20000000 0xB00000)
     (\<lambda>r t. r \<and> msize (static_memory_map (mmu t) ! 4) = 0xFFF00000) map_kernel"
proof -
  let ?new = "mmap MEM_AREA_IO_SEC 0x100000 0x20000000 0x4F400000 0xB00000 0xC31"
  let ?s = "map_kernel\<lparr>mmu := (mmu map_kernel)\<lparr>static_memory_map := take_reserved map_example (map_example ! 4) 0xB00000 ?new\<rparr>\<rparr>"
  have ar: "section_area {} ?new" "unat (mva ?new) + unat (msize ?new) < 2 ^ 32"
    by (simp_all add: section_area_def attr_ok_def)
  have i: "l1_info map_kernel = l1_info ?s" by (simp add: l1_info_def)
  have fit: "\<not> tbl_num_entries (l1_info map_kernel) \<le> core_mmu_va2idx (l1_info map_kernel) w" for w
    using l1_index_less [of w] by (simp add: core_mmu_va2idx_def l1_info_def unat_drop_bit32 l1_index_def)
  have reg: "wp (set_region (l1_info map_kernel) ?new) (\<lambda>_ t. msize (static_memory_map (mmu t) ! 4) = 0xFFF00000) ?s"
    unfolding i by (rule wp_mono [OF set_region_wp [OF ar]]) (simp add: take_reserved_def map_example_def res_index_def)
  have v: "static_memory_map (mmu map_kernel) = map_example" "used_entries map_example = map_example"
    "find_map_by_type_and_pa MEM_AREA_IO_SEC 0x20000000 map_example = None"
    "find_map_by_type MEM_AREA_RES_VASPACE map_example = Some (map_example ! 4)" "mva (map_example ! 4) = 0x4F400000"
    "core_mmu_type_to_attr MEM_AREA_IO_SEC = Some 0xC31"
    by (simp_all add: map_kernel_def map_example_def used_entries_def find_map_by_type_and_pa_def pa_is_in_map_def
        find_map_by_type_def core_mmu_type_to_attr_def)
  have "tbl_shift (l1_info map_kernel) = 20" by (simp add: l1_info_def)
  then show ?thesis
    unfolding core_mmu_add_mapping_def using reg
    by (simp add: wp_simps v, intro wp_mono [OF find_table_l1 [OF map_kernel_empty]])
      (simp_all add: wp_simps fit v bit32_def ROUNDDOWN_def ROUNDUP_def mmap_def)
qed

end
