(* ===== verification/Qsort.thy ===== *)
theory Qsort
  imports Prelude "HOL-Library.Multiset"
begin

text \<open>
  lib/libutils/isoc/qsort.c: the quicksort of Bentley and McIlroy. The array is a list, pointers are
  indices of elements; the byte-wise exchange of elements is \<open>swapfunc\<close>. The comparison is an argument, as
  in C. The recursion on the smaller keys and the loop on the larger keys work on disjoint parts of the
  array.
\<close>

section \<open>The algorithm\<close>

definition swapfunc :: "'a list \<Rightarrow> nat \<Rightarrow> nat \<Rightarrow> 'a list" where
  "swapfunc es a b = (let t = es ! a; es = es[a := es ! b] in es[b := t])"

text \<open>The exchange of two blocks of \<open>k\<close> elements.\<close>

fun vecswap :: "'a list \<Rightarrow> nat \<Rightarrow> nat \<Rightarrow> nat \<Rightarrow> 'a list" where
  "vecswap xs i j 0 = xs"
| "vecswap xs i j (Suc k) = vecswap (swapfunc xs i j) (Suc i) (Suc j) k"

definition med3 :: "('a \<Rightarrow> 'a \<Rightarrow> int) \<Rightarrow> 'a list \<Rightarrow> nat \<Rightarrow> nat \<Rightarrow> nat \<Rightarrow> nat" where
  "med3 cmp xs a b c =
     (if cmp (xs ! a) (xs ! b) < 0
      then (if cmp (xs ! b) (xs ! c) < 0 then b else if cmp (xs ! a) (xs ! c) < 0 then c else a)
      else (if cmp (xs ! b) (xs ! c) > 0 then b else if cmp (xs ! a) (xs ! c) < 0 then a else c))"

fun sink :: "('a \<Rightarrow> 'a \<Rightarrow> int) \<Rightarrow> 'a list \<Rightarrow> nat \<Rightarrow> 'a list" where
  "sink cmp xs 0 = xs"
| "sink cmp xs (Suc p) =
     (if cmp (xs ! p) (xs ! Suc p) > 0 then sink cmp (swapfunc xs (Suc p) p) p else xs)"

definition insertion :: "('a \<Rightarrow> 'a \<Rightarrow> int) \<Rightarrow> 'a list \<Rightarrow> 'a list" where
  "insertion cmp xs = fold (\<lambda>pm xs. sink cmp xs pm) [1..<length xs] xs"

text \<open>The index of the pivot: the middle element, the median of three, or the median of medians.\<close>

definition pivot :: "('a \<Rightarrow> 'a \<Rightarrow> int) \<Rightarrow> 'a list \<Rightarrow> nat" where
  "pivot cmp xs =
     (let n = length xs; pm = n div 2 in
      if n > 7 then
        let pl = 0; pn = n - 1; d = n div 8;
            (pl, pm, pn) = (if n > 40 then (med3 cmp xs pl (pl + d) (pl + 2 * d), med3 cmp xs (pm - d) pm (pm + d),
              med3 cmp xs (pn - 2 * d) (pn - d) pn) else (pl, pm, pn))
        in med3 cmp xs pl pm pn
      else pm)"

text \<open>The two inner loops of the partition, from the left and from the right. The flag is \<open>swap_cnt\<close>.\<close>

function scan_up :: "('a \<Rightarrow> 'a \<Rightarrow> int) \<Rightarrow> 'a list \<Rightarrow> nat \<Rightarrow> nat \<Rightarrow> nat \<Rightarrow> bool \<Rightarrow> 'a list \<times> nat \<times> nat \<times> bool" where
  "scan_up cmp xs pa pb pc cnt =
     (if pb \<le> pc \<and> cmp (xs ! pb) (xs ! 0) \<le> 0
      then if cmp (xs ! pb) (xs ! 0) = 0 then scan_up cmp (swapfunc xs pa pb) (Suc pa) (Suc pb) pc True
           else scan_up cmp xs pa (Suc pb) pc cnt
      else (xs, pa, pb, cnt))"
  by pat_completeness auto

termination
  by (relation "measure (\<lambda>(cmp, xs, pa, pb, pc, cnt). Suc pc - pb)") auto

function scan_down :: "('a \<Rightarrow> 'a \<Rightarrow> int) \<Rightarrow> 'a list \<Rightarrow> nat \<Rightarrow> nat \<Rightarrow> nat \<Rightarrow> bool \<Rightarrow> 'a list \<times> nat \<times> nat \<times> bool" where
  "scan_down cmp xs pb pc pd cnt =
     (if 0 < pb \<and> pb \<le> pc \<and> cmp (xs ! pc) (xs ! 0) \<ge> 0
      then if cmp (xs ! pc) (xs ! 0) = 0 then scan_down cmp (swapfunc xs pc pd) pb (pc - 1) (pd - 1) True
           else scan_down cmp xs pb (pc - 1) pd cnt
      else (xs, pc, pd, cnt))"
  by pat_completeness auto

termination
  by (relation "measure (\<lambda>(cmp, xs, pb, pc, pd, cnt). Suc pc - pb)") auto

declare scan_up.simps [simp del] scan_down.simps [simp del]

text \<open>Loop rules: what every step keeps, the loop keeps.\<close>

lemma scan_up_inv:
  assumes "scan_up cmp xs pa pb pc cnt = (ys, pa', pb', cnt')" and "I xs pa pb"
    and "\<And>xs pa pb. I xs pa pb \<Longrightarrow> pb \<le> pc \<Longrightarrow> cmp (xs ! pb) (xs ! 0) = 0 \<Longrightarrow> I (swapfunc xs pa pb) (Suc pa) (Suc pb)"
    and "\<And>xs pa pb. I xs pa pb \<Longrightarrow> pb \<le> pc \<Longrightarrow> cmp (xs ! pb) (xs ! 0) < 0 \<Longrightarrow> I xs pa (Suc pb)"
  shows "I ys pa' pb' \<and> (pb' \<le> pc \<longrightarrow> cmp (ys ! pb') (ys ! 0) > 0)"
  using assms
proof (induction cmp xs pa pb pc cnt rule: scan_up.induct)
  case (1 cmp xs pa pb pc cnt)
  show ?case
  proof (cases "pb \<le> pc \<and> cmp (xs ! pb) (xs ! 0) \<le> 0")
    case True
    then show ?thesis using "1.prems" "1.IH" [OF True] by (auto simp: scan_up.simps [of cmp xs pa pb pc cnt] split: if_splits)
  next
    case False
    then show ?thesis using "1.prems" by (auto simp: scan_up.simps [of cmp xs pa pb pc cnt])
  qed
qed

lemma scan_down_inv:
  assumes "scan_down cmp xs pb pc pd cnt = (ys, pc', pd', cnt')" and "I xs pc pd" "0 < pb"
    and "\<And>xs pc pd. I xs pc pd \<Longrightarrow> pb \<le> pc \<Longrightarrow> cmp (xs ! pc) (xs ! 0) = 0 \<Longrightarrow> I (swapfunc xs pc pd) (pc - 1) (pd - 1)"
    and "\<And>xs pc pd. I xs pc pd \<Longrightarrow> pb \<le> pc \<Longrightarrow> cmp (xs ! pc) (xs ! 0) > 0 \<Longrightarrow> I xs (pc - 1) pd"
  shows "I ys pc' pd' \<and> (pb \<le> pc' \<longrightarrow> cmp (ys ! pc') (ys ! 0) < 0)"
  using assms
proof (induction cmp xs pb pc pd cnt rule: scan_down.induct)
  case (1 cmp xs pb pc pd cnt)
  show ?case
  proof (cases "0 < pb \<and> pb \<le> pc \<and> cmp (xs ! pc) (xs ! 0) \<ge> 0")
    case True
    then show ?thesis using "1.prems" "1.IH" [OF True] by (auto simp: scan_down.simps [of cmp xs pb pc pd cnt] split: if_splits)
  next
    case False
    then show ?thesis using "1.prems" by (auto simp: scan_down.simps [of cmp xs pb pc pd cnt])
  qed
qed

lemma scan_up_bounds:
  assumes "scan_up cmp xs pa pb pc cnt = (ys, pa', pb', cnt')" shows "pb \<le> pb'"
  using scan_up_inv [OF assms, of "\<lambda>xs a b. pb \<le> b"] by simp

lemma scan_down_bounds:
  assumes "scan_down cmp xs pb pc pd cnt = (ys, pc', pd', cnt')" shows "pc' \<le> pc"
proof (cases "0 < pb")
  case True
  then show ?thesis using scan_down_inv [OF assms, of "\<lambda>xs c d. c \<le> pc"] by simp
qed (use assms in \<open>simp add: scan_down.simps\<close>)

function partition_loop :: "('a \<Rightarrow> 'a \<Rightarrow> int) \<Rightarrow> 'a list \<Rightarrow> nat \<Rightarrow> nat \<Rightarrow> nat \<Rightarrow> nat \<Rightarrow> bool \<Rightarrow>
    'a list \<times> nat \<times> nat \<times> nat \<times> nat \<times> bool" where
  "partition_loop cmp xs pa pb pc pd cnt =
     (case scan_up cmp xs pa pb pc cnt of (xs, pa, pb, cnt) \<Rightarrow>
      case scan_down cmp xs pb pc pd cnt of (xs, pc, pd, cnt) \<Rightarrow>
        if pb > pc then (xs, pa, pb, pc, pd, cnt)
        else partition_loop cmp (swapfunc xs pb pc) pa (Suc pb) (pc - 1) pd True)"
  by pat_completeness auto

termination
  by (relation "measure (\<lambda>(cmp, xs, pa, pb, pc, pd, cnt). Suc pc - pb)")
    (auto dest!: scan_up_bounds [OF sym] scan_down_bounds [OF sym])

declare partition_loop.simps [simp del]

lemma partition_inv:
  assumes "partition_loop cmp xs pa pb pc pd cnt = (ys, pa', pb', pc', pd', cnt')" and "I xs pa pb pc pd"
    and "\<And>xs pa pb pc pd cnt ys pa' pb' cnt'. scan_up cmp xs pa pb pc cnt = (ys, pa', pb', cnt') \<Longrightarrow> I xs pa pb pc pd \<Longrightarrow>
      I ys pa' pb' pc pd \<and> (pb' \<le> pc \<longrightarrow> cmp (ys ! pb') (ys ! 0) > 0)"
    and "\<And>xs pa pb pc pd cnt ys pc' pd' cnt'. scan_down cmp xs pb pc pd cnt = (ys, pc', pd', cnt') \<Longrightarrow> I xs pa pb pc pd \<Longrightarrow>
      (pb \<le> pc \<longrightarrow> cmp (xs ! pb) (xs ! 0) > 0) \<Longrightarrow>
      I ys pa pb pc' pd' \<and> (pb \<le> pc' \<longrightarrow> cmp (ys ! pc') (ys ! 0) < 0 \<and> cmp (ys ! pb) (ys ! 0) > 0)"
    and "\<And>xs pa pb pc pd. I xs pa pb pc pd \<Longrightarrow> pb \<le> pc \<Longrightarrow> cmp (xs ! pb) (xs ! 0) > 0 \<Longrightarrow> cmp (xs ! pc) (xs ! 0) < 0 \<Longrightarrow>
      I (swapfunc xs pb pc) pa (Suc pb) (pc - 1) pd"
  shows "I ys pa' pb' pc' pd' \<and> pc' < pb'"
  using assms
proof (induction cmp xs pa pb pc pd cnt rule: partition_loop.induct)
  case (1 cmp xs pa pb pc pd cnt)
  obtain xs1 pa1 pb1 cnt1 where up: "scan_up cmp xs pa pb pc cnt = (xs1, pa1, pb1, cnt1)" by (metis prod_cases4)
  obtain xs2 pc1 pd1 cnt2 where down: "scan_down cmp xs1 pb1 pc pd cnt1 = (xs2, pc1, pd1, cnt2)" by (metis prod_cases4)
  note up1 = "1.prems"(3) [OF up "1.prems"(2)]
  note down1 = "1.prems"(4) [OF down conjunct1 [OF up1] conjunct2 [OF up1]]
  note res = "1.prems"(1) [unfolded partition_loop.simps [of cmp xs] up down prod.case]
  show ?case
  proof (cases "pc1 < pb1")
    case True
    then show ?thesis using res down1 by simp
  next
    case False
    then have "I (swapfunc xs2 pb1 pc1) pa1 (Suc pb1) (pc1 - 1) pd1" using down1 "1.prems"(5) by simp
    from "1.IH" [OF up [symmetric] refl refl down [symmetric] refl refl False _ this "1.prems"(3-5)] res False
    show ?thesis by simp
  qed
qed

lemma swap_length [simp]: "length (swapfunc es a b) = length es"
  unfolding swapfunc_def Let_def by simp

lemma swap_nth: "a < length es \<and> b < length es \<Longrightarrow> swapfunc es a b ! m = es ! (if m = b then a else if m = a then b else m)"
  unfolding swapfunc_def Let_def by (simp add: nth_list_update)

lemma swap_mset [simp]: "a < length es \<Longrightarrow> b < length es \<Longrightarrow> mset (swapfunc es a b) = mset es"
  unfolding swapfunc_def Let_def by (rule mset_swap)

text \<open>The invariant of the partition: keys equal to the pivot at both ends, smaller keys after the left
  end, larger keys before the right end.\<close>

definition part_inv :: "('a \<Rightarrow> 'a \<Rightarrow> int) \<Rightarrow> 'a list \<Rightarrow> 'a list \<Rightarrow> nat \<Rightarrow> nat \<Rightarrow> nat \<Rightarrow> nat \<Rightarrow> bool" where
  "part_inv cmp ys xs pa pb pc pd \<longleftrightarrow>
     0 < pa \<and> pa \<le> pb \<and> pb \<le> Suc pc \<and> pc \<le> pd \<and> pd < length xs \<and> mset xs = mset ys \<and> xs ! 0 = ys ! 0
     \<and> (\<forall>i. 0 < i \<and> i < pa \<longrightarrow> cmp (xs ! i) (ys ! 0) = 0) \<and> (\<forall>i. pa \<le> i \<and> i < pb \<longrightarrow> cmp (xs ! i) (ys ! 0) < 0)
     \<and> (\<forall>i. pc < i \<and> i \<le> pd \<longrightarrow> cmp (xs ! i) (ys ! 0) > 0) \<and> (\<forall>i. pd < i \<and> i < length xs \<longrightarrow> cmp (xs ! i) (ys ! 0) = 0)"

lemma part_inv_up:
  assumes "scan_up cmp xs pa pb pc cnt = (zs, pa', pb', cnt')" "part_inv cmp ys xs pa pb pc pd"
  shows "part_inv cmp ys zs pa' pb' pc pd \<and> (pb' \<le> pc \<longrightarrow> cmp (zs ! pb') (zs ! 0) > 0)"
proof (rule scan_up_inv [OF assms(1), where I = "\<lambda>xs a b. part_inv cmp ys xs a b pc pd", OF assms(2)])
  fix xs pa pb assume "part_inv cmp ys xs pa pb pc pd" "pb \<le> pc" "cmp (xs ! pb) (xs ! 0) = 0"
  then show "part_inv cmp ys (swapfunc xs pa pb) (Suc pa) (Suc pb) pc pd"
    unfolding part_inv_def by (auto simp: swap_nth less_Suc_eq)
next
  fix xs pa pb assume "part_inv cmp ys xs pa pb pc pd" "pb \<le> pc" "cmp (xs ! pb) (xs ! 0) < 0"
  then show "part_inv cmp ys xs pa (Suc pb) pc pd" by (auto simp: part_inv_def less_Suc_eq)
qed

lemma part_inv_down:
  assumes "scan_down cmp xs pb pc pd cnt = (zs, pc', pd', cnt')" "part_inv cmp ys xs pa pb pc pd"
    and "pb \<le> pc \<longrightarrow> cmp (xs ! pb) (xs ! 0) > 0"
  shows "part_inv cmp ys zs pa pb pc' pd' \<and> (pb \<le> pc' \<longrightarrow> cmp (zs ! pc') (zs ! 0) < 0 \<and> cmp (zs ! pb) (zs ! 0) > 0)"
proof -
  let ?I = "\<lambda>xs c d. part_inv cmp ys xs pa pb c d \<and> (pb \<le> c \<longrightarrow> cmp (xs ! pb) (xs ! 0) > 0)"
  have "?I zs pc' pd' \<and> (pb \<le> pc' \<longrightarrow> cmp (zs ! pc') (zs ! 0) < 0)"
  proof (rule scan_down_inv [OF assms(1), where I = ?I])
    show "0 < pb" using assms(2) by (simp add: part_inv_def)
  next
    fix xs pc pd assume a: "?I xs pc pd" "pb \<le> pc" "cmp (xs ! pc) (xs ! 0) = 0"
    then have "pb < pc" by (metis le_neq_implies_less less_irrefl)
    moreover then have "pc - 1 < i \<longleftrightarrow> pc \<le> i" for i by auto
    moreover have "pd - 1 < i \<longleftrightarrow> pd \<le> i" "i \<le> pd - 1 \<longleftrightarrow> i < pd" for i using a by (auto simp: part_inv_def)
    ultimately show "?I (swapfunc xs pc pd) (pc - 1) (pd - 1)" using a unfolding part_inv_def by (auto simp: swap_nth)
  next
    fix xs pc pd assume a: "?I xs pc pd" "pb \<le> pc" "cmp (xs ! pc) (xs ! 0) > 0"
    moreover from a have "pc - 1 < i \<Longrightarrow> i = pc \<or> pc < i" for i by auto
    ultimately show "?I xs (pc - 1) pd" unfolding part_inv_def by auto
  qed (use assms in auto)
  then show ?thesis by auto
qed

lemma part_inv_exchange:
  assumes "part_inv cmp ys xs pa pb pc pd" "pb \<le> pc" "cmp (xs ! pb) (xs ! 0) > 0" "cmp (xs ! pc) (xs ! 0) < 0"
  shows "part_inv cmp ys (swapfunc xs pb pc) pa (Suc pb) (pc - 1) pd"
proof -
  have "pb < pc" using assms by (metis le_neq_implies_less less_asym)
  moreover then have "pc - 1 < i \<Longrightarrow> i = pc \<or> pc < i" for i by auto
  ultimately show ?thesis using assms unfolding part_inv_def by (auto simp: swap_nth less_Suc_eq)
qed

lemma partition_correct:
  assumes "partition_loop cmp xs pa pb pc pd cnt = (zs, pa', pb', pc', pd', cnt')" "part_inv cmp ys xs pa pb pc pd"
  shows "part_inv cmp ys zs pa' pb' pc' pd' \<and> pc' < pb'"
  by (rule partition_inv [OF assms(1), where I = "part_inv cmp ys", OF assms(2)])
    (rule part_inv_up part_inv_down part_inv_exchange; assumption)+

lemma part_inv_start: "0 < length xs \<Longrightarrow> part_inv cmp xs xs 1 1 (length xs - 1) (length xs - 1)"
  by (cases xs) (auto simp: part_inv_def)

lemma vecswap_length [simp]: "length (vecswap xs i j k) = length xs"
  by (induction xs i j k rule: vecswap.induct) simp_all

lemma partition_start:
  assumes "partition_loop cmp xs 1 1 (length xs - 1) (length xs - 1) False = (zs, pa, pb, pc, pd, cnt)" "0 < length xs"
  shows "part_inv cmp xs zs pa pb pc pd" "pb = Suc pc" "length zs = length xs"
  using partition_correct [OF assms(1) part_inv_start [OF assms(2)]]
  by (auto simp: part_inv_def dest: mset_eq_length)

text \<open>The routine. The recursive call sorts the smaller keys at the front and the jump to \<open>loop\<close> the larger
  keys at the end, each in its own part of the array.\<close>

function qsort :: "('a \<Rightarrow> 'a \<Rightarrow> int) \<Rightarrow> 'a list \<Rightarrow> 'a list" where
  "qsort cmp xs =
     (let n = length xs in
      if n < 7 then insertion cmp xs
      else case partition_loop cmp (swapfunc xs 0 (pivot cmp xs)) 1 1 (n - 1) (n - 1) False of
        (xs, pa, pb, pc, pd, cnt) \<Rightarrow>
          if \<not> cnt then insertion cmp xs
          else
            let r = min pa (pb - pa);
                xs = vecswap xs 0 (pb - r) r;
                r = min (pd - pc) (n - pd - 1);
                xs = vecswap xs pb (n - r) r;
                lo = take (pb - pa) xs;
                hi = drop (n - (pd - pc)) xs
            in (if pb - pa > 1 then qsort cmp lo else lo)
              @ drop (pb - pa) (take (n - (pd - pc)) xs)
              @ (if pd - pc > 1 then qsort cmp hi else hi))"
  by pat_completeness auto

termination
proof (relation "measure (\<lambda>(cmp, xs). length xs)", goal_cases)
  case (2 cmp xs n zs y pa ya pb yb pc yc pd cnt)
  have "partition_loop cmp (swapfunc xs 0 (pivot cmp xs)) 1 1 (length (swapfunc xs 0 (pivot cmp xs)) - 1)
      (length (swapfunc xs 0 (pivot cmp xs)) - 1) False = (zs, pa, pb, pc, pd, cnt)"
    and "0 < length (swapfunc xs 0 (pivot cmp xs))" using 2(1-8) by auto
  note b = partition_start [OF this]
  then have "0 < pa" "pb \<le> length xs" "pd < length xs" by (auto simp: part_inv_def)
  then show ?case using 2(1,9-) b(3) by (simp add: 2(1) less_imp_diff_less)
next
  case (3 cmp xs n zs y pa ya pb yb pc yc pd cnt)
  have "partition_loop cmp (swapfunc xs 0 (pivot cmp xs)) 1 1 (length (swapfunc xs 0 (pivot cmp xs)) - 1)
      (length (swapfunc xs 0 (pivot cmp xs)) - 1) False = (zs, pa, pb, pc, pd, cnt)"
    and "0 < length (swapfunc xs 0 (pivot cmp xs))" using 3(1-8) by auto
  note b = partition_start [OF this]
  then have "0 < pa" "pb \<le> length xs" "pd < length xs" by (auto simp: part_inv_def)
  then show ?case using 3(1,9-) b(3) by (simp add: 3(1) less_imp_diff_less)
qed simp

declare qsort.simps [simp del]

section \<open>The result is a permutation\<close>

lemma med3_less: "a < n \<Longrightarrow> b < n \<Longrightarrow> c < n \<Longrightarrow> med3 cmp xs a b c < n"
  by (simp add: med3_def)

lemma pivot_less:
  assumes "0 < length xs" shows "pivot cmp xs < length xs"
  using assms by (auto simp: pivot_def Let_def intro!: med3_less)

lemma sink_mset: "p < length xs \<Longrightarrow> mset (sink cmp xs p) = mset xs"
  by (induction cmp xs p rule: sink.induct) auto

lemma insertion_mset: "mset (insertion cmp xs) = mset xs"
proof -
  have "mset (fold (\<lambda>pm xs. sink cmp xs pm) ps ys) = mset ys" if "\<forall>p \<in> set ps. p < length ys" for ps ys
    using that by (induction ps arbitrary: ys) (auto simp: sink_mset mset_eq_length [OF sink_mset])
  then show ?thesis by (simp add: insertion_def)
qed

lemma vecswap_mset: "i + k \<le> length xs \<Longrightarrow> j + k \<le> length xs \<Longrightarrow> mset (vecswap xs i j k) = mset xs"
  by (induction xs i j k rule: vecswap.induct) auto

lemma take_mid_drop: "i \<le> j \<Longrightarrow> take i xs @ drop i (take j xs) @ drop j xs = xs"
  by (metis append.assoc append_take_drop_id min.absorb1 take_take)

text \<open>Exchanging two adjacent blocks by swapping the shorter one with the far end of the other.\<close>

lemma vecswap_nth:
  "i + k \<le> j \<Longrightarrow> j + k \<le> length xs \<Longrightarrow> vecswap xs i j k ! m =
     (if i \<le> m \<and> m < i + k then xs ! (m - i + j) else if j \<le> m \<and> m < j + k then xs ! (m - j + i) else xs ! m)"
proof (induction xs i j k rule: vecswap.induct)
  case (2 xs i j k)
  then show ?case by (auto simp: swap_nth Suc_diff_Suc intro!: arg_cong [where f = "nth xs"])
qed auto

lemma vecswap_exchange:
  assumes "b + p + q \<le> length xs" "\<forall>i. b \<le> i \<and> i < b + p \<longrightarrow> P (xs ! i)" "\<forall>i. b + p \<le> i \<and> i < b + p + q \<longrightarrow> Q (xs ! i)"
    and "ys = vecswap xs b (b + p + q - min p q) (min p q)"
  shows "(\<forall>i. b \<le> i \<and> i < b + q \<longrightarrow> Q (ys ! i)) \<and> (\<forall>i. b + q \<le> i \<and> i < b + p + q \<longrightarrow> P (ys ! i))
    \<and> (\<forall>i. i < b \<or> b + p + q \<le> i \<longrightarrow> ys ! i = xs ! i) \<and> mset ys = mset xs"
proof -
  have P: "b \<le> i \<Longrightarrow> i < b + p \<Longrightarrow> P (xs ! i)" and Q: "b + p \<le> i \<Longrightarrow> i < b + p + q \<Longrightarrow> Q (xs ! i)" for i
    using assms by auto
  show ?thesis
  proof (cases "p \<le> q")
    case True
    then have "ys = vecswap xs b (b + q) p" using assms(4) by (simp add: min_def)
    then show ?thesis using assms(1) True by (auto simp: vecswap_nth vecswap_mset intro!: P Q)
  next
    case False
    then have "ys = vecswap xs b (b + p) q" using assms(4) by (simp add: min_def)
    then show ?thesis using assms(1) False by (auto simp: vecswap_nth vecswap_mset intro!: P Q)
  qed
qed

definition three_way :: "('a \<Rightarrow> 'a \<Rightarrow> int) \<Rightarrow> 'a \<Rightarrow> 'a list \<Rightarrow> 'a list \<Rightarrow> 'a list \<Rightarrow> bool" where
  "three_way cmp v lo mid hi \<longleftrightarrow>
     (\<forall>x \<in> set lo. cmp x v < 0) \<and> (\<forall>x \<in> set mid. cmp x v = 0 \<or> x = v) \<and> (\<forall>x \<in> set hi. cmp x v > 0)"

lemma three_wayI:
  assumes "\<And>i. i < l \<Longrightarrow> cmp (ws ! i) v < 0" "\<And>i. l \<le> i \<Longrightarrow> i < h \<Longrightarrow> cmp (ws ! i) v = 0 \<or> ws ! i = v"
    and "\<And>i. h \<le> i \<Longrightarrow> i < length ws \<Longrightarrow> cmp (ws ! i) v > 0"
  shows "three_way cmp v (take l ws) (drop l (take h ws)) (drop h ws)"
proof -
  have "cmp x v < 0" if "x \<in> set (take l ws)" for x using that assms(1) by (auto simp: in_set_conv_nth)
  moreover have "cmp x v = 0 \<or> x = v" if "x \<in> set (drop l (take h ws))" for x
  proof -
    from that obtain i where "i < length (drop l (take h ws))" "x = drop l (take h ws) ! i" by (auto simp: in_set_conv_nth)
    moreover then have "l \<le> length (take h ws)" "l + i < h" by auto
    ultimately have "x = ws ! (l + i)" "l + i < h" by (simp_all add: nth_drop del: length_take)
    then show ?thesis using assms(2) [of "l + i"] by simp
  qed
  moreover have "cmp x v > 0" if "x \<in> set (drop h ws)" for x
  proof -
    from that obtain i where "i < length (drop h ws)" "x = drop h ws ! i" by (auto simp: in_set_conv_nth)
    then show ?thesis using assms(3) [of "h + i"] by simp
  qed
  ultimately show ?thesis unfolding three_way_def by blast
qed

lemma part_inv_three_way:
  assumes inv: "part_inv cmp ys zs pa pb pc pd" and pb: "pb = Suc pc" and n: "n = length zs"
    and ws: "ws = vecswap (vecswap zs 0 (pb - min pa (pb - pa)) (min pa (pb - pa))) pb (n - min (pd - pc) (n - pd - 1))
      (min (pd - pc) (n - pd - 1))"
  shows "mset ws = mset ys \<and> three_way cmp (ys ! 0) (take (pb - pa) ws) (drop (pb - pa) (take (n - (pd - pc)) ws)) (drop (n - (pd - pc)) ws)"
proof -
  define us where us: "us = vecswap zs 0 (pb - min pa (pb - pa)) (min pa (pb - pa))"
  have us_len: "length us = length zs" by (simp add: us)
  note ws = ws [folded us]
  let ?v = "ys ! 0"
  let ?E = "\<lambda>x. cmp x ?v = 0 \<or> x = ?v"
  have b: "0 + pa + (pb - pa) \<le> length zs" "0 + pa + (pb - pa) = pb" "pb + (pd - pc) + (n - pd - 1) = n" "pa \<le> pb" "pd < n"
    using inv by (auto simp: part_inv_def pb n)
  have "(\<forall>i. 0 \<le> i \<and> i < 0 + (pb - pa) \<longrightarrow> cmp (us ! i) ?v < 0) \<and> (\<forall>i. 0 + (pb - pa) \<le> i \<and> i < 0 + pa + (pb - pa) \<longrightarrow> ?E (us ! i))
    \<and> (\<forall>i. i < 0 \<or> 0 + pa + (pb - pa) \<le> i \<longrightarrow> us ! i = zs ! i) \<and> mset us = mset zs"
  proof (intro vecswap_exchange b allI impI)
    show "?E (zs ! i)" if "0 \<le> i \<and> i < 0 + pa" for i using inv that by (cases i) (auto simp: part_inv_def)
  qed (use inv in \<open>auto simp: part_inv_def b us\<close>)
  then have 1: "\<forall>i. i < pb - pa \<longrightarrow> cmp (us ! i) ?v < 0" "\<forall>i. pb - pa \<le> i \<and> i < pb \<longrightarrow> ?E (us ! i)"
    "\<forall>i. pb \<le> i \<longrightarrow> us ! i = zs ! i" "mset us = mset zs" using b by auto
  have "(\<forall>i. pb \<le> i \<and> i < pb + (n - pd - 1) \<longrightarrow> ?E (ws ! i)) \<and> (\<forall>i. pb + (n - pd - 1) \<le> i \<and> i < pb + (pd - pc) + (n - pd - 1) \<longrightarrow> cmp (ws ! i) ?v > 0)
    \<and> (\<forall>i. i < pb \<or> pb + (pd - pc) + (n - pd - 1) \<le> i \<longrightarrow> ws ! i = us ! i) \<and> mset ws = mset us"
    using inv by (intro vecswap_exchange) (auto simp: part_inv_def b ws n 1 pb us_len)
  then have 2: "\<forall>i. pb \<le> i \<and> i < n - (pd - pc) \<longrightarrow> ?E (ws ! i)" "\<forall>i. n - (pd - pc) \<le> i \<and> i < n \<longrightarrow> cmp (ws ! i) ?v > 0"
    "\<forall>i. i < pb \<longrightarrow> ws ! i = us ! i" "mset ws = mset zs" using b 1(4) by auto
  have len: "length ws = n" by (simp add: ws us_len n)
  have "?E (ws ! i)" if "pb - pa \<le> i" "i < n - (pd - pc)" for i
    using 1(2) 2(1,3) that by (cases "i < pb") auto
  moreover have "cmp (ws ! i) ?v < 0" if "i < pb - pa" for i using 1(1) 2(3) that b by auto
  ultimately have "three_way cmp ?v (take (pb - pa) ws) (drop (pb - pa) (take (n - (pd - pc)) ws)) (drop (n - (pd - pc)) ws)"
    using 2(2) b by (intro three_wayI) (auto simp: len)
  then show ?thesis using 2(4) inv by (simp add: part_inv_def)
qed

text \<open>One round of the routine: an insertion sort of a rearrangement, or a division into smaller, equal and
  larger keys, the outer two of which are sorted in turn.\<close>

lemma qsort_step:
  obtains (insertion) ys where "mset ys = mset xs" "qsort cmp xs = insertion cmp ys"
  | (divide) v lo mid hi where "three_way cmp v lo mid hi" "mset (lo @ mid @ hi) = mset xs" "v \<in> set xs"
      "length lo < length xs" "length hi < length xs"
      "qsort cmp xs = (if length lo > 1 then qsort cmp lo else lo) @ mid @ (if length hi > 1 then qsort cmp hi else hi)"
proof (cases "length xs < 7")
  case True
  show ?thesis by (rule insertion [of xs]) (simp_all add: qsort.simps [of cmp xs] Let_def True)
next
  case False
  define ys where "ys = swapfunc xs 0 (pivot cmp xs)"
  have ys: "mset ys = mset xs" "length ys = length xs" using False pivot_less [of xs cmp] by (cases xs; simp add: ys_def)+
  obtain zs pa pb pc pd cnt where part: "partition_loop cmp ys 1 1 (length ys - 1) (length ys - 1) False = (zs, pa, pb, pc, pd, cnt)"
    by (metis prod_cases6)
  have "0 < length ys" unfolding ys(2) using False by linarith
  note inv = partition_start [OF part this]
  note q = qsort.simps [of cmp xs, unfolded Let_def if_not_P [OF False], folded ys_def ys(2), unfolded part prod.case]
  show ?thesis
  proof (cases cnt)
    case False
    then show ?thesis using insertion [of zs] q inv(1) ys by (simp add: part_inv_def)
  next
    case True
    define ws where "ws = vecswap (vecswap zs 0 (pb - min pa (pb - pa)) (min pa (pb - pa))) pb
      (length ys - min (pd - pc) (length ys - pd - 1)) (min (pd - pc) (length ys - pd - 1))"
    let ?n = "length ys"
    have tw: "mset ws = mset ys" "three_way cmp (ys ! 0) (take (pb - pa) ws) (drop (pb - pa) (take (?n - (pd - pc)) ws)) (drop (?n - (pd - pc)) ws)"
      using part_inv_three_way [OF inv(1,2) inv(3) [symmetric] ws_def] by auto
    have b: "0 < pa" "pa \<le> pb" "pb = Suc pc" "pc \<le> pd" "pd < ?n" using inv by (auto simp: part_inv_def)
    have len: "length ws = ?n" using tw(1) by (rule mset_eq_length)
    have "ys ! 0 \<in> set xs" using ys False by (metis \<open>0 < length ys\<close> mset_eq_setD nth_mem)
    moreover have "length (take (pb - pa) ws) = pb - pa" "length (drop (?n - (pd - pc)) ws) = pd - pc" using b len by auto
    moreover have "mset (take (pb - pa) ws @ drop (pb - pa) (take (?n - (pd - pc)) ws) @ drop (?n - (pd - pc)) ws) = mset xs"
      using b tw(1) ys(1) by (subst take_mid_drop) auto
    moreover have "pb - pa < length xs" "pd - pc < length xs" using b ys(2) by auto
    moreover note q [unfolded if_not_P [of "\<not> cnt", unfolded not_not, OF True], folded ws_def]
    ultimately show ?thesis by (intro divide [OF tw(2)]) simp_all
  qed
qed

lemma qsort_mset: "mset (qsort cmp xs) = mset xs"
proof (induction xs rule: length_induct)
  case (1 xs)
  show ?case
  proof (rule qsort_step [of xs cmp])
    fix v lo mid hi
    assume "mset (lo @ mid @ hi) = mset xs" "length lo < length xs" "length hi < length xs"
      "qsort cmp xs = (if length lo > 1 then qsort cmp lo else lo) @ mid @ (if length hi > 1 then qsort cmp hi else hi)"
    then show ?thesis using 1 by auto
  qed (simp add: insertion_mset)
qed

section \<open>The result is sorted\<close>

text \<open>What a comparison function promises on the elements it is called with.\<close>

locale cmp_order =
  fixes cmp :: "'a \<Rightarrow> 'a \<Rightarrow> int" and A :: "'a set"
  assumes cmp_sym: "x \<in> A \<Longrightarrow> y \<in> A \<Longrightarrow> cmp x y < 0 \<longleftrightarrow> cmp y x > 0"
    and cmp_trans: "x \<in> A \<Longrightarrow> y \<in> A \<Longrightarrow> z \<in> A \<Longrightarrow> cmp x y \<le> 0 \<Longrightarrow> cmp y z \<le> 0 \<Longrightarrow> cmp x z \<le> 0"
begin

lemma cmp_refl: "x \<in> A \<Longrightarrow> cmp x x = 0"
  using cmp_sym [of x x] by linarith

lemma cmp_flip: "x \<in> A \<Longrightarrow> y \<in> A \<Longrightarrow> cmp x y \<ge> 0 \<Longrightarrow> cmp y x \<le> 0"
  using cmp_sym [of x y] cmp_sym [of y x] by linarith

lemma sink_sorted:
  assumes "p \<le> q" "q < length xs" "set xs \<subseteq> A" "\<And>i j. i < j \<Longrightarrow> j \<le> q \<Longrightarrow> j \<noteq> p \<Longrightarrow> cmp (xs ! i) (xs ! j) \<le> 0"
    and "i < j" "j \<le> q"
  shows "cmp (sink cmp xs p ! i) (sink cmp xs p ! j) \<le> 0"
  using assms
proof (induction p arbitrary: xs)
  case (Suc p)
  have el: "xs ! k \<in> A" if "k \<le> q" for k using Suc.prems that by (meson le_less_trans nth_mem subsetD)
  show ?case
  proof (cases "cmp (xs ! p) (xs ! Suc p) > 0")
    case True
    have s: "set (swapfunc xs (Suc p) p) = set xs" using Suc.prems by (intro mset_eq_setD swap_mset) auto
    have "cmp (swapfunc xs (Suc p) p ! i) (swapfunc xs (Suc p) p ! j) \<le> 0" if "i < j" "j \<le> q" "j \<noteq> p" for i j
    proof (cases "j = Suc p")
      case True
      then show ?thesis using that Suc.prems \<open>cmp (xs ! p) (xs ! Suc p) > 0\<close> el cmp_flip [of "xs ! p" "xs ! Suc p"]
        by (auto simp: swap_nth less_Suc_eq)
    next
      case False
      then show ?thesis using that Suc.prems by (auto simp: swap_nth)
    qed
    then show ?thesis using True Suc.prems s by (simp add: Suc.IH)
  next
    case False
    have "cmp (xs ! i) (xs ! j) \<le> 0"
    proof (cases "j = Suc p")
      case True
      then show ?thesis using False Suc.prems el cmp_trans [of "xs ! i" "xs ! p" "xs ! Suc p"]
        by (cases "i = p") simp_all
    qed (use Suc.prems in auto)
    then show ?thesis using False by simp
  qed
qed simp

lemma insertion_sorted:
  assumes "set xs \<subseteq> A"
  shows "sorted_wrt (\<lambda>x y. cmp x y \<le> 0) (insertion cmp xs)"
proof -
  have "m \<le> length xs \<Longrightarrow> (\<forall>j < m. \<forall>i < j. cmp (fold (\<lambda>pm xs. sink cmp xs pm) [1..<m] xs ! i)
      (fold (\<lambda>pm xs. sink cmp xs pm) [1..<m] xs ! j) \<le> 0) \<and> mset (fold (\<lambda>pm xs. sink cmp xs pm) [1..<m] xs) = mset xs" for m
  proof (induction m)
    case (Suc m)
    show ?case
    proof (cases "m = 0")
      case False
      let ?ys = "fold (\<lambda>pm xs. sink cmp xs pm) [1..<m] xs"
      have ys: "set ?ys \<subseteq> A" "length ?ys = length xs" "mset ?ys = mset xs"
        using Suc assms mset_eq_setD [of ?ys xs] mset_eq_length [of ?ys xs] by auto
      have "cmp (sink cmp ?ys m ! i) (sink cmp ?ys m ! j) \<le> 0" if "i < j" "j < Suc m" for i j
        using Suc that ys by (intro sink_sorted [of m m]) auto
      moreover have "mset (sink cmp ?ys m) = mset xs" using Suc.prems ys by (simp add: sink_mset)
      ultimately show ?thesis using False by simp
    qed simp
  qed simp
  from this [of "length xs"] have "\<forall>j < length (insertion cmp xs). \<forall>i < j. cmp (insertion cmp xs ! i) (insertion cmp xs ! j) \<le> 0"
    using mset_eq_length [OF insertion_mset [of cmp xs]] by (simp add: insertion_def)
  then show ?thesis by (simp add: sorted_wrt_iff_nth_less)
qed

lemma three_way_sorted:
  assumes "three_way cmp v lo mid hi" "set lo \<union> set mid \<union> set hi \<subseteq> A" "v \<in> A"
    and "sorted_wrt (\<lambda>x y. cmp x y \<le> 0) lo'" "sorted_wrt (\<lambda>x y. cmp x y \<le> 0) hi'" "set lo' = set lo" "set hi' = set hi"
  shows "sorted_wrt (\<lambda>x y. cmp x y \<le> 0) (lo' @ mid @ hi')"
proof -
  have le: "cmp x y \<le> 0" if "x \<in> A" "y \<in> A" "cmp x v \<le> 0" "cmp y v \<ge> 0" for x y
    using cmp_trans [of x v y] cmp_flip [of y v] assms(3) that by blast
  have mid: "cmp x v = 0" if "x \<in> set mid" for x
    using that assms(1,3) cmp_refl by (auto simp: three_way_def)
  have cross: "cmp x y \<le> 0" if "x \<in> set lo \<union> set mid" "y \<in> set mid \<union> set hi" for x y
    by (rule le) (use that mid assms(1,2) in \<open>auto simp: three_way_def\<close>)
  then have "sorted_wrt (\<lambda>x y. cmp x y \<le> 0) mid" by (simp add: sorted_wrt_iff_nth_less)
  then show ?thesis using assms(4-7) cross by (simp add: sorted_wrt_append)
qed

lemma qsort_sorted: "set xs \<subseteq> A \<Longrightarrow> sorted_wrt (\<lambda>x y. cmp x y \<le> 0) (qsort cmp xs)"
proof (induction xs rule: length_induct)
  case (1 xs)
  show ?case
  proof (rule qsort_step [of xs cmp])
    fix ys assume "mset ys = mset xs" "qsort cmp xs = insertion cmp ys"
    then show ?thesis using insertion_sorted [of ys] 1 by (metis mset_eq_setD)
  next
    fix v lo mid hi
    assume d: "three_way cmp v lo mid hi" "mset (lo @ mid @ hi) = mset xs" "v \<in> set xs" "length lo < length xs" "length hi < length xs"
      "qsort cmp xs = (if length lo > 1 then qsort cmp lo else lo) @ mid @ (if length hi > 1 then qsort cmp hi else hi)"
    have sub: "set lo \<union> set mid \<union> set hi \<subseteq> A" using mset_eq_setD [OF d(2)] 1 by auto
    have s: "sorted_wrt (\<lambda>x y. cmp x y \<le> 0) (if length ys > 1 then qsort cmp ys else ys)" if "set ys \<subseteq> A" "length ys < length xs" for ys
      using that 1 by (cases ys; cases "tl ys") auto
    have m: "set (if length ys > 1 then qsort cmp ys else ys) = set ys" for ys by (simp add: mset_eq_setD [OF qsort_mset])
    show ?thesis unfolding d(6) using sub 1 d by (intro three_way_sorted [OF d(1)] s m) auto
  qed
qed

end

text \<open>C14: \<open>qsort\<close> sorts. For a comparison that orders the elements of the array, the call ends, the result is a
  permutation of the array, and no element comes after one that compares greater.\<close>

theorem qsort_correct:
  assumes "\<And>x y. x \<in> set xs \<Longrightarrow> y \<in> set xs \<Longrightarrow> cmp x y < 0 \<longleftrightarrow> cmp y x > 0"
    and "\<And>x y z. x \<in> set xs \<Longrightarrow> y \<in> set xs \<Longrightarrow> z \<in> set xs \<Longrightarrow> cmp x y \<le> 0 \<Longrightarrow> cmp y z \<le> 0 \<Longrightarrow> cmp x z \<le> 0"
  shows "mset (qsort cmp xs) = mset xs \<and> sorted_wrt (\<lambda>x y. cmp x y \<le> 0) (qsort cmp xs)"
  using cmp_order.qsort_sorted [OF cmp_order.intro [OF assms] order_refl] by (simp add: qsort_mset)

theorem qsort_correct_witness:
  "let xs = [5, 3, 8, 1, 9, 2, 7, 3, 6] :: int list; ys = qsort (\<lambda>x y. x - y) xs in
   mset ys = mset xs \<and> sorted_wrt (\<lambda>x y. x - y \<le> 0) ys \<and> ys = [1, 2, 3, 3, 5, 6, 7, 8, 9]"
proof -
  have "qsort (\<lambda>x y. x - y) ([5, 3, 8, 1, 9, 2, 7, 3, 6] :: int list) = [1, 2, 3, 3, 5, 6, 7, 8, 9]" by code_simp
  then show ?thesis using qsort_correct [of "[5, 3, 8, 1, 9, 2, 7, 3, 6] :: int list" "\<lambda>x y. x - y"] by simp
qed

end
