(* ===== verification/Mem_Map.thy ===== *)
theory Mem_Map
  imports Mmu_Map Qsort
begin

unbundle bit_operations_syntax

text \<open>
  The construction of the static memory map at boot: \<open>init_mem_map\<close> and \<open>core_init_mmu_map\<close> of
  core\_mmu.c. The registered physical areas (a linker section filled by \<open>register_phys_mem\<close>) are an
  argument. They are sorted and merged into the map, address space for late mappings is reserved, the
  kernel's own areas are mapped at their physical addresses and all others above them.
\<close>

section \<open>Operations\<close>

abbreviation (input) CORE_MMU_PGDIR_SIZE :: u32 where "CORE_MMU_PGDIR_SIZE \<equiv> 0x100000"
abbreviation (input) CFG_TEE_RAM_VA_SIZE :: u32 where "CFG_TEE_RAM_VA_SIZE \<equiv> 0x800000"
abbreviation (input) RES_VASPACE_SIZE :: u32 where "RES_VASPACE_SIZE \<equiv> 0xA00000"

text \<open>A computation that may fail and has no state. Assertions are checked in debug builds (\<open>dbg\<close>).\<close>

definition bindE :: "fault + 'a \<Rightarrow> ('a \<Rightarrow> fault + 'b) \<Rightarrow> fault + 'b" where
  "bindE x f = (case x of Inl e \<Rightarrow> Inl e | Inr y \<Rightarrow> f y)"

definition map_is_flat_mapped :: "tee_mmap_region \<Rightarrow> bool" where
  "map_is_flat_mapped mm = map_is_tee_ram mm"

text \<open>\<open>core_mmu_type_to_attr\<close> panics on a type without attributes. Such an entry never gets an address:
  \<open>place_up\<close> and \<open>place_down\<close> end in the panic.\<close>

definition type_attr :: "tee_mmap_region \<Rightarrow> u32" where
  "type_attr mm = (case core_mmu_type_to_attr (mtype mm) of None \<Rightarrow> 0 | Some a \<Rightarrow> a)"

definition map_is_secure :: "tee_mmap_region \<Rightarrow> bool" where
  "map_is_secure mm \<longleftrightarrow> type_attr mm AND TEE_MATTR_SECURE \<noteq> 0"

definition map_is_pgdir :: "tee_mmap_region \<Rightarrow> bool" where
  "map_is_pgdir mm \<longleftrightarrow> region_size mm = CORE_MMU_PGDIR_SIZE"

text \<open>The comparisons return the difference of two unsigned values as an \<open>int\<close>.\<close>

definition cmp_mmap_by_lower_va :: "tee_mmap_region \<Rightarrow> tee_mmap_region \<Rightarrow> int" where
  "cmp_mmap_by_lower_va a b = sint (mva a - mva b)"

definition cmp_mmap_by_secure_attr :: "tee_mmap_region \<Rightarrow> tee_mmap_region \<Rightarrow> int" where
  "cmp_mmap_by_secure_attr a b =
     (if type_attr a = 0 \<or> type_attr b = 0 then 0 else of_bool (map_is_secure b) - of_bool (map_is_secure a))"

definition cmp_mmap_by_bigger_region_size :: "tee_mmap_region \<Rightarrow> tee_mmap_region \<Rightarrow> int" where
  "cmp_mmap_by_bigger_region_size a b = sint (region_size b - region_size a)"

text \<open>The first loop: device areas are widened to whole sections, then all areas are entered.\<close>

definition widen_io :: "core_mmu_phys_mem \<Rightarrow> core_mmu_phys_mem" where
  "widen_io mem =
     (if pm_type mem = MEM_AREA_IO_NSEC \<or> pm_type mem = MEM_AREA_IO_SEC
      then let addr = ROUNDDOWN (pm_addr mem) CORE_MMU_PGDIR_SIZE in
        mem\<lparr>pm_addr := addr, pm_size := ROUNDUP (pm_size mem + (pm_addr mem - addr)) CORE_MMU_PGDIR_SIZE\<rparr>
      else mem)"

fun add_all :: "bool \<Rightarrow> nat \<Rightarrow> core_mmu_phys_mem list \<Rightarrow> tee_mmap_region list \<Rightarrow> fault + tee_mmap_region list" where
  "add_all dbg num_elems [] ms = Inr ms"
| "add_all dbg num_elems (mem # mems) ms =
     (if pm_size mem = 0 then add_all dbg num_elems mems ms
      else if dbg \<and> pm_addr mem = 0 \<and> core_mmu_type_to_attr (pm_type mem) = None then Inl Panic
      else if dbg \<and> pm_addr mem = 0 \<and> core_mmu_type_to_attr (pm_type mem) \<noteq> Some 0 then Inl Assert_fail
      else bindE (add_phys_mem num_elems (widen_io mem) ms) (add_all dbg num_elems mems))"

definition assign_region_size :: "tee_mmap_region \<Rightarrow> fault + tee_mmap_region" where
  "assign_region_size m =
     (let mask = mpa m OR msize m in
      if mask AND SECTION_MASK = 0 then Inr (m\<lparr>region_size := CORE_MMU_PGDIR_SIZE\<rparr>)
      else if mask AND SMALL_PAGE_MASK = 0 then Inr (m\<lparr>region_size := SMALL_PAGE_SIZE\<rparr>)
      else Inl Panic)"

fun assign_region_sizes :: "tee_mmap_region list \<Rightarrow> fault + tee_mmap_region list" where
  "assign_region_sizes [] = Inr []"
| "assign_region_sizes (m # ms) =
     bindE (assign_region_size m) (\<lambda>m'. map_sum id ((#) m') (assign_region_sizes ms))"

definition sort_regions :: "tee_mmap_region list \<Rightarrow> tee_mmap_region list" where
  "sort_regions ms =
     (let ms = qsort cmp_mmap_by_bigger_region_size ms; count = length (takeWhile map_is_pgdir ms)
      in take count ms @ qsort cmp_mmap_by_secure_attr (drop count ms))"

definition flat_map :: "tee_mmap_region \<Rightarrow> tee_mmap_region" where
  "flat_map m = (if map_is_flat_mapped m then m\<lparr>mattr := type_attr m, mva := mpa m\<rparr> else m)"

definition flat_start :: "tee_mmap_region list \<Rightarrow> vaddr" where
  "flat_start ms = fold (\<lambda>m va. if map_is_flat_mapped m then min va (ROUNDDOWN (mpa m) (region_size m)) else va) ms 0xFFFFFFFF"

definition flat_end :: "tee_mmap_region list \<Rightarrow> vaddr" where
  "flat_end ms = fold (\<lambda>m e. if map_is_flat_mapped m then max e (ROUNDUP (mpa m + msize m) (region_size m)) else e) ms 0"

fun place_down :: "vaddr \<Rightarrow> bool \<Rightarrow> tee_mmap_region list \<Rightarrow> fault + tee_mmap_region list" where
  "place_down va va_is_secure [] = Inr []"
| "place_down va va_is_secure (m # ms) =
     (if map_is_flat_mapped m then map_sum id ((#) m) (place_down va va_is_secure ms)
      else if core_mmu_type_to_attr (mtype m) = None then Inl Panic
      else let va = (if va_is_secure \<noteq> map_is_secure m then ROUNDDOWN va CORE_MMU_PGDIR_SIZE else va);
               va = ROUNDDOWN (va - msize m) (region_size m);
               va = ROUNDDOWN va CORE_MMU_PGDIR_SIZE
           in map_sum id ((#) (m\<lparr>mattr := type_attr m, mva := va\<rparr>)) (place_down va (map_is_secure m) ms))"

fun place_up :: "vaddr \<Rightarrow> bool \<Rightarrow> tee_mmap_region list \<Rightarrow> fault + tee_mmap_region list" where
  "place_up va va_is_secure [] = Inr []"
| "place_up va va_is_secure (m # ms) =
     (if map_is_flat_mapped m then map_sum id ((#) m) (place_up va va_is_secure ms)
      else if core_mmu_type_to_attr (mtype m) = None then Inl Panic
      else let va = (if va_is_secure \<noteq> map_is_secure m then ROUNDUP va CORE_MMU_PGDIR_SIZE else va);
               va = ROUNDUP va (region_size m);
               va = ROUNDUP va CORE_MMU_PGDIR_SIZE
           in map_sum id ((#) (m\<lparr>mattr := type_attr m, mva := va\<rparr>)) (place_up (va + msize m) (map_is_secure m) ms))"

text \<open>The second half of \<open>init_mem_map\<close>: region sizes, virtual addresses and the final order.\<close>

definition layout :: "bool \<Rightarrow> tee_mmap_region list \<Rightarrow> fault + tee_mmap_region list" where
  "layout dbg ms =
     bindE (assign_region_sizes ms) (\<lambda>ms.
     let ms = sort_regions ms; va = flat_start ms; flat = map flat_map ms in
     if dbg \<and> \<not> va \<ge> CFG_TEE_RAM_START then Inl Assert_fail
     else if dbg \<and> \<not> flat_end ms \<le> CFG_TEE_RAM_START + CFG_TEE_RAM_VA_SIZE then Inl Assert_fail
     else bindE (if core_mmu_place_tee_ram_at_top va then place_down va True flat
         else place_up (ROUNDUP (va + CFG_TEE_RAM_VA_SIZE) CORE_MMU_PGDIR_SIZE) True flat)
       (\<lambda>ms. Inr (qsort cmp_mmap_by_lower_va ms)))"

text \<open>The first half: the table of areas. Its terminating entry needs a place, too.\<close>

definition collect_regions :: "bool \<Rightarrow> nat \<Rightarrow> core_mmu_phys_mem list \<Rightarrow> (paddr \<times> u32) list \<Rightarrow> fault + tee_mmap_region list" where
  "collect_regions dbg num_elems mems nsec_ddr =
     bindE (add_all dbg num_elems mems []) (\<lambda>ms.
     if \<not> verify_special_mem_areas ms nsec_ddr then Inl Panic
     else bindE (add_va_space num_elems MEM_AREA_RES_VASPACE RES_VASPACE_SIZE ms) (\<lambda>ms.
     bindE (add_va_space num_elems MEM_AREA_SHM_VASPACE RES_VASPACE_SIZE ms) (\<lambda>ms.
     if length ms \<ge> num_elems then Inl Out_of_bounds else Inr ms)))"

definition init_mem_map :: "bool \<Rightarrow> nat \<Rightarrow> core_mmu_phys_mem list \<Rightarrow> (paddr \<times> u32) list \<Rightarrow> fault + tee_mmap_region list" where
  "init_mem_map dbg num_elems mems nsec_ddr = bindE (collect_regions dbg num_elems mems nsec_ddr) (layout dbg)"

definition check_type :: "tee_mmap_region \<Rightarrow> bool" where
  "check_type m = (case mtype m of
       MEM_AREA_TEE_RAM \<Rightarrow> pbuf_is_inside secure_only (mpa m) (msize m)
     | MEM_AREA_TEE_RAM_RX \<Rightarrow> pbuf_is_inside secure_only (mpa m) (msize m)
     | MEM_AREA_TEE_RAM_RO \<Rightarrow> pbuf_is_inside secure_only (mpa m) (msize m)
     | MEM_AREA_TEE_RAM_RW \<Rightarrow> pbuf_is_inside secure_only (mpa m) (msize m)
     | MEM_AREA_TA_RAM \<Rightarrow> pbuf_is_inside secure_only (mpa m) (msize m)
     | MEM_AREA_NSEC_SHM \<Rightarrow> pbuf_is_inside nsec_shared (mpa m) (msize m)
     | MEM_AREA_IO_SEC \<Rightarrow> True | MEM_AREA_IO_NSEC \<Rightarrow> True
     | MEM_AREA_RAM_SEC \<Rightarrow> True | MEM_AREA_RAM_NSEC \<Rightarrow> True
     | MEM_AREA_RES_VASPACE \<Rightarrow> True | MEM_AREA_SHM_VASPACE \<Rightarrow> True
     | _ \<Rightarrow> False)"

definition core_init_mmu_map :: "core_mmu_phys_mem list \<Rightarrow> (paddr \<times> u32) list \<Rightarrow> unit km" where
  "core_init_mmu_map mems nsec_ddr =
     thenM (forM secure_only (\<lambda>a. whenM (pbuf_intersects nsec_shared (ma_paddr a) (ma_size a)) panic)) (
     bindM (gets (\<lambda>s. debug (mach s))) (\<lambda>dbg.
     bindM (case init_mem_map dbg (MAX_MMAP_REGIONS + 1) mems nsec_ddr of Inl e \<Rightarrow> throw e | Inr ms \<Rightarrow> ret ms) (\<lambda>ms.
     thenM (modifyM (\<lambda>s. s\<lparr>mmu := (mmu s)\<lparr>static_memory_map := ms\<rparr>\<rparr>)) (
     thenM (forM (used_entries ms) (\<lambda>m. whenM (\<not> check_type m) panic))
       (core_init_mmu_tables ms)))))"

section \<open>The comparisons\<close>

lemma sint_diff32:
  fixes a b :: u32
  assumes "unat a < unat b + 0x80000000" "unat b < unat a + 0x80000000"
  shows "sint (a - b) = int (unat a) - int (unat b)"
proof -
  have sint: "sint (a - b) = signed_take_bit 31 (uint a - uint b)"
    by (simp add: sint_uint uint_word_ariths(2) signed_take_bit_eq_take_bit_shift take_bit_eq_mod mod_simps)
  have pow31: "(2 :: int) ^ 31 = 0x80000000" by simp
  have "signed_take_bit 31 (uint a - uint b) = uint a - uint b"
    unfolding uint_nat by (rule signed_take_bit_int_eq_self) (simp only: pow31, use assms in linarith)+
  with sint show ?thesis by simp
qed

text \<open>Addresses less than 2 GiB apart are compared correctly.\<close>

abbreviation (input) va_window :: "tee_mmap_region set" where
  "va_window \<equiv> {m. 0x4C000000 \<le> unat (mva m) \<and> unat (mva m) < 0xCC000000}"

lemma cmp_va_diff:
  "a \<in> va_window \<Longrightarrow> b \<in> va_window \<Longrightarrow> cmp_mmap_by_lower_va a b = int (unat (mva a)) - int (unat (mva b))"
  unfolding cmp_mmap_by_lower_va_def mem_Collect_eq by (rule sint_diff32) linarith+

interpretation by_va: cmp_order cmp_mmap_by_lower_va va_window
  by unfold_locales (simp only: cmp_va_diff; linarith)+

lemma cmp_size_diff:
  assumes "region_size a \<in> {0x1000, 0x100000}" "region_size b \<in> {0x1000, 0x100000}"
  shows "cmp_mmap_by_bigger_region_size a b = int (unat (region_size b)) - int (unat (region_size a))"
  unfolding cmp_mmap_by_bigger_region_size_def by (rule sint_diff32) (use assms in auto)

interpretation by_size: cmp_order cmp_mmap_by_bigger_region_size "{m. region_size m \<in> {0x1000, 0x100000}}"
  by unfold_locales (simp only: cmp_size_diff mem_Collect_eq; linarith)+

lemma sort_regions_mset: "mset (sort_regions ms) = mset ms"
  unfolding sort_regions_def Let_def mset_append qsort_mset [of cmp_mmap_by_secure_attr]
  unfolding mset_append [symmetric] append_take_drop_id by (rule qsort_mset)

section \<open>Rounding\<close>

lemma mask_20: "SECTION_MASK = (mask 20 :: u32)" and mask_12: "SMALL_PAGE_MASK = (mask 12 :: u32)"
  by (simp_all add: mask_eq_exp_minus_1)

lemma and_page_mask: "w AND SECTION_MASK = take_bit 20 w" "w AND SMALL_PAGE_MASK = take_bit 12 (w :: u32)"
  by (simp_all only: mask_20 mask_12 take_bit_eq_mask)

lemma round_12_nat:
  assumes "unat z + 0xFFF < 2 ^ 32"
  shows "unat (ROUNDUP z 0x1000) = (unat z + 0xFFF) div 0x1000 * 0x1000"
proof -
  let ?w = "z + 0xFFF"
  have w: "unat ?w = unat z + 0xFFF" using assms by (simp add: unat_add32)
  have "ROUNDUP z 0x1000 = ?w - take_bit 12 ?w"
    using round_parts [of ?w 12] by (simp add: ROUNDUP_def mask_eq_exp_minus_1)
  then have "unat (ROUNDUP z 0x1000) = unat ?w - unat ?w mod 0x1000"
    by (simp add: unat_sub32 unat_take_bit32)
  then show ?thesis unfolding w by (simp add: minus_mod_eq_div_mult)
qed

text \<open>The number of sections that hold \<open>n\<close> bytes.\<close>

definition sections :: "nat \<Rightarrow> nat" where
  "sections n = (n + 0xFFFFF) div 0x100000"

lemma sections_upper: "n \<le> sections n * 0x100000"
  unfolding sections_def by linarith

lemma sections_le: "n \<le> k * 0x100000 \<Longrightarrow> sections n \<le> k"
  unfolding sections_def by linarith

lemma sections_unique: "(k - 1) * 0x100000 < n \<Longrightarrow> n \<le> k * 0x100000 \<Longrightarrow> sections n = k"
  unfolding sections_def by linarith

lemma sections_add: "sections (k * 0x100000 + n) = k + sections n"
  unfolding sections_def by linarith

lemma sections_mult: "sections (k * 0x100000) = k"
  unfolding sections_def by linarith

lemma sections_round_12: "sections ((n + 0xFFF) div 0x1000 * 0x1000) = sections n"
proof (rule antisym)
  have "(n + 0xFFF) div 0x1000 \<le> sections n * 0x100" using sections_upper [of n] by linarith
  then show "sections ((n + 0xFFF) div 0x1000 * 0x1000) \<le> sections n" by (intro sections_le) simp
  have "n \<le> (n + 0xFFF) div 0x1000 * 0x1000" by linarith
  then show "sections n \<le> sections ((n + 0xFFF) div 0x1000 * 0x1000)"
    unfolding sections_def by (intro div_le_mono) simp
qed

lemma round_sections:
  assumes "sections (unat z) * 0x100000 < 2 ^ 32 - 0x100000" "rs = 0x1000 \<or> rs = 0x100000"
  shows "unat (ROUNDUP z 0x100000) = sections (unat z) * 0x100000"
    and "unat (ROUNDUP (ROUNDUP z rs) 0x100000) = sections (unat z) * 0x100000"
proof -
  have z: "unat z + 0xFFFFF < 2 ^ 32" using assms(1) sections_upper [of "unat z"] by linarith
  show 1: "unat (ROUNDUP z 0x100000) = sections (unat z) * 0x100000"
    using round_up_nat [OF z] by (simp add: sections_def)
  show "unat (ROUNDUP (ROUNDUP z rs) 0x100000) = sections (unat z) * 0x100000"
    using assms(2)
  proof
    assume "rs = 0x1000"
    moreover have r: "unat (ROUNDUP z 0x1000) = (unat z + 0xFFF) div 0x1000 * 0x1000" using z by (intro round_12_nat) simp
    moreover have "unat (ROUNDUP z 0x1000) + 0xFFFFF < 2 ^ 32"
      unfolding r using assms(1) sections_round_12 [of "unat z"] sections_upper [of "(unat z + 0xFFF) div 0x1000 * 0x1000"] by linarith
    ultimately show ?thesis using round_up_nat [of "ROUNDUP z 0x1000"] sections_round_12 [of "unat z"] by (simp add: sections_def)
  next
    assume "rs = 0x100000"
    moreover have "take_bit 20 (ROUNDUP z 0x100000) = 0" unfolding aligned_dvd 1 by simp
    ultimately show ?thesis using 1 by (simp add: round_aligned)
  qed
qed

section \<open>Placement\<close>

abbreviation (input) flat :: "tee_mmap_region \<Rightarrow> bool" where "flat \<equiv> map_is_flat_mapped"

text \<open>The entry up to what the layout assigns.\<close>

definition core :: "tee_mmap_region \<Rightarrow> teecore_memtypes \<times> paddr \<times> u32" where
  "core m = (mtype m, mpa m, msize m)"

text \<open>The sections the areas that are not mapped flat take.\<close>

definition need :: "tee_mmap_region list \<Rightarrow> nat" where
  "need ms = sum_list (map (\<lambda>m. if flat m then 0 else sections (unat (msize m))) ms)"

definition before :: "tee_mmap_region \<Rightarrow> tee_mmap_region \<Rightarrow> bool" where
  "before m m' \<longleftrightarrow> unat (mva m) + sections (unat (msize m)) * 0x100000 \<le> unat (mva m')"

definition placed_in :: "nat \<Rightarrow> nat \<Rightarrow> tee_mmap_region \<Rightarrow> bool" where
  "placed_in lo hi m \<longleftrightarrow> take_bit 20 (mva m) = 0 \<and> mattr m = type_attr m \<and> lo * 0x100000 \<le> unat (mva m)
     \<and> unat (mva m) + sections (unat (msize m)) * 0x100000 \<le> hi * 0x100000"

lemma flat_update [simp]: "flat (m\<lparr>mattr := a, mva := v\<rparr>) = flat m" "flat (m\<lparr>region_size := r\<rparr>) = flat m"
  by (simp_all add: map_is_flat_mapped_def map_is_tee_ram_def)

lemma type_attr_update [simp]: "type_attr (m\<lparr>mattr := a, mva := v\<rparr>) = type_attr m" "type_attr (m\<lparr>region_size := r\<rparr>) = type_attr m"
  by (simp_all add: type_attr_def)

lemma place_up_correct:
  assumes "(sections (unat va) + need ms) * 0x100000 \<le> 0xCC000000"
    and "\<forall>m \<in> set ms. core_mmu_type_to_attr (mtype m) \<noteq> None \<and> (region_size m = 0x1000 \<or> region_size m = 0x100000)"
  shows "\<exists>ms'. place_up va b ms = Inr ms' \<and> map core ms' = map core ms \<and> filter flat ms' = filter flat ms
    \<and> sorted_wrt (\<lambda>m m'. \<not> flat m \<and> \<not> flat m' \<longrightarrow> before m m') ms'
    \<and> (\<forall>m \<in> set ms'. \<not> flat m \<longrightarrow> placed_in (sections (unat va)) (sections (unat va) + need ms) m)"
  using assms
proof (induction ms arbitrary: va b)
  case (Cons m ms)
  show ?case
  proof (cases "flat m")
    case True
    then have "need (m # ms) = need ms" by (simp add: need_def)
    with Cons.prems Cons.IH [of va b] True show ?thesis by auto
  next
    case False
    let ?S = "sections (unat va)" and ?k = "sections (unat (msize m))"
    have n: "need (m # ms) = ?k + need ms" using False by (simp add: need_def)
    define va' where "va' = ROUNDUP (ROUNDUP (if b \<noteq> map_is_secure m then ROUNDUP va 0x100000 else va) (region_size m)) 0x100000"
    have lim: "?S * 0x100000 < 2 ^ 32 - 0x100000" using Cons.prems(1) by simp
    have rs: "region_size m = 0x1000 \<or> region_size m = 0x100000" using Cons.prems(2) by simp
    have r1: "unat (ROUNDUP va 0x100000) = ?S * 0x100000" by (rule round_sections [OF lim rs])
    then have s1: "sections (unat (ROUNDUP va 0x100000)) = ?S" using sections_add [of ?S 0] by (simp add: sections_def)
    have va': "unat va' = ?S * 0x100000"
      unfolding va'_def using round_sections(2) [OF lim rs] round_sections(2) [OF _ rs, of "ROUNDUP va 0x100000"] lim s1 by simp
    have sz: "unat (msize m) \<le> ?k * 0x100000" by (rule sections_upper)
    have "unat (va' + msize m) = ?S * 0x100000 + unat (msize m)"
      using sz Cons.prems(1) n va' by (simp add: unat_add32)
    then have s2: "sections (unat (va' + msize m)) = ?S + ?k" by (simp only: sections_add)
    obtain ms' where ms': "place_up (va' + msize m) (map_is_secure m) ms = Inr ms'" "map core ms' = map core ms"
      "filter flat ms' = filter flat ms" "sorted_wrt (\<lambda>m m'. \<not> flat m \<and> \<not> flat m' \<longrightarrow> before m m') ms'"
      "\<forall>m \<in> set ms'. \<not> flat m \<longrightarrow> placed_in (?S + ?k) (?S + ?k + need ms) m"
      using Cons.IH [of "va' + msize m" "map_is_secure m"] Cons.prems n unfolding s2 by (auto simp: add.assoc)
    let ?m = "m\<lparr>mattr := type_attr m, mva := va'\<rparr>"
    have "place_up va b (m # ms) = Inr (?m # ms')"
      using False Cons.prems(2) ms'(1) by (simp add: Let_def va'_def)
    moreover have "placed_in ?S (?S + need (m # ms)) ?m"
      using n by (simp add: placed_in_def va' aligned_dvd)
    moreover have "\<forall>x \<in> set ms'. \<not> flat x \<longrightarrow> before ?m x"
      using ms'(5) by (simp add: before_def placed_in_def va' algebra_simps)
    moreover have "\<forall>x \<in> set ms'. \<not> flat x \<longrightarrow> placed_in ?S (?S + need (m # ms)) x"
      using ms'(5) by (auto simp: placed_in_def n algebra_simps)
    moreover have "core ?m = core m" by (simp add: core_def)
    ultimately show ?thesis using ms' False by (intro exI [of _ "?m # ms'"]) simp
  qed
qed simp

section \<open>The layout is right\<close>

text \<open>What the registered areas have to satisfy: page alignment, known types, the kernel's own areas
  disjoint in the first megabyte of its memory, all others aligned to a section, and enough address
  space and second-level tables.\<close>

definition page_need :: "tee_mmap_region list \<Rightarrow> nat" where
  "page_need ms = sum_list (map (\<lambda>m. if flat m \<or> \<not> mapped m \<or> take_bit 20 (msize m) = 0 then 0 else sections (unat (msize m))) ms)"

definition region_ok :: "tee_mmap_region \<Rightarrow> bool" where
  "region_ok m \<longleftrightarrow> msize m \<noteq> 0 \<and> take_bit 12 (mpa m) = 0 \<and> take_bit 12 (msize m) = 0
     \<and> core_mmu_type_to_attr (mtype m) \<noteq> None
     \<and> (if flat m then 0x4C000000 \<le> unat (mpa m) \<and> unat (mpa m) + unat (msize m) \<le> 0x4C100000
        else take_bit 20 (mpa m) = 0)"

definition flat_disjoint :: "tee_mmap_region \<Rightarrow> tee_mmap_region \<Rightarrow> bool" where
  "flat_disjoint m m' \<longleftrightarrow> (flat m \<and> flat m' \<longrightarrow>
     unat (mpa m) + unat (msize m) \<le> unat (mpa m') \<or> unat (mpa m') + unat (msize m') \<le> unat (mpa m))"

definition regions_ok :: "tee_mmap_region list \<Rightarrow> bool" where
  "regions_ok ms \<longleftrightarrow> list_all region_ok ms \<and> list_ex map_is_flat_mapped ms \<and> sorted_wrt flat_disjoint ms
     \<and> need ms \<le> 0x7F7 \<and> page_need ms \<le> 7"

text \<open>A symmetric relation that holds of all pairs holds of all pairs in any order.\<close>

lemma sorted_wrt_mset:
  assumes sym: "\<And>x y. P x y \<Longrightarrow> P y x" and "mset xs = mset ys" "sorted_wrt P xs"
  shows "sorted_wrt P ys"
  using assms(2,3)
proof (induction xs arbitrary: ys)
  case (Cons x xs)
  then have "x \<in> set ys" by (metis list.set_intros(1) mset_eq_setD)
  then obtain as bs where ys: "ys = as @ x # bs" by (meson split_list)
  have "mset xs = mset (as @ bs)" using Cons.prems(1) by (simp add: ys)
  moreover from this have "set xs = set as \<union> set bs" by (metis mset_eq_setD set_append)
  ultimately show ?case using Cons.IH [of "as @ bs"] Cons.prems(2) sym by (auto simp: ys sorted_wrt_append)
qed simp

lemma sum_list_core:
  assumes "mset (map core ms) = mset (map core ms')" "\<And>m m'. core m = core m' \<Longrightarrow> f m = (f m' :: nat)"
  shows "sum_list (map f ms) = sum_list (map f ms')"
proof -
  define g where "g c = f (SOME m. core m = c)" for c
  have g: "f m = g (core m)" for m unfolding g_def by (rule someI2 [of _ m]) (auto intro: assms(2))
  have "sum_list (map f ms) = sum_mset (image_mset g (mset (map core ms)))" for ms
    by (induction ms) (simp_all add: g)
  then show ?thesis using assms(1) by simp
qed

lemma core_flat: "core m = core m' \<Longrightarrow> flat m = flat m'" "core m = core m' \<Longrightarrow> mapped m = mapped m'"
  "core m = core m' \<Longrightarrow> region_ok m = region_ok m'" "core m = core m' \<Longrightarrow> type_attr m = type_attr m'"
  by (auto simp: core_def map_is_flat_mapped_def map_is_tee_ram_def core_mmu_is_dynamic_vaspace_def region_ok_def type_attr_def)

lemma core_msize: "core m = core m' \<Longrightarrow> msize m = msize m'"
  by (simp add: core_def)

lemma need_core: "mset (map core ms) = mset (map core ms') \<Longrightarrow> need ms = need ms'"
  and page_need_core: "mset (map core ms) = mset (map core ms') \<Longrightarrow> page_need ms = page_need ms'"
proof -
  have f: "(if flat m then 0 else sections (unat (msize m))) = (if flat m' then 0 else sections (unat (msize m')))"
    "(if flat m \<or> \<not> mapped m \<or> take_bit 20 (msize m) = 0 then 0 else sections (unat (msize m))) =
     (if flat m' \<or> \<not> mapped m' \<or> take_bit 20 (msize m') = 0 then 0 else sections (unat (msize m')))" if "core m = core m'" for m m'
    unfolding core_flat(1,2) [OF that] core_msize [OF that] by (rule refl)+
  show "mset (map core ms) = mset (map core ms') \<Longrightarrow> need ms = need ms'"
    unfolding need_def by (rule sum_list_core [OF _ f(1)])
  show "mset (map core ms) = mset (map core ms') \<Longrightarrow> page_need ms = page_need ms'"
    unfolding page_need_def by (rule sum_list_core [OF _ f(2)])
qed

lemma core_update [simp]: "core (m\<lparr>mattr := a, mva := v\<rparr>) = core m" "core (m\<lparr>region_size := r\<rparr>) = core m"
  by (simp_all add: core_def)

lemma core_flat_map [simp]: "core (flat_map m) = core m"
  by (simp add: flat_map_def)

text \<open>Region sizes fit the alignment of the area.\<close>

definition sized :: "tee_mmap_region \<Rightarrow> bool" where
  "sized m \<longleftrightarrow> region_ok m \<and> (region_size m = 0x100000 \<and> take_bit 20 (mpa m) = 0 \<and> take_bit 20 (msize m) = 0 \<or> region_size m = 0x1000)"

lemma assign_region_sizes_correct:
  "list_all region_ok ms \<Longrightarrow> \<exists>ms'. assign_region_sizes ms = Inr ms' \<and> map core ms' = map core ms \<and> (\<forall>m \<in> set ms'. sized m)"
proof (induction ms)
  case (Cons m ms)
  then obtain ms' where ms': "assign_region_sizes ms = Inr ms'" "map core ms' = map core ms" "\<forall>m \<in> set ms'. sized m" by auto
  have m: "region_ok m" using Cons.prems by simp
  have ok: "region_ok (m\<lparr>region_size := r\<rparr>)" for r using m core_flat(3) [of "m\<lparr>region_size := r\<rparr>" m] by simp
  have a: "take_bit 12 (mpa m) = 0" "take_bit 12 (msize m) = 0" using m by (simp_all add: region_ok_def)
  have "\<exists>r. assign_region_size m = Inr (m\<lparr>region_size := r\<rparr>) \<and> sized (m\<lparr>region_size := r\<rparr>)"
  proof (cases "take_bit 20 (mpa m) = 0 \<and> take_bit 20 (msize m) = 0")
    case True
    then show ?thesis by (intro exI [of _ "0x100000"]) (simp_all add: assign_region_size_def Let_def and_page_mask(1) take_bit_or or_eq_0_iff sized_def ok)
  next
    case False
    then show ?thesis using a
      by (intro exI [of _ "0x1000"]) (simp_all only: assign_region_size_def Let_def and_page_mask take_bit_or or_eq_0_iff sized_def ok, simp_all)
  qed
  then show ?case using ms' by (auto simp: bindE_def)
qed simp

text \<open>A placed map: the kernel's own areas flat in one section, the others above it in sections of their own.\<close>

definition placed :: "tee_mmap_region \<Rightarrow> bool" where
  "placed m \<longleftrightarrow> region_ok m \<and> mattr m = type_attr m \<and> (if flat m then mva m = mpa m else placed_in 0x4C8 0xCC0 m)"

definition apart :: "tee_mmap_region \<Rightarrow> tee_mmap_region \<Rightarrow> bool" where
  "apart m m' \<longleftrightarrow> flat_disjoint m m' \<and> (\<not> flat m \<and> \<not> flat m' \<longrightarrow> before m m' \<or> before m' m)"

lemma placed_nat:
  assumes "placed m"
  shows "0x4C000000 \<le> unat (mva m)" "unat (mva m) + unat (msize m) \<le> 0xCC000000" "0 < unat (msize m)"
    and "flat m \<Longrightarrow> unat (mva m) + unat (msize m) \<le> 0x4C100000" "\<not> flat m \<Longrightarrow> 0x4C800000 \<le> unat (mva m)"
  using assms sections_upper [of "unat (msize m)"]
  by (auto simp: placed_def placed_in_def region_ok_def unat_gt_0 split: if_splits)

lemma placed_area_ok:
  assumes "placed m" "mapped m"
  shows "area_ok m"
proof -
  obtain a where a: "core_mmu_type_to_attr (mtype m) = Some a" using assms by (auto simp: placed_def region_ok_def)
  then have "a \<noteq> 0" using assms(2) by (cases "mtype m") (auto simp: core_mmu_type_to_attr_def core_mmu_is_dynamic_vaspace_def Let_def)
  from type_attr_kernel [OF a this] have "attr_ok (mattr m)" using assms(1) a by (simp add: placed_def type_attr_def)
  moreover have "take_bit 12 (mva m) = 0" if "take_bit 20 (mva m) = 0"
    using that unfolding aligned_dvd by (rule dvd_trans [rotated]) simp
  ultimately show ?thesis using placed_nat [OF assms(1)] assms(1)
    by (auto simp: area_ok_def placed_def placed_in_def region_ok_def split: if_splits)
qed

lemma apart_disjoint:
  assumes "placed m" "placed m'" "apart m m'"
  shows "areas_disjoint m m'"
proof (cases "flat m = flat m'")
  case True
  then show ?thesis using assms sections_upper [of "unat (msize m)"] sections_upper [of "unat (msize m')"]
    by (auto simp: apart_def flat_disjoint_def before_def placed_def areas_disjoint_def split: if_splits)
next
  case False
  then show ?thesis using placed_nat [OF assms(1)] placed_nat [OF assms(2)] unfolding areas_disjoint_def by (cases "flat m") auto
qed

lemma touches_flat:
  assumes "placed m" "flat m" "touches m n" shows "n = 0x4C0"
proof -
  have "unat (mva m) < (n + 1) * 0x100000" "n * 0x100000 < unat (mva m) + unat (msize m)"
    using assms(3) by (auto simp: touches_def)
  then show ?thesis using placed_nat(1,4) [OF assms(1)] assms(2) by simp
qed

lemma placed_section:
  assumes "placed m" "\<not> flat m"
  obtains k where "unat (mva m) = k * 0x100000"
proof -
  have "take_bit 20 (mva m) = 0" using assms by (simp add: placed_def placed_in_def)
  then have "2 ^ 20 dvd unat (mva m)" by (simp only: aligned_dvd)
  then show ?thesis by (intro that [of "unat (mva m) div 0x100000"]) simp
qed

lemma touches_high:
  assumes "placed m" "\<not> flat m" "touches m n"
  shows "unat (mva m) div 0x100000 \<le> n" "n < unat (mva m) div 0x100000 + sections (unat (msize m))" "0x4C0 < n"
proof -
  obtain k where k: "unat (mva m) = k * 0x100000" using placed_section [OF assms(1,2)] .
  have n: "k * 0x100000 < (n + 1) * 0x100000" "n * 0x100000 < k * 0x100000 + unat (msize m)"
    using assms(3) unfolding touches_def k by auto
  show "unat (mva m) div 0x100000 \<le> n" using n(1) unfolding k by simp
  show "n < unat (mva m) div 0x100000 + sections (unat (msize m))"
    using n(2) sections_upper [of "unat (msize m)"] unfolding k by simp
  show "0x4C0 < n" using placed_nat(5) [OF assms(1,2)] n(1) unfolding k by simp
qed

lemma before_touches:
  assumes "placed m" "placed m'" "\<not> flat m" "\<not> flat m'" "before m m'" "touches m n" "touches m' n"
  shows "False"
proof -
  obtain k where k: "unat (mva m) = k * 0x100000" using placed_section [OF assms(1,3)] .
  have "k + sections (unat (msize m)) \<le> unat (mva m') div 0x100000"
    using assms(5) unfolding before_def k by linarith
  then show False using touches_high(2) [OF assms(1,3,6)] touches_high(1) [OF assms(2,4,7)] unfolding k by simp
qed

lemma card_touched:
  assumes "\<forall>m \<in> set ms. placed m"
  shows "finite {n. \<exists>m \<in> set ms. \<not> flat m \<and> touches m n} \<and> card {n. \<exists>m \<in> set ms. \<not> flat m \<and> touches m n} \<le> page_need ms"
  using assms
proof (induction ms)
  case (Cons m ms)
  let ?T = "\<lambda>m. {n. \<not> flat m \<and> touches m n}" and ?R = "{n. \<exists>m \<in> set ms. \<not> flat m \<and> touches m n}"
  let ?f = "if flat m \<or> \<not> mapped m \<or> take_bit 20 (msize m) = 0 then 0 else sections (unat (msize m))"
  have eq: "{n. \<exists>m \<in> set (m # ms). \<not> flat m \<and> touches m n} = ?T m \<union> ?R" by auto
  have one: "finite (?T m) \<and> card (?T m) \<le> ?f"
  proof (cases "flat m \<or> \<not> mapped m \<or> take_bit 20 (msize m) = 0")
    case True
    moreover have "by_sections m" if "take_bit 20 (msize m) = 0" "\<not> flat m"
      using that Cons.prems by (simp add: by_sections_def placed_def placed_in_def)
    ultimately have "?T m = {}" by (auto simp: touches_def)
    then show ?thesis by (simp only: finite.emptyI card.empty) simp
  next
    case False
    then have "?T m \<subseteq> {unat (mva m) div 0x100000 ..< unat (mva m) div 0x100000 + sections (unat (msize m))}"
      using touches_high [of m] Cons.prems by auto
    from finite_subset [OF this] card_mono [OF _ this] False show ?thesis by simp
  qed
  have "page_need (m # ms) = ?f + page_need ms" by (simp add: page_need_def)
  with one Cons card_Un_le [of "?T m" ?R] show ?case unfolding eq by auto
qed simp

lemma placed_map_ok:
  assumes "\<forall>m \<in> set ms. placed m" "sorted_wrt apart ms" "page_need ms \<le> 7"
  shows "map_ok ms"
  unfolding map_ok_def
proof (intro conjI)
  show "\<forall>m \<in> set ms. msize m \<noteq> 0 \<and> (mapped m \<longrightarrow> area_ok m)"
    using assms(1) placed_area_ok by (auto simp: placed_def region_ok_def)
  show "sorted_wrt (\<lambda>m m'. mapped m \<and> mapped m' \<longrightarrow> areas_disjoint m m') ms"
    using assms(1) by (intro sorted_wrt_mono_rel [OF _ assms(2)]) (simp add: apart_disjoint)
  let ?R = "{n. \<exists>m \<in> set ms. \<not> flat m \<and> touches m n}"
  have R: "finite ?R" "card ?R \<le> 7" using card_touched [OF assms(1)] assms(3) by auto
  have "page_sections ms \<subseteq> insert 0x4C0 ?R" unfolding page_sections_def using assms(1) touches_flat by blast
  then have "card (page_sections ms) \<le> card (insert 0x4C0 ?R)" using R(1) by (intro card_mono) simp_all
  also have "\<dots> \<le> Suc (card ?R)" using R(1) by (simp add: card_insert_if)
  finally show "card (page_sections ms) \<le> 8" using R(2) by simp
  show "\<forall>m \<in> set ms. \<forall>m' \<in> set ms. \<forall>n. touches m n \<and> touches m' n \<longrightarrow> bit (mattr m) 11 = bit (mattr m') 11"
  proof (intro ballI allI impI)
    fix m m' n assume m: "m \<in> set ms" "m' \<in> set ms" "touches m n \<and> touches m' n"
    have p: "placed m" "placed m'" using m assms(1) by auto
    consider "m = m'" | "flat m" "flat m'" | "flat m" "\<not> flat m'" | "\<not> flat m" "flat m'" | "m \<noteq> m'" "\<not> flat m" "\<not> flat m'" by blast
    then show "bit (mattr m) 11 = bit (mattr m') 11"
    proof cases
      case 2
      have "bit (type_attr x) 11" if "flat x" for x
        using that by (cases "mtype x") (auto simp: map_is_flat_mapped_def map_is_tee_ram_def type_attr_def core_mmu_type_to_attr_def Let_def)
      then show ?thesis using 2 p by (simp add: placed_def)
    next
      case 5
      then have "before m m' \<or> before m' m" using sorted_wrt_pair [OF assms(2) m(1,2)] by (auto simp: apart_def)
      then show ?thesis using before_touches p 5 m by blast
    qed (use touches_flat touches_high(3) p m in \<open>auto\<close>)
  qed
qed

section \<open>The flat areas\<close>

lemma fold_min_bounds:
  fixes f :: "'a \<Rightarrow> 'b::linorder" and a acc :: 'b
  shows "a \<le> acc \<Longrightarrow> (\<And>m. m \<in> set ms \<Longrightarrow> P m \<Longrightarrow> a \<le> f m) \<Longrightarrow> a \<le> fold (\<lambda>m v. if P m then min v (f m) else v) ms acc"
    and "fold (\<lambda>m v. if P m then min v (f m) else v) ms acc \<le> acc"
    and "m \<in> set ms \<Longrightarrow> P m \<Longrightarrow> fold (\<lambda>m v. if P m then min v (f m) else v) ms acc \<le> f m"
proof -
  have le: "fold (\<lambda>m v. if P m then min v (f m) else v) ms acc \<le> acc" for ms acc
    by (induction ms arbitrary: acc) (auto intro: order_trans [OF _ min.cobounded1])
  then show "fold (\<lambda>m v. if P m then min v (f m) else v) ms acc \<le> acc" .
  show "a \<le> acc \<Longrightarrow> (\<And>m. m \<in> set ms \<Longrightarrow> P m \<Longrightarrow> a \<le> f m) \<Longrightarrow> a \<le> fold (\<lambda>m v. if P m then min v (f m) else v) ms acc"
    by (induction ms arbitrary: acc) auto
  show "m \<in> set ms \<Longrightarrow> P m \<Longrightarrow> fold (\<lambda>m v. if P m then min v (f m) else v) ms acc \<le> f m"
    by (induction ms arbitrary: acc) (auto intro: order_trans [OF le])
qed

lemma fold_max_le:
  fixes f :: "'a \<Rightarrow> 'b::linorder"
  shows "acc \<le> a \<Longrightarrow> (\<And>m. m \<in> set ms \<Longrightarrow> P m \<Longrightarrow> f m \<le> a) \<Longrightarrow> fold (\<lambda>m v. if P m then max v (f m) else v) ms acc \<le> a"
  by (induction ms arbitrary: acc) auto

lemma round_aligned_12:
  assumes "take_bit 12 z = 0" "unat z < 0xF0000000" shows "ROUNDUP z 0x1000 = z"
proof -
  have "0x1000 dvd unat z" using assms(1) aligned_dvd [of 12 z] by simp
  then obtain k where k: "unat z = 0x1000 * k" by (rule dvdE)
  have "unat (ROUNDUP z 0x1000) = (unat z + 0xFFF) div 0x1000 * 0x1000" using assms(2) by (intro round_12_nat) simp
  also have "\<dots> = unat z" unfolding k by simp
  finally show ?thesis by (simp add: word_unat_eq_iff)
qed

lemma sized_flat:
  assumes "sized m" "flat m"
  shows "ROUNDDOWN (mpa m) (region_size m) = mpa m" "unat (ROUNDUP (mpa m + msize m) (region_size m)) = unat (mpa m) + unat (msize m)"
proof -
  have b: "0x4C000000 \<le> unat (mpa m)" "unat (mpa m) + unat (msize m) \<le> 0x4C100000" "take_bit 12 (mpa m) = 0" "take_bit 12 (msize m) = 0"
    using assms by (auto simp: sized_def region_ok_def)
  have u: "unat (mpa m + msize m) = unat (mpa m) + unat (msize m)" using b by (simp add: unat_add32)
  show "ROUNDDOWN (mpa m) (region_size m) = mpa m"
    using assms(1) b round_parts [of "mpa m" 20] round_parts [of "mpa m" 12] by (auto simp: sized_def ROUNDDOWN_def mask_eq_exp_minus_1)
  have "ROUNDUP (mpa m + msize m) (region_size m) = mpa m + msize m"
    using assms(1) unfolding sized_def
  proof (elim conjE disjE)
    assume "region_size m = 0x100000" "take_bit 20 (mpa m) = 0" "take_bit 20 (msize m) = 0"
    then show ?thesis by (simp only:) (intro round_aligned aligned_add; simp)
  next
    assume "region_size m = 0x1000"
    then show ?thesis using b u by (simp only:) (intro round_aligned_12 aligned_add; simp)
  qed
  then show "unat (ROUNDUP (mpa m + msize m) (region_size m)) = unat (mpa m) + unat (msize m)" using u by simp
qed

lemma flat_bounds:
  assumes "\<forall>m \<in> set ms. sized m" "m \<in> set ms" "flat m"
  shows "0x4C000000 \<le> unat (flat_start ms)" "unat (flat_start ms) < 0x4C100000" "unat (flat_end ms) \<le> 0x4C100000"
proof -
  have b: "0x4C000000 \<le> unat (mpa m)" "unat (mpa m) < 0x4C100000" "unat (mpa m) + unat (msize m) \<le> 0x4C100000" if "m \<in> set ms" "flat m" for m
  proof -
    have "0 < unat (msize m)" "0x4C000000 \<le> unat (mpa m)" "unat (mpa m) + unat (msize m) \<le> 0x4C100000"
      using assms(1) that by (auto simp: sized_def region_ok_def unat_gt_0)
    then show "0x4C000000 \<le> unat (mpa m)" "unat (mpa m) < 0x4C100000" "unat (mpa m) + unat (msize m) \<le> 0x4C100000" by auto
  qed
  have "0x4C000000 \<le> flat_start ms" unfolding flat_start_def
    by (rule fold_min_bounds(1)) (use b sized_flat assms(1) in \<open>simp_all add: word_le_nat_alt\<close>)
  then show "0x4C000000 \<le> unat (flat_start ms)" by (simp add: word_le_nat_alt)
  have "flat_start ms \<le> mpa m" unfolding flat_start_def
    using fold_min_bounds(3) [of m ms flat "\<lambda>m. ROUNDDOWN (mpa m) (region_size m)"] sized_flat assms by simp
  then show "unat (flat_start ms) < 0x4C100000" using b(2) [OF assms(2,3)] by (simp add: word_le_nat_alt)
  have "flat_end ms \<le> 0x4C100000" unfolding flat_end_def
    by (rule fold_max_le) (use b sized_flat assms(1) in \<open>simp_all add: word_le_nat_alt\<close>)
  then show "unat (flat_end ms) \<le> 0x4C100000" by (simp add: word_le_nat_alt)
qed

text \<open>Facts that depend only on the fields the layout keeps carry over to the laid out map.\<close>

lemma core_ball:
  assumes "mset (map core ms) = mset (map core es)" "\<forall>m \<in> set es. P m" "\<And>m m'. core m = core m' \<Longrightarrow> P m = P m'" "m \<in> set ms"
  shows "P m"
proof -
  have "core ` set ms = core ` set es" using mset_eq_setD [OF assms(1)] by simp
  then have "core m \<in> core ` set es" using assms(4) by blast
  then obtain m' where "m' \<in> set es" "core m = core m'" by blast
  then show ?thesis using assms(2,3) by blast
qed

lemma flat_disjoint_sym: "flat_disjoint m m' \<Longrightarrow> flat_disjoint m' m"
  by (auto simp: flat_disjoint_def)

lemma sorted_core:
  assumes "mset (map core ms) = mset (map core es)" "sorted_wrt flat_disjoint es"
  shows "sorted_wrt flat_disjoint ms"
proof -
  define P where "P c c' \<longleftrightarrow> (\<exists>m m'. core m = c \<and> core m' = c' \<and> flat_disjoint m m')" for c c'
  have P: "P (core m) (core m') \<longleftrightarrow> flat_disjoint m m'" for m m'
  proof
    assume "P (core m) (core m')"
    then obtain x x' where x: "core x = core m" "core x' = core m'" "flat_disjoint x x'" by (auto simp: P_def)
    then show "flat_disjoint m m'" using core_flat(1) [OF x(1)] core_flat(1) [OF x(2)] by (simp add: flat_disjoint_def core_def)
  qed (auto simp: P_def)
  have "sorted_wrt P (map core es)" using assms(2) by (simp add: sorted_wrt_map P)
  then have "sorted_wrt P (map core ms)"
    using flat_disjoint_sym by (intro sorted_wrt_mset [OF _ assms(1) [symmetric]]) (auto simp: P_def)
  then show ?thesis by (simp add: sorted_wrt_map P)
qed

lemma layout_ok:
  assumes "regions_ok es"
  shows "\<exists>ms. layout dbg es = Inr ms \<and> mset (map core ms) = mset (map core es) \<and> (\<forall>m \<in> set ms. placed m)
    \<and> sorted_wrt apart ms \<and> sorted_wrt (\<lambda>m m'. mva m \<le> mva m') ms"
proof -
  have es: "list_all region_ok es" "list_ex map_is_flat_mapped es" "sorted_wrt flat_disjoint es" "need es \<le> 0x7F7"
    using assms by (auto simp: regions_ok_def)
  obtain ms1 where ms1: "assign_region_sizes es = Inr ms1" "map core ms1 = map core es" "\<forall>m \<in> set ms1. sized m"
    using assign_region_sizes_correct [OF es(1)] by blast
  define ms2 where "ms2 = sort_regions ms1"
  have m2: "mset ms2 = mset ms1" "set ms2 = set ms1" using sort_regions_mset [of ms1] mset_eq_setD by (auto simp: ms2_def)
  have c2: "mset (map core ms2) = mset (map core es)" using m2 ms1(2) by (metis mset_map)
  obtain f where f: "f \<in> set ms2" "flat f"
  proof -
    obtain x where "x \<in> set es" "flat x" using es(2) by (auto simp: list_ex_iff)
    moreover have "core ` set ms2 = core ` set es" using mset_eq_setD [OF c2] by simp
    ultimately have "core x \<in> core ` set ms2" by blast
    then obtain y where "y \<in> set ms2" "core x = core y" by auto
    with \<open>flat x\<close> show ?thesis using core_flat(1) [of x y] that by simp
  qed
  note fb = flat_bounds [of ms2 f, OF _ f]
  have sz: "\<forall>m \<in> set ms2. sized m" using ms1(3) m2(2) by simp
  define ms3 where "ms3 = map flat_map ms2"
  have c3: "mset (map core ms3) = mset (map core es)" using c2 by (simp add: ms3_def comp_def)
  have n3: "need ms3 = need es" by (rule need_core [OF c3])
  define va where "va = ROUNDUP (flat_start ms2 + CFG_TEE_RAM_VA_SIZE) 0x100000"
  have "unat (flat_start ms2 + CFG_TEE_RAM_VA_SIZE) = unat (flat_start ms2) + 0x800000" using fb(2) [OF sz] by (simp add: unat_add32)
  then have "unat va = sections (unat (flat_start ms2) + 0x800000) * 0x100000"
    if "sections (unat (flat_start ms2) + 0x800000) * 0x100000 < 2 ^ 32 - 0x100000"
    using that round_sections(1) [of "flat_start ms2 + CFG_TEE_RAM_VA_SIZE" "0x1000"] unfolding va_def by (simp only: simp_thms)
  moreover have lo: "0x4C8 \<le> sections (unat (flat_start ms2) + 0x800000)" and hi: "sections (unat (flat_start ms2) + 0x800000) \<le> 0x4C9"
    using fb(1,2) [OF sz] unfolding sections_def by linarith+
  ultimately have s: "unat va = sections (unat (flat_start ms2) + 0x800000) * 0x100000" by simp
  have sva: "0x4C8 \<le> sections (unat va)" "sections (unat va) \<le> 0x4C9"
    unfolding s using lo hi by (simp_all only: sections_mult)
  have t3: "\<forall>m \<in> set ms3. core_mmu_type_to_attr (mtype m) \<noteq> None \<and> (region_size m = 0x1000 \<or> region_size m = 0x100000)"
    using sz by (auto simp: ms3_def flat_map_def sized_def region_ok_def)
  have "(sections (unat va) + need ms3) * 0x100000 \<le> 0xCC000000" using sva es(4) n3 by simp
  then obtain ms4 where ms4: "place_up va True ms3 = Inr ms4" "map core ms4 = map core ms3" "filter flat ms4 = filter flat ms3"
      "sorted_wrt (\<lambda>m m'. \<not> flat m \<and> \<not> flat m' \<longrightarrow> before m m') ms4"
      "\<forall>m \<in> set ms4. \<not> flat m \<longrightarrow> placed_in (sections (unat va)) (sections (unat va) + need ms3) m"
    using place_up_correct [OF _ t3, of va True] by auto
  have c4: "mset (map core ms4) = mset (map core es)" using c3 ms4(2) by simp
  have p4: "placed m" if m: "m \<in> set ms4" for m
  proof -
    have "region_ok m" using core_ball [OF c4 _ core_flat(3) m] es(1) by (simp add: list_all_iff)
    moreover have "mattr m = type_attr m \<and> mva m = mpa m" if "flat m"
    proof -
      have "m \<in> set (filter flat ms3)" unfolding ms4(3) [symmetric] using m that by simp
      then show ?thesis by (auto simp: ms3_def flat_map_def)
    qed
    moreover have "placed_in 0x4C8 0xCC0 m" if "\<not> flat m"
      using ms4(5) m that sva es(4) n3 unfolding placed_in_def by fastforce
    ultimately show ?thesis by (auto simp: placed_def placed_in_def)
  qed
  have a4: "sorted_wrt apart ms4"
    using sorted_core [OF c4 es(3)] ms4(4) unfolding sorted_wrt_iff_nth_less apart_def by blast
  let ?ms = "qsort cmp_mmap_by_lower_va ms4"
  have q: "mset ms4 = mset ?ms" by (simp add: qsort_mset)
  then have qs: "set ?ms = set ms4" by (metis mset_eq_setD)
  have "sorted_wrt apart ?ms"
    by (rule sorted_wrt_mset [OF _ q a4]) (auto simp: apart_def flat_disjoint_def)
  moreover have "sorted_wrt (\<lambda>m m'. mva m \<le> mva m') ?ms"
  proof (rule sorted_wrt_mono_rel)
    have w: "m \<in> va_window" if "m \<in> set ms4" for m using placed_nat(1-3) [OF p4 [OF that]] by simp
    then show "sorted_wrt (\<lambda>x y. cmp_mmap_by_lower_va x y \<le> 0) ?ms" by (intro by_va.qsort_sorted subsetI)
    show "mva x \<le> mva y" if "x \<in> set ?ms" "y \<in> set ?ms" "cmp_mmap_by_lower_va x y \<le> 0" for x y
      using that w cmp_va_diff [of x y] unfolding qs by (simp add: word_le_def)
  qed
  moreover have "layout dbg es = Inr ?ms"
  proof -
    have "flat_start ms2 \<ge> CFG_TEE_RAM_START" "flat_end ms2 \<le> CFG_TEE_RAM_START + CFG_TEE_RAM_VA_SIZE"
      "\<not> core_mmu_place_tee_ram_at_top (flat_start ms2)"
      using fb [OF sz] by (simp_all add: word_le_nat_alt word_less_nat_alt core_mmu_place_tee_ram_at_top_def)
    then show ?thesis using ms4(1) by (simp add: layout_def bindE_def ms1(1) Let_def flip: ms2_def ms3_def va_def)
  qed
  moreover have "mset (map core ?ms) = mset (map core es)" using c4 q by (metis mset_map)
  ultimately show ?thesis using p4 qs by blast
qed

text \<open>C13: The memory map the kernel builds at boot. Given registered areas that are page aligned, with the
  kernel's own areas disjoint in its first megabyte, all others starting at a section, and enough
  address space and tables, the layout succeeds: every area keeps its type, physical address and size,
  gets the attributes of its type, the kernel's own areas are mapped at their physical addresses, the
  map is sorted by virtual address, and it meets the precondition under which the translation tables
  implement the map.\<close>

theorem layout_correct:
  assumes "regions_ok es"
  shows "\<exists>ms. layout dbg es = Inr ms \<and> mset (map core ms) = mset (map core es)
    \<and> (\<forall>m \<in> set ms. Some (mattr m) = core_mmu_type_to_attr (mtype m) \<and> (map_is_flat_mapped m \<longrightarrow> mva m = mpa m))
    \<and> sorted_wrt (\<lambda>m m'. mva m \<le> mva m') ms \<and> map_ok ms"
proof -
  obtain ms where ms: "layout dbg es = Inr ms" "mset (map core ms) = mset (map core es)" "\<forall>m \<in> set ms. placed m"
      "sorted_wrt apart ms" "sorted_wrt (\<lambda>m m'. mva m \<le> mva m') ms"
    using layout_ok [OF assms] by blast
  have "page_need ms \<le> 7" using page_need_core [OF ms(2)] assms by (simp add: regions_ok_def)
  then have "map_ok ms" using placed_map_ok ms by blast
  moreover have "\<forall>m \<in> set ms. Some (mattr m) = core_mmu_type_to_attr (mtype m) \<and> (flat m \<longrightarrow> mva m = mpa m)"
    using ms(3) by (auto simp: placed_def region_ok_def type_attr_def split: if_splits)
  ultimately show ?thesis using ms by blast
qed

section \<open>The tables at boot\<close>

lemma find_map_the:
  assumes "r \<in> set ms" "q r" "\<And>m. m \<in> set ms \<Longrightarrow> mtype m \<noteq> MEM_AREA_NOTYPE" "\<And>m. m \<in> set ms \<Longrightarrow> q m \<Longrightarrow> m = r"
  shows "find_map q ms = Some r"
  using assms
proof (induction ms)
  case (Cons m ms)
  show ?case
  proof (cases "q m")
    case True
    then have "m = r" using Cons.prems(4) by simp
    then show ?thesis using Cons.prems(3) [of m] True by simp
  next
    case False
    then have "r \<in> set ms" using Cons.prems(1,2) by auto
    then have "find_map q ms = Some r" using Cons.IH [OF _ Cons.prems(2)] Cons.prems(3,4) by simp
    then show ?thesis using Cons.prems(3) [of m] False by simp
  qed
qed simp

lemma placed_notype: "placed m \<Longrightarrow> mtype m \<noteq> MEM_AREA_NOTYPE"
proof
  assume "placed m" "mtype m = MEM_AREA_NOTYPE"
  moreover have "core_mmu_type_to_attr MEM_AREA_NOTYPE = None" by (simp add: core_mmu_type_to_attr_def)
  ultimately show False by (simp add: placed_def region_ok_def)
qed

lemma ram_flat: "mtype m = MEM_AREA_TEE_RAM \<or> mtype m = MEM_AREA_TEE_RAM_RW \<Longrightarrow> flat m"
  by (auto simp: map_is_flat_mapped_def map_is_tee_ram_def)

lemma placed_span:
  assumes "placed m"
  shows "(va \<ge> mva m \<and> va \<le> mva m - 1 + msize m) \<longleftrightarrow> in_area m va" "va_is_in_map (Some m) va \<longleftrightarrow> in_area m va"
    and "flat m \<Longrightarrow> pa_is_in_map (Some m) va \<longleftrightarrow> in_area m va"
proof -
  have n: "0 < unat (msize m)" "unat (mva m) + unat (msize m) \<le> 2 ^ 32" using placed_nat [OF assms] by auto
  have s: "in_area m va \<longleftrightarrow> unat va \<in> span (mva m) (msize m)" by (auto simp: in_area_def span_def)
  show "(va \<ge> mva m \<and> va \<le> mva m - 1 + msize m) \<longleftrightarrow> in_area m va"
    using n by (auto simp: s span_def word_le_nat_alt unat_last)
  show "va_is_in_map (Some m) va \<longleftrightarrow> in_area m va"
    using n by (auto simp: s span_def va_is_in_map_def word_le_nat_alt unat_last')
  show "pa_is_in_map (Some m) va \<longleftrightarrow> in_area m va" if "flat m"
    using n that assms by (auto simp: s span_def pa_is_in_map_def placed_def word_le_nat_alt unat_last')
qed

lemma flat_at_area:
  assumes "\<forall>m \<in> set ms. placed m" "sorted_wrt apart ms" "r \<in> set ms" "mtype r = MEM_AREA_TEE_RAM_RW" "in_area r va"
  shows "core_va2pa_helper va ms = Some va \<and> phys_to_virt_tee_ram va ms = va"
proof -
  have r: "placed r" "flat r" using assms(1,3,4) ram_flat by auto
  have only: "m = r" if "m \<in> set ms" "in_area m va" for m
    using sorted_wrt_pair [OF assms(2) that(1) assms(3)] apart_disjoint areas_disjoint_in assms(1,3,5) that by blast
  have nt: "\<forall>m \<in> set ms. mtype m \<noteq> MEM_AREA_NOTYPE" using assms(1) placed_notype by blast
  have "find_map_by_va va ms = Some r" unfolding find_map_by_va_def
    by (rule find_map_the [OF assms(3)]) (use placed_span(1) assms(1,3,5) only nt in blast)+
  moreover have "mva r = mpa r" "mpa r \<noteq> 0" using r placed_nat(1) [OF r(1)] by (auto simp: placed_def)
  moreover have "find_map_by_type_and_pa MEM_AREA_TEE_RAM_RW va ms = Some r" unfolding find_map_by_type_and_pa_def
  proof (rule find_map_the [OF assms(3)])
    show "m = r" if "m \<in> set ms" "if mtype m \<noteq> MEM_AREA_TEE_RAM_RW then False else pa_is_in_map (Some m) va" for m
      using that only placed_span(3) [of m va] ram_flat [of m] assms(1) by (simp split: if_splits)
  qed (use assms(4,5) placed_span(3) [OF r] nt in simp_all)
  moreover have "find_map_by_type_and_pa MEM_AREA_TEE_RAM va ms = None" unfolding find_map_by_type_and_pa_def find_map_None [OF nt]
  proof (intro ballI notI)
    fix m assume m: "m \<in> set ms" "if mtype m \<noteq> MEM_AREA_TEE_RAM then False else pa_is_in_map (Some m) va"
    then have "in_area m va" using placed_span(3) [of m va] ram_flat [of m] assms(1) by (simp split: if_splits)
    then have "m = r" using only m by simp
    then show False using m assms(4) by simp
  qed
  ultimately show ?thesis using placed_span(2,3) [OF r(1)] r(2) assms(5)
    by (simp add: core_va2pa_helper_def phys_to_virt_tee_ram_def Let_def map_pa2va_def)
qed

text \<open>The state in which the kernel boots: exceptions masked, the MMU off, so that addresses translate to
  themselves, and the translation tables in an area of the kernel's writable memory.\<close>

definition boot_state :: "kernel \<Rightarrow> tee_mmap_region list \<Rightarrow> bool" where
  "boot_state s es \<longleftrightarrow> excp_masked s \<and> tables_used (mmu s) = 0 \<and> (\<forall>va. mmu_translates s va va)
     \<and> take_bit 10 (l2_ttb_va (mmu s)) = 0 \<and> 16384 \<le> unat (l2_ttb_va (mmu s) - l1_ttb_va (mmu s))
     \<and> unat (l2_ttb_va (mmu s) - l1_ttb_va (mmu s)) + 8192 \<le> 2 ^ 32
     \<and> (\<exists>r \<in> set es. mtype r = MEM_AREA_TEE_RAM_RW \<and> unat (mpa r) \<le> unat (l2_ttb_va (mmu s))
          \<and> unat (l2_ttb_va (mmu s)) + 8192 \<le> unat (mpa r) + unat (msize r))"

lemma boot_tables_placed:
  assumes "boot_state s es" "mset (map core ms) = mset (map core es)" "\<forall>m \<in> set ms. placed m" "sorted_wrt apart ms"
  shows "tables_placed (s\<lparr>mmu := (mmu s)\<lparr>static_memory_map := ms\<rparr>\<rparr>)"
proof -
  let ?l2 = "l2_ttb_va (mmu s)" and ?s = "s\<lparr>mmu := (mmu s)\<lparr>static_memory_map := ms\<rparr>\<rparr>"
  obtain r0 where r0: "r0 \<in> set es" "mtype r0 = MEM_AREA_TEE_RAM_RW" "unat (mpa r0) \<le> unat ?l2"
      "unat ?l2 + 8192 \<le> unat (mpa r0) + unat (msize r0)"
    using assms(1) by (auto simp: boot_state_def)
  have "core ` set ms = core ` set es" using mset_eq_setD [OF assms(2)] by simp
  then obtain r where r: "r \<in> set ms" "core r = core r0" using r0(1) by (metis (no_types) image_iff)
  have m: "mtype r = MEM_AREA_TEE_RAM_RW" "mpa r = mpa r0" "msize r = msize r0" using r(2) r0(2) by (auto simp: core_def)
  have p: "placed r" "flat r" using assms(3) r(1) ram_flat m(1) by auto
  then have b: "mva r = mpa r" "0x4C000000 \<le> unat (mva r)" "unat (mva r) + unat (msize r) \<le> 0x4C100000"
    using placed_nat(1,4) [OF p(1)] by (auto simp: placed_def)
  have "flat_at ?s (l2_table ?s k)" if "k < 8" for k
  proof -
    have "unat (4 * of_nat (256 * k) :: u32) = 1024 * k" using that by (simp add: unat_word_ariths unat_of_nat)
    then have u: "unat (l2_table ?s k) = unat ?l2 + 1024 * k" using that b r0(4) m by (simp add: l2_table_def unat_add32)
    then have "in_area r (l2_table ?s k)" using r0(3,4) m b(1) that by (simp add: in_area_def)
    from flat_at_area [OF assms(3,4) r(1) m(1) this] show ?thesis
      using u r0(3) m(2) b(1,2) assms(1) by (auto simp: flat_at_def boot_state_def mmu_translates_def)
  qed
  then show ?thesis using assms(1) r0(4) b m by (auto simp: tables_placed_def boot_state_def excp_masked_def)
qed

lemma used_entries_all: "\<forall>m \<in> set ms. mtype m \<noteq> MEM_AREA_NOTYPE \<Longrightarrow> used_entries ms = ms"
  by (simp add: used_entries_def takeWhile_eq_all_conv)

lemma check_type_core: "core m = core m' \<Longrightarrow> check_type m = check_type m'"
  by (simp only: core_def check_type_def prod.inject)

lemma wp_checks: "\<forall>m \<in> set ms. P m \<Longrightarrow> wp (forM ms (\<lambda>m. whenM (\<not> P m) panic)) (\<lambda>_ t. t = s) s"
  by (rule wp_forM_inv) (simp_all add: wp_whenM)


text \<open>The areas the i.MX6Q build registers, with a kernel image of 256 KiB of code and constants.\<close>

definition board_mems :: "core_mmu_phys_mem list" where
  "board_mems = map (\<lambda>(t, a, z). \<lparr>pm_type = t, pm_addr = a, pm_size = z\<rparr>)
    [(MEM_AREA_TEE_RAM_RX, 0x4C000000, 0x30000), (MEM_AREA_TEE_RAM_RO, 0x4C030000, 0x10000),
     (MEM_AREA_TEE_RAM_RW, 0x4C040000, 0xC0000), (MEM_AREA_TA_RAM, 0x4C100000, 0x03E00000),
     (MEM_AREA_NSEC_SHM, 0x4FF00000, 0x100000), (MEM_AREA_RAM_NSEC, 0x10000000, 0x3B800000),
     (MEM_AREA_IO_SEC, 0x00A02000, 0x100000), (MEM_AREA_IO_SEC, 0x00100000, 0x03300000),
     (MEM_AREA_IO_SEC, 0x4B800000, 0x00800000)]"

definition board_regions :: "tee_mmap_region list" where
  "board_regions = map (\<lambda>(t, a, z). new_entry \<lparr>pm_type = t, pm_addr = a, pm_size = z\<rparr>)
    [(MEM_AREA_TEE_RAM_RX, 0x4C000000, 0x30000), (MEM_AREA_TEE_RAM_RO, 0x4C030000, 0x10000),
     (MEM_AREA_TEE_RAM_RW, 0x4C040000, 0xC0000), (MEM_AREA_TA_RAM, 0x4C100000, 0x03E00000),
     (MEM_AREA_NSEC_SHM, 0x4FF00000, 0x100000), (MEM_AREA_RAM_NSEC, 0x10000000, 0x3B800000),
     (MEM_AREA_IO_SEC, 0x00100000, 0x03C00000), (MEM_AREA_IO_SEC, 0x4B800000, 0x00800000),
     (MEM_AREA_RES_VASPACE, 0, 0xA00000), (MEM_AREA_SHM_VASPACE, 0, 0xA00000)]"

lemma collect_board: "collect_regions True 14 board_mems [] = Inr board_regions"
  by code_simp

lemma board_regions_ok: "regions_ok board_regions" "list_all check_type board_regions"
proof -
  note defs = board_regions_def map_is_flat_mapped_def map_is_tee_ram_def
  have 1: "list_all region_ok board_regions" "list_ex map_is_flat_mapped board_regions"
    by (simp_all add: defs region_ok_def core_mmu_type_to_attr_def)
  have 2: "sorted_wrt flat_disjoint board_regions" by (simp add: defs flat_disjoint_def)
  have "need board_regions \<le> 0x7F7" "page_need board_regions \<le> 7"
    by (simp_all add: defs need_def page_need_def sections_def)
  with 1 2 show "regions_ok board_regions" unfolding regions_ok_def by blast
qed code_simp

lemma boot_map_kernel: "boot_state map_kernel board_regions"
proof -
  have "mmu_translates map_kernel va va" for va
  proof -
    have m: "(0xFFFFF000 :: u32) = NOT (mask 12)" "push_bit 12 0xFFFFF = (NOT (mask 12) :: u32)" "(0xFFF :: u32) = mask 12"
      by (simp_all add: mask_eq_exp_minus_1)
    have "(va AND NOT (mask 12) AND NOT (mask 12)) OR (va AND mask 12) = va"
      by (rule bit_word_eqI) (auto simp: bit_simps)
    moreover have "\<not> bit (va AND NOT (mask 12)) 0" by (simp add: bit_simps)
    ultimately show ?thesis by (simp add: mmu_translates_def map_kernel_def m)
  qed
  moreover have "\<exists>r \<in> set board_regions. mtype r = MEM_AREA_TEE_RAM_RW \<and> unat (mpa r) \<le> unat (l2_ttb_va (mmu map_kernel))
          \<and> unat (l2_ttb_va (mmu map_kernel)) + 8192 \<le> unat (mpa r) + unat (msize r)"
    by (simp add: board_regions_def map_kernel_def blank_def)
  ultimately show ?thesis unfolding boot_state_def by (simp add: map_kernel_def blank_def excp_masked_def)
qed

theorem layout_correct_witness:
  "\<exists>ms. layout True board_regions = Inr ms \<and> mset (map core ms) = mset (map core board_regions)
    \<and> (\<forall>m \<in> set ms. Some (mattr m) = core_mmu_type_to_attr (mtype m) \<and> (map_is_flat_mapped m \<longrightarrow> mva m = mpa m))
    \<and> sorted_wrt (\<lambda>m m'. mva m \<le> mva m') ms \<and> map_ok ms"
  by (rule layout_correct [OF board_regions_ok(1)])


end
