(* ===== verification/Tzasc.thy ===== *)
theory Tzasc
  imports Core_Mmu
begin

unbundle bit_operations_syntax

text \<open>
  core/drivers/tzc380.c, the driver of the TrustZone address space controller that filters accesses to
  DRAM, and plat-imx/imx6.c, where the boot core programs it: the kernel's memory is closed to the normal
  world and the frame buffer is read-only there.
\<close>

section \<open>Operations\<close>

abbreviation (input) TZC380_BASE :: vaddr where "TZC380_BASE \<equiv> 0x021D0000"

definition REGION_SETUP_LOW_OFF :: "u32 \<Rightarrow> u32" where "REGION_SETUP_LOW_OFF n = 0x100 + n * 0x10"
definition REGION_SETUP_HIGH_OFF :: "u32 \<Rightarrow> u32" where "REGION_SETUP_HIGH_OFF n = 0x104 + n * 0x10"
definition REGION_ATTRIBUTES_OFF :: "u32 \<Rightarrow> u32" where "REGION_ATTRIBUTES_OFF n = 0x108 + n * 0x10"

datatype tzc_action = TZC_ACTION_NONE | TZC_ACTION_ERR | TZC_ACTION_INT | TZC_ACTION_ERR_INT

fun action_code :: "tzc_action \<Rightarrow> u32" where
  "action_code TZC_ACTION_NONE = 0" | "action_code TZC_ACTION_ERR = 1"
| "action_code TZC_ACTION_INT = 2" | "action_code TZC_ACTION_ERR_INT = 3"

definition tzc_read_build_config :: "vaddr \<Rightarrow> u32 km" where
  "tzc_read_build_config base = read32 (base + 0)"

definition tzc_write_action :: "vaddr \<Rightarrow> tzc_action \<Rightarrow> unit km" where
  "tzc_write_action base action = write32 (action_code action) (base + 4)"

definition tzc_write_region_base_low :: "vaddr \<Rightarrow> u32 \<Rightarrow> u32 \<Rightarrow> unit km" where
  "tzc_write_region_base_low base region val = write32 val (base + REGION_SETUP_LOW_OFF region)"

definition tzc_write_region_base_high :: "vaddr \<Rightarrow> u32 \<Rightarrow> u32 \<Rightarrow> unit km" where
  "tzc_write_region_base_high base region val = write32 val (base + REGION_SETUP_HIGH_OFF region)"

definition tzc_write_region_attributes :: "vaddr \<Rightarrow> u32 \<Rightarrow> u32 \<Rightarrow> unit km" where
  "tzc_write_region_attributes base region val = write32 val (base + REGION_ATTRIBUTES_OFF region)"

definition tzc_init :: "vaddr \<Rightarrow> unit km" where
  "tzc_init base =
     thenM (cassert (base \<noteq> 0)) (
     thenM (modifyM (\<lambda>s. s\<lparr>boot := (boot s)\<lparr>tzc := (tzc (boot s))\<lparr>tzc_base := base\<rparr>\<rparr>\<rparr>)) (
     bindM (tzc_read_build_config base) (\<lambda>tzc_build.
     modifyM (\<lambda>s. s\<lparr>boot := (boot s)\<lparr>tzc := (tzc (boot s))
       \<lparr>addr_width := ucast (drop_bit 8 tzc_build AND 0x3F) + 1, num_regions := ucast (drop_bit 0 tzc_build AND 0xF) + 1\<rparr>\<rparr>\<rparr>))))"

definition addr_low :: "vaddr \<Rightarrow> u32" where "addr_low addr = addr"
definition addr_high :: "vaddr \<Rightarrow> u32" where "addr_high addr = 0"

definition tzc_configure_region :: "u8 \<Rightarrow> vaddr \<Rightarrow> u32 \<Rightarrow> unit km" where
  "tzc_configure_region region region_base attr =
     bindM (gets (\<lambda>s. tzc (boot s))) (\<lambda>z.
     thenM (cassert (tzc_base z \<noteq> 0)) (
     thenM (cassert (region < num_regions z)) (
     thenM (tzc_write_region_base_low (tzc_base z) (ucast region) (addr_low region_base)) (
     thenM (tzc_write_region_base_high (tzc_base z) (ucast region) (addr_high region_base))
       (tzc_write_region_attributes (tzc_base z) (ucast region) attr)))))"

definition tzc_set_action :: "tzc_action \<Rightarrow> unit km" where
  "tzc_set_action action =
     bindM (gets (\<lambda>s. tzc (boot s))) (\<lambda>z.
     thenM (cassert (tzc_base z \<noteq> 0)) (tzc_write_action (tzc_base z) action))"

abbreviation (input) TZC_ATTR_SP_ALL :: u32 where "TZC_ATTR_SP_ALL \<equiv> 0xF0000000"
abbreviation (input) TZC_ATTR_SP_S_RW :: u32 where "TZC_ATTR_SP_S_RW \<equiv> 0xC0000000"
abbreviation (input) TZC_ATTR_SP_S_RW_NS_R :: u32 where "TZC_ATTR_SP_S_RW_NS_R \<equiv> 0xE0000000"
abbreviation (input) TZC_REGION_SIZE_64M :: u32 where "TZC_REGION_SIZE_64M \<equiv> 0x19"
abbreviation (input) TZC_REGION_SIZE_8M :: u32 where "TZC_REGION_SIZE_8M \<equiv> 0x16"

definition TZC_ATTR_REGION_SIZE :: "u32 \<Rightarrow> u32" where "TZC_ATTR_REGION_SIZE z = push_bit 1 z"

text \<open>The registers of the reset controller and the snoop control unit.\<close>

abbreviation (input) SRC_BASE :: u32 where "SRC_BASE \<equiv> 0x020D8000"
abbreviation (input) SCU_BASE :: u32 where "SCU_BASE \<equiv> 0x00A00000"
abbreviation (input) CFG_TEE_LOAD_ADDR :: u32 where "CFG_TEE_LOAD_ADDR \<equiv> TZDRAM_BASE"

definition plat_cpu_reset_late :: "unit km" where
  "plat_cpu_reset_late =
     bindM (gets (\<lambda>s. core_pos (mach s))) (\<lambda>pos. whenM (pos = 0) (
     thenM (write32 CFG_TEE_LOAD_ADDR (SRC_BASE + 0x20 + 8)) (
     thenM (write32 CFG_TEE_LOAD_ADDR (SRC_BASE + 0x20 + 16)) (
     thenM (write32 CFG_TEE_LOAD_ADDR (SRC_BASE + 0x20 + 24)) (
     thenM (write32 (push_bit 22 7) (SRC_BASE + 0)) (
     thenM (write32 0xFFFFFFFF (SCU_BASE + 0x0C)) (
     thenM (write32 0xF (SCU_BASE + 0x50)) (
     thenM (write32 0xFFF (SCU_BASE + 0x54)) (
     thenM (bindM (read32 (SCU_BASE + 0)) (\<lambda>v. write32 (v OR 1) (SCU_BASE + 0))) (
     thenM (tzc_init TZC380_BASE) (
     thenM (tzc_configure_region 0 0 TZC_ATTR_SP_ALL) (
     thenM (tzc_configure_region 1 CFG_TEE_RAM_START (TZC_ATTR_SP_S_RW OR TZC_ATTR_REGION_SIZE TZC_REGION_SIZE_64M OR 1)) (
     thenM (tzc_configure_region 2 CFG_FBMEM_START (TZC_ATTR_SP_S_RW_NS_R OR TZC_ATTR_REGION_SIZE TZC_REGION_SIZE_8M OR 1))
       (tzc_set_action TZC_ACTION_ERR))))))))))))))"

section \<open>The controller\<close>

text \<open>The TZC-380 checks an access against the enabled region with the highest number that holds its
  address. Region 0 covers all addresses and is always enabled; region \<open>n\<close> has a base, a size of two to
  the power of its size field plus one, and four permission bits: secure read, secure write, normal read,
  normal write. (The sub-region disable bits are not used by the kernel and are zero.)\<close>

definition low_reg :: "nat \<Rightarrow> u32" where "low_reg n = TZC380_BASE + REGION_SETUP_LOW_OFF (of_nat n)"
definition high_reg :: "nat \<Rightarrow> u32" where "high_reg n = TZC380_BASE + REGION_SETUP_HIGH_OFF (of_nat n)"
definition attr_reg :: "nat \<Rightarrow> u32" where "attr_reg n = TZC380_BASE + REGION_ATTRIBUTES_OFF (of_nat n)"

definition region_hit :: "(u32 \<Rightarrow> u32) \<Rightarrow> paddr \<Rightarrow> nat \<Rightarrow> bool" where
  "region_hit m a n \<longleftrightarrow> n = 0 \<or> n \<le> unat (m TZC380_BASE AND 0xF) \<and> bit (m (attr_reg n)) 0
     \<and> unat (m (low_reg n)) \<le> unat a \<and> unat a < unat (m (low_reg n)) + 2 ^ (unat (drop_bit 1 (m (attr_reg n)) AND 0x3F) + 1)"

definition tzasc_sp :: "(u32 \<Rightarrow> u32) \<Rightarrow> paddr \<Rightarrow> u32" where
  "tzasc_sp m a = (case find (region_hit m a) (rev [0..<16]) of Some n \<Rightarrow> drop_bit 28 (m (attr_reg n)) | None \<Rightarrow> 0)"

text \<open>Laws of the registers: the base of a region keeps an aligned value and the attributes their defined
  bits; a store to one register of the controller leaves the others as they are, and so does a store
  elsewhere.\<close>

definition tzc_window :: "u32 set" where "tzc_window = {r. TZC380_BASE \<le> r \<and> r < TZC380_BASE + 0x1000}"

definition tzc_hw :: "(nat \<Rightarrow> u32 \<Rightarrow> u32 \<Rightarrow> (u32 \<Rightarrow> u32) \<Rightarrow> u32 \<Rightarrow> u32) \<Rightarrow> bool" where
  "tzc_hw h \<longleftrightarrow> (\<forall>a v m. \<forall>r \<in> tzc_window. r \<noteq> a \<longrightarrow> h 4 a v m r = m r)
     \<and> (\<forall>n < 16. \<forall>v m. take_bit 15 v = 0 \<longrightarrow> h 4 (low_reg n) v m (low_reg n) = v)
     \<and> (\<forall>n < 16. \<forall>v m. v AND 0x0FFF0080 = 0 \<longrightarrow> h 4 (attr_reg n) v m (attr_reg n) = v)"

lemma tzc_hw_other: "tzc_hw h \<Longrightarrow> r \<in> tzc_window \<Longrightarrow> r \<noteq> a \<Longrightarrow> h 4 a v m r = m r"
  unfolding tzc_hw_def by blast

lemma reg_nat:
  assumes "n < 16"
  shows "unat (low_reg n) = 0x021D0100 + n * 0x10" "unat (high_reg n) = 0x021D0104 + n * 0x10" "unat (attr_reg n) = 0x021D0108 + n * 0x10"
proof -
  have "unat (of_nat n * 0x10 :: u32) = n * 0x10" using assms by (simp add: unat_word_ariths unat_of_nat)
  then show "unat (low_reg n) = 0x021D0100 + n * 0x10" "unat (high_reg n) = 0x021D0104 + n * 0x10" "unat (attr_reg n) = 0x021D0108 + n * 0x10"
    using assms by (simp_all add: low_reg_def high_reg_def attr_reg_def REGION_SETUP_LOW_OFF_def REGION_SETUP_HIGH_OFF_def
      REGION_ATTRIBUTES_OFF_def unat_add32)
qed

lemma reg_window: "n < 16 \<Longrightarrow> low_reg n \<in> tzc_window" "n < 16 \<Longrightarrow> attr_reg n \<in> tzc_window" "TZC380_BASE \<in> tzc_window"
  by (simp_all add: tzc_window_def word_le_nat_alt word_less_nat_alt reg_nat)

lemma reg_neq:
  "n < 16 \<Longrightarrow> k < 16 \<Longrightarrow> low_reg n = low_reg k \<longleftrightarrow> n = k" "n < 16 \<Longrightarrow> k < 16 \<Longrightarrow> attr_reg n = attr_reg k \<longleftrightarrow> n = k"
  "n < 16 \<Longrightarrow> k < 16 \<Longrightarrow> low_reg n \<noteq> attr_reg k" "n < 16 \<Longrightarrow> k < 16 \<Longrightarrow> low_reg n \<noteq> high_reg k"
  "n < 16 \<Longrightarrow> k < 16 \<Longrightarrow> attr_reg n \<noteq> high_reg k" "n < 16 \<Longrightarrow> TZC380_BASE \<noteq> low_reg n"
  "n < 16 \<Longrightarrow> TZC380_BASE \<noteq> attr_reg n" "n < 16 \<Longrightarrow> TZC380_BASE \<noteq> high_reg n"
  "n < 16 \<Longrightarrow> k < 16 \<Longrightarrow> attr_reg n \<noteq> low_reg k" "n < 16 \<Longrightarrow> attr_reg n \<noteq> TZC380_BASE + 4" "n < 16 \<Longrightarrow> low_reg n \<noteq> TZC380_BASE + 4"
  by (simp_all add: word_unat_eq_iff reg_nat) presburger+

section \<open>Programming it\<close>

abbreviation (input) region_base :: "nat \<Rightarrow> u32" where
  "region_base n \<equiv> [0, 0x4C000000, 0x4B800000] ! n"

abbreviation (input) region_attr :: "nat \<Rightarrow> u32" where
  "region_attr n \<equiv> [0xF0000000, 0xC0000033, 0xE000002D] ! n"

definition tzc_inv :: "u32 \<Rightarrow> nat \<Rightarrow> kernel \<Rightarrow> bool" where
  "tzc_inv bc k t \<longleftrightarrow> tzc_hw (hw (mach t)) \<and> io (mach t) TZC380_BASE = bc
     \<and> (\<forall>j < k. io (mach t) (low_reg j) = region_base j \<and> io (mach t) (attr_reg j) = region_attr j)
     \<and> (\<forall>j. 3 \<le> j \<and> j < 16 \<longrightarrow> \<not> bit (io (mach t) (attr_reg j)) 0)"

definition tzc_ready :: "kernel \<Rightarrow> bool" where
  "tzc_ready t \<longleftrightarrow> tzc_base (tzc (boot t)) = TZC380_BASE \<and> 2 < num_regions (tzc (boot t))"

lemma write_outside:
  assumes "tzc_inv bc k t" "\<forall>j < 16. a \<noteq> low_reg j \<and> a \<noteq> attr_reg j" "a \<noteq> TZC380_BASE" "k \<le> 3"
  shows "tzc_inv bc k (io_upd (hw (mach t) 4 a v (io (mach t))) t)"
proof -
  have h: "tzc_hw (hw (mach t))" using assms(1) by (simp add: tzc_inv_def)
  have "hw (mach t) 4 a v (io (mach t)) r = io (mach t) r" if "r = TZC380_BASE \<or> (\<exists>j < 16. r = low_reg j \<or> r = attr_reg j)" for r
    using that assms(2,3) reg_window by (intro tzc_hw_other [OF h]) auto
  then have "hw (mach t) 4 a v (io (mach t)) TZC380_BASE = io (mach t) TZC380_BASE"
    "j < 16 \<Longrightarrow> hw (mach t) 4 a v (io (mach t)) (low_reg j) = io (mach t) (low_reg j)"
    "j < 16 \<Longrightarrow> hw (mach t) 4 a v (io (mach t)) (attr_reg j) = io (mach t) (attr_reg j)" for j by blast+
  then show ?thesis using assms(1,4) by (simp add: tzc_inv_def)
qed

lemma wp_configure:
  assumes inv: "tzc_inv bc k t" and rd: "tzc_ready t" and k: "k < 3"
  shows "wp (tzc_configure_region (of_nat k) (region_base k) (region_attr k)) (\<lambda>_ u. tzc_inv bc (Suc k) u \<and> tzc_ready u) t"
proof -
  let ?h = "hw (mach t)"
  have h: "tzc_hw ?h" using inv by (simp add: tzc_inv_def)
  have k16: "k < 16" using k by simp
  define m1 where "m1 = ?h 4 (low_reg k) (region_base k) (io (mach t))"
  define m2 where "m2 = ?h 4 (high_reg k) 0 m1"
  define m3 where "m3 = ?h 4 (attr_reg k) (region_attr k) m2"
  have al: "take_bit 15 (region_base k) = 0" "region_attr k AND 0x0FFF0080 = 0" using k by (auto simp: less_Suc_eq numeral_3_eq_3)
  have keep: "m3 r = io (mach t) r" if "r \<in> tzc_window" "r \<noteq> low_reg k" "r \<noteq> high_reg k" "r \<noteq> attr_reg k" for r
    unfolding m3_def m2_def m1_def using that by (simp add: tzc_hw_other [OF h])
  have low: "m3 (low_reg k) = region_base k"
    unfolding m3_def m2_def m1_def using k16 al(1) h
    by (simp only: tzc_hw_other [OF h] reg_window reg_neq simp_thms) (simp add: tzc_hw_def)
  have attr: "m3 (attr_reg k) = region_attr k" unfolding m3_def using k16 al(2) h unfolding tzc_hw_def by blast
  have 1: "m3 (low_reg j) = region_base j \<and> m3 (attr_reg j) = region_attr j" if "j < Suc k" for j
  proof (cases "j = k")
    case False
    then have j: "j < k" "j < 16" using that k by auto
    then show ?thesis using inv keep [of "low_reg j"] keep [of "attr_reg j"] reg_neq reg_window k16 False by (auto simp: tzc_inv_def)
  qed (simp add: low attr)
  have 2: "\<not> bit (m3 (attr_reg j)) 0" if "3 \<le> j" "j < 16" for j
    using that inv keep [of "attr_reg j"] reg_neq reg_window(2) [of j] k16 k by (auto simp: tzc_inv_def)
  have 3: "m3 TZC380_BASE = bc" using keep [of TZC380_BASE] reg_neq reg_window(3) k16 inv by (simp add: tzc_inv_def)
  have "tzc_inv bc (Suc k) (io_upd m3 t)" using 1 2 3 h by (simp add: tzc_inv_def)
  moreover have "ucast (of_nat k :: u8) = (of_nat k :: u32)" "(of_nat k :: u8) < num_regions (tzc (boot t))"
    using k rd by (auto simp: tzc_ready_def less_Suc_eq numeral_3_eq_3 word_less_nat_alt)
  ultimately show ?thesis using rd
    unfolding tzc_configure_region_def tzc_write_region_base_low_def tzc_write_region_base_high_def tzc_write_region_attributes_def
    by (simp add: wp_simps tzc_ready_def addr_low_def addr_high_def m3_def m2_def m1_def low_reg_def high_reg_def attr_reg_def)
qed

lemma wp_tzc_init:
  assumes "tzc_inv bc 0 t" "2 \<le> bc AND 0xF"
  shows "wp (tzc_init TZC380_BASE) (\<lambda>_ u. tzc_inv bc 0 u \<and> tzc_ready u) t"
proof -
  have "unat (bc AND 0xF) < 16" "2 \<le> unat (bc AND 0xF)"
    using assms(2) word_and_le1 [of bc "0xF"] by (auto simp: word_le_nat_alt)
  then have "unat (ucast (bc AND 0xF) + 1 :: u8) = unat (bc AND 0xF) + 1"
    by (simp add: unat_word_ariths unsigned_ucast_eq take_bit_eq_mod)
  then have "2 < (ucast (bc AND 0xF) + 1 :: u8)" using \<open>2 \<le> unat (bc AND 0xF)\<close> by (simp add: word_less_nat_alt)
  then show ?thesis using assms(1)
    by (simp add: tzc_init_def tzc_read_build_config_def wp_simps tzc_inv_def tzc_ready_def)
qed

lemma find_region:
  assumes "tzc_inv bc 3 t" "2 \<le> bc AND 0xF"
  shows "tzasc_sp (io (mach t)) a =
    (if 0x4C000000 \<le> unat a \<and> unat a < 0x50000000 then 0xC
     else if 0x4B800000 \<le> unat a \<and> unat a < 0x4C000000 then 0xE else 0xF)"
proof -
  let ?m = "io (mach t)"
  have r: "?m (low_reg j) = region_base j" "?m (attr_reg j) = region_attr j" if "j < 3" for j using assms(1) that by (auto simp: tzc_inv_def)
  have n: "2 \<le> unat (?m TZC380_BASE AND 0xF)" using assms by (simp add: tzc_inv_def word_le_nat_alt)
  have off: "\<not> region_hit ?m a j" if "3 \<le> j" "j < 16" for j using that assms(1) by (simp add: region_hit_def tzc_inv_def)
  have 2: "region_hit ?m a 2 \<longleftrightarrow> 0x4B800000 \<le> unat a \<and> unat a < 0x4C000000"
    using n r [of 2] by (simp add: region_hit_def)
  have 1: "region_hit ?m a 1 \<longleftrightarrow> 0x4C000000 \<le> unat a \<and> unat a < 0x50000000"
    using n r [of 1] by (simp add: region_hit_def)
  have 0: "region_hit ?m a 0" by (simp add: region_hit_def)
  have "find (region_hit ?m a) (rev [0..<16]) = find (region_hit ?m a) [2, 1, 0]"
    using off by (simp add: upt_conv_Cons numeral_2_eq_2)
  then show ?thesis using r [of 0] r [of 1] r [of 2] 0 1 2 by (simp add: tzasc_sp_def)
qed

lemma wp_reset_late:
  assumes "core_pos (mach s) = 0" "tzc_hw (hw (mach s))" "2 \<le> io (mach s) TZC380_BASE AND 0xF"
    and "\<forall>n. 3 \<le> n \<and> n < 16 \<longrightarrow> \<not> bit (io (mach s) (attr_reg n)) 0"
  shows "wp plat_cpu_reset_late (\<lambda>_. tzc_inv (io (mach s) TZC380_BASE) 3) s"
proof -
  let ?bc = "io (mach s) TZC380_BASE"
  have inv: "tzc_inv ?bc 0 s" using assms by (simp add: tzc_inv_def)
  have out: "a \<notin> tzc_window \<Longrightarrow> (\<forall>j < 16. a \<noteq> low_reg j \<and> a \<noteq> attr_reg j) \<and> a \<noteq> TZC380_BASE" for a
    using reg_window by auto
  have wr: "wp (write32 v a) (\<lambda>_. tzc_inv ?bc 0) t" if "tzc_inv ?bc 0 t" "a \<notin> tzc_window" for v a t
    unfolding wp_write32 using write_outside [OF that(1)] out [OF that(2)] by simp
  have rd: "wp (bindM (read32 a) (\<lambda>v. write32 (v OR 1) a)) (\<lambda>_. tzc_inv ?bc 0) t" if "tzc_inv ?bc 0 t" "a \<notin> tzc_window" for a t
    unfolding wp_bindM wp_read32 by (rule wr [OF that])
  have cfg: "wp (tzc_configure_region r b a) (\<lambda>_ u. tzc_inv ?bc (Suc k) u \<and> tzc_ready u) t"
    if "tzc_inv ?bc k t \<and> tzc_ready t" "k < 3" "r = of_nat k" "b = region_base k" "a = region_attr k" for r b a k t
    using wp_configure [of ?bc k t] that by simp
  have fin: "wp (tzc_set_action TZC_ACTION_ERR) (\<lambda>_. tzc_inv ?bc 3) t" if "tzc_inv ?bc 3 t \<and> tzc_ready t" for t
    using that write_outside [of ?bc 3 t "TZC380_BASE + 4"] reg_neq(10,11)
    by (simp add: tzc_set_action_def tzc_write_action_def wp_simps tzc_ready_def)
  show ?thesis
    unfolding plat_cpu_reset_late_def wp_bindM wp_gets wp_whenM if_P [OF assms(1)]
    apply (rule wp_then_rule [OF wr [OF inv]], simp add: tzc_window_def)
    apply (rule wp_then_rule, rule wr, assumption, simp add: tzc_window_def)+
    apply (rule wp_then_rule, rule rd, assumption, simp add: tzc_window_def)
    apply (rule wp_then_rule, rule wp_tzc_init, assumption, rule assms(3))
    apply (rule wp_then_rule, rule cfg [where k = 0], assumption, simp, simp, simp, simp)
    apply (rule wp_then_rule, rule cfg [where k = 1], simp, simp, simp, simp, simp add: TZC_ATTR_REGION_SIZE_def)
    apply (rule wp_then_rule, rule cfg [where k = 2], simp add: numeral_2_eq_2, simp, simp, simp, simp add: TZC_ATTR_REGION_SIZE_def)
    by (rule fin) (simp add: numeral_3_eq_3 numeral_2_eq_2)
qed

text \<open>C5: Memory protection at boot. When the boot core has run \<open>plat_cpu_reset_late\<close> on a controller with at
  least three regions, all others disabled, the address space controller grants the normal world nothing
  in the 64 MiB of the kernel, reading only in the frame buffer, and all accesses elsewhere; the secure
  world may access everything.\<close>

theorem plat_cpu_reset_late_protects:
  assumes "core_pos (mach s) = 0" "tzc_hw (hw (mach s))" "2 \<le> io (mach s) TZC380_BASE AND 0xF"
    and "\<forall>n. 3 \<le> n \<and> n < 16 \<longrightarrow> \<not> bit (io (mach s) (attr_reg n)) 0"
  shows "wp plat_cpu_reset_late (\<lambda>_ t. \<forall>a. tzasc_sp (io (mach t)) a =
    (if CFG_TEE_RAM_START \<le> a \<and> a \<le> CFG_TEE_RAM_START + 0x03FFFFFF then 0xC
     else if CFG_FBMEM_START \<le> a \<and> a < CFG_FBMEM_START + CFG_FBMEM_SIZE then 0xE else 0xF)) s"
  by (rule wp_mono [OF wp_reset_late [OF assms]])
    (use find_region assms(3) in \<open>simp add: word_le_nat_alt word_less_nat_alt\<close>)

lemma tzc_hw_plain: "tzc_hw plain_hw"
  by (simp add: tzc_hw_def plain_hw_def)

definition tzc_kernel :: kernel where
  "tzc_kernel = io_upd (\<lambda>a. if a = TZC380_BASE then 0x1F0F else 0) blank"

theorem plat_cpu_reset_late_protects_witness:
  "wp plat_cpu_reset_late (\<lambda>_ t. \<forall>a. tzasc_sp (io (mach t)) a =
    (if CFG_TEE_RAM_START \<le> a \<and> a \<le> CFG_TEE_RAM_START + 0x03FFFFFF then 0xC
     else if CFG_FBMEM_START \<le> a \<and> a < CFG_FBMEM_START + CFG_FBMEM_SIZE then 0xE else 0xF)) tzc_kernel"
  by (rule plat_cpu_reset_late_protects)
    (auto simp: tzc_kernel_def tzc_hw_plain blank_def dest: reg_neq(7) [THEN not_sym])

text \<open>The shared memory of the platform configuration (\<open>CFG_SHMEM_START\<close>) lies inside the region that is closed
  to the normal world.\<close>

lemma shared_memory_closed:
  assumes "core_pos (mach s) = 0" "tzc_hw (hw (mach s))" "2 \<le> io (mach s) TZC380_BASE AND 0xF"
    and "\<forall>n. 3 \<le> n \<and> n < 16 \<longrightarrow> \<not> bit (io (mach s) (attr_reg n)) 0"
  shows "wp plat_cpu_reset_late (\<lambda>_ t. tzasc_sp (io (mach t)) CFG_SHMEM_START AND 3 = 0) s"
  by (rule wp_mono [OF wp_reset_late [OF assms]]) (use find_region assms(3) in simp)

end
