(* ===== verification/Secure_Monitor.thy ===== *)
theory Secure_Monitor
  imports Mmu_V7 Tzasc
begin

unbundle bit_operations_syntax

text \<open>
  The secure monitor: sm/sm.c, sm/std\_smc.c, sm/psci.c, plat-imx/psci.c, and the entry code of
  sm/sm\_a32.S. A secure monitor call of the normal world is a standard service (PSCI), which the monitor
  handles itself, or is passed to the secure kernel at one of its entry points. The monitor saves and
  restores the registers of the two worlds.
\<close>

section \<open>PSCI\<close>

text \<open>Return values are \<open>int\<close>s the caller sees as 32-bit words.\<close>

abbreviation (input) PSCI_RET_SUCCESS :: u32 where "PSCI_RET_SUCCESS \<equiv> 0"
abbreviation (input) PSCI_RET_NOT_SUPPORTED :: u32 where "PSCI_RET_NOT_SUPPORTED \<equiv> - 1"
abbreviation (input) PSCI_RET_INVALID_PARAMETERS :: u32 where "PSCI_RET_INVALID_PARAMETERS \<equiv> - 2"
abbreviation (input) OPTEE_SMC_RETURN_UNKNOWN_FUNCTION :: u32 where "OPTEE_SMC_RETURN_UNKNOWN_FUNCTION \<equiv> 0xFFFFFFFF"
abbreviation (input) CFG_TEE_CORE_NB_CORE :: u32 where "CFG_TEE_CORE_NB_CORE \<equiv> 4"

definition psci_version :: u32 where "psci_version = 2"

text \<open>The weak definitions of sm/psci.c, in force for all calls but \<open>psci_cpu_on\<close>.\<close>

definition psci_cpu_suspend :: "u32 \<Rightarrow> u32 \<Rightarrow> u32 \<Rightarrow> u32" where "psci_cpu_suspend power_state entry context_id = PSCI_RET_NOT_SUPPORTED"
definition psci_cpu_off :: u32 where "psci_cpu_off = PSCI_RET_NOT_SUPPORTED"
definition psci_affinity_info :: "u32 \<Rightarrow> u32 \<Rightarrow> u32" where "psci_affinity_info affinity level = PSCI_RET_NOT_SUPPORTED"
definition psci_migrate :: "u32 \<Rightarrow> u32" where "psci_migrate cpu_id = PSCI_RET_NOT_SUPPORTED"
definition psci_migrate_info_type :: u32 where "psci_migrate_info_type = PSCI_RET_NOT_SUPPORTED"
definition psci_migrate_info_up_cpu :: u32 where "psci_migrate_info_up_cpu = PSCI_RET_NOT_SUPPORTED"
definition psci_system_off :: "unit km" where "psci_system_off = ret ()"
definition psci_system_reset :: "unit km" where "psci_system_reset = ret ()"
definition psci_features :: "u32 \<Rightarrow> u32" where "psci_features fid = PSCI_RET_NOT_SUPPORTED"
definition psci_node_hw_state :: "u32 \<Rightarrow> u32 \<Rightarrow> u32" where "psci_node_hw_state cpu_id level = PSCI_RET_NOT_SUPPORTED"

text \<open>plat-imx/psci.c. When the registers are not mapped the code only prints a message and goes on.\<close>

definition psci_cpu_on :: "u32 \<Rightarrow> u32 \<Rightarrow> u32 \<Rightarrow> u32 km" where
  "psci_cpu_on core_idx entry context_id =
     bindM (core_mmu_get_va SRC_BASE MEM_AREA_IO_SEC) (\<lambda>va.
     if core_idx = 0 \<or> core_idx \<ge> CFG_TEE_CORE_NB_CORE then ret PSCI_RET_INVALID_PARAMETERS
     else
       thenM (modifyM (\<lambda>s. s\<lparr>boot := (boot s)\<lparr>ns_entry_addrs := (ns_entry_addrs (boot s))[unat core_idx := entry]\<rparr>\<rparr>)) (
       thenM (write32 CFG_TEE_LOAD_ADDR (va + 0x20 + core_idx * 8)) (
       bindM (read32 (va + 0)) (\<lambda>val.
       let val = val OR bit32 (22 + (unat core_idx - 1)); val = val OR bit32 (14 + (unat core_idx - 1)) in
       thenM (write32 val (va + 0)) (ret PSCI_RET_SUCCESS)))))"

definition tee_psci_handler :: "thread_smc_args \<Rightarrow> thread_smc_args km" where
  "tee_psci_handler args =
     (let smc_fid = a0 args; r = (\<lambda>v. ret (args\<lparr>a0 := v\<rparr>)) in
      if smc_fid = 0x84000000 then r psci_version
      else if smc_fid = 0x84000001 then r (psci_cpu_suspend (a1 args) (a2 args) (a3 args))
      else if smc_fid = 0x84000002 then r psci_cpu_off
      else if smc_fid = 0x84000003 then bindM (psci_cpu_on (a1 args) (a2 args) (a3 args)) r
      else if smc_fid = 0x84000004 then r (psci_affinity_info (a1 args) (a2 args))
      else if smc_fid = 0x84000005 then r (psci_migrate (a1 args))
      else if smc_fid = 0x84000006 then r psci_migrate_info_type
      else if smc_fid = 0x84000007 then r psci_migrate_info_up_cpu
      else if smc_fid = 0x84000008 then thenM psci_system_off (throw Hang)
      else if smc_fid = 0x84000009 then thenM psci_system_reset (throw Hang)
      else if smc_fid = 0x8400000A then r (psci_features (a1 args))
      else if smc_fid = 0x8400000D then r (psci_node_hw_state (a1 args) (a2 args))
      else r OPTEE_SMC_RETURN_UNKNOWN_FUNCTION)"

definition is_psci_fid :: "u32 \<Rightarrow> bool" where
  "is_psci_fid fid \<longleftrightarrow> fid AND 0xFFE0 = 0"

definition smc_std_handler :: "thread_smc_args \<Rightarrow> thread_smc_args km" where
  "smc_std_handler args =
     (if is_psci_fid (a0 args) then tee_psci_handler args
      else ret (args\<lparr>a0 := OPTEE_SMC_RETURN_UNKNOWN_FUNCTION\<rparr>))"

section \<open>Entering the secure world\<close>

definition OPTEE_SMC_OWNER_NUM :: "u32 \<Rightarrow> u32" where
  "OPTEE_SMC_OWNER_NUM v = drop_bit 24 v AND 0x3F"

definition OPTEE_SMC_IS_FAST_CALL :: "u32 \<Rightarrow> bool" where
  "OPTEE_SMC_IS_FAST_CALL v \<longleftrightarrow> v AND 0x80000000 \<noteq> 0"

text \<open>\<open>nsec.r0\<close> to \<open>r7\<close> read as a \<open>struct thread_smc_args\<close>.\<close>

definition args_of :: "u32 list \<Rightarrow> thread_smc_args" where
  "args_of r = \<lparr>a0 = r ! 0, a1 = r ! 1, a2 = r ! 2, a3 = r ! 3, a4 = r ! 4, a5 = r ! 5, a6 = r ! 6, a7 = r ! 7\<rparr>"

definition regs_of :: "thread_smc_args \<Rightarrow> u32 list" where
  "regs_of a = [a0 a, a1 a, a2 a, a3 a, a4 a, a5 a, a6 a, a7 a]"

text \<open>The addresses of \<open>thread_vector_table\<close>, set by the linker.\<close>

record vectors =
  fast_smc_entry :: u32
  std_smc_entry :: u32
  fiq_entry :: u32

definition sm_platform_handler :: "sm_ctx \<Rightarrow> bool" where
  "sm_platform_handler ctx = True"

text \<open>The banked registers of the processor are an argument and a result: \<open>sm_save_modes_regs\<close> copies them into
  the context of the normal world and \<open>sm_restore_modes_regs\<close> loads them from the context of the secure world.\<close>

definition sm_from_nsec :: "vectors \<Rightarrow> sm_mode_regs \<Rightarrow> sm_ctx \<Rightarrow> (bool \<times> sm_mode_regs \<times> sm_ctx) km" where
  "sm_from_nsec vt banked ctx =
     (if \<not> sm_platform_handler ctx then ret (False, banked, ctx)
      else let nsec_r = nr0_7 (sm_nsec ctx) in
      if OPTEE_SMC_OWNER_NUM (nsec_r ! 0) = 4
      then bindM (smc_std_handler (args_of nsec_r)) (\<lambda>args.
        ret (False, banked, ctx\<lparr>sm_nsec := (sm_nsec ctx)\<lparr>nr0_7 := regs_of args\<rparr>\<rparr>))
      else
        let ctx = ctx\<lparr>sm_nsec := (sm_nsec ctx)\<lparr>mode_regs := banked\<rparr>\<rparr>;
            banked = sec_mode_regs (sm_sec ctx);
            ctx = ctx\<lparr>sm_sec := (sm_sec ctx)\<lparr>sr0_7 := nsec_r\<rparr>\<rparr>;
            ctx = ctx\<lparr>sm_sec := (sm_sec ctx)\<lparr>sec_mon_lr :=
              (if OPTEE_SMC_IS_FAST_CALL (sr0_7 (sm_sec ctx) ! 0) then fast_smc_entry vt else std_smc_entry vt)\<rparr>\<rparr>
        in ret (True, banked, ctx))"

section \<open>The entry code\<close>

text \<open>The processor while it runs one of the worlds: \<open>ns\<close> is the security bit of SCR.\<close>

record cpu =
  c_r0_7 :: "u32 list"
  c_r8_12 :: "u32 list"
  c_banked :: sm_mode_regs
  c_pc :: u32
  c_cpsr :: u32
  c_ns :: bool

abbreviation (input) TEESMC_OPTEED_RETURN_FIQ_DONE :: u32 where "TEESMC_OPTEED_RETURN_FIQ_DONE \<equiv> 0xBE000006"

text \<open>The registers the monitor's own code has used and does not reload are \<open>left\<close> in some state.
  \<open>.sm_ret_to_nsec\<close>: reload \<open>r8\<close>-\<open>r12\<close>, set the security bit, pop \<open>r0\<close>-\<open>r7\<close> and return.\<close>

definition sm_ret_to_nsec :: "sm_mode_regs \<Rightarrow> sm_ctx \<Rightarrow> cpu" where
  "sm_ret_to_nsec banked ctx = (let n = sm_nsec ctx in
     \<lparr>c_r0_7 = nr0_7 n, c_r8_12 = nr8_12 n, c_banked = banked, c_pc = mon_lr n, c_cpsr = mon_spsr n, c_ns = True\<rparr>)"

definition smc_from_nsec :: "vectors \<Rightarrow> u32 list \<Rightarrow> cpu \<Rightarrow> sm_ctx \<Rightarrow> (cpu \<times> sm_ctx) km" where
  "smc_from_nsec vt left c ctx =
     (let ctx = ctx\<lparr>sm_nsec := (sm_nsec ctx)\<lparr>mon_lr := c_pc c, mon_spsr := c_cpsr c, nr0_7 := c_r0_7 c, nr8_12 := c_r8_12 c\<rparr>\<rparr> in
      bindM (sm_from_nsec vt (c_banked c) ctx) (\<lambda>(to_sec, banked, ctx).
        if to_sec then let x = sm_sec ctx in
          ret (\<lparr>c_r0_7 = sr0_7 x, c_r8_12 = left, c_banked = banked, c_pc = sec_mon_lr x, c_cpsr = sec_mon_spsr x, c_ns = False\<rparr>, ctx)
        else ret (sm_ret_to_nsec banked ctx, ctx)))"

definition smc_from_sec :: "cpu \<Rightarrow> sm_ctx \<Rightarrow> cpu \<times> sm_ctx" where
  "smc_from_sec c ctx =
     (let ctx = ctx\<lparr>sm_sec := (sm_sec ctx)\<lparr>sec_mon_lr := c_pc c, sec_mon_spsr := c_cpsr c, sr0_7 := c_r0_7 c, sec_mode_regs := c_banked c\<rparr>\<rparr>;
          r = sr0_7 (sm_sec ctx);
          ctx = (if r ! 0 \<noteq> TEESMC_OPTEED_RETURN_FIQ_DONE
                 then ctx\<lparr>sm_nsec := (sm_nsec ctx)\<lparr>nr0_7 := take 4 (drop 1 r) @ drop 4 (nr0_7 (sm_nsec ctx))\<rparr>\<rparr> else ctx)
      in (sm_ret_to_nsec (mode_regs (sm_nsec ctx)) ctx, ctx))"

text \<open>A fast interrupt while the normal world runs: \<open>c_pc\<close> is the interrupted instruction.\<close>

definition sm_fiq_entry :: "vectors \<Rightarrow> u32 list \<Rightarrow> cpu \<Rightarrow> sm_ctx \<Rightarrow> cpu \<times> sm_ctx" where
  "sm_fiq_entry vt left c ctx =
     (let ctx = ctx\<lparr>sm_nsec := (sm_nsec ctx)\<lparr>mon_lr := c_pc c, mon_spsr := c_cpsr c, nr0_7 := c_r0_7 c, mode_regs := c_banked c,
            nr8_12 := c_r8_12 c\<rparr>\<rparr>;
          ctx = ctx\<lparr>sm_sec := (sm_sec ctx)\<lparr>sec_mon_lr := fiq_entry vt\<rparr>\<rparr>; x = sm_sec ctx
      in (c\<lparr>c_r0_7 := left, c_banked := sec_mode_regs x, c_pc := sec_mon_lr x, c_cpsr := sec_mon_spsr x, c_ns := False\<rparr>, ctx))"

section \<open>The two worlds are kept apart\<close>

lemma psci_keeps_regs:
  assumes "smc_std_handler a s = Inr (a', s')"
  shows "a1 a' = a1 a \<and> a2 a' = a2 a \<and> a3 a' = a3 a \<and> a4 a' = a4 a \<and> a5 a' = a5 a \<and> a6 a' = a6 a \<and> a7 a' = a7 a"
  using assms
  by (auto simp: smc_std_handler_def tee_psci_handler_def Let_def bindM_def thenM_def throw_def ret_def
      split: if_splits sum.splits prod.splits)

lemma bindM_Inr: "bindM p f s = Inr r \<longleftrightarrow> (\<exists>x t. p s = Inr (x, t) \<and> f x t = Inr r)"
  by (auto simp: bindM_def split: sum.splits prod.splits)

lemma sm_from_nsec_cases:
  assumes "sm_from_nsec vt b k s = Inr ((d, b', k'), s')"
  obtains (psci) "\<not> d" "b' = b" "sm_sec k' = sm_sec k" "k' = k\<lparr>sm_nsec := (sm_nsec k)\<lparr>nr0_7 := nr0_7 (sm_nsec k')\<rparr>\<rparr>"
      "OPTEE_SMC_OWNER_NUM (nr0_7 (sm_nsec k) ! 0) = 4"
  | (secure) "d" "b' = sec_mode_regs (sm_sec k)" "OPTEE_SMC_OWNER_NUM (nr0_7 (sm_nsec k) ! 0) \<noteq> 4" "s' = s"
      "sm_nsec k' = (sm_nsec k)\<lparr>mode_regs := b\<rparr>"
      "sm_sec k' = (sm_sec k)\<lparr>sr0_7 := nr0_7 (sm_nsec k), sec_mon_lr :=
         (if OPTEE_SMC_IS_FAST_CALL (nr0_7 (sm_nsec k) ! 0) then fast_smc_entry vt else std_smc_entry vt)\<rparr>"
  using assms that
  by (auto simp: sm_from_nsec_def sm_platform_handler_def Let_def bindM_def ret_def split: if_splits sum.splits prod.splits)

text \<open>A stay in the normal world: it runs with whatever registers it likes and may call the services the
  monitor handles itself.\<close>

inductive normal_stay :: "vectors \<Rightarrow> sm_ctx \<Rightarrow> cpu \<Rightarrow> sm_ctx \<Rightarrow> bool" for vt k0 where
  enter: "c_ns c \<Longrightarrow> normal_stay vt k0 c k0"
| run: "normal_stay vt k0 c k \<Longrightarrow> c_ns c' \<Longrightarrow> normal_stay vt k0 c' k"
| service: "normal_stay vt k0 c k \<Longrightarrow> smc_from_nsec vt left c k s = Inr ((c', k'), s') \<Longrightarrow> c_ns c' \<Longrightarrow> normal_stay vt k0 c' k'"

lemma smc_from_nsec_secure:
  assumes "smc_from_nsec vt left c k s = Inr ((c', k'), s')"
  shows "c_ns c' \<Longrightarrow> sm_sec k' = sm_sec k"
    and "\<not> c_ns c' \<Longrightarrow> c_banked c' = sec_mode_regs (sm_sec k) \<and> c_cpsr c' = sec_mon_spsr (sm_sec k) \<and> c_r0_7 c' = c_r0_7 c
      \<and> c_pc c' = (if OPTEE_SMC_IS_FAST_CALL (c_r0_7 c ! 0) then fast_smc_entry vt else std_smc_entry vt)
      \<and> sm_nsec k' = (sm_nsec k)\<lparr>mon_lr := c_pc c, mon_spsr := c_cpsr c, nr0_7 := c_r0_7 c, nr8_12 := c_r8_12 c, mode_regs := c_banked c\<rparr>"
proof -
  define k1 where "k1 = k\<lparr>sm_nsec := (sm_nsec k)\<lparr>mon_lr := c_pc c, mon_spsr := c_cpsr c, nr0_7 := c_r0_7 c, nr8_12 := c_r8_12 c\<rparr>\<rparr>"
  obtain d b k2 where m: "sm_from_nsec vt (c_banked c) k1 s = Inr ((d, b, k2), s')"
    and c': "c' = (if d then \<lparr>c_r0_7 = sr0_7 (sm_sec k2), c_r8_12 = left, c_banked = b, c_pc = sec_mon_lr (sm_sec k2),
        c_cpsr = sec_mon_spsr (sm_sec k2), c_ns = False\<rparr> else sm_ret_to_nsec b k2)" and k': "k' = k2"
  proof -
    from assms obtain x t where x: "sm_from_nsec vt (c_banked c) k1 s = Inr (x, t)"
      and e: "(case x of (to_sec, banked, ctx) \<Rightarrow>
        if to_sec then let x = sm_sec ctx in
          ret (\<lparr>c_r0_7 = sr0_7 x, c_r8_12 = left, c_banked = banked, c_pc = sec_mon_lr x, c_cpsr = sec_mon_spsr x, c_ns = False\<rparr>, ctx)
        else ret (sm_ret_to_nsec banked ctx, ctx)) t = Inr ((c', k'), s')"
      unfolding smc_from_nsec_def Let_def k1_def [symmetric] bindM_Inr by blast
    obtain d b k2 where "x = (d, b, k2)" by (cases x) auto
    with x e show ?thesis by (intro that [of d b k2]) (auto simp: ret_def Let_def split: if_splits)
  qed
  from m have r: "(c_ns c' \<longrightarrow> sm_sec k' = sm_sec k) \<and> (\<not> c_ns c' \<longrightarrow> c_banked c' = sec_mode_regs (sm_sec k)
      \<and> c_cpsr c' = sec_mon_spsr (sm_sec k) \<and> c_r0_7 c' = c_r0_7 c
      \<and> c_pc c' = (if OPTEE_SMC_IS_FAST_CALL (c_r0_7 c ! 0) then fast_smc_entry vt else std_smc_entry vt)
      \<and> sm_nsec k' = (sm_nsec k)\<lparr>mon_lr := c_pc c, mon_spsr := c_cpsr c, nr0_7 := c_r0_7 c, nr8_12 := c_r8_12 c, mode_regs := c_banked c\<rparr>)"
    by (cases rule: sm_from_nsec_cases) (simp_all add: c' k' k1_def sm_ret_to_nsec_def Let_def)
  from r show "c_ns c' \<Longrightarrow> sm_sec k' = sm_sec k" by blast
  from r show "\<not> c_ns c' \<Longrightarrow> c_banked c' = sec_mode_regs (sm_sec k) \<and> c_cpsr c' = sec_mon_spsr (sm_sec k) \<and> c_r0_7 c' = c_r0_7 c
      \<and> c_pc c' = (if OPTEE_SMC_IS_FAST_CALL (c_r0_7 c ! 0) then fast_smc_entry vt else std_smc_entry vt)
      \<and> sm_nsec k' = (sm_nsec k)\<lparr>mon_lr := c_pc c, mon_spsr := c_cpsr c, nr0_7 := c_r0_7 c, nr8_12 := c_r8_12 c, mode_regs := c_banked c\<rparr>" by blast
qed

lemma normal_stay_sec: "normal_stay vt k0 c k \<Longrightarrow> c_ns c \<and> sm_sec k = sm_sec k0"
  by (induction rule: normal_stay.induct) (auto dest: smc_from_nsec_secure(1))


text \<open>C8: An interrupt is invisible to the normal world, and a call changes only its results. After a fast
  interrupt, whatever the secure world does with the registers, its return resumes the normal world in
  exactly the state it was interrupted in; after a monitor call, the normal world continues behind the
  call with \<open>r0\<close>-\<open>r3\<close> set by the secure world and every other register as it was.\<close>

theorem normal_world_resumed:
  assumes "c_ns c" "length (c_r0_7 c) = 8"
  shows "(sm_fiq_entry vt left c k = (c1, k1) \<longrightarrow> c_r0_7 cs ! 0 = TEESMC_OPTEED_RETURN_FIQ_DONE \<longrightarrow> fst (smc_from_sec cs k1) = c)
    \<and> (smc_from_nsec vt left c k s = Inr ((c2, k2), s') \<longrightarrow> \<not> c_ns c2 \<longrightarrow> c_r0_7 cs ! 0 \<noteq> TEESMC_OPTEED_RETURN_FIQ_DONE \<longrightarrow>
        fst (smc_from_sec cs k2) = c\<lparr>c_r0_7 := take 4 (drop 1 (c_r0_7 cs)) @ drop 4 (c_r0_7 c)\<rparr>)"
proof (intro conjI impI)
  assume "sm_fiq_entry vt left c k = (c1, k1)" "c_r0_7 cs ! 0 = TEESMC_OPTEED_RETURN_FIQ_DONE"
  then show "fst (smc_from_sec cs k1) = c"
    using assms(1) by (auto simp: sm_fiq_entry_def smc_from_sec_def sm_ret_to_nsec_def Let_def)
next
  assume e: "smc_from_nsec vt left c k s = Inr ((c2, k2), s')" "\<not> c_ns c2" "c_r0_7 cs ! 0 \<noteq> TEESMC_OPTEED_RETURN_FIQ_DONE"
  have n: "sm_nsec k2 = (sm_nsec k)\<lparr>mon_lr := c_pc c, mon_spsr := c_cpsr c, nr0_7 := c_r0_7 c, nr8_12 := c_r8_12 c, mode_regs := c_banked c\<rparr>"
    using smc_from_nsec_secure(2) [OF e(1,2)] by blast
  show "fst (smc_from_sec cs k2) = c\<lparr>c_r0_7 := take 4 (drop 1 (c_r0_7 cs)) @ drop 4 (c_r0_7 c)\<rparr>"
    using assms(1) e(3) by (simp add: smc_from_sec_def sm_ret_to_nsec_def Let_def n)
qed

text \<open>Example processor states.\<close>

definition ex_vectors :: vectors where
  "ex_vectors = \<lparr>fast_smc_entry = 0x4C001000, std_smc_entry = 0x4C001004, fiq_entry = 0x4C001008\<rparr>"

definition ex_normal :: cpu where
  "ex_normal = \<lparr>c_r0_7 = [0xB2000001, 1, 2, 3, 4, 5, 6, 7], c_r8_12 = [8, 9, 10, 11, 12], c_banked = blank_mode_regs\<lparr>svc_sp := 0x10008000\<rparr>,
     c_pc = 0x10008004, c_cpsr = 0x13, c_ns = True\<rparr>"

definition ex_secure :: cpu where
  "ex_secure = \<lparr>c_r0_7 = [0, 0xAA, 0, 0, 0, 0, 0, 0], c_r8_12 = [0, 0, 0, 0, 0], c_banked = blank_mode_regs\<lparr>svc_sp := 0x4C0A0000\<rparr>,
     c_pc = 0x4C001234, c_cpsr = 0x1D3, c_ns = False\<rparr>"


theorem normal_world_resumed_witness:
  "let (c2, k2) = sm_fiq_entry ex_vectors [] ex_normal blank_sm_ctx in
   fst (smc_from_sec (c2\<lparr>c_r0_7 := [TEESMC_OPTEED_RETURN_FIQ_DONE, 0, 0, 0, 0, 0, 0, 0]\<rparr>) k2) = ex_normal"
proof -
  obtain c2 k2 where 2: "sm_fiq_entry ex_vectors [] ex_normal blank_sm_ctx = (c2, k2)" by (cases "sm_fiq_entry ex_vectors [] ex_normal blank_sm_ctx")
  have "c_ns ex_normal" "length (c_r0_7 ex_normal) = 8" by (simp_all add: ex_normal_def)
  from normal_world_resumed [OF this, of ex_vectors "[]" blank_sm_ctx c2 k2 "c2\<lparr>c_r0_7 := [TEESMC_OPTEED_RETURN_FIQ_DONE, 0, 0, 0, 0, 0, 0, 0]\<rparr>"] 2
  show ?thesis by simp
qed

section \<open>Starting a core\<close>

text \<open>The laws of the reset controller the call relies on: the general purpose registers keep their value,
  and the core enable bits of the control register read back (its reset bits clear themselves).\<close>

definition src_hw :: "(nat \<Rightarrow> u32 \<Rightarrow> u32 \<Rightarrow> (u32 \<Rightarrow> u32) \<Rightarrow> u32 \<Rightarrow> u32) \<Rightarrow> vaddr \<Rightarrow> bool" where
  "src_hw h va \<longleftrightarrow> (\<forall>i \<in> {1, 2, 3}. plain_reg h (va + 0x20 + i * 8))
     \<and> (\<forall>v m. (\<forall>n \<in> {22, 23, 24}. bit (h 4 va v m va) n = bit v n) \<and> (\<forall>r. r \<noteq> va \<longrightarrow> h 4 va v m r = m r))"

lemma psci_cpu_on_wp:
  assumes va: "wp (core_mmu_get_va SRC_BASE MEM_AREA_IO_SEC) (\<lambda>va t. va = base \<and> t = s) s" and h: "src_hw (hw (mach s)) base"
    and i: "core_idx \<in> {1, 2, 3}"
  shows "wp (psci_cpu_on core_idx entry context_id) (\<lambda>r t. \<exists>m. r = PSCI_RET_SUCCESS
    \<and> t = io_upd m (s\<lparr>boot := (boot s)\<lparr>ns_entry_addrs := (ns_entry_addrs (boot s))[unat core_idx := entry]\<rparr>\<rparr>)
    \<and> m (base + 0x20 + core_idx * 8) = CFG_TEE_LOAD_ADDR \<and> bit (m base) (21 + unat core_idx)) s"
  unfolding psci_cpu_on_def
proof (rule wp_bind_rule [OF va], elim conjE)
  fix va and t :: kernel
  assume t: "va = base" "t = s"
  have nz: "\<not> (core_idx = 0 \<or> core_idx \<ge> 4)" using i by (auto simp: word_le_nat_alt word_unat_eq_iff)
  have n: "21 + unat core_idx \<in> {22, 23, 24}" "22 + (unat core_idx - 1) = 21 + unat core_idx" "21 + unat core_idx < 32" using i by auto
  have p: "0 < unat core_idx" using i by auto
  have ne: "base + 0x20 + core_idx * 8 \<noteq> base" using i by auto
  have hr: "hw (mach s) 4 (base + 0x20 + core_idx * 8) v m = m(base + 0x20 + core_idx * 8 := v)" for v m
    using h i by (auto simp: src_hw_def plain_reg_def)
  have scr: "bit (hw (mach s) 4 base v m base) (21 + unat core_idx) = bit v (21 + unat core_idx)"
    "r \<noteq> base \<Longrightarrow> hw (mach s) 4 base v m r = m r" for v m r
    using h n(1) unfolding src_hw_def by blast+
  show "wp (if core_idx = 0 \<or> core_idx \<ge> 4 then ret PSCI_RET_INVALID_PARAMETERS
     else
       thenM (modifyM (\<lambda>s. s\<lparr>boot := (boot s)\<lparr>ns_entry_addrs := (ns_entry_addrs (boot s))[unat core_idx := entry]\<rparr>\<rparr>)) (
       thenM (write32 CFG_TEE_LOAD_ADDR (va + 0x20 + core_idx * 8)) (
       bindM (read32 (va + 0)) (\<lambda>val.
       let val = val OR bit32 (22 + (unat core_idx - 1)); val = val OR bit32 (14 + (unat core_idx - 1)) in
       thenM (write32 val (va + 0)) (ret PSCI_RET_SUCCESS))))) (\<lambda>r t. \<exists>m. r = PSCI_RET_SUCCESS
    \<and> t = io_upd m (s\<lparr>boot := (boot s)\<lparr>ns_entry_addrs := (ns_entry_addrs (boot s))[unat core_idx := entry]\<rparr>\<rparr>)
    \<and> m (base + 0x20 + core_idx * 8) = CFG_TEE_LOAD_ADDR \<and> bit (m base) (21 + unat core_idx)) t"
    unfolding if_not_P [OF nz] t
    using ne by (simp add: wp_simps Let_def hr scr n(2) bit_set32 n(3)) (intro exI conjI, rule refl, use p ne in \<open>simp_all add: hr scr bit_set32 n\<close>)
qed

text \<open>\<open>PSCI_CPU_ON\<close>. For a secondary core the call records the entry address the normal world asks for,
  makes the core start at the load address of the secure kernel, never at the address of the normal
  world, and enables it; for any other number it fails and changes nothing.\<close>

lemma psci_cpu_on_correct:
  assumes "wp (core_mmu_get_va SRC_BASE MEM_AREA_IO_SEC) (\<lambda>va t. va = base \<and> t = s) s" and "src_hw (hw (mach s)) base"
  shows "wp (psci_cpu_on core_idx entry context_id) (\<lambda>r t.
    if core_idx \<in> {1, 2, 3}
    then r = PSCI_RET_SUCCESS \<and> ns_entry_addrs (boot t) = (ns_entry_addrs (boot s))[unat core_idx := entry]
      \<and> io (mach t) (base + 0x20 + core_idx * 8) = CFG_TEE_LOAD_ADDR \<and> bit (io (mach t) base) (21 + unat core_idx)
    else r = PSCI_RET_INVALID_PARAMETERS \<and> t = s) s"
proof (cases "core_idx \<in> {1, 2, 3}")
  case True
  show ?thesis by (rule wp_mono [OF psci_cpu_on_wp [OF assms True, of entry context_id]]) (use True in auto)
next
  case False
  then have "core_idx = 0 \<or> core_idx \<ge> 4" by (auto simp: word_le_nat_alt word_unat_eq_iff)
  then show ?thesis unfolding psci_cpu_on_def
    by (intro wp_bind_rule [OF assms(1)]) (use False in \<open>simp add: wp_simps\<close>)
qed

lemma get_va_off: "sctlr (cp15 (mmu s)) AND 1 = 0 \<Longrightarrow> wp (core_mmu_get_va pa ty) (\<lambda>va t. va = pa \<and> t = s) s"
  by (simp add: core_mmu_get_va_def cpu_mmu_enabled_def wp_simps del: and_one_eq)

lemma psci_cpu_on_correct_witness:
  "wp (psci_cpu_on 2 0x10008000 0) (\<lambda>r t. r = PSCI_RET_SUCCESS \<and> ns_entry_addrs (boot t) = [0, 0, 0x10008000, 0]
      \<and> io (mach t) (SRC_BASE + 0x20 + 2 * 8) = CFG_TEE_LOAD_ADDR \<and> bit (io (mach t) SRC_BASE) 23) blank"
proof -
  have h: "src_hw (hw (mach blank)) SRC_BASE" by (simp add: src_hw_def blank_def plain_reg_def plain_hw_def)
  have "wp (core_mmu_get_va SRC_BASE MEM_AREA_IO_SEC) (\<lambda>va t. va = SRC_BASE \<and> t = blank) blank"
    by (rule get_va_off) (simp add: blank_def)
  note on = psci_cpu_on_correct [OF this h, of 2 "0x10008000" 0]
  have "(ns_entry_addrs (boot blank))[2 := e] = [0, 0, e, 0]" for e
    by (simp add: blank_def numeral_eq_Suc)
  then show ?thesis by (intro wp_mono [OF on]) simp_all
qed

end
