(* ===== verification/Data_Abort.thy ===== *)
theory Data_Abort
  imports Secure_Monitor Emu_Dispatch
begin

unbundle bit_operations_syntax

text \<open>
  \<open>sm_da_entry\<close> of sm/sm\_a32.S: an access of the normal world that the bus refuses traps into the monitor,
  which saves the registers, translates the two addresses, lets \<open>emu_handle\<close> act on the saved registers,
  and resumes the normal world.
\<close>

section \<open>The trap\<close>

text \<open>\<open>par va\<close>: the processor's translation of an address of the normal world.\<close>

definition page_pa :: "(vaddr \<Rightarrow> u32) \<Rightarrow> vaddr \<Rightarrow> paddr" where
  "page_pa par va = (va AND 0xFFF) OR (par (va AND NOT 0xFFF) AND NOT 0xFFF)"

text \<open>\<open>c_pc\<close> is the instruction that caused the abort; the link register of the trap is 8 beyond it.\<close>

definition sm_da_entry :: "emu_dispatch \<Rightarrow> (vaddr \<Rightarrow> u32) \<Rightarrow> u32 \<Rightarrow> vaddr \<Rightarrow> cpu \<Rightarrow> sm_ctx \<Rightarrow> (cpu \<times> sm_ctx) km" where
  "sm_da_entry chk par dfsr dfar c ctx =
     (let lr = c_pc c + 8 - 4;
          ctx = ctx\<lparr>sm_nsec := (sm_nsec ctx)\<lparr>mon_lr := lr, mon_spsr := c_cpsr c, nr0_7 := c_r0_7 c, nlr := svc_lr (c_banked c),
            nr8_12 := c_r8_12 c\<rparr>\<rparr> in
      bindM (emu_handle chk (sm_nsec ctx) dfsr (page_pa par dfar) (page_pa par (lr - 4))) (\<lambda>n.
      ret (\<lparr>c_r0_7 = nr0_7 n, c_r8_12 = nr8_12 n, c_banked = (c_banked c)\<lparr>svc_lr := nlr n\<rparr>, c_pc = mon_lr n, c_cpsr = mon_spsr n,
              c_ns = True\<rparr>, ctx\<lparr>sm_nsec := n\<rparr>)))"

section \<open>What the normal world sees\<close>

text \<open>A register as the instruction names it: \<open>r0\<close>-\<open>r12\<close> and the link register.\<close>

definition cpu_set_reg :: "u32 \<Rightarrow> u32 \<Rightarrow> cpu \<Rightarrow> cpu" where
  "cpu_set_reg rt v c =
     (if rt \<le> 7 then c\<lparr>c_r0_7 := (c_r0_7 c)[unat rt := v]\<rparr>
      else if rt \<le> 12 then c\<lparr>c_r8_12 := (c_r8_12 c)[unat (rt - 8) := v]\<rparr>
      else c\<lparr>c_banked := (c_banked c)\<lparr>svc_lr := v\<rparr>\<rparr>)"

definition saved :: "cpu \<Rightarrow> sm_nsec_ctx \<Rightarrow> sm_nsec_ctx" where
  "saved c n = n\<lparr>mon_lr := c_pc c + 4, mon_spsr := c_cpsr c, nr0_7 := c_r0_7 c, nlr := svc_lr (c_banked c), nr8_12 := c_r8_12 c\<rparr>"

definition resumed :: "cpu \<Rightarrow> sm_nsec_ctx \<Rightarrow> cpu" where
  "resumed c n = \<lparr>c_r0_7 = nr0_7 n, c_r8_12 = nr8_12 n, c_banked = (c_banked c)\<lparr>svc_lr := nlr n\<rparr>, c_pc = mon_lr n, c_cpsr = mon_spsr n, c_ns = True\<rparr>"

lemma sm_da_entry_eq:
  "sm_da_entry chk par dfsr dfar c k = bindM (emu_handle chk (saved c (sm_nsec k)) dfsr (page_pa par dfar) (page_pa par (c_pc c)))
     (\<lambda>n. ret (resumed c n, k\<lparr>sm_nsec := n\<rparr>))"
  by (simp add: sm_da_entry_def Let_def saved_def resumed_def add.commute)

lemma resumed_saved: "c_ns c \<Longrightarrow> resumed c (saved c n) = c\<lparr>c_pc := c_pc c + 4\<rparr>"
  by (simp add: resumed_def saved_def)

lemma resumed_set: "c_ns c \<Longrightarrow> resumed c (set_reg rt v (saved c n)) = cpu_set_reg rt v (c\<lparr>c_pc := c_pc c + 4\<rparr>)"
  by (simp add: resumed_def saved_def set_reg_def cpu_set_reg_def)



definition trap_cpu :: cpu where "trap_cpu = ex_normal\<lparr>c_pc := 0x10000000\<rparr>"



end
