(* ===== verification/Boot.thy ===== *)
theory Boot
  imports Secure_Monitor Csu Gic
begin

unbundle bit_operations_syntax

text \<open>
  Boot: the initialisation functions of thread.c, kernel/generic\_boot.c, kernel/pm\_stubs.c and the
  platform hooks of plat-imx/main.c. The boot core initialises the kernel; a secondary core is released by
  \<open>psci_cpu_on\<close>, initialises itself and enters the normal world at the address recorded for it.
\<close>

section \<open>Per-core setup (thread.c)\<close>

text \<open>Addresses the linker assigns: the tops of the stacks (\<open>GET_STACK\<close>) and the vector tables.\<close>

record link_layout =
  tmp_top :: "nat \<Rightarrow> u32"
  abt_top :: "nat \<Rightarrow> u32"
  thread_top :: "nat \<Rightarrow> u32"
  thread_vect_table :: u32
  sm_vect_table :: u32

definition init_handlers :: "thread_handlers \<Rightarrow> unit km" where
  "init_handlers hs = modifyM (\<lambda>s. s\<lparr>boot := (boot s)\<lparr>handler_ptrs := Some hs\<rparr>\<rparr>)"

definition init_thread_stacks :: "link_layout \<Rightarrow> unit km" where
  "init_thread_stacks lay = forM [0..<CFG_NUM_THREADS] (\<lambda>n.
     bindM (thread_init_stack (of_nat n) (thread_top lay n)) (\<lambda>ok. whenM (\<not> ok) panic))"

definition thread_init_primary :: "link_layout \<Rightarrow> thread_handlers \<Rightarrow> unit km" where
  "thread_init_primary lay hs = thenM (init_handlers hs) (thenM init_canaries (init_thread_stacks lay))"

text \<open>\<open>sizeof(struct sm_ctx)\<close> is 268; the monitor's stack pointer points just beyond \<open>sm_ctx.sec\<close>.\<close>

abbreviation (input) SM_CTX_SIZE :: u32 where "SM_CTX_SIZE \<equiv> 268"
abbreviation (input) SM_CTX_NSEC :: u32 where "SM_CTX_NSEC \<equiv> 136"

definition upd_core_sp :: "nat \<Rightarrow> (core_regs \<Rightarrow> core_regs) \<Rightarrow> unit km" where
  "upd_core_sp pos f = modifyM (\<lambda>s. s\<lparr>boot := (boot s)\<lparr>core_sp := (core_sp (boot s))[pos := f (core_sp (boot s) ! pos)]\<rparr>\<rparr>)"

definition sm_init :: "link_layout \<Rightarrow> nat \<Rightarrow> u32 \<Rightarrow> unit km" where
  "sm_init lay pos sp = upd_core_sp pos (\<lambda>r. r\<lparr>mon_sp_reg := sp - (SM_CTX_SIZE - SM_CTX_NSEC), mvbar := sm_vect_table lay\<rparr>)"

definition set_tmp_stack :: "nat \<Rightarrow> u32 \<Rightarrow> unit km" where
  "set_tmp_stack pos sp =
     thenM (upd_core_local pos (\<lambda>l. l\<lparr>tmp_stack_va_end := sp\<rparr>))
       (upd_core_sp pos (\<lambda>r. r\<lparr>irq_sp_reg := sp, fiq_sp_reg := sp\<rparr>))"

definition set_abt_stack :: "nat \<Rightarrow> u32 \<Rightarrow> unit km" where
  "set_abt_stack pos sp = upd_core_sp pos (\<lambda>r. r\<lparr>abt_sp_reg := sp\<rparr>)"

definition thread_init_vbar :: "link_layout \<Rightarrow> nat \<Rightarrow> unit km" where
  "thread_init_vbar lay pos = upd_core_sp pos (\<lambda>r. r\<lparr>vbar := thread_vect_table lay\<rparr>)"

definition thread_init_per_cpu :: "link_layout \<Rightarrow> unit km" where
  "thread_init_per_cpu lay =
     bindM (gets (\<lambda>s. core_pos (mach s))) (\<lambda>pos.
     bindM thread_get_core_local (\<lambda>_.
     thenM (sm_init lay pos (tmp_top lay pos)) (
     thenM (set_tmp_stack pos (tmp_top lay pos - SM_CTX_SIZE)) (
     thenM (set_abt_stack pos (abt_top lay pos))
       (thread_init_vbar lay pos)))))"

section \<open>Generic boot (generic\_boot.c, pm\_stubs.c, plat-imx/main.c)\<close>

definition pm_panic :: "u32 \<Rightarrow> u32 \<Rightarrow> u32 km" where "pm_panic x y = panic"
definition pm_do_nothing :: "u32 \<Rightarrow> u32 \<Rightarrow> u32 km" where "pm_do_nothing x y = ret 0"

definition generic_boot_get_handlers :: thread_handlers where
  "generic_boot_get_handlers = \<lparr>std_smc = cloak_entry_fn, fast_smc = cloak_entry_fn, nintr = main_fiq_fn, cpu_on = pm_panic_fn,
     cpu_off = pm_panic_fn, cpu_suspend = pm_panic_fn, cpu_resume = pm_panic_fn, system_off = pm_panic_fn, system_reset = pm_panic_fn\<rparr>"

definition main_init_primary :: "unit km" where "main_init_primary = csu_init 0x021C0000"
definition main_init_secondary :: "unit km" where "main_init_secondary = gic_cpu_init"

definition init_sec_mon :: "u32 \<Rightarrow> unit km" where
  "init_sec_mon nsec_entry =
     thenM (cassert (nsec_entry \<noteq> 0xFFFFFFFF)) (
     bindM (gets (\<lambda>s. core_pos (mach s))) (\<lambda>pos.
     bindM (gets (\<lambda>s. sm_ctxs (boot s))) (\<lambda>ks.
     bindM (index_at ks pos) (\<lambda>k.
     modifyM (\<lambda>s. s\<lparr>boot := (boot s)\<lparr>sm_ctxs := ks[pos := k\<lparr>sm_nsec := (sm_nsec k)\<lparr>mon_lr := nsec_entry, mon_spsr := 0x13 OR 0x80\<rparr>\<rparr>]\<rparr>\<rparr>)))))"

definition init_vfp_nsec :: "unit km" where
  "init_vfp_nsec = modifyM (\<lambda>s. s\<lparr>boot := (boot s)\<lparr>nsacr := nsacr (boot s) OR 0x400 OR 0x800\<rparr>\<rparr>)"

text \<open>Adding the heap to \<open>malloc\<close> has no counterpart in the model, where allocation is \<open>alloc_ok\<close>.\<close>

definition init_runtime :: "unit km" where "init_runtime = thread_init_boot_thread"

text \<open>The results of \<open>fdt_open_into\<close> and \<open>fdt_pack\<close> on the tree at the given address are arguments.\<close>

definition init_fdt :: "(vaddr \<Rightarrow> int) \<Rightarrow> (vaddr \<Rightarrow> int) \<Rightarrow> u32 \<Rightarrow> unit km" where
  "init_fdt fdt_open_into fdt_pack phys_fdt =
     (if phys_fdt = 0 then ret ()
      else bindM (phys_to_virt phys_fdt MEM_AREA_RAM_NSEC) (\<lambda>fdt.
        thenM (whenM (fdt = 0) panic) (
        thenM (whenM (fdt_open_into fdt < 0) panic)
          (whenM (fdt_pack fdt < 0) panic))))"

definition call_initcalls :: "u32 km list \<Rightarrow> unit km" where
  "call_initcalls calls = forM calls (\<lambda>call. bindM call (\<lambda>_. ret ()))"

definition init_primary_helper ::
    "link_layout \<Rightarrow> (vaddr \<Rightarrow> int) \<Rightarrow> (vaddr \<Rightarrow> int) \<Rightarrow> u32 km list \<Rightarrow> u32 \<Rightarrow> u32 \<Rightarrow> unit km" where
  "init_primary_helper lay fdt_open_into fdt_pack calls nsec_entry fdt =
     thenM (thread_set_exceptions THREAD_EXCP_ALL) (
     thenM init_runtime (
     thenM (thread_init_primary lay generic_boot_get_handlers) (
     thenM (thread_init_per_cpu lay) (
     thenM (init_sec_mon nsec_entry) (
     thenM (init_fdt fdt_open_into fdt_pack fdt) (
     thenM main_init_primary (
     thenM init_vfp_nsec
       (call_initcalls calls))))))))"

definition init_secondary_helper :: "link_layout \<Rightarrow> u32 \<Rightarrow> unit km" where
  "init_secondary_helper lay nsec_entry =
     thenM (thread_set_exceptions THREAD_EXCP_ALL) (
     thenM (thread_init_per_cpu lay) (
     thenM (init_sec_mon nsec_entry) (
     thenM main_init_secondary
       init_vfp_nsec)))"

definition generic_boot_init_secondary :: "link_layout \<Rightarrow> u32 \<Rightarrow> unit km" where
  "generic_boot_init_secondary lay nsec_entry = init_secondary_helper lay nsec_entry"

definition generic_boot_core_release :: "u32 \<Rightarrow> u32 \<Rightarrow> int km" where
  "generic_boot_core_release core_idx entry =
     (if core_idx = 0 \<or> core_idx \<ge> CFG_TEE_CORE_NB_CORE then ret (- 1)
      else thenM (modifyM (\<lambda>s. s\<lparr>boot := (boot s)\<lparr>ns_entry_addrs := (ns_entry_addrs (boot s))[unat core_idx := entry],
             spin_table := (spin_table (boot s))[unat core_idx := 1]\<rparr>\<rparr>)) (ret 0))"

definition generic_boot_core_hpen :: "u32 km" where
  "generic_boot_core_hpen =
     bindM (gets (\<lambda>s. ns_entry_addrs (boot s))) (\<lambda>es. bindM (gets (\<lambda>s. core_pos (mach s))) (\<lambda>pos. index_at es pos))"

section \<open>Starting a secondary core\<close>

text \<open>What a core that has initialised itself leaves: its own monitor context returns to the normal world at
  the given address, its stacks and vectors are set, and nothing of another core is touched.\<close>

definition core_ready :: "link_layout \<Rightarrow> nat \<Rightarrow> u32 \<Rightarrow> kernel \<Rightarrow> kernel \<Rightarrow> bool" where
  "core_ready lay i entry s t \<longleftrightarrow>
     sm_ctxs (boot t) = (sm_ctxs (boot s))[i := (sm_ctxs (boot s) ! i)\<lparr>sm_nsec := (sm_nsec (sm_ctxs (boot s) ! i))\<lparr>mon_lr := entry, mon_spsr := 0x93\<rparr>\<rparr>]
     \<and> core_sp (boot t) ! i = \<lparr>irq_sp_reg = tmp_top lay i - 268, fiq_sp_reg = tmp_top lay i - 268, abt_sp_reg = abt_top lay i,
          mon_sp_reg = tmp_top lay i - 132, vbar = thread_vect_table lay, mvbar = sm_vect_table lay\<rparr>
     \<and> tmp_stack_va_end (core_local (thr t) ! i) = tmp_top lay i - 268
     \<and> (\<forall>j. j \<noteq> i \<longrightarrow> core_sp (boot t) ! j = core_sp (boot s) ! j \<and> core_local (thr t) ! j = core_local (thr s) ! j)
     \<and> drop_bit 6 (cpsr (mach t)) AND THREAD_EXCP_ALL = THREAD_EXCP_ALL"

lemma init_secondary_wp:
  assumes "core_pos (mach s) = i" "i < 4" "length (sm_ctxs (boot s)) = 4" "length (core_sp (boot s)) = 4" "length (core_local (thr s)) = 4"
    and "gicd_base (gic s) \<noteq> 0" "gicc_base (gic s) \<noteq> 0" "nsec_entry \<noteq> 0xFFFFFFFF"
  shows "wp (generic_boot_init_secondary lay nsec_entry) (\<lambda>_. core_ready lay i nsec_entry s) s"
  using assms
  by (simp add: generic_boot_init_secondary_def init_secondary_helper_def thread_init_per_cpu_def wp_simps thread_set_exceptions_def
    thread_get_core_local_def thread_get_exceptions_def sm_init_def set_tmp_stack_def set_abt_stack_def thread_init_vbar_def
    upd_core_sp_def upd_core_local_def init_sec_mon_def main_init_secondary_def gic_cpu_init_def gicd_write_def gicc_write_def
    init_vfp_nsec_def core_ready_def)

text \<open>The state as another core sees it when it starts, with the exceptions masked as the reset left them.\<close>

definition on_core :: "nat \<Rightarrow> kernel \<Rightarrow> kernel" where
  "on_core i s = s\<lparr>mach := (mach s)\<lparr>core_pos := i\<rparr>\<rparr>"


definition ex_lay :: link_layout where
  "ex_lay = \<lparr>tmp_top = (\<lambda>i. 0x4C080000 + of_nat i * 0x400), abt_top = (\<lambda>i. 0x4C082000 + of_nat i * 0x400),
     thread_top = (\<lambda>i. 0x4C084000 + of_nat i * 0x2000), thread_vect_table = 0x4C001000, sm_vect_table = 0x4C001020\<rparr>"


end
