(* ===== verification/Abort.thy ===== *)
theory Abort
  imports Mmu_V7
begin

unbundle bit_operations_syntax

text \<open>
  core/arch/arm/kernel/abort.c: what the kernel does when one of its own instructions faults. It panics on
  a fault it understands and returns to the faulting instruction otherwise.
\<close>

abbreviation (input) ABORT_TYPE_UNDEF :: u32 where "ABORT_TYPE_UNDEF \<equiv> 0"
abbreviation (input) ABORT_TYPE_PREFETCH :: u32 where "ABORT_TYPE_PREFETCH \<equiv> 1"
abbreviation (input) ABORT_TYPE_DATA :: u32 where "ABORT_TYPE_DATA \<equiv> 2"

datatype fault_type = FAULT_TYPE_USER_TA_PANIC | FAULT_TYPE_USER_TA_VFP | FAULT_TYPE_PAGEABLE | FAULT_TYPE_IGNORE

text \<open>\<open>ar0_12\<close>: \<open>r0\<close> to \<open>r11\<close> and \<open>ip\<close>. The handler reads the return address and the saved status only.\<close>

record thread_abort_regs =
  ausr_sp :: u32
  ausr_lr :: u32
  apad :: u32
  aspsr :: u32
  elr :: u32
  ar0_12 :: "u32 list"

record abort_info =
  abort_type :: u32
  fault_descr :: u32
  ava :: vaddr
  apc :: u32
  aregs :: thread_abort_regs

text \<open>The fault status and address registers of the processor.\<close>

record fault_regs =
  dfsr :: u32
  dfar :: u32
  ifsr :: u32
  ifar :: u32

definition abort_type_to_str :: "u32 \<Rightarrow> string" where
  "abort_type_to_str ty = (if ty = ABORT_TYPE_DATA then ''data'' else if ty = ABORT_TYPE_PREFETCH then ''prefetch'' else ''undef'')"

definition fault_to_str :: "u32 \<Rightarrow> u32 \<Rightarrow> string km" where
  "fault_to_str ty descr =
     (if ty \<noteq> ABORT_TYPE_DATA \<and> ty \<noteq> ABORT_TYPE_PREFETCH then ret ''''
      else bindM (core_mmu_get_fault_type descr) (\<lambda>ft. ret (case ft of
         CORE_MMU_FAULT_ALIGNMENT \<Rightarrow> '' (alignment fault)''
       | CORE_MMU_FAULT_TRANSLATION \<Rightarrow> '' (translation fault)''
       | CORE_MMU_FAULT_READ_PERMISSION \<Rightarrow> '' (read permission fault)''
       | CORE_MMU_FAULT_WRITE_PERMISSION \<Rightarrow> '' (write permission fault)''
       | _ \<Rightarrow> '''')))"

text \<open>The console is not part of the state; of the printing the evaluation of its arguments remains.\<close>

definition print_abort_info :: "abort_info \<Rightarrow> unit km" where
  "print_abort_info ai = bindM (fault_to_str (abort_type ai) (fault_descr ai)) (\<lambda>_. ret ())"

definition abort_print :: "abort_info \<Rightarrow> unit km" where "abort_print ai = print_abort_info ai"
definition abort_print_error :: "abort_info \<Rightarrow> unit km" where "abort_print_error ai = print_abort_info ai"

definition set_abort_info :: "fault_regs \<Rightarrow> u32 \<Rightarrow> thread_abort_regs \<Rightarrow> abort_info" where
  "set_abort_info fr ty regs =
     \<lparr>abort_type = ty,
      fault_descr = (if ty = ABORT_TYPE_DATA then dfsr fr else if ty = ABORT_TYPE_PREFETCH then ifsr fr else 0),
      ava = (if ty = ABORT_TYPE_DATA then dfar fr else if ty = ABORT_TYPE_PREFETCH then ifar fr else elr regs),
      apc = elr regs, aregs = regs\<rparr>"

definition abort_is_user_exception :: "abort_info \<Rightarrow> bool" where
  "abort_is_user_exception ai = False"

definition is_abort_in_abort_handler :: "abort_info \<Rightarrow> bool" where
  "is_abort_in_abort_handler ai \<longleftrightarrow> aspsr (aregs ai) AND 0x1F = 0x17"

definition get_fault_type :: "abort_info \<Rightarrow> fault_type km" where
  "get_fault_type ai =
     thenM (whenM (is_abort_in_abort_handler ai) (thenM (abort_print_error ai) panic)) (
     if abort_type ai = ABORT_TYPE_UNDEF
     then (if abort_is_user_exception ai then ret FAULT_TYPE_USER_TA_PANIC else thenM (abort_print_error ai) panic)
     else bindM (core_mmu_get_fault_type (fault_descr ai)) (\<lambda>ft. case ft of
         CORE_MMU_FAULT_ALIGNMENT \<Rightarrow>
           (if abort_is_user_exception ai then ret FAULT_TYPE_USER_TA_PANIC else thenM (abort_print_error ai) panic)
       | CORE_MMU_FAULT_ACCESS_BIT \<Rightarrow>
           (if abort_is_user_exception ai then ret FAULT_TYPE_USER_TA_PANIC else thenM (abort_print_error ai) panic)
       | CORE_MMU_FAULT_DEBUG_EVENT \<Rightarrow> thenM (abort_print ai) (ret FAULT_TYPE_IGNORE)
       | CORE_MMU_FAULT_TRANSLATION \<Rightarrow> ret FAULT_TYPE_PAGEABLE
       | CORE_MMU_FAULT_WRITE_PERMISSION \<Rightarrow> ret FAULT_TYPE_PAGEABLE
       | CORE_MMU_FAULT_READ_PERMISSION \<Rightarrow> ret FAULT_TYPE_PAGEABLE
       | CORE_MMU_FAULT_ASYNC_EXTERNAL \<Rightarrow> thenM (abort_print ai) (ret FAULT_TYPE_IGNORE)
       | CORE_MMU_FAULT_OTHER \<Rightarrow> thenM (abort_print ai) (ret FAULT_TYPE_IGNORE)))"

definition abort_handler :: "fault_regs \<Rightarrow> u32 \<Rightarrow> thread_abort_regs \<Rightarrow> unit km" where
  "abort_handler fr ty regs =
     (let ai = set_abort_info fr ty regs in
      bindM (get_fault_type ai) (\<lambda>ft. case ft of
         FAULT_TYPE_IGNORE \<Rightarrow> ret ()
       | FAULT_TYPE_USER_TA_PANIC \<Rightarrow> abort_print_error ai
       | _ \<Rightarrow> panic))"

section \<open>Which faults are fatal\<close>

lemma fault_class:
  assumes "fsr AND 0x200 = 0"
  obtains ft where "core_mmu_get_fault_type fsr s = Inr (ft, s)"
    "ft \<in> {CORE_MMU_FAULT_DEBUG_EVENT, CORE_MMU_FAULT_ASYNC_EXTERNAL, CORE_MMU_FAULT_OTHER} \<longleftrightarrow> fsr AND 0x40F \<notin> {1, 3, 4, 5, 6, 7, 0xD, 0xF}"
proof
  show "core_mmu_get_fault_type fsr s = Inr (fst (projr (core_mmu_get_fault_type fsr s)), s)"
    using assms by (simp add: core_mmu_get_fault_type_def cassert_def thenM_def bindM_def gets_def ret_def Let_def)
  have "fst (projr (core_mmu_get_fault_type fsr s)) = (let fs = fsr AND 0x40F in
       if fs = 0x1 then CORE_MMU_FAULT_ALIGNMENT
       else if fs = 0x2 then CORE_MMU_FAULT_DEBUG_EVENT
       else if fs = 0x4 \<or> fs = 0x5 \<or> fs = 0x7 then CORE_MMU_FAULT_TRANSLATION
       else if fs = 0xD \<or> fs = 0xF then
         (if fsr AND 0x800 \<noteq> 0 then CORE_MMU_FAULT_WRITE_PERMISSION else CORE_MMU_FAULT_READ_PERMISSION)
       else if fs = 0x3 \<or> fs = 0x6 then CORE_MMU_FAULT_ACCESS_BIT
       else if fs = 0x406 then CORE_MMU_FAULT_ASYNC_EXTERNAL
       else CORE_MMU_FAULT_OTHER)"
    using assms by (simp add: core_mmu_get_fault_type_def cassert_def thenM_def bindM_def gets_def ret_def Let_def)
  moreover define fs where "fs = fsr AND 0x40F"
  ultimately show "fst (projr (core_mmu_get_fault_type fsr s)) \<in> {CORE_MMU_FAULT_DEBUG_EVENT, CORE_MMU_FAULT_ASYNC_EXTERNAL, CORE_MMU_FAULT_OTHER}
      \<longleftrightarrow> fsr AND 0x40F \<notin> {1, 3, 4, 5, 6, 7, 0xD, 0xF}"
    unfolding fs_def [symmetric] Let_def by (simp split: if_split)
qed

lemma print_eq: "fault_descr ai AND 0x200 = 0 \<Longrightarrow> abort_print ai s = Inr ((), s) \<and> abort_print_error ai s = Inr ((), s)"
  by (simp add: abort_print_def abort_print_error_def print_abort_info_def fault_to_str_def core_mmu_get_fault_type_def
    cassert_def thenM_def bindM_def gets_def ret_def Let_def)

text \<open>C29: A fault of the kernel's own code is never continued as if nothing had happened when the memory
  system refused the access: an alignment, access flag, translation or permission fault, an undefined
  instruction, and every abort inside the abort handler panic. Every other status, the debug event and the
  external aborts among them, returns to the interrupted code with the state unchanged.\<close>

theorem abort_handler_spec:
  assumes "dfsr fr AND 0x200 = 0" "ifsr fr AND 0x200 = 0" "ty \<in> {ABORT_TYPE_UNDEF, ABORT_TYPE_PREFETCH, ABORT_TYPE_DATA}"
  shows "abort_handler fr ty regs s =
    (if aspsr regs AND 0x1F = 0x17 \<or> ty = ABORT_TYPE_UNDEF
        \<or> (if ty = ABORT_TYPE_DATA then dfsr fr else ifsr fr) AND 0x40F \<in> {1, 3, 4, 5, 6, 7, 0xD, 0xF}
     then Inl Panic else Inr ((), s))"
proof -
  define ai where "ai = set_abort_info fr ty regs"
  have d: "fault_descr ai AND 0x200 = 0" using assms by (simp add: ai_def set_abort_info_def)
  note pr = print_eq [OF d, THEN conjunct1] print_eq [OF d, THEN conjunct2]
  have ai: "is_abort_in_abort_handler ai \<longleftrightarrow> aspsr regs AND 0x1F = 0x17" "abort_type ai = ty"
    "ty \<noteq> ABORT_TYPE_UNDEF \<Longrightarrow> fault_descr ai = (if ty = ABORT_TYPE_DATA then dfsr fr else ifsr fr)"
    using assms(3) by (auto simp: ai_def set_abort_info_def is_abort_in_abort_handler_def)
  obtain ft where ft: "core_mmu_get_fault_type (fault_descr ai) s = Inr (ft, s)"
    "ft \<in> {CORE_MMU_FAULT_DEBUG_EVENT, CORE_MMU_FAULT_ASYNC_EXTERNAL, CORE_MMU_FAULT_OTHER}
      \<longleftrightarrow> fault_descr ai AND 0x40F \<notin> {1, 3, 4, 5, 6, 7, 0xD, 0xF}"
    by (rule fault_class [OF d])
  have "get_fault_type ai s = (if is_abort_in_abort_handler ai \<or> ty = ABORT_TYPE_UNDEF
      \<or> ft \<in> {CORE_MMU_FAULT_ALIGNMENT, CORE_MMU_FAULT_ACCESS_BIT} then Inl Panic
    else if ft \<in> {CORE_MMU_FAULT_DEBUG_EVENT, CORE_MMU_FAULT_ASYNC_EXTERNAL, CORE_MMU_FAULT_OTHER}
    then Inr (FAULT_TYPE_IGNORE, s) else Inr (FAULT_TYPE_PAGEABLE, s))"
    by (cases ft) (simp_all add: get_fault_type_def ai(2) ft(1) pr bindM_def thenM_def whenM_def ret_def panic_def throw_def abort_is_user_exception_def)
  then have "abort_handler fr ty regs s = (if is_abort_in_abort_handler ai \<or> ty = ABORT_TYPE_UNDEF
      \<or> ft \<notin> {CORE_MMU_FAULT_DEBUG_EVENT, CORE_MMU_FAULT_ASYNC_EXTERNAL, CORE_MMU_FAULT_OTHER} then Inl Panic else Inr ((), s))"
    by (cases ft) (simp_all add: abort_handler_def ai_def [symmetric] Let_def bindM_def ret_def panic_def throw_def)
  then show ?thesis unfolding ai(1) ft(2) using ai(3) by (cases "ty = ABORT_TYPE_UNDEF") (simp, presburger)
qed

definition ex_abort_regs :: thread_abort_regs where
  "ex_abort_regs = \<lparr>ausr_sp = 0, ausr_lr = 0, apad = 0, aspsr = 0x1D3, elr = 0x4C002000, ar0_12 = replicate 13 0\<rparr>"

theorem abort_handler_spec_witness:
  "abort_handler \<lparr>dfsr = 0x805, dfar = 0, ifsr = 0, ifar = 0\<rparr> 2 ex_abort_regs blank = Inl Panic
    \<and> abort_handler \<lparr>dfsr = 0x406, dfar = 0, ifsr = 0, ifar = 0\<rparr> 2 ex_abort_regs blank = Inr ((), blank)"
  using abort_handler_spec [of "\<lparr>dfsr = 0x805, dfar = 0, ifsr = 0, ifar = 0\<rparr>" 2 ex_abort_regs blank]
    abort_handler_spec [of "\<lparr>dfsr = 0x406, dfar = 0, ifsr = 0, ifar = 0\<rparr>" 2 ex_abort_regs blank]
  by (simp add: ex_abort_regs_def)

text \<open>A synchronous external abort (status 8, what the bus answers to an access the security unit denies) is
  among the faults that return: the refused instruction runs again.\<close>

lemma sync_external_abort_ignored:
  assumes "dfsr fr AND 0x60F = 8" "aspsr regs AND 0x1F \<noteq> 0x17" "ifsr fr AND 0x200 = 0"
  shows "abort_handler fr ABORT_TYPE_DATA regs s = Inr ((), s)"
proof -
  have "dfsr fr AND 0x200 = 0"
  proof -
    have "(dfsr fr AND 0x60F) AND 0x200 = 8 AND 0x200" using assms(1) by simp
    then show ?thesis by (simp add: and.assoc)
  qed
  moreover have "dfsr fr AND 0x40F = 8"
  proof -
    have "(dfsr fr AND 0x60F) AND 0x40F = 8 AND 0x40F" using assms(1) by simp
    then show ?thesis by (simp add: and.assoc)
  qed
  ultimately show ?thesis using assms(2,3)
    by (simp add: abort_handler_def set_abort_info_def get_fault_type_def core_mmu_get_fault_type_def is_abort_in_abort_handler_def
      abort_print_def print_abort_info_def fault_to_str_def cassert_def bindM_def thenM_def whenM_def gets_def ret_def Let_def)
qed

end
