(* ===== verification/Fdt.thy ===== *)
theory Fdt
  imports Prelude
begin

unbundle bit_operations_syntax

text \<open>
  core/lib/libfdt: the read-only access to a flattened device tree (fdt.c, fdt\_ro.c, fdt\_addresses.c). The
  memory that holds the tree is a list of bytes, a pointer into it is the distance from its start, and a
  read outside of it is a fault. Offsets into the structure block are \<open>int\<close>s; where the C code computes
  with unsigned numbers and converts back, so does the model.
\<close>

section \<open>Reading memory\<close>

type_synonym 'a res = "fault + 'a"

definition bindE :: "'a res \<Rightarrow> ('a \<Rightarrow> 'b res) \<Rightarrow> 'b res" where
  "bindE r f = (case r of Inl e \<Rightarrow> Inl e | Inr x \<Rightarrow> f x)"

lemma bindE_simps [simp]: "bindE (Inr x) f = f x" "bindE (Inl e) f = Inl e"
  by (simp_all add: bindE_def)

lemma bindE_cong [fundef_cong]: "r = r' \<Longrightarrow> (\<And>x. r' = Inr x \<Longrightarrow> f x = g x) \<Longrightarrow> bindE r f = bindE r' g"
  by (cases r') (simp_all add: bindE_def)

lemma bindE_Inr: "bindE r f = Inr y \<longleftrightarrow> (\<exists>x. r = Inr x \<and> f x = Inr y)"
  by (cases r) simp_all

text \<open>The conversion of an unsigned to a signed 32-bit number.\<close>

definition i32 :: "u32 \<Rightarrow> int" where "i32 w = sint w"
definition w32 :: "int \<Rightarrow> u32" where "w32 i = word_of_int i"

definition rd8 :: "u8 list \<Rightarrow> int \<Rightarrow> u8 res" where
  "rd8 fdt p = (if 0 \<le> p \<and> nat p < length fdt then Inr (fdt ! nat p) else Inl Out_of_bounds)"

fun fdt32_to_cpu :: "u8 list \<Rightarrow> u32" where
  "fdt32_to_cpu [a, b, c, d] = push_bit 24 (ucast a) OR push_bit 16 (ucast b) OR push_bit 8 (ucast c) OR ucast d"
| "fdt32_to_cpu _ = 0"

definition rd32 :: "u8 list \<Rightarrow> int \<Rightarrow> u32 res" where
  "rd32 fdt p = (if 0 \<le> p \<and> nat p + 4 \<le> length fdt then Inr (fdt32_to_cpu (take 4 (drop (nat p) fdt))) else Inl Out_of_bounds)"

function strlen_at :: "u8 list \<Rightarrow> int \<Rightarrow> nat res" where
  "strlen_at fdt p = bindE (rd8 fdt p) (\<lambda>b. if b = 0 then Inr 0 else bindE (strlen_at fdt (p + 1)) (\<lambda>n. Inr (Suc n)))"
  by pat_completeness auto

termination
  by (relation "measure (\<lambda>(fdt, p). nat (int (length fdt) - p))") (auto simp: rd8_def split: if_splits)

declare strlen_at.simps [simp del]

text \<open>\<open>memcmp(p, s, len) == 0\<close>, which may stop at the first difference, and the bytes of a C string without
  its terminator.\<close>

fun memeq_at :: "u8 list \<Rightarrow> int \<Rightarrow> u8 list \<Rightarrow> bool res" where
  "memeq_at fdt p [] = Inr True"
| "memeq_at fdt p (c # cs) = bindE (rd8 fdt p) (\<lambda>b. if b = c then memeq_at fdt (p + 1) cs else Inr False)"

definition byte :: "char \<Rightarrow> u8" where "byte c = word_of_nat (of_char c)"
definition bytes :: "string \<Rightarrow> u8 list" where "bytes s = map byte s"

text \<open>\<open>memchr(p, c, n)\<close>: the distance of the first byte \<open>c\<close> among \<open>n\<close>.\<close>

fun memchr_at :: "u8 list \<Rightarrow> int \<Rightarrow> u8 \<Rightarrow> nat \<Rightarrow> nat option res" where
  "memchr_at fdt p c 0 = Inr None"
| "memchr_at fdt p c (Suc n) = bindE (rd8 fdt p) (\<lambda>b. if b = c then Inr (Some 0)
     else bindE (memchr_at fdt (p + 1) c n) (\<lambda>r. Inr (map_option Suc r)))"

section \<open>fdt.c\<close>

abbreviation (input) FDT_BEGIN_NODE :: u32 where "FDT_BEGIN_NODE \<equiv> 1"
abbreviation (input) FDT_END_NODE :: u32 where "FDT_END_NODE \<equiv> 2"
abbreviation (input) FDT_PROP :: u32 where "FDT_PROP \<equiv> 3"
abbreviation (input) FDT_NOP :: u32 where "FDT_NOP \<equiv> 4"
abbreviation (input) FDT_END :: u32 where "FDT_END \<equiv> 9"
abbreviation (input) FDT_MAGIC :: u32 where "FDT_MAGIC \<equiv> 0xD00DFEED"

abbreviation (input) FDT_ERR_NOTFOUND :: int where "FDT_ERR_NOTFOUND \<equiv> 1"
abbreviation (input) FDT_ERR_NOSPACE :: int where "FDT_ERR_NOSPACE \<equiv> 3"
abbreviation (input) FDT_ERR_BADOFFSET :: int where "FDT_ERR_BADOFFSET \<equiv> 4"
abbreviation (input) FDT_ERR_BADPATH :: int where "FDT_ERR_BADPATH \<equiv> 5"
abbreviation (input) FDT_ERR_BADPHANDLE :: int where "FDT_ERR_BADPHANDLE \<equiv> 6"
abbreviation (input) FDT_ERR_BADSTATE :: int where "FDT_ERR_BADSTATE \<equiv> 7"
abbreviation (input) FDT_ERR_TRUNCATED :: int where "FDT_ERR_TRUNCATED \<equiv> 8"
abbreviation (input) FDT_ERR_BADMAGIC :: int where "FDT_ERR_BADMAGIC \<equiv> 9"
abbreviation (input) FDT_ERR_BADVERSION :: int where "FDT_ERR_BADVERSION \<equiv> 10"
abbreviation (input) FDT_ERR_BADSTRUCTURE :: int where "FDT_ERR_BADSTRUCTURE \<equiv> 11"
abbreviation (input) FDT_ERR_INTERNAL :: int where "FDT_ERR_INTERNAL \<equiv> 13"
abbreviation (input) FDT_ERR_BADNCELLS :: int where "FDT_ERR_BADNCELLS \<equiv> 14"

definition fdt_magic :: "u8 list \<Rightarrow> u32 res" where "fdt_magic fdt = rd32 fdt 0"
definition fdt_off_dt_struct :: "u8 list \<Rightarrow> u32 res" where "fdt_off_dt_struct fdt = rd32 fdt 8"
definition fdt_off_dt_strings :: "u8 list \<Rightarrow> u32 res" where "fdt_off_dt_strings fdt = rd32 fdt 12"
definition fdt_version :: "u8 list \<Rightarrow> u32 res" where "fdt_version fdt = rd32 fdt 20"
definition fdt_last_comp_version :: "u8 list \<Rightarrow> u32 res" where "fdt_last_comp_version fdt = rd32 fdt 24"
definition fdt_size_dt_struct :: "u8 list \<Rightarrow> u32 res" where "fdt_size_dt_struct fdt = rd32 fdt 36"

definition fdt_check_header :: "u8 list \<Rightarrow> int res" where
  "fdt_check_header fdt =
     bindE (fdt_magic fdt) (\<lambda>m.
     if m = FDT_MAGIC then
       bindE (fdt_version fdt) (\<lambda>v.
       if v < 0x10 then Inr (- FDT_ERR_BADVERSION)
       else bindE (fdt_last_comp_version fdt) (\<lambda>l. if l > 0x11 then Inr (- FDT_ERR_BADVERSION) else Inr 0))
     else if m = NOT FDT_MAGIC then
       bindE (fdt_size_dt_struct fdt) (\<lambda>sz. if sz = 0 then Inr (- FDT_ERR_BADSTATE) else Inr 0)
     else Inr (- FDT_ERR_BADMAGIC))"

text \<open>A pointer to the structure block. The test \<open>p + len < p\<close> of the C code is false for every pointer
  that does not wrap around.\<close>

definition offset_ptr :: "u8 list \<Rightarrow> int \<Rightarrow> int res" where
  "offset_ptr fdt offset = bindE (fdt_off_dt_struct fdt) (\<lambda>st. Inr (uint st + offset))"

definition fdt_offset_ptr :: "u8 list \<Rightarrow> int \<Rightarrow> u32 \<Rightarrow> int option res" where
  "fdt_offset_ptr fdt offset len =
     bindE (fdt_version fdt) (\<lambda>v.
     if v \<ge> 0x11 then
       bindE (fdt_size_dt_struct fdt) (\<lambda>sz.
       if w32 offset + len < w32 offset \<or> w32 offset + len > sz then Inr None
       else bindE (offset_ptr fdt offset) (\<lambda>p. Inr (Some p)))
     else bindE (offset_ptr fdt offset) (\<lambda>p. Inr (Some p)))"

lemma offset_ptr_Some: "fdt_offset_ptr fdt o' len = Inr (Some p) \<Longrightarrow> \<exists>st. fdt_off_dt_struct fdt = Inr st \<and> p = uint st + o'"
  by (auto simp: fdt_offset_ptr_def offset_ptr_def bindE_Inr split: if_splits)

text \<open>The loop that skips the name of a node; the result is the offset behind its terminator.\<close>

function skip_name :: "u8 list \<Rightarrow> int \<Rightarrow> int option res" where
  "skip_name fdt offset =
     bindE (fdt_offset_ptr fdt offset 1) (\<lambda>p. case p of None \<Rightarrow> Inr None
     | Some p \<Rightarrow> bindE (rd8 fdt p) (\<lambda>b. if b \<noteq> 0 then skip_name fdt (offset + 1) else Inr (Some (offset + 1))))"
  by pat_completeness auto

termination
proof (relation "measure (\<lambda>(fdt, off). nat (int (length fdt) - (case fdt_off_dt_struct fdt of Inl _ \<Rightarrow> 0 | Inr st \<Rightarrow> uint st) - off))")
  fix fdt offset q p b
  assume a: "fdt_offset_ptr fdt offset 1 = Inr q" "q = Some p" "rd8 fdt p = Inr b"
  obtain st where st: "fdt_off_dt_struct fdt = Inr st" "p = uint st + offset" using offset_ptr_Some a(1,2) by blast
  have "0 \<le> p" "nat p < length fdt" using a(3) by (auto simp: rd8_def split: if_splits)
  then show "((fdt, offset + 1), fdt, offset) \<in> measure (\<lambda>(fdt, off). nat (int (length fdt)
      - (case fdt_off_dt_struct fdt of Inl _ \<Rightarrow> 0 | Inr st \<Rightarrow> uint st) - off))"
    using st by auto
qed simp

declare skip_name.simps [simp del]

definition FDT_TAGALIGN :: "int \<Rightarrow> int" where
  "FDT_TAGALIGN x = i32 ((w32 x + 4 - 1) AND NOT (4 - 1))"

text \<open>The offset behind the contents of a tag; \<open>None\<close> is a premature end or a tag that does not exist.\<close>

definition tag_end :: "u8 list \<Rightarrow> u32 \<Rightarrow> int \<Rightarrow> int option res" where
  "tag_end fdt tag offset =
     (if tag = FDT_BEGIN_NODE then skip_name fdt offset
      else if tag = FDT_PROP then
        bindE (fdt_offset_ptr fdt offset 4) (\<lambda>lenp. case lenp of None \<Rightarrow> Inr None
        | Some q \<Rightarrow> bindE (rd32 fdt q) (\<lambda>len. Inr (Some (i32 (w32 offset + (12 - 4 + len))))))
      else if tag = FDT_END \<or> tag = FDT_END_NODE \<or> tag = FDT_NOP then Inr (Some offset)
      else Inr None)"

definition fdt_next_tag :: "u8 list \<Rightarrow> int \<Rightarrow> (u32 \<times> int) res" where
  "fdt_next_tag fdt startoffset =
     bindE (fdt_offset_ptr fdt startoffset 4) (\<lambda>tagp. case tagp of None \<Rightarrow> Inr (FDT_END, - FDT_ERR_TRUNCATED)
     | Some q \<Rightarrow>
       bindE (rd32 fdt q) (\<lambda>tag.
       bindE (tag_end fdt tag (i32 (w32 startoffset + 4))) (\<lambda>e. case e of None \<Rightarrow> Inr (FDT_END, - FDT_ERR_BADSTRUCTURE)
       | Some offset \<Rightarrow>
         bindE (fdt_offset_ptr fdt startoffset (w32 (offset - startoffset))) (\<lambda>p.
         if p = None then Inr (FDT_END, - FDT_ERR_BADSTRUCTURE) else Inr (tag, FDT_TAGALIGN offset)))))"

lemma i32_less: "i32 w < 2 ^ 31"
  using sint_lt [of w] by (simp add: i32_def)

lemma next_tag_less: "fdt_next_tag fdt o' = Inr (tag, next) \<Longrightarrow> next < 2 ^ 31"
  using i32_less by (auto simp: fdt_next_tag_def bindE_Inr FDT_TAGALIGN_def split: option.splits if_splits)

definition fdt_check_node_offset :: "u8 list \<Rightarrow> int \<Rightarrow> int res" where
  "fdt_check_node_offset fdt offset =
     (if offset < 0 \<or> offset mod 4 \<noteq> 0 then Inr (- FDT_ERR_BADOFFSET)
      else bindE (fdt_next_tag fdt offset) (\<lambda>(tag, offset). if tag \<noteq> FDT_BEGIN_NODE then Inr (- FDT_ERR_BADOFFSET) else Inr offset))"

definition fdt_check_prop_offset :: "u8 list \<Rightarrow> int \<Rightarrow> int res" where
  "fdt_check_prop_offset fdt offset =
     (if offset < 0 \<or> offset mod 4 \<noteq> 0 then Inr (- FDT_ERR_BADOFFSET)
      else bindE (fdt_next_tag fdt offset) (\<lambda>(tag, offset). if tag \<noteq> FDT_PROP then Inr (- FDT_ERR_BADOFFSET) else Inr offset))"

text \<open>
  The walks over the tags never go back: \<open>fdt_next_tag\<close> checks that the end of a tag is not before its start
  and in the structure block. A property whose length wraps around to the start of its tag leads to
  the same tag again, for ever; the model gives \<open>Hang\<close> there. (For a tree of version 16, where nothing is
  checked, it also gives \<open>Hang\<close> when a property leads back.) \<open>depth\<close> is the counter behind the pointer, or
  \<open>None\<close> for a NULL pointer.
\<close>

function next_node_loop :: "u8 list \<Rightarrow> int \<Rightarrow> int option \<Rightarrow> (int \<times> int option) res" where
  "next_node_loop fdt offset depth =
     bindE (fdt_next_tag fdt offset) (\<lambda>(tag, nextoffset).
     if tag = FDT_BEGIN_NODE then Inr (offset, map_option (\<lambda>d. d + 1) depth)
     else if tag = FDT_END then
       (if nextoffset \<ge> 0 \<or> nextoffset = - FDT_ERR_TRUNCATED \<and> depth = None then Inr (- FDT_ERR_NOTFOUND, depth) else Inr (nextoffset, depth))
     else
       let depth = (if tag = FDT_END_NODE then map_option (\<lambda>d. d - 1) depth else depth) in
       if tag = FDT_END_NODE \<and> (case depth of None \<Rightarrow> False | Some d \<Rightarrow> d < 0) then Inr (nextoffset, depth)
       else if nextoffset \<le> offset then Inl Hang
       else next_node_loop fdt nextoffset depth)"
  by pat_completeness auto

termination
  by (relation "measure (\<lambda>(fdt, offset, depth). nat (2 ^ 31 - offset))") (auto dest!: next_tag_less)

declare next_node_loop.simps [simp del]

definition fdt_next_node :: "u8 list \<Rightarrow> int \<Rightarrow> int option \<Rightarrow> (int \<times> int option) res" where
  "fdt_next_node fdt offset depth =
     (if offset \<ge> 0 then
        bindE (fdt_check_node_offset fdt offset) (\<lambda>nextoffset. if nextoffset < 0 then Inr (nextoffset, depth)
        else if nextoffset \<le> offset then Inl Hang
        else next_node_loop fdt nextoffset depth)
      else next_node_loop fdt 0 depth)"

definition fdt_first_subnode :: "u8 list \<Rightarrow> int \<Rightarrow> int res" where
  "fdt_first_subnode fdt offset =
     bindE (fdt_next_node fdt offset (Some 0)) (\<lambda>(offset, depth).
     if offset < 0 \<or> depth \<noteq> Some 1 then Inr (- FDT_ERR_NOTFOUND) else Inr offset)"

lemma next_node_loop_less: "next_node_loop fdt off d = Inr (off', d') \<Longrightarrow> off < 2 ^ 31 \<Longrightarrow> off' < 2 ^ 31"
proof (induction fdt off d rule: next_node_loop.induct)
  case (1 fdt off d)
  obtain tag nx where t: "fdt_next_tag fdt off = Inr (tag, nx)"
    using "1.prems"(1) by (subst (asm) next_node_loop.simps) (auto simp: bindE_Inr)
  show ?case using "1.prems" "1.IH" [OF t refl] next_tag_less [OF t]
    by (subst (asm) next_node_loop.simps) (auto simp: t Let_def split: if_splits)
qed

lemma next_node_less: "fdt_next_node fdt off d = Inr (off', d') \<Longrightarrow> off' < 2 ^ 31"
  using next_node_loop_less [of fdt] next_tag_less [of fdt off]
  by (fastforce simp: fdt_next_node_def fdt_check_node_offset_def bindE_Inr split: if_splits)

text \<open>The walk to the next node of the same parent.\<close>

function next_subnode_loop :: "u8 list \<Rightarrow> int \<Rightarrow> int option \<Rightarrow> int res" where
  "next_subnode_loop fdt offset depth =
     bindE (fdt_next_node fdt offset depth) (\<lambda>(nextoffset, depth).
     if nextoffset < 0 \<or> (case depth of None \<Rightarrow> True | Some d \<Rightarrow> d < 1) then Inr (- FDT_ERR_NOTFOUND)
     else if depth = Some 1 then Inr nextoffset
     else if nextoffset \<le> offset then Inl Hang
     else next_subnode_loop fdt nextoffset depth)"
  by pat_completeness auto

termination
  by (relation "measure (\<lambda>(fdt, offset, depth). nat (2 ^ 31 - offset))") (auto dest!: next_node_less)

declare next_subnode_loop.simps [simp del]

definition fdt_next_subnode :: "u8 list \<Rightarrow> int \<Rightarrow> int res" where
  "fdt_next_subnode fdt offset = next_subnode_loop fdt offset (Some 1)"

lemma next_subnode_less: "next_subnode_loop fdt off d = Inr off' \<Longrightarrow> off' < 2 ^ 31"
proof (induction fdt off d rule: next_subnode_loop.induct)
  case (1 fdt off d)
  obtain nx d' where t: "fdt_next_node fdt off d = Inr (nx, d')"
    using "1.prems" by (subst (asm) next_subnode_loop.simps) (auto simp: bindE_Inr)
  show ?case using "1.prems" "1.IH" [OF t refl] next_node_less [OF t]
    by (subst (asm) next_subnode_loop.simps) (auto simp: t split: if_splits)
qed

text \<open>\<open>fdt_for_each_subnode\<close>: the offsets the loop visits.\<close>

function subnodes_from :: "u8 list \<Rightarrow> int \<Rightarrow> int list res" where
  "subnodes_from fdt node =
     (if node < 0 then Inr []
      else bindE (fdt_next_subnode fdt node) (\<lambda>next.
        if 0 \<le> next \<and> next \<le> node then Inl Hang
        else bindE (subnodes_from fdt next) (\<lambda>rest. Inr (node # rest))))"
  by pat_completeness auto

termination
  by (relation "measure (\<lambda>(fdt, node). if node < 0 then 0 else Suc (nat (2 ^ 31 - node)))")
    (auto simp: fdt_next_subnode_def dest!: next_subnode_less)

declare subnodes_from.simps [simp del]

definition fdt_for_each_subnode :: "u8 list \<Rightarrow> int \<Rightarrow> int list res" where
  "fdt_for_each_subnode fdt parent = bindE (fdt_first_subnode fdt parent) (subnodes_from fdt)"

section \<open>fdt\_ro.c\<close>

definition fdt_string :: "u8 list \<Rightarrow> int \<Rightarrow> int res" where
  "fdt_string fdt stroffset = bindE (fdt_off_dt_strings fdt) (\<lambda>st. Inr (uint st + stroffset))"

text \<open>A name argument comes with its length, as its first \<open>len\<close> characters.\<close>

definition fdt_string_eq :: "u8 list \<Rightarrow> int \<Rightarrow> string \<Rightarrow> bool res" where
  "fdt_string_eq fdt stroffset s =
     bindE (fdt_string fdt stroffset) (\<lambda>p.
     bindE (strlen_at fdt p) (\<lambda>n. if n = length s then memeq_at fdt p (bytes s) else Inr False))"

definition fdt_nodename_eq :: "u8 list \<Rightarrow> int \<Rightarrow> string \<Rightarrow> bool res" where
  "fdt_nodename_eq fdt offset s =
     bindE (fdt_offset_ptr fdt (i32 (w32 offset + 4)) (w32 (int (length s) + 1))) (\<lambda>p. case p of None \<Rightarrow> Inr False
     | Some p \<Rightarrow> bindE (memeq_at fdt p (bytes s)) (\<lambda>eq. if \<not> eq then Inr False
       else bindE (rd8 fdt (p + int (length s))) (\<lambda>b.
         if b = 0 then Inr True else Inr (CHR ''@'' \<notin> set s \<and> b = byte (CHR ''@'')))))"

function nextprop :: "u8 list \<Rightarrow> int \<Rightarrow> int res" where
  "nextprop fdt offset =
     bindE (fdt_next_tag fdt offset) (\<lambda>(tag, nextoffset).
     if tag = FDT_END then (if nextoffset \<ge> 0 then Inr (- FDT_ERR_BADSTRUCTURE) else Inr nextoffset)
     else if tag = FDT_PROP then Inr offset
     else if tag = FDT_NOP then (if nextoffset \<le> offset then Inl Hang else nextprop fdt nextoffset)
     else Inr (- FDT_ERR_NOTFOUND))"
  by pat_completeness auto

termination
  by (relation "measure (\<lambda>(fdt, offset). nat (2 ^ 31 - offset))") (auto dest!: next_tag_less)

declare nextprop.simps [simp del]

lemma nextprop_less: "nextprop fdt off = Inr off' \<Longrightarrow> off < 2 ^ 31 \<Longrightarrow> off' < 2 ^ 31"
proof (induction fdt off rule: nextprop.induct)
  case (1 fdt off)
  obtain tag nx where t: "fdt_next_tag fdt off = Inr (tag, nx)"
    using "1.prems"(1) by (subst (asm) nextprop.simps) (auto simp: bindE_Inr)
  show ?case using "1.prems" "1.IH" [OF t refl] next_tag_less [OF t]
    by (subst (asm) nextprop.simps) (auto simp: t split: if_splits)
qed

text \<open>The search for a child by its name, and a path.\<close>

function subnode_loop :: "u8 list \<Rightarrow> int \<Rightarrow> int option \<Rightarrow> string \<Rightarrow> int res" where
  "subnode_loop fdt offset depth name =
     (if offset < 0 \<or> (case depth of None \<Rightarrow> False | Some d \<Rightarrow> d < 0)
      then Inr (if (case depth of None \<Rightarrow> False | Some d \<Rightarrow> d < 0) then - FDT_ERR_NOTFOUND else offset)
      else bindE (if depth = Some 1 then fdt_nodename_eq fdt offset name else Inr False) (\<lambda>eq.
        if eq then Inr offset
        else bindE (fdt_next_node fdt offset depth) (\<lambda>(nextoffset, depth).
          if 0 \<le> nextoffset \<and> nextoffset \<le> offset then Inl Hang else subnode_loop fdt nextoffset depth name)))"
  by pat_completeness auto

termination
  by (relation "measure (\<lambda>(fdt, offset, depth, name). if offset < 0 then 0 else Suc (nat (2 ^ 31 - offset)))")
    (auto dest!: next_node_less)

declare subnode_loop.simps [simp del]

definition fdt_subnode_offset_namelen :: "u8 list \<Rightarrow> int \<Rightarrow> string \<Rightarrow> int res" where
  "fdt_subnode_offset_namelen fdt offset name =
     bindE (fdt_check_header fdt) (\<lambda>err. if err \<noteq> 0 then Inr err else subnode_loop fdt offset (Some 0) name)"

definition fdt_subnode_offset :: "u8 list \<Rightarrow> int \<Rightarrow> string \<Rightarrow> int res" where
  "fdt_subnode_offset fdt parentoffset name = fdt_subnode_offset_namelen fdt parentoffset name"

section \<open>Properties\<close>

definition fdt_get_name :: "u8 list \<Rightarrow> int \<Rightarrow> (int option \<times> int) res" where
  "fdt_get_name fdt nodeoffset =
     bindE (offset_ptr fdt nodeoffset) (\<lambda>nh.
     bindE (fdt_check_header fdt) (\<lambda>err. if err \<noteq> 0 then Inr (None, err)
     else bindE (fdt_check_node_offset fdt nodeoffset) (\<lambda>err. if err < 0 then Inr (None, err)
     else bindE (strlen_at fdt (nh + 4)) (\<lambda>n. Inr (Some (nh + 4), int n)))))"

definition fdt_first_property_offset :: "u8 list \<Rightarrow> int \<Rightarrow> int res" where
  "fdt_first_property_offset fdt nodeoffset =
     bindE (fdt_check_node_offset fdt nodeoffset) (\<lambda>offset. if offset < 0 then Inr offset else nextprop fdt offset)"

definition fdt_next_property_offset :: "u8 list \<Rightarrow> int \<Rightarrow> int res" where
  "fdt_next_property_offset fdt offset =
     bindE (fdt_check_prop_offset fdt offset) (\<lambda>offset. if offset < 0 then Inr offset else nextprop fdt offset)"

definition fdt_get_property_by_offset :: "u8 list \<Rightarrow> int \<Rightarrow> (int option \<times> int) res" where
  "fdt_get_property_by_offset fdt offset =
     bindE (fdt_check_prop_offset fdt offset) (\<lambda>err. if err < 0 then Inr (None, err)
     else bindE (offset_ptr fdt offset) (\<lambda>prop.
       bindE (rd32 fdt (prop + 4)) (\<lambda>len. Inr (Some prop, i32 len))))"

lemma next_property_less: "fdt_next_property_offset fdt off = Inr off' \<Longrightarrow> off' < 2 ^ 31"
  using nextprop_less [of fdt] next_tag_less [of fdt off]
  by (fastforce simp: fdt_next_property_offset_def fdt_check_prop_offset_def bindE_Inr split: if_splits)

function property_loop :: "u8 list \<Rightarrow> int \<Rightarrow> string \<Rightarrow> (int option \<times> int) res" where
  "property_loop fdt offset name =
     (if offset < 0 then Inr (None, offset)
      else bindE (fdt_get_property_by_offset fdt offset) (\<lambda>(prop, len). case prop of None \<Rightarrow> Inr (None, - FDT_ERR_INTERNAL)
      | Some p \<Rightarrow>
        bindE (rd32 fdt (p + 8)) (\<lambda>nameoff.
        bindE (fdt_string_eq fdt (i32 nameoff) name) (\<lambda>eq. if eq then Inr (Some p, len)
        else bindE (fdt_next_property_offset fdt offset) (\<lambda>nextoffset.
          if 0 \<le> nextoffset \<and> nextoffset \<le> offset then Inl Hang else property_loop fdt nextoffset name)))))"
  by pat_completeness auto

termination
  by (relation "measure (\<lambda>(fdt, offset, name). if offset < 0 then 0 else Suc (nat (2 ^ 31 - offset)))")
    (auto dest!: next_property_less)

declare property_loop.simps [simp del]

text \<open>The results are the pointer, or \<open>None\<close> for NULL, and what is stored through \<open>lenp\<close>.\<close>

definition fdt_get_property_namelen :: "u8 list \<Rightarrow> int \<Rightarrow> string \<Rightarrow> (int option \<times> int) res" where
  "fdt_get_property_namelen fdt offset name =
     bindE (fdt_first_property_offset fdt offset) (\<lambda>offset. property_loop fdt offset name)"

definition fdt_get_property :: "u8 list \<Rightarrow> int \<Rightarrow> string \<Rightarrow> (int option \<times> int) res" where
  "fdt_get_property fdt nodeoffset name = fdt_get_property_namelen fdt nodeoffset name"

definition fdt_getprop_namelen :: "u8 list \<Rightarrow> int \<Rightarrow> string \<Rightarrow> (int option \<times> int) res" where
  "fdt_getprop_namelen fdt nodeoffset name =
     bindE (fdt_get_property_namelen fdt nodeoffset name) (\<lambda>(prop, len). Inr (map_option (\<lambda>p. p + 12) prop, len))"

definition fdt_getprop_by_offset :: "u8 list \<Rightarrow> int \<Rightarrow> (int option \<times> int option \<times> int) res" where
  "fdt_getprop_by_offset fdt offset =
     bindE (fdt_get_property_by_offset fdt offset) (\<lambda>(prop, len). case prop of None \<Rightarrow> Inr (None, None, len)
     | Some p \<Rightarrow> bindE (rd32 fdt (p + 8)) (\<lambda>nameoff. bindE (fdt_string fdt (i32 nameoff)) (\<lambda>name. Inr (Some (p + 12), Some name, len))))"

definition fdt_getprop :: "u8 list \<Rightarrow> int \<Rightarrow> string \<Rightarrow> (int option \<times> int) res" where
  "fdt_getprop fdt nodeoffset name = fdt_getprop_namelen fdt nodeoffset name"

definition fdt_get_phandle :: "u8 list \<Rightarrow> int \<Rightarrow> u32 res" where
  "fdt_get_phandle fdt nodeoffset =
     bindE (fdt_getprop fdt nodeoffset ''phandle'') (\<lambda>(php, len).
     if php = None \<or> len \<noteq> 4 then
       bindE (fdt_getprop fdt nodeoffset ''linux,phandle'') (\<lambda>(php, len).
       if php = None \<or> len \<noteq> 4 then Inr 0 else rd32 fdt (the php))
     else rd32 fdt (the php))"

section \<open>Paths\<close>

text \<open>The string at a pointer.\<close>

definition string_at :: "u8 list \<Rightarrow> int \<Rightarrow> string res" where
  "string_at fdt p = bindE (strlen_at fdt p) (\<lambda>n. Inr (map (\<lambda>b. char_of (unat b)) (take n (drop (nat p) fdt))))"

lemma dropWhile_shorter: "dropWhile P xs \<noteq> [] \<Longrightarrow> length (dropWhile (Not \<circ> P) (dropWhile P xs)) < length xs"
proof -
  assume a: "dropWhile P xs \<noteq> []"
  then obtain y ys where y: "dropWhile P xs = y # ys" by (cases "dropWhile P xs") auto
  then have "\<not> P y" by (metis a hd_dropWhile list.sel(1))
  then have "length (dropWhile (Not \<circ> P) (y # ys)) \<le> length ys" using length_dropWhile_le by simp
  moreover have "length (y # ys) \<le> length xs" using length_dropWhile_le [of P xs] by (simp add: y)
  ultimately show ?thesis using y by simp
qed

function path_loop :: "u8 list \<Rightarrow> int \<Rightarrow> string \<Rightarrow> int res" where
  "path_loop fdt offset p =
     (if p = [] then Inr offset
      else let p = dropWhile (\<lambda>c. c = CHR ''/'') p in
      if p = [] then Inr offset
      else bindE (fdt_subnode_offset_namelen fdt offset (takeWhile (\<lambda>c. c \<noteq> CHR ''/'') p)) (\<lambda>offset.
        if offset < 0 then Inr offset else path_loop fdt offset (dropWhile (\<lambda>c. c \<noteq> CHR ''/'') p)))"
  by pat_completeness auto


termination
proof (relation "measure (\<lambda>(fdt, offset, p). length p)")
  fix fdt offset p q and offset' :: int
  assume "q = dropWhile (\<lambda>c. c = CHR ''/'') p" "q \<noteq> []"
  then show "((fdt, offset', dropWhile (\<lambda>c. c \<noteq> CHR ''/'') q), fdt, offset, p) \<in> measure (\<lambda>(fdt, offset, p). length p)"
    using dropWhile_shorter [of "\<lambda>c. c = CHR ''/''" p] by (simp add: comp_def)
qed simp

declare path_loop.simps [simp del]

definition absolute_path :: "u8 list \<Rightarrow> string \<Rightarrow> int res" where
  "absolute_path fdt path = bindE (fdt_check_header fdt) (\<lambda>err. if err \<noteq> 0 then Inr err else path_loop fdt 0 path)"

definition fdt_get_alias_namelen :: "u8 list \<Rightarrow> string \<Rightarrow> int option res" where
  "fdt_get_alias_namelen fdt name =
     bindE (absolute_path fdt ''/aliases'') (\<lambda>aliasoffset.
     if aliasoffset < 0 then Inr None
     else bindE (fdt_getprop_namelen fdt aliasoffset name) (\<lambda>(p, _). Inr p))"

definition fdt_get_alias :: "u8 list \<Rightarrow> string \<Rightarrow> int option res" where
  "fdt_get_alias fdt name = fdt_get_alias_namelen fdt name"

text \<open>An alias may lead to another alias, and in a circle; the first argument bounds their number.\<close>

fun fdt_path_offset :: "nat \<Rightarrow> u8 list \<Rightarrow> string \<Rightarrow> int res" where
  "fdt_path_offset 0 fdt path = Inl Hang"
| "fdt_path_offset (Suc n) fdt path =
     bindE (fdt_check_header fdt) (\<lambda>err. if err \<noteq> 0 then Inr err
     else if path \<noteq> [] \<and> hd path = CHR ''/'' then path_loop fdt 0 path
     else
       bindE (fdt_get_alias_namelen fdt (takeWhile (\<lambda>c. c \<noteq> CHR ''/'') path)) (\<lambda>p. case p of None \<Rightarrow> Inr (- FDT_ERR_BADPATH)
       | Some p \<Rightarrow> bindE (string_at fdt p) (\<lambda>target. bindE (fdt_path_offset n fdt target) (\<lambda>offset.
           path_loop fdt offset (dropWhile (\<lambda>c. c \<noteq> CHR ''/'') path)))))"

section \<open>Depth, parent and search\<close>

text \<open>The result is the supernode's offset, and the depth stored through \<open>nodedepth\<close> if there is one.\<close>

function supernode_loop :: "u8 list \<Rightarrow> int \<Rightarrow> int \<Rightarrow> int \<Rightarrow> int \<Rightarrow> int \<Rightarrow> (int \<times> int option) res" where
  "supernode_loop fdt nodeoffset supernodedepth offset depth supernodeoffset =
     (if offset < 0 \<or> offset > nodeoffset
      then Inr (if offset = - FDT_ERR_NOTFOUND \<or> offset \<ge> 0 then - FDT_ERR_BADOFFSET
                else if offset = - FDT_ERR_BADOFFSET then - FDT_ERR_BADSTRUCTURE else offset, None)
      else
        let supernodeoffset = (if depth = supernodedepth then offset else supernodeoffset) in
        if offset = nodeoffset
        then Inr (if supernodedepth > depth then - FDT_ERR_NOTFOUND else supernodeoffset, Some depth)
        else bindE (fdt_next_node fdt offset (Some depth)) (\<lambda>(nextoffset, depth).
          if 0 \<le> nextoffset \<and> nextoffset \<le> offset then Inl Hang
          else supernode_loop fdt nodeoffset supernodedepth nextoffset (case depth of None \<Rightarrow> 0 | Some d \<Rightarrow> d) supernodeoffset))"
  by pat_completeness auto

termination
  by (relation "measure (\<lambda>(fdt, nodeoffset, supernodedepth, offset, depth, supernodeoffset).
      if offset < 0 then 0 else Suc (nat (2 ^ 31 - offset)))")
    (auto dest!: next_node_less)

declare supernode_loop.simps [simp del]

definition fdt_supernode_atdepth_offset :: "u8 list \<Rightarrow> int \<Rightarrow> int \<Rightarrow> (int \<times> int option) res" where
  "fdt_supernode_atdepth_offset fdt nodeoffset supernodedepth =
     bindE (fdt_check_header fdt) (\<lambda>err. if err \<noteq> 0 then Inr (err, None)
     else if supernodedepth < 0 then Inr (- FDT_ERR_NOTFOUND, None)
     else supernode_loop fdt nodeoffset supernodedepth 0 0 (- FDT_ERR_INTERNAL))"

text \<open>\<open>nodedepth\<close> is stored whenever the supernode at depth 0 is found.\<close>

definition fdt_node_depth :: "u8 list \<Rightarrow> int \<Rightarrow> int res" where
  "fdt_node_depth fdt nodeoffset =
     bindE (fdt_supernode_atdepth_offset fdt nodeoffset 0) (\<lambda>(err, nodedepth).
     if err \<noteq> 0 then Inr (if err < 0 then err else - FDT_ERR_INTERNAL)
     else Inr (case nodedepth of None \<Rightarrow> 0 | Some d \<Rightarrow> d))"

definition fdt_parent_offset :: "u8 list \<Rightarrow> int \<Rightarrow> int res" where
  "fdt_parent_offset fdt nodeoffset =
     bindE (fdt_node_depth fdt nodeoffset) (\<lambda>nodedepth.
     if nodedepth < 0 then Inr nodedepth
     else bindE (fdt_supernode_atdepth_offset fdt nodeoffset (nodedepth - 1)) (\<lambda>(r, _). Inr r))"

function phandle_loop :: "u8 list \<Rightarrow> int \<Rightarrow> u32 \<Rightarrow> int res" where
  "phandle_loop fdt offset phandle =
     (if offset < 0 then Inr offset
      else bindE (fdt_get_phandle fdt offset) (\<lambda>ph. if ph = phandle then Inr offset
      else bindE (fdt_next_node fdt offset None) (\<lambda>(nextoffset, _).
        if 0 \<le> nextoffset \<and> nextoffset \<le> offset then Inl Hang else phandle_loop fdt nextoffset phandle)))"
  by pat_completeness auto

termination
  by (relation "measure (\<lambda>(fdt, offset, phandle). if offset < 0 then 0 else Suc (nat (2 ^ 31 - offset)))")
    (auto dest!: next_node_less)

declare phandle_loop.simps [simp del]

definition fdt_node_offset_by_phandle :: "u8 list \<Rightarrow> u32 \<Rightarrow> int res" where
  "fdt_node_offset_by_phandle fdt phandle =
     (if phandle = 0 \<or> phandle = - 1 then Inr (- FDT_ERR_BADPHANDLE)
      else bindE (fdt_check_header fdt) (\<lambda>err. if err \<noteq> 0 then Inr err
      else bindE (fdt_next_node fdt (- 1) None) (\<lambda>(offset, _). phandle_loop fdt offset phandle)))"

lemma memchr_less: "memchr_at fdt p c n = Inr (Some k) \<Longrightarrow> k < n"
  by (induction fdt p c n arbitrary: k rule: memchr_at.induct) (auto simp: bindE_Inr split: if_splits)

text \<open>\<open>memcmp\<close> compares the string with its terminator.\<close>

function fdt_stringlist_contains :: "u8 list \<Rightarrow> int \<Rightarrow> int \<Rightarrow> string \<Rightarrow> bool res" where
  "fdt_stringlist_contains fdt strlist listlen str =
     (if listlen < int (length str) then Inr False
      else bindE (memeq_at fdt strlist (bytes str @ [0])) (\<lambda>eq. if eq then Inr True
      else bindE (memchr_at fdt strlist 0 (nat listlen)) (\<lambda>p. case p of None \<Rightarrow> Inr False
      | Some n \<Rightarrow> fdt_stringlist_contains fdt (strlist + int n + 1) (listlen - (int n + 1)) str)))"
  by pat_completeness auto

termination
  by (relation "measure (\<lambda>(fdt, strlist, listlen, str). nat (listlen + 1))") (auto dest!: memchr_less)

declare fdt_stringlist_contains.simps [simp del]

definition fdt_node_check_compatible :: "u8 list \<Rightarrow> int \<Rightarrow> string \<Rightarrow> int res" where
  "fdt_node_check_compatible fdt nodeoffset compatible =
     bindE (fdt_getprop fdt nodeoffset ''compatible'') (\<lambda>(prop, len). case prop of None \<Rightarrow> Inr len
     | Some p \<Rightarrow> bindE (fdt_stringlist_contains fdt p len compatible) (\<lambda>c. Inr (if c then 0 else 1)))"

text \<open>The searches behind a node: by the value of a property and by a compatible string.\<close>

function prop_value_loop :: "u8 list \<Rightarrow> int \<Rightarrow> string \<Rightarrow> u8 list \<Rightarrow> int res" where
  "prop_value_loop fdt offset propname propval =
     (if offset < 0 then Inr offset
      else bindE (fdt_getprop fdt offset propname) (\<lambda>(val, len).
        bindE (case val of None \<Rightarrow> Inr False
          | Some p \<Rightarrow> if len = int (length propval) then memeq_at fdt p propval else Inr False) (\<lambda>eq.
        if eq then Inr offset
        else bindE (fdt_next_node fdt offset None) (\<lambda>(nextoffset, _).
          if 0 \<le> nextoffset \<and> nextoffset \<le> offset then Inl Hang else prop_value_loop fdt nextoffset propname propval))))"
  by pat_completeness auto

termination
  by (relation "measure (\<lambda>(fdt, offset, propname, propval). if offset < 0 then 0 else Suc (nat (2 ^ 31 - offset)))")
    (auto dest!: next_node_less)

declare prop_value_loop.simps [simp del]

definition fdt_node_offset_by_prop_value :: "u8 list \<Rightarrow> int \<Rightarrow> string \<Rightarrow> u8 list \<Rightarrow> int res" where
  "fdt_node_offset_by_prop_value fdt startoffset propname propval =
     bindE (fdt_check_header fdt) (\<lambda>err. if err \<noteq> 0 then Inr err
     else bindE (fdt_next_node fdt startoffset None) (\<lambda>(offset, _). prop_value_loop fdt offset propname propval))"

function compatible_loop :: "u8 list \<Rightarrow> int \<Rightarrow> string \<Rightarrow> int res" where
  "compatible_loop fdt offset compatible =
     (if offset < 0 then Inr offset
      else bindE (fdt_node_check_compatible fdt offset compatible) (\<lambda>err.
        if err < 0 \<and> err \<noteq> - FDT_ERR_NOTFOUND then Inr err
        else if err = 0 then Inr offset
        else bindE (fdt_next_node fdt offset None) (\<lambda>(nextoffset, _).
          if 0 \<le> nextoffset \<and> nextoffset \<le> offset then Inl Hang else compatible_loop fdt nextoffset compatible)))"
  by pat_completeness auto

termination
  by (relation "measure (\<lambda>(fdt, offset, compatible). if offset < 0 then 0 else Suc (nat (2 ^ 31 - offset)))")
    (auto dest!: next_node_less)

declare compatible_loop.simps [simp del]

definition fdt_node_offset_by_compatible :: "u8 list \<Rightarrow> int \<Rightarrow> string \<Rightarrow> int res" where
  "fdt_node_offset_by_compatible fdt startoffset compatible =
     bindE (fdt_check_header fdt) (\<lambda>err. if err \<noteq> 0 then Inr err
     else bindE (fdt_next_node fdt startoffset None) (\<lambda>(offset, _). compatible_loop fdt offset compatible))"

section \<open>Path of a node\<close>

text \<open>
  \<open>fdt_get_path\<close> keeps the path of the current node in \<open>buf\<close>; the model has the bytes written so far,
  \<open>buf[0]\<close> to \<open>buf[p - 1]\<close>. Going up a level removes the last name: \<open>path_up\<close> is the inner loop.
\<close>

function path_up :: "u8 list \<Rightarrow> u8 list res" where
  "path_up buf =
     (let buf = butlast buf in
      if buf = [] then Inl Out_of_bounds else if last buf \<noteq> byte (CHR ''/'') then path_up buf else Inr buf)"
  by pat_completeness auto

termination
proof (relation "measure length")
  fix buf :: "u8 list" and x
  assume "x = butlast buf" "x \<noteq> []"
  then show "(x, buf) \<in> measure length" by (cases buf) (auto split: if_splits)
qed simp

declare path_up.simps [simp del]

fun path_pop :: "nat \<Rightarrow> u8 list \<Rightarrow> u8 list res" where
  "path_pop 0 buf = Inr buf"
| "path_pop (Suc n) buf = bindE (path_up buf) (path_pop n)"

definition path_push :: "u8 list \<Rightarrow> int \<Rightarrow> int \<Rightarrow> int \<Rightarrow> int \<Rightarrow> u8 list \<Rightarrow> (int + int \<times> u8 list) res" where
  "path_push fdt offset buflen pdepth depth buf =
     (if pdepth \<ge> depth then
        bindE (fdt_get_name fdt offset) (\<lambda>(name, namelen). case name of None \<Rightarrow> Inr (Inl namelen)
        | Some nm \<Rightarrow>
          if int (length buf) + namelen + 1 \<le> buflen
          then Inr (Inr (pdepth + 1, buf @ take (nat namelen) (drop (nat nm) fdt) @ [byte (CHR ''/'')]))
          else Inr (Inr (pdepth, buf)))
      else Inr (Inr (pdepth, buf)))"

function get_path_loop :: "u8 list \<Rightarrow> int \<Rightarrow> int \<Rightarrow> int \<Rightarrow> int \<Rightarrow> int \<Rightarrow> u8 list \<Rightarrow> (int \<times> u8 list) res" where
  "get_path_loop fdt nodeoffset buflen offset depth pdepth buf =
     (if offset < 0 \<or> offset > nodeoffset
      then Inr (if offset = - FDT_ERR_NOTFOUND \<or> offset \<ge> 0 then - FDT_ERR_BADOFFSET
                else if offset = - FDT_ERR_BADOFFSET then - FDT_ERR_BADSTRUCTURE else offset, buf)
      else
        bindE (path_pop (nat (pdepth - depth)) buf) (\<lambda>buf.
        bindE (path_push fdt offset buflen (min pdepth depth) depth buf) (\<lambda>r. case r of Inl err \<Rightarrow> Inr (err, buf)
        | Inr (pdepth, buf) \<Rightarrow>
          if offset = nodeoffset then
            if pdepth < depth + 1 then Inr (- FDT_ERR_NOSPACE, buf)
            else Inr (0, if length buf > 1 then butlast buf else buf)
          else bindE (fdt_next_node fdt offset (Some depth)) (\<lambda>(nextoffset, depth).
            if 0 \<le> nextoffset \<and> nextoffset \<le> offset then Inl Hang
            else get_path_loop fdt nodeoffset buflen nextoffset (case depth of None \<Rightarrow> 0 | Some d \<Rightarrow> d) pdepth buf))))"
  by pat_completeness auto

termination
  by (relation "measure (\<lambda>(fdt, nodeoffset, buflen, offset, depth, pdepth, buf).
      if offset < 0 then 0 else Suc (nat (2 ^ 31 - offset)))")
    (auto dest!: next_node_less)

declare get_path_loop.simps [simp del]

definition fdt_get_path :: "u8 list \<Rightarrow> int \<Rightarrow> int \<Rightarrow> (int \<times> u8 list) res" where
  "fdt_get_path fdt nodeoffset buflen =
     bindE (fdt_check_header fdt) (\<lambda>err. if err \<noteq> 0 then Inr (err, [])
     else if buflen < 2 then Inr (- FDT_ERR_NOSPACE, [])
     else get_path_loop fdt nodeoffset buflen 0 0 0 [])"

section \<open>Memory reservations and strings\<close>

fun fdt64_to_cpu :: "u8 list \<Rightarrow> 64 word" where
  "fdt64_to_cpu [a, b, c, d, e, f, g, h] =
     push_bit 56 (ucast a) OR push_bit 48 (ucast b) OR push_bit 40 (ucast c) OR push_bit 32 (ucast d)
     OR push_bit 24 (ucast e) OR push_bit 16 (ucast f) OR push_bit 8 (ucast g) OR ucast h"
| "fdt64_to_cpu _ = 0"

definition rd64 :: "u8 list \<Rightarrow> int \<Rightarrow> (64 word) res" where
  "rd64 fdt p = (if 0 \<le> p \<and> nat p + 8 \<le> length fdt then Inr (fdt64_to_cpu (take 8 (drop (nat p) fdt))) else Inl Out_of_bounds)"

definition fdt_mem_rsv :: "u8 list \<Rightarrow> int \<Rightarrow> int res" where
  "fdt_mem_rsv fdt n = bindE (rd32 fdt 16) (\<lambda>off. Inr (uint off + 16 * n))"

definition fdt_get_mem_rsv :: "u8 list \<Rightarrow> int \<Rightarrow> (int \<times> (64 word \<times> 64 word) option) res" where
  "fdt_get_mem_rsv fdt n =
     bindE (fdt_check_header fdt) (\<lambda>err. if err \<noteq> 0 then Inr (err, None)
     else bindE (fdt_mem_rsv fdt n) (\<lambda>p. bindE (rd64 fdt p) (\<lambda>address. bindE (rd64 fdt (p + 8)) (\<lambda>size. Inr (0, Some (address, size))))))"

function num_mem_rsv_loop :: "u8 list \<Rightarrow> int \<Rightarrow> int res" where
  "num_mem_rsv_loop fdt i =
     bindE (fdt_mem_rsv fdt i) (\<lambda>p. bindE (rd64 fdt (p + 8)) (\<lambda>size. if size \<noteq> 0 then num_mem_rsv_loop fdt (i + 1) else Inr i))"
  by pat_completeness auto

termination
proof (relation "measure (\<lambda>(fdt, i). nat (int (length fdt) - 16 * i))")
  fix fdt i p and size :: "64 word"
  assume a: "fdt_mem_rsv fdt i = Inr p" "rd64 fdt (p + 8) = Inr size"
  obtain off :: u32 where "p = uint off + 16 * i" using a(1) by (auto simp: fdt_mem_rsv_def bindE_Inr)
  moreover have "0 \<le> p + 8" "nat (p + 8) + 8 \<le> length fdt" using a(2) by (auto simp: rd64_def split: if_splits)
  ultimately have "16 * i < int (length fdt)" using uint_ge_0 [of off] by linarith
  then show "((fdt, i + 1), fdt, i) \<in> measure (\<lambda>(fdt, i). nat (int (length fdt) - 16 * i))" by simp
qed simp

declare num_mem_rsv_loop.simps [simp del]

definition fdt_num_mem_rsv :: "u8 list \<Rightarrow> int res" where
  "fdt_num_mem_rsv fdt = num_mem_rsv_loop fdt 0"

text \<open>\<open>_fdt_find_string\<close> on the bytes from \<open>strtab\<close>: the distance of the first occurrence of the string and its
  terminator that ends within the table.\<close>

fun find_string_loop :: "u8 list \<Rightarrow> int \<Rightarrow> nat \<Rightarrow> string \<Rightarrow> int option res" where
  "find_string_loop fdt p 0 s = Inr None"
| "find_string_loop fdt p (Suc n) s =
     bindE (memeq_at fdt p (bytes s @ [0])) (\<lambda>eq. if eq then Inr (Some p) else find_string_loop fdt (p + 1) n s)"

definition fdt_find_string :: "u8 list \<Rightarrow> int \<Rightarrow> int \<Rightarrow> string \<Rightarrow> int option res" where
  "fdt_find_string fdt strtab tabsize s = find_string_loop fdt strtab (nat (tabsize - int (length s + 1) + 1)) s"

definition fdt_totalsize :: "u8 list \<Rightarrow> u32 res" where "fdt_totalsize fdt = rd32 fdt 4"

definition fdt_move :: "u8 list \<Rightarrow> u32 \<Rightarrow> (int \<times> u8 list) res" where
  "fdt_move fdt bufsize =
     bindE (fdt_check_header fdt) (\<lambda>err. if err \<noteq> 0 then Inr (err, [])
     else bindE (fdt_totalsize fdt) (\<lambda>n. if n > bufsize then Inr (- FDT_ERR_NOSPACE, [])
     else if unat n \<le> length fdt then Inr (0, take (unat n) fdt) else Inl Out_of_bounds))"

section \<open>fdt\_addresses.c\<close>

definition fdt_address_cells :: "u8 list \<Rightarrow> int \<Rightarrow> int res" where
  "fdt_address_cells fdt nodeoffset =
     bindE (fdt_getprop fdt nodeoffset ''#address-cells'') (\<lambda>(ac, len). case ac of None \<Rightarrow> Inr 2
     | Some p \<Rightarrow> if len \<noteq> 4 then Inr (- FDT_ERR_BADNCELLS)
       else bindE (rd32 fdt p) (\<lambda>v. let val = i32 v in if val \<le> 0 \<or> val > 4 then Inr (- FDT_ERR_BADNCELLS) else Inr val))"

definition fdt_size_cells :: "u8 list \<Rightarrow> int \<Rightarrow> int res" where
  "fdt_size_cells fdt nodeoffset =
     bindE (fdt_getprop fdt nodeoffset ''#size-cells'') (\<lambda>(sc, len). case sc of None \<Rightarrow> Inr 2
     | Some p \<Rightarrow> if len \<noteq> 4 then Inr (- FDT_ERR_BADNCELLS)
       else bindE (rd32 fdt p) (\<lambda>v. let val = i32 v in if val < 0 \<or> val > 4 then Inr (- FDT_ERR_BADNCELLS) else Inr val))"

end
