(* ===== verification/Fdt_Tree.thy ===== *)
theory Fdt_Tree
  imports Fdt
begin

unbundle bit_operations_syntax

text \<open>
  What libfdt promises: on memory that holds the flattened form of a tree, the functions of fdt.c and
  fdt\_ro.c answer questions about the tree. The format is the one of the device tree specification,
  version 17.
\<close>

section \<open>The format\<close>

datatype dtree = DNode (dn_name: "u8 list") (dn_props: "(u32 \<times> u8 list) list") (dn_kids: "dtree list")

definition enc32 :: "u32 \<Rightarrow> u8 list" where
  "enc32 w = [ucast (drop_bit 24 w), ucast (drop_bit 16 w), ucast (drop_bit 8 w), ucast w]"

definition pad4 :: "u8 list \<Rightarrow> u8 list" where
  "pad4 bs = bs @ replicate ((4 - length bs mod 4) mod 4) 0"

definition enc_begin :: "u8 list \<Rightarrow> u8 list" where
  "enc_begin nm = enc32 FDT_BEGIN_NODE @ pad4 (nm @ [0])"

definition enc_prop :: "u32 \<times> u8 list \<Rightarrow> u8 list" where
  "enc_prop p = enc32 FDT_PROP @ enc32 (of_nat (length (snd p))) @ enc32 (fst p) @ pad4 (snd p)"

definition enc_props :: "(u32 \<times> u8 list) list \<Rightarrow> u8 list" where
  "enc_props ps = concat (map enc_prop ps)"

fun enc_node :: "dtree \<Rightarrow> u8 list" where
  "enc_node (DNode nm ps ks) = enc_begin nm @ enc_props ps @ concat (map enc_node ks) @ enc32 FDT_END_NODE"

definition enc_kids :: "dtree list \<Rightarrow> u8 list" where
  "enc_kids ks = concat (map enc_node ks)"

text \<open>Names have no byte 0, and lengths fit their field.\<close>

fun wf_tree :: "dtree \<Rightarrow> bool" where
  "wf_tree (DNode nm ps ks) \<longleftrightarrow> 0 \<notin> set nm \<and> (\<forall>p \<in> set ps. length (snd p) < 2 ^ 31) \<and> (\<forall>k \<in> set ks. wf_tree k)"

text \<open>A header of version 17 whose structure block lies in the memory.\<close>

definition blob :: "u8 list \<Rightarrow> u32 \<Rightarrow> u32 \<Rightarrow> u32 \<Rightarrow> bool" where
  "blob fdt st sz str \<longleftrightarrow> fdt_check_header fdt = Inr 0 \<and> fdt_version fdt = Inr 17 \<and> fdt_off_dt_struct fdt = Inr st
     \<and> fdt_size_dt_struct fdt = Inr sz \<and> fdt_off_dt_strings fdt = Inr str
     \<and> uint st + uint sz \<le> int (length fdt) \<and> uint sz < 2 ^ 31 - 4"

text \<open>The bytes at an offset of the structure block.\<close>

definition seg :: "u8 list \<Rightarrow> u32 \<Rightarrow> u32 \<Rightarrow> int \<Rightarrow> u8 list \<Rightarrow> bool" where
  "seg fdt st sz off bs \<longleftrightarrow> 0 \<le> off \<and> off + int (length bs) \<le> uint sz
     \<and> take (length bs) (drop (nat (uint st + off)) fdt) = bs"

section \<open>Bytes\<close>

lemma enc32_length [simp]: "length (enc32 w) = 4"
  by (simp add: enc32_def)

lemma fdt32_enc32 [simp]: "fdt32_to_cpu (enc32 w) = w"
proof -
  have "fdt32_to_cpu (enc32 w) = push_bit 24 (ucast (ucast (drop_bit 24 w) :: u8)) OR push_bit 16 (ucast (ucast (drop_bit 16 w) :: u8))
      OR push_bit 8 (ucast (ucast (drop_bit 8 w) :: u8)) OR ucast (ucast w :: u8)"
    by (simp add: enc32_def)
  also have "\<dots> = w"
  proof (rule bit_word_eqI)
    fix n
    assume "n < LENGTH(32)"
    then have "n < 8 \<or> (8 \<le> n \<and> n < 16) \<or> (16 \<le> n \<and> n < 24) \<or> (24 \<le> n \<and> n < 32)" by auto
    then show "bit (push_bit 24 (ucast (ucast (drop_bit 24 w) :: u8)) OR push_bit 16 (ucast (ucast (drop_bit 16 w) :: u8))
        OR push_bit 8 (ucast (ucast (drop_bit 8 w) :: u8)) OR ucast (ucast w :: u8) :: u32) n = bit w n"
      by (elim disjE) (simp_all add: bit_or_iff bit_push_bit_iff bit_unsigned_iff bit_drop_bit_eq, linarith+)
  qed
  finally show ?thesis .
qed

lemma pad4_length: "length (pad4 bs) = (length bs + 3) div 4 * 4"
proof -
  define q r where "q = length bs div 4" and "r = length bs mod 4"
  then have l: "length bs = 4 * q + r" and "r < 4" by simp_all
  then have "r = 0 \<or> r = 1 \<or> r = 2 \<or> r = 3" by auto
  then show ?thesis unfolding pad4_def length_append length_replicate r_def [symmetric] unfolding l by (elim disjE) simp_all
qed

lemma pad4_mod [simp]: "length (pad4 bs) mod 4 = 0"
  by (simp add: pad4_length)

lemma enc_mod [simp]: "length (enc_begin nm) mod 4 = 0" "length (enc_prop p) mod 4 = 0"
  by (simp_all add: enc_begin_def enc_prop_def pad4_length)

lemma enc_props_mod [simp]: "length (enc_props ps) mod 4 = 0"
  by (induction ps) (simp_all add: enc_props_def mod_add_eq [symmetric])

lemma mod4_add: "off mod 4 = 0 \<Longrightarrow> n mod 4 = 0 \<Longrightarrow> (off + int n) mod 4 = 0"
  by presburger

lemma i32_w32 [simp]: "0 \<le> x \<Longrightarrow> x < 2 ^ 31 \<Longrightarrow> i32 (w32 x) = x"
  by (simp add: i32_def w32_def int_word_sint)

lemma uint_w32: "0 \<le> x \<Longrightarrow> x < 2 ^ 32 \<Longrightarrow> uint (w32 x) = x"
  by (simp add: w32_def uint_word_of_int)

section \<open>Reading a segment\<close>

lemma blobD:
  assumes "blob fdt st sz str"
  shows "fdt_check_header fdt = Inr 0" "fdt_version fdt = Inr 17" "fdt_off_dt_struct fdt = Inr st" "fdt_size_dt_struct fdt = Inr sz"
    "fdt_off_dt_strings fdt = Inr str" "uint st + uint sz \<le> int (length fdt)" "uint sz < 2 ^ 31 - 4"
  using assms by (simp_all add: blob_def)

lemma offset_ptr_in:
  assumes "blob fdt st sz str" "0 \<le> off" "0 \<le> len" "off + len \<le> uint sz"
  shows "fdt_offset_ptr fdt off (w32 len) = Inr (Some (uint st + off))"
proof -
  have "uint (w32 off + w32 len) = off + len" "uint (w32 off) = off"
    using assms blobD(7) [OF assms(1)] by (simp_all add: w32_def uint_word_of_int uint_plus_if')
  then show ?thesis using assms(3,4)
    by (simp add: fdt_offset_ptr_def offset_ptr_def blobD [OF assms(1)] word_less_def)
qed

lemma offset_ptr_out:
  assumes "blob fdt st sz str" "0 \<le> off" "off < 2 ^ 31" "0 \<le> len" "len < 2 ^ 31" "uint sz < off + len"
  shows "fdt_offset_ptr fdt off (w32 len) = Inr None"
proof -
  have "uint (w32 off + w32 len) = off + len" "uint (w32 off) = off"
    using assms by (simp_all add: w32_def uint_word_of_int uint_plus_if')
  then show ?thesis using assms(4,6) by (simp add: fdt_offset_ptr_def offset_ptr_def blobD [OF assms(1)] word_less_def)
qed

lemma w32_numeral: "w32 (numeral n) = numeral n" "w32 1 = 1" "w32 (a + b) = w32 a + w32 b"
  by (simp_all add: w32_def)

lemma segD: "seg fdt st sz off bs \<Longrightarrow> 0 \<le> off \<and> off + int (length bs) \<le> uint sz"
  by (simp add: seg_def)

lemma seg_append: "seg fdt st sz off (xs @ ys) \<Longrightarrow> seg fdt st sz off xs \<and> seg fdt st sz (off + int (length xs)) ys"
proof -
  assume a: "seg fdt st sz off (xs @ ys)"
  then have t: "take (length xs + length ys) (drop (nat (uint st + off)) fdt) = xs @ ys" "0 \<le> off" by (simp_all add: seg_def)
  have "take (length xs) (take (length xs + length ys) (drop (nat (uint st + off)) fdt)) = xs" unfolding t(1) by simp
  moreover have "drop (length xs) (take (length xs + length ys) (drop (nat (uint st + off)) fdt)) = ys" unfolding t(1) by simp
  moreover have "nat (uint st + (off + int (length xs))) = nat (uint st + off) + length xs" using t(2) by (simp add: nat_add_distrib)
  ultimately show ?thesis using a by (simp add: seg_def drop_take add.commute)
qed

lemma seg_rd32:
  assumes "blob fdt st sz str" "seg fdt st sz off (enc32 w @ bs)"
  shows "rd32 fdt (uint st + off) = Inr w"
proof -
  have s: "take 4 (drop (nat (uint st + off)) fdt) = enc32 w" "0 \<le> off" "off + 4 \<le> uint sz"
    using seg_append [OF assms(2)] by (simp_all add: seg_def)
  have "int (nat (uint st + off)) + 4 \<le> int (length fdt)" using s(2,3) blobD(6) [OF assms(1)] by simp
  then have "nat (uint st + off) + 4 \<le> length fdt" by linarith
  then show ?thesis using s by (simp add: rd32_def)
qed

lemma seg_rd8:
  assumes "blob fdt st sz str" "seg fdt st sz off (b # bs)"
  shows "rd8 fdt (uint st + off) = Inr b"
proof -
  have s: "take 1 (drop (nat (uint st + off)) fdt) = [b]" "0 \<le> off"
    using seg_append [of fdt st sz off "[b]" bs] assms(2) by (simp_all add: seg_def)
  then have l: "nat (uint st + off) < length fdt" by (metis drop_all not_less take_Nil list.distinct(1))
  then show ?thesis using s by (simp add: rd8_def take_Suc_conv_app_nth hd_drop_conv_nth take_hd_drop)
qed

lemma seg_skip_name:
  assumes "blob fdt st sz str" "seg fdt st sz off (nm @ 0 # bs)" "0 \<notin> set nm"
  shows "skip_name fdt off = Inr (Some (off + int (length nm) + 1))"
  using assms(2,3)
proof (induction nm arbitrary: off)
  case Nil
  have "fdt_offset_ptr fdt off 1 = Inr (Some (uint st + off))"
    using offset_ptr_in [OF assms(1), of off 1] segD [OF Nil.prems(1)] by (simp add: w32_def)
  then show ?case using seg_rd8 [OF assms(1)] Nil.prems by (simp add: skip_name.simps)
next
  case (Cons c nm)
  have "fdt_offset_ptr fdt off 1 = Inr (Some (uint st + off))"
    using offset_ptr_in [OF assms(1), of off 1] segD [OF Cons.prems(1)] by (simp add: w32_def)
  moreover have "rd8 fdt (uint st + off) = Inr c" using seg_rd8 [OF assms(1)] Cons.prems(1) by simp
  moreover have "seg fdt st sz (off + 1) (nm @ 0 # bs)" using seg_append [of fdt st sz off "[c]"] Cons.prems(1) by simp
  ultimately show ?case using Cons by (simp add: skip_name.simps [of fdt off] add.assoc)
qed

section \<open>Tags\<close>

lemma tagalign:
  assumes "0 \<le> x" "x < 2 ^ 31 - 4"
  shows "FDT_TAGALIGN x = (x + 3) div 4 * 4"
proof -
  have 1: "w32 x + 4 - 1 = w32 (x + 3)" by (simp add: w32_def)
  have "w32 (x + 3) AND NOT 3 = w32 ((x + 3) div 4 * 4)"
  proof -
    have "w32 (x + 3) AND NOT 3 = word_of_int ((x + 3) AND NOT 3)" by (simp add: w32_def of_int_and_eq)
    also have "(x + 3) AND NOT 3 = (x + 3) AND NOT (mask 2)" by (simp add: mask_eq_exp_minus_1)
    also have "\<dots> = push_bit 2 (drop_bit 2 (x + 3))"
      by (rule bit_eqI) (auto simp: bit_simps le_add_diff_inverse simp del: add_2_eq_Suc)
    also have "\<dots> = (x + 3) div 4 * 4" by (simp add: push_bit_eq_mult drop_bit_eq_div)
    finally show ?thesis by (simp add: w32_def)
  qed
  moreover have "i32 (w32 ((x + 3) div 4 * 4)) = (x + 3) div 4 * 4" using assms by (intro i32_w32) auto
  ultimately show ?thesis using 1 by (simp add: FDT_TAGALIGN_def)
qed

lemma next_tag_seg:
  assumes b: "blob fdt st sz str" and s: "seg fdt st sz off (enc32 tag @ bs)"
    and e: "tag_end fdt tag (off + 4) = Inr (Some e)" "off + 4 \<le> e" "e \<le> off + 4 + int (length bs)"
  shows "fdt_next_tag fdt off = Inr (tag, (e + 3) div 4 * 4)"
proof -
  have o: "0 \<le> off" "off + 4 + int (length bs) \<le> uint sz" using segD [OF s] by simp_all
  note z = blobD(7) [OF b]
  have p: "fdt_offset_ptr fdt off 4 = Inr (Some (uint st + off))"
    using offset_ptr_in [OF b, of off 4] o by (simp add: w32_def)
  have q: "fdt_offset_ptr fdt off (w32 (e - off)) = Inr (Some (uint st + off))"
    using offset_ptr_in [OF b, of off "e - off"] o e by simp
  have a: "i32 (w32 off + 4) = off + 4" using o z i32_w32 [of "off + 4"] by (simp add: w32_def)
  show ?thesis using o e z by (simp add: fdt_next_tag_def p seg_rd32 [OF b s] a q tagalign)
qed

lemma tag_end_simple: "tag \<in> {FDT_END, FDT_END_NODE, FDT_NOP} \<Longrightarrow> tag_end fdt tag off = Inr (Some off)"
  by (auto simp: tag_end_def)

lemma round4:
  assumes "off mod 4 = 0"
  shows "(off + int n + 3) div 4 * 4 = off + int ((n + 3) div 4 * 4)"
proof -
  obtain k where k: "off = k * 4" using assms by (metis dvd_eq_mod_eq_0 dvdE mult.commute)
  have "(k * 4 + (int n + 3)) div 4 = k + (int n + 3) div 4" by simp
  moreover have "(int n + 3) div 4 = int ((n + 3) div 4)" by (simp add: zdiv_int)
  ultimately show ?thesis by (simp add: k algebra_simps)
qed

lemma next_tag_begin:
  assumes "blob fdt st sz str" "seg fdt st sz off (enc_begin nm)" "0 \<notin> set nm" "off mod 4 = 0"
  shows "fdt_next_tag fdt off = Inr (FDT_BEGIN_NODE, off + int (length (enc_begin nm)))"
proof -
  let ?p = "replicate ((4 - length (nm @ [0 :: u8]) mod 4) mod 4) (0 :: u8)"
  have s: "seg fdt st sz off (enc32 FDT_BEGIN_NODE @ nm @ 0 # ?p)" using assms(2) by (simp add: enc_begin_def pad4_def)
  have "seg fdt st sz (off + 4) (nm @ 0 # ?p)" using seg_append [OF s] by simp
  then have "tag_end fdt FDT_BEGIN_NODE (off + 4) = Inr (Some (off + 4 + int (length nm) + 1))"
    using seg_skip_name [OF assms(1) _ assms(3)] by (simp add: tag_end_def)
  from next_tag_seg [OF assms(1) s this]
  have "fdt_next_tag fdt off = Inr (FDT_BEGIN_NODE, ((off + 4) + int (length nm + 1) + 3) div 4 * 4)"
    by (simp add: algebra_simps)
  also have "((off + 4) + int (length nm + 1) + 3) div 4 * 4 = off + 4 + int ((length nm + 1 + 3) div 4 * 4)"
    using assms(4) by (intro round4) presburger
  finally show ?thesis by (simp add: enc_begin_def pad4_length)
qed

lemma next_tag_prop:
  assumes "blob fdt st sz str" "seg fdt st sz off (enc_prop p)" "off mod 4 = 0"
  shows "fdt_next_tag fdt off = Inr (FDT_PROP, off + int (length (enc_prop p)))"
proof -
  let ?l = "length (snd p)"
  let ?bs = "enc32 (of_nat ?l) @ enc32 (fst p) @ pad4 (snd p)"
  have s: "seg fdt st sz off (enc32 FDT_PROP @ ?bs)" using assms(2) by (simp add: enc_prop_def)
  have s': "seg fdt st sz (off + 4) ?bs" using seg_append [OF s] by simp
  have bd: "0 \<le> off" "off + 12 + int (length (pad4 (snd p))) \<le> uint sz" using segD [OF s] by simp_all
  have "?l \<le> length (pad4 (snd p))" by (simp add: pad4_def)
  then have l: "off + 12 + int ?l < 2 ^ 31" using bd blobD(7) [OF assms(1)] by linarith
  have p: "fdt_offset_ptr fdt (off + 4) 4 = Inr (Some (uint st + (off + 4)))"
    using offset_ptr_in [OF assms(1), of "off + 4" 4] bd by (simp add: w32_def)
  have "i32 (w32 (off + 4) + (12 - 4 + of_nat ?l)) = i32 (w32 (off + 12 + int ?l))" by (simp add: w32_def algebra_simps)
  also have "\<dots> = off + 12 + int ?l" using bd l by (intro i32_w32) simp_all
  finally have "tag_end fdt FDT_PROP (off + 4) = Inr (Some (off + 12 + int ?l))"
    by (simp add: tag_end_def p seg_rd32 [OF assms(1) s'])
  from next_tag_seg [OF assms(1) s this]
  have "fdt_next_tag fdt off = Inr (FDT_PROP, ((off + 12) + int ?l + 3) div 4 * 4)"
    using \<open>?l \<le> length (pad4 (snd p))\<close> by (simp add: algebra_simps)
  also have "((off + 12) + int ?l + 3) div 4 * 4 = off + 12 + int ((?l + 3) div 4 * 4)"
    using assms(3) by (intro round4) presburger
  finally show ?thesis by (simp add: enc_prop_def pad4_length)
qed

lemma next_tag_plain:
  assumes "blob fdt st sz str" "seg fdt st sz off (enc32 tag)" "tag \<in> {FDT_END, FDT_END_NODE, FDT_NOP}" "off mod 4 = 0"
  shows "fdt_next_tag fdt off = Inr (tag, off + 4)"
  using next_tag_seg [OF assms(1), of off tag "[]" "off + 4"] assms(2-4) tag_end_simple [OF assms(3)] round4 [of "off + 4" 0]
  by simp

section \<open>The walk over the nodes\<close>

text \<open>The nodes of a tree in the order of the flattened form: offset, depth and node.\<close>

fun nodes :: "int \<Rightarrow> int \<Rightarrow> dtree \<Rightarrow> (int \<times> int \<times> dtree) list"
  and nodesl :: "int \<Rightarrow> int \<Rightarrow> dtree list \<Rightarrow> (int \<times> int \<times> dtree) list" where
  "nodes off d (DNode nm ps ks) =
     (off, d, DNode nm ps ks) # nodesl (off + int (length (enc_begin nm)) + int (length (enc_props ps))) (d + 1) ks"
| "nodesl off d [] = []"
| "nodesl off d (k # ks) = nodes off d k @ nodesl (off + int (length (enc_node k))) d ks"

text \<open>\<open>chain fdt dp L r\<close>: \<open>fdt_next_node\<close> leads from each node of \<open>L\<close> to the next, and from the last to \<open>r\<close>. \<open>dp\<close>
  says whether a depth is counted.\<close>

fun chain :: "u8 list \<Rightarrow> (int \<Rightarrow> int option) \<Rightarrow> (int \<times> int \<times> dtree) list \<Rightarrow> (int \<times> int option) res \<Rightarrow> bool" where
  "chain fdt dp [] r \<longleftrightarrow> True"
| "chain fdt dp [(off, d, n)] r \<longleftrightarrow> fdt_next_node fdt off (dp d) = r"
| "chain fdt dp ((off, d, n) # (off', d', n') # L) r \<longleftrightarrow>
     fdt_next_node fdt off (dp d) = Inr (off', dp d') \<and> chain fdt dp ((off', d', n') # L) r"

lemma chain_append:
  "chain fdt dp (xs @ (off, d, n) # ys) r \<longleftrightarrow> chain fdt dp xs (Inr (off, dp d)) \<and> chain fdt dp ((off, d, n) # ys) r"
  by (induction fdt dp xs r rule: chain.induct) auto

definition counts :: "(int \<Rightarrow> int option) \<Rightarrow> bool" where
  "counts dp \<longleftrightarrow> dp = Some \<or> dp = (\<lambda>_. None)"

lemma loop_begin:
  assumes "blob fdt st sz str" "seg fdt st sz off (enc_begin nm @ bs)" "0 \<notin> set nm" "off mod 4 = 0" "counts dp"
  shows "next_node_loop fdt off (dp d) = Inr (off, dp (d + 1))"
proof -
  have "seg fdt st sz off (enc_begin nm)" using seg_append [OF assms(2)] by blast
  from next_tag_begin [OF assms(1) this assms(3,4)] assms(5)
  show ?thesis by (auto simp: next_node_loop.simps counts_def)
qed

lemma loop_end:
  assumes "blob fdt st sz str" "seg fdt st sz off (enc32 FDT_END_NODE @ bs)" "off mod 4 = 0" "counts dp" "0 < d"
  shows "next_node_loop fdt off (dp d) = next_node_loop fdt (off + 4) (dp (d - 1))"
proof -
  have "seg fdt st sz off (enc32 FDT_END_NODE)" using seg_append [OF assms(2)] by blast
  from next_tag_plain [OF assms(1) this _ assms(3)] assms(4,5)
  show ?thesis by (subst next_node_loop.simps) (auto simp: counts_def)
qed

lemma loop_props:
  assumes "blob fdt st sz str"
  shows "seg fdt st sz off (enc_props ps @ bs) \<Longrightarrow> off mod 4 = 0 \<Longrightarrow>
    next_node_loop fdt off dep = next_node_loop fdt (off + int (length (enc_props ps))) dep"
proof (induction ps arbitrary: off)
  case (Cons p ps)
  have s: "seg fdt st sz off (enc_prop p @ enc_props ps @ bs)" using Cons.prems(1) by (simp add: enc_props_def)
  note s' = seg_append [OF s]
  have m: "(off + int (length (enc_prop p))) mod 4 = 0"
    by (rule mod4_add [OF Cons.prems(2)]) simp
  have "enc_prop p \<noteq> []" by (simp add: enc_prop_def enc32_def)
  then have "next_node_loop fdt off dep = next_node_loop fdt (off + int (length (enc_prop p))) dep"
    using next_tag_prop [OF assms s' [THEN conjunct1] Cons.prems(2)] by (subst next_node_loop.simps) (simp add: Let_def)
  also have "\<dots> = next_node_loop fdt (off + int (length (enc_prop p)) + int (length (enc_props ps))) dep"
    using Cons.IH [OF s' [THEN conjunct2] m] .
  finally show ?case by (simp add: enc_props_def add.assoc)
qed (simp add: enc_props_def)

lemma next_node_seg:
  assumes "blob fdt st sz str" "seg fdt st sz off (enc_begin nm @ enc_props ps @ bs)" "0 \<notin> set nm" "off mod 4 = 0"
  shows "fdt_next_node fdt off dep = next_node_loop fdt (off + int (length (enc_begin nm)) + int (length (enc_props ps))) dep"
proof -
  note s = seg_append [OF assms(2)]
  have o: "0 \<le> off" using segD [OF assms(2)] by simp
  have m: "(off + int (length (enc_begin nm))) mod 4 = 0"
    by (rule mod4_add [OF assms(4)]) simp
  have l: "enc_begin nm \<noteq> []" by (simp add: enc_begin_def enc32_def)
  have "fdt_next_node fdt off dep = next_node_loop fdt (off + int (length (enc_begin nm))) dep"
    using next_tag_begin [OF assms(1) s [THEN conjunct1] assms(3,4)] o l assms(4)
    by (simp add: fdt_next_node_def fdt_check_node_offset_def)
  then show ?thesis using loop_props [OF assms(1) s [THEN conjunct2] m] by simp
qed

lemma enc_node_mod: "length (enc_node n) mod 4 = 0"
proof (induction n)
  case (DNode nm ps ks)
  have "length (concat (map enc_node ks)) mod 4 = 0"
    using DNode by (induction ks) (simp_all add: mod_add_eq [symmetric])
  then have "4 dvd length (concat (map enc_node ks))" "4 dvd length (enc_begin nm)" "4 dvd length (enc_props ps)"
    by (simp_all only: dvd_eq_mod_eq_0 enc_mod enc_props_mod)
  then have "4 dvd length (enc_node (DNode nm ps ks))" by (simp add: dvd_add)
  then show ?case by (simp only: dvd_eq_mod_eq_0)
qed

lemma nodes_chain:
  assumes b: "blob fdt st sz str" and dp: "counts dp"
  shows "seg fdt st sz off (enc_node n @ bs) \<Longrightarrow> wf_tree n \<Longrightarrow> off mod 4 = 0 \<Longrightarrow> 0 < d \<Longrightarrow>
      chain fdt dp (nodes off d n) (next_node_loop fdt (off + int (length (enc_node n))) (dp (d - 1)))"
    and "seg fdt st sz off (enc_kids ks @ bs) \<Longrightarrow> \<forall>k \<in> set ks. wf_tree k \<Longrightarrow> off mod 4 = 0 \<Longrightarrow> 0 < d \<Longrightarrow>
      (ks \<noteq> [] \<longrightarrow> next_node_loop fdt off (dp (d - 1)) = Inr (off, dp d))
      \<and> chain fdt dp (nodesl off d ks) (next_node_loop fdt (off + int (length (enc_kids ks))) (dp (d - 1)))"
proof (induction off d n and off d ks arbitrary: bs and bs rule: nodes_nodesl.induct)
  case (1 off d nm ps ks)
  let ?o = "off + int (length (enc_begin nm)) + int (length (enc_props ps))"
  let ?e = "?o + int (length (enc_kids ks))"
  have s: "seg fdt st sz off (enc_begin nm @ enc_props ps @ enc_kids ks @ enc32 FDT_END_NODE @ bs)"
    using "1.prems"(1) by (simp add: enc_kids_def)
  have wf: "0 \<notin> set nm" "\<forall>k \<in> set ks. wf_tree k" using "1.prems"(2) by auto
  have sk: "seg fdt st sz ?o (enc_kids ks @ enc32 FDT_END_NODE @ bs)"
    using seg_append [OF seg_append [OF s, THEN conjunct2]] by blast
  have mo: "?o mod 4 = 0" using "1.prems"(3) by (intro mod4_add) simp_all
  have "length (enc_kids ks) mod 4 = 0" unfolding enc_kids_def by (induction ks) (simp_all add: enc_node_mod mod_add_eq [symmetric])
  then have me: "?e mod 4 = 0" by (intro mod4_add mo)
  have se: "seg fdt st sz ?e (enc32 FDT_END_NODE @ bs)" using seg_append [OF sk] by blast
  have "0 < d + 1" using "1.prems"(4) by simp
  note ih = "1.IH" [OF sk wf(2) mo this]
  have fin: "next_node_loop fdt ?e (dp d) = next_node_loop fdt (off + int (length (enc_node (DNode nm ps ks)))) (dp (d - 1))"
    using loop_end [OF b se me dp "1.prems"(4)] by (simp add: enc_kids_def add.assoc)
  have nx: "fdt_next_node fdt off (dp d) = next_node_loop fdt ?o (dp d)" by (rule next_node_seg [OF b s wf(1) "1.prems"(3)])
  show ?case
  proof (cases ks)
    case Nil
    then show ?thesis using nx fin by (simp add: enc_kids_def)
  next
    case (Cons k ks')
    obtain nm' ps' ks'' where k: "k = DNode nm' ps' ks''" by (cases k)
    have "chain fdt dp (nodesl ?o (d + 1) ks) (next_node_loop fdt ?e (dp d))" "next_node_loop fdt ?o (dp d) = Inr (?o, dp (d + 1))"
      using ih Cons by simp_all
    then show ?thesis using nx fin Cons by (simp add: k)
  qed
next
  case (2 off d)
  then show ?case by simp
next
  case (3 off d k ks)
  obtain nm' ps' ks'' where k: "k = DNode nm' ps' ks''" by (cases k)
  have s: "seg fdt st sz off (enc_node k @ enc_kids ks @ bs)" using "3.prems"(1) by (simp add: enc_kids_def)
  let ?o = "off + int (length (enc_node k))"
  have m: "?o mod 4 = 0" using "3.prems"(3) by (intro mod4_add) (simp_all add: enc_node_mod)
  have 1: "chain fdt dp (nodes off d k) (next_node_loop fdt ?o (dp (d - 1)))"
    using "3.IH"(1) [OF s] "3.prems" by simp
  have 2: "(ks \<noteq> [] \<longrightarrow> next_node_loop fdt ?o (dp (d - 1)) = Inr (?o, dp d))
      \<and> chain fdt dp (nodesl ?o d ks) (next_node_loop fdt (?o + int (length (enc_kids ks))) (dp (d - 1)))"
    using "3.IH"(2) [OF seg_append [OF s, THEN conjunct2]] "3.prems" m by simp
  have f: "next_node_loop fdt off (dp (d - 1)) = Inr (off, dp d)"
    using loop_begin [OF b, of off nm' _ dp "d - 1"] s "3.prems"(2,3) dp by (simp add: k)
  have l: "off + int (length (enc_kids (k # ks))) = ?o + int (length (enc_kids ks))" by (simp add: enc_kids_def)
  show ?case
  proof (cases ks)
    case Nil
    then show ?thesis unfolding l using 1 f by (simp add: enc_kids_def)
  next
    case (Cons k' ks')
    obtain nm' ps' ks'' where "k' = DNode nm' ps' ks''" by (cases k')
    then show ?thesis unfolding l using 1 2 f Cons by (simp add: chain_append add.assoc)
  qed
qed

section \<open>A flattened tree\<close>

definition flat :: "u8 list \<Rightarrow> u32 \<Rightarrow> u32 \<Rightarrow> u32 \<Rightarrow> dtree \<Rightarrow> bool" where
  "flat fdt st sz str t \<longleftrightarrow> blob fdt st sz str \<and> wf_tree t \<and> seg fdt st sz 0 (enc_node t @ enc32 FDT_END)"

definition kids_at :: "int \<Rightarrow> dtree \<Rightarrow> int" where
  "kids_at off n = off + int (length (enc_begin (dn_name n))) + int (length (enc_props (dn_props n)))"

definition node_at :: "u8 list \<Rightarrow> u32 \<Rightarrow> u32 \<Rightarrow> int \<Rightarrow> dtree \<Rightarrow> bool" where
  "node_at fdt st sz off n \<longleftrightarrow> wf_tree n \<and> off mod 4 = 0 \<and> seg fdt st sz off (enc_node n)"

lemma node_at_parts:
  assumes "node_at fdt st sz off (DNode nm ps ks)"
  shows "seg fdt st sz off (enc_begin nm @ enc_props ps @ enc_kids ks @ enc32 FDT_END_NODE)" "0 \<notin> set nm" "off mod 4 = 0"
    "seg fdt st sz (kids_at off (DNode nm ps ks)) (enc_kids ks @ enc32 FDT_END_NODE)" "kids_at off (DNode nm ps ks) mod 4 = 0"
    "\<forall>k \<in> set ks. wf_tree k"
proof -
  show s: "seg fdt st sz off (enc_begin nm @ enc_props ps @ enc_kids ks @ enc32 FDT_END_NODE)"
    using assms by (simp add: node_at_def enc_kids_def)
  show "seg fdt st sz (kids_at off (DNode nm ps ks)) (enc_kids ks @ enc32 FDT_END_NODE)"
    using seg_append [OF seg_append [OF s, THEN conjunct2]] by (simp add: kids_at_def)
  show "kids_at off (DNode nm ps ks) mod 4 = 0" using assms by (auto simp: node_at_def kids_at_def intro!: mod4_add)
qed (use assms in \<open>auto simp: node_at_def\<close>)

text \<open>Every node of the walk is at its place, and the walk goes forward.\<close>

lemma nodes_at:
  shows "node_at fdt st sz off n \<Longrightarrow> (off', d', n') \<in> set (nodes off d n) \<Longrightarrow> node_at fdt st sz off' n'"
    and "seg fdt st sz off (enc_kids ks @ bs) \<Longrightarrow> off mod 4 = 0 \<Longrightarrow> \<forall>k \<in> set ks. wf_tree k \<Longrightarrow>
      (off', d', n') \<in> set (nodesl off d ks) \<Longrightarrow> node_at fdt st sz off' n'"
proof (induction off d n and off d ks arbitrary: and bs rule: nodes_nodesl.induct)
  case (1 off d nm ps ks)
  then show ?case using node_at_parts(4-6) [OF "1.prems"(1)] by (auto simp: kids_at_def)
next
  case (3 off d k ks)
  have s: "seg fdt st sz off (enc_node k @ enc_kids ks @ bs)" using "3.prems"(1) by (simp add: enc_kids_def)
  have "node_at fdt st sz off k" using seg_append [OF s] "3.prems"(2,3) by (simp add: node_at_def)
  moreover have "(off + int (length (enc_node k))) mod 4 = 0" using "3.prems"(2) by (intro mod4_add) (simp_all add: enc_node_mod)
  ultimately show ?case using 3 seg_append [OF s] by auto
qed simp

lemma nodes_forward:
  shows "(off', d', n') \<in> set (nodes off d n) \<Longrightarrow> off \<le> off' \<and> off' < off + int (length (enc_node n)) \<and> d \<le> d'
      \<and> (off' = off \<longrightarrow> d' = d) \<and> (off' \<noteq> off \<longrightarrow> d < d')"
    and "(off', d', n') \<in> set (nodesl off d ks) \<Longrightarrow> off \<le> off' \<and> off' < off + int (length (enc_kids ks)) \<and> d \<le> d'"
proof (induction off d n and off d ks rule: nodes_nodesl.induct)
  case (1 off d nm ps ks)
  have l: "4 \<le> length (enc_begin nm)" by (simp add: enc_begin_def)
  from "1.prems" consider "(off', d', n') = (off, d, DNode nm ps ks)"
    | "(off', d', n') \<in> set (nodesl (off + int (length (enc_begin nm)) + int (length (enc_props ps))) (d + 1) ks)" by auto
  then show ?case
  proof cases
    case 1
    then show ?thesis using l by simp
  next
    case 2
    then show ?thesis using "1.IH" [OF 2] l by (simp add: enc_kids_def)
  qed
next
  case (3 off d k ks)
  have e: "int (length (enc_kids (k # ks))) = int (length (enc_node k)) + int (length (enc_kids ks))" by (simp add: enc_kids_def)
  from "3.prems" have "(off', d', n') \<in> set (nodes off d k) \<or> (off', d', n') \<in> set (nodesl (off + int (length (enc_node k))) d ks)" by simp
  then show ?case unfolding e using 3(1,2) by linarith
qed simp

lemma nodes_increasing:
  shows "sorted_wrt (\<lambda>x y. fst x < fst y) (nodes off d n)"
    and "sorted_wrt (\<lambda>x y. fst x < fst y) (nodesl off d ks)"
proof (induction off d n and off d ks rule: nodes_nodesl.induct)
  case (1 off d nm ps ks)
  let ?o = "off + int (length (enc_begin nm)) + int (length (enc_props ps))"
  have l: "4 \<le> length (enc_begin nm)" by (simp add: enc_begin_def)
  have "off < x" if "(x, e, n) \<in> set (nodesl ?o (d + 1) ks)" for x e n
    using nodes_forward(2) [OF that] l by linarith
  then show ?case using 1 by (auto simp del: of_nat_add)
next
  case (3 off d k ks)
  have "fst x < fst y" if "x \<in> set (nodes off d k)" "y \<in> set (nodesl (off + int (length (enc_node k))) d ks)" for x y
    using nodes_forward(1) [of "fst x" "fst (snd x)" "snd (snd x)" off d k]
      nodes_forward(2) [of "fst y" "fst (snd y)" "snd (snd y)" "off + int (length (enc_node k))" d ks] that by simp
  then show ?case using 3 by (simp add: sorted_wrt_append)
qed simp

section \<open>Children\<close>

fun kid_offsets :: "int \<Rightarrow> dtree list \<Rightarrow> int list" where
  "kid_offsets off [] = []"
| "kid_offsets off (k # ks) = off # kid_offsets (off + int (length (enc_node k))) ks"

lemma next_subnode_skip:
  assumes b: "blob fdt st sz str" and s: "seg fdt st sz off (enc_node k @ bs)" "off mod 4 = 0" "wf_tree k"
    and r: "next_node_loop fdt (off + int (length (enc_node k))) (Some 0) = Inr (o', d')" "d' = Some 1 \<or> d' = Some (- 1)"
  shows "fdt_next_subnode fdt off = Inr (if o' < 0 \<or> d' = Some (- 1) then - FDT_ERR_NOTFOUND else o')"
proof -
  obtain nm ps ks where k: "k = DNode nm ps ks" by (cases k)
  have c: "chain fdt Some (nodes off 1 k) (Inr (o', d'))"
    using nodes_chain(1) [OF b _ s(1,3,2), of Some 1] r(1) by (simp add: counts_def)
  have gen: "next_subnode_loop fdt x (Some d) = Inr (if o' < 0 \<or> d' = Some (- 1) then - FDT_ERR_NOTFOUND else o')"
    if "chain fdt Some ((x, d, n) # L) (Inr (o', d'))" "sorted_wrt (\<lambda>x y. fst x < fst y) ((x, d, n) # L)" "\<forall>(x, d, n) \<in> set L. 1 < d \<and> 0 \<le> x" for x d n L
    using that
  proof (induction L arbitrary: x d n)
    case Nil
    then show ?case using r(2) by (subst next_subnode_loop.simps) auto
  next
    case (Cons y L)
    obtain x2 d2 n2 where y: "y = (x2, d2, n2)" by (cases y)
    have "fdt_next_node fdt x (Some d) = Inr (x2, Some d2)" "1 < d2" "0 \<le> x2" "x < x2" using Cons.prems y by auto
    then have "next_subnode_loop fdt x (Some d) = next_subnode_loop fdt x2 (Some d2)"
      by (subst next_subnode_loop.simps) simp
    then show ?case using Cons.IH [of x2 d2 n2] Cons.prems y by simp
  qed
  have "\<forall>(x, d, n) \<in> set (tl (nodes off 1 k)). 1 < d \<and> 0 \<le> x"
  proof -
    have "0 \<le> off" using segD [OF s(1)] by simp
    then show ?thesis using nodes_forward(2) [of _ _ _ "kids_at off k" 2 ks]
      by (fastforce simp: k kids_at_def)
  qed
  then show ?thesis using gen [of off 1 k "tl (nodes off 1 k)"] c nodes_increasing(1) [of off 1 k]
    by (simp add: fdt_next_subnode_def k)
qed

lemma loop_end_0:
  assumes "blob fdt st sz str" "seg fdt st sz off (enc32 FDT_END_NODE @ bs)" "off mod 4 = 0"
  shows "next_node_loop fdt off (Some 0) = Inr (off + 4, Some (- 1))"
proof -
  have "seg fdt st sz off (enc32 FDT_END_NODE)" using seg_append [OF assms(2)] by blast
  from next_tag_plain [OF assms(1) this _ assms(3)] show ?thesis by (subst next_node_loop.simps) simp
qed

lemma subnodes_seg:
  assumes "blob fdt st sz str"
  shows "seg fdt st sz off (enc_kids ks @ enc32 FDT_END_NODE) \<Longrightarrow> off mod 4 = 0 \<Longrightarrow> \<forall>k \<in> set ks. wf_tree k \<Longrightarrow>
    subnodes_from fdt (if ks = [] then - FDT_ERR_NOTFOUND else off) = Inr (kid_offsets off ks)"
proof (induction ks arbitrary: off)
  case Nil
  then show ?case by (simp add: subnodes_from.simps)
next
  case (Cons k ks)
  let ?o = "off + int (length (enc_node k))"
  have s: "seg fdt st sz off (enc_node k @ enc_kids ks @ enc32 FDT_END_NODE)" using Cons.prems(1) by (simp add: enc_kids_def)
  have s': "seg fdt st sz ?o (enc_kids ks @ enc32 FDT_END_NODE)" using seg_append [OF s] by blast
  have m: "?o mod 4 = 0" using Cons.prems(2) by (intro mod4_add) (simp_all add: enc_node_mod)
  have pos: "0 \<le> off" "off < ?o" using segD [OF s] by (cases k; simp add: enc_begin_def)+
  have "fdt_next_subnode fdt off = Inr (if ks = [] then - FDT_ERR_NOTFOUND else ?o)"
  proof (cases ks)
    case Nil
    then have "next_node_loop fdt ?o (Some 0) = Inr (?o + 4, Some (- 1))"
      using loop_end_0 [OF assms, of ?o "[]"] s' m by (simp add: enc_kids_def)
    then show ?thesis using next_subnode_skip [OF assms s Cons.prems(2)] Cons.prems(3) Nil by simp
  next
    case (Cons k' ks')
    obtain nm ps js where k': "k' = DNode nm ps js" by (cases k')
    have "next_node_loop fdt ?o (Some 0) = Inr (?o, Some 1)"
      using loop_begin [OF assms, of ?o nm _ Some 0] s' m Cons.prems(3) Cons by (simp add: enc_kids_def k' counts_def)
    then show ?thesis using next_subnode_skip [OF assms s Cons.prems(2)] Cons.prems(3) Cons pos by simp
  qed
  then show ?case using Cons.IH [OF s' m] Cons.prems(3) pos by (simp add: subnodes_from.simps [of fdt off])
qed

lemma for_each_subnode_correct:
  assumes "blob fdt st sz str" "node_at fdt st sz off n"
  shows "fdt_for_each_subnode fdt off = Inr (kid_offsets (kids_at off n) (dn_kids n))"
proof -
  obtain nm ps ks where n: "n = DNode nm ps ks" by (cases n)
  note pt = node_at_parts [OF assms(2) [unfolded n]]
  let ?o = "kids_at off (DNode nm ps ks)"
  have nx: "fdt_next_node fdt off (Some 0) = next_node_loop fdt ?o (Some 0)"
    using next_node_seg [OF assms(1) pt(1-3)] by (simp add: kids_at_def)
  have "fdt_first_subnode fdt off = Inr (if ks = [] then - FDT_ERR_NOTFOUND else ?o)"
  proof (cases ks)
    case Nil
    then show ?thesis using nx loop_end_0 [OF assms(1), of ?o "[]"] pt(4,5) by (simp add: fdt_first_subnode_def enc_kids_def)
  next
    case (Cons k' ks')
    obtain nm' ps' js where k': "k' = DNode nm' ps' js" by (cases k')
    have "next_node_loop fdt ?o (Some 0) = Inr (?o, Some 1)"
      using loop_begin [OF assms(1), of ?o nm' _ Some 0] pt(4-6) Cons by (simp add: enc_kids_def k' counts_def)
    moreover have "0 \<le> ?o" using segD [OF pt(4)] by simp
    ultimately show ?thesis using nx Cons by (simp add: fdt_first_subnode_def)
  qed
  then show ?thesis using subnodes_seg [OF assms(1) pt(4-6)] by (simp add: fdt_for_each_subnode_def n)
qed

section \<open>Properties of a node\<close>

lemma unat_byte: "unat (byte c) = of_char c"
  by (simp add: byte_def unat_of_nat)

lemma char_of_byte [simp]: "char_of (unat (byte c)) = c"
  by (simp add: unat_byte)

lemma byte_inj: "byte c = byte d \<longleftrightarrow> c = d"
  by (metis char_of_byte)

lemma bytes_inj: "bytes s = bytes s' \<longleftrightarrow> s = s'"
  using inj_map_eq_map [of byte s s'] byte_inj by (simp add: bytes_def inj_def)

text \<open>The bytes at a pointer, and a string with its terminator.\<close>

definition bytes_at :: "u8 list \<Rightarrow> int \<Rightarrow> u8 list \<Rightarrow> bool" where
  "bytes_at fdt p bs \<longleftrightarrow> 0 \<le> p \<and> take (length bs) (drop (nat p) fdt) = bs"

definition str_at :: "u8 list \<Rightarrow> int \<Rightarrow> string \<Rightarrow> bool" where
  "str_at fdt p s \<longleftrightarrow> 0 \<notin> set (bytes s) \<and> bytes_at fdt p (bytes s @ [0])"

lemma bytes_at_Cons: "bytes_at fdt p (b # bs) \<longleftrightarrow> rd8 fdt p = Inr b \<and> bytes_at fdt (p + 1) bs"
proof (cases "0 \<le> p \<and> nat p < length fdt")
  case True
  then have "drop (nat p) fdt = fdt ! nat p # drop (nat (p + 1)) fdt" by (simp add: Cons_nth_drop_Suc nat_add_distrib)
  then show ?thesis using True by (auto simp: bytes_at_def rd8_def)
qed (auto simp: bytes_at_def rd8_def)

lemma bytes_at_prefix: "bytes_at fdt p (xs @ ys) \<Longrightarrow> bytes_at fdt p xs"
  by (induction xs arbitrary: p) (auto simp: bytes_at_Cons, auto simp: bytes_at_def)

lemma strlen_at_bytes: "0 \<notin> set bs \<Longrightarrow> bytes_at fdt p (bs @ [0]) \<Longrightarrow> strlen_at fdt p = Inr (length bs)"
  by (induction bs arbitrary: p) (auto simp: bytes_at_Cons strlen_at.simps [of fdt])

lemma memeq_at_bytes: "bytes_at fdt p bs \<Longrightarrow> length cs = length bs \<Longrightarrow> memeq_at fdt p cs = Inr (cs = bs)"
  by (induction bs arbitrary: p cs) (auto simp: bytes_at_Cons length_Suc_conv)

lemma string_eq:
  assumes "blob fdt st sz str" "str_at fdt (uint str + i32 no) nm"
  shows "fdt_string_eq fdt (i32 no) s = Inr (nm = s)"
proof -
  have l: "length (bytes s) = length s" for s by (simp add: bytes_def)
  have "bytes_at fdt (uint str + i32 no) (bytes nm)" using assms(2) by (auto simp: str_at_def dest: bytes_at_prefix)
  then have "memeq_at fdt (uint str + i32 no) (bytes s) = Inr (nm = s)" if "length nm = length s"
    using memeq_at_bytes [of fdt _ "bytes nm" "bytes s"] that by (auto simp: l bytes_inj)
  moreover have "strlen_at fdt (uint str + i32 no) = Inr (length nm)"
    using assms(2) strlen_at_bytes [of "bytes nm"] by (simp add: str_at_def l)
  ultimately show ?thesis by (auto simp: fdt_string_eq_def fdt_string_def blobD [OF assms(1)])
qed

fun find_prop :: "(u32 \<Rightarrow> string) \<Rightarrow> string \<Rightarrow> int \<Rightarrow> (u32 \<times> u8 list) list \<Rightarrow> (int \<times> u8 list) option" where
  "find_prop names s off [] = None"
| "find_prop names s off (p # ps) =
     (if names (fst p) = s then Some (off, snd p) else find_prop names s (off + int (length (enc_prop p))) ps)"

lemma nextprop_here:
  assumes "blob fdt st sz str" "seg fdt st sz off (enc_prop p @ bs)" "off mod 4 = 0"
  shows "nextprop fdt off = Inr off"
  using next_tag_prop [OF assms(1) seg_append [OF assms(2), THEN conjunct1] assms(3)] by (simp add: nextprop.simps)

lemma property_loop_seg:
  assumes b: "blob fdt st sz str"
  shows "seg fdt st sz off (enc_props ps @ bs) \<Longrightarrow> off mod 4 = 0 \<Longrightarrow>
    nextprop fdt (off + int (length (enc_props ps))) = Inr (- FDT_ERR_NOTFOUND) \<Longrightarrow>
    \<forall>p \<in> set ps. str_at fdt (uint str + i32 (fst p)) (names (fst p)) \<and> length (snd p) < 2 ^ 31 \<Longrightarrow>
    property_loop fdt (if ps = [] then - FDT_ERR_NOTFOUND else off) s = Inr (case find_prop names s off ps of
      None \<Rightarrow> (None, - FDT_ERR_NOTFOUND) | Some (o', v) \<Rightarrow> (Some (uint st + o'), int (length v)))"
proof (induction ps arbitrary: off)
  case Nil
  then show ?case by (simp add: property_loop.simps)
next
  case (Cons p ps)
  let ?o = "off + int (length (enc_prop p))"
  have s: "seg fdt st sz off (enc_prop p @ enc_props ps @ bs)" using Cons.prems(1) by (simp add: enc_props_def)
  have s': "seg fdt st sz ?o (enc_props ps @ bs)" using seg_append [OF s] by blast
  have m: "?o mod 4 = 0" by (rule mod4_add [OF Cons.prems(2)]) simp
  have pos: "0 \<le> off" "off < ?o" using segD [OF s] by (simp_all add: enc_prop_def)
  have tag: "fdt_next_tag fdt off = Inr (FDT_PROP, ?o)"
    by (rule next_tag_prop [OF b seg_append [OF s, THEN conjunct1] Cons.prems(2)])
  have e: "seg fdt st sz off (enc32 FDT_PROP @ enc32 (of_nat (length (snd p))) @ enc32 (fst p) @ pad4 (snd p))"
    using seg_append [OF s] by (simp add: enc_prop_def)
  have r4: "rd32 fdt (uint st + off + 4) = Inr (of_nat (length (snd p)))"
    using seg_rd32 [OF b seg_append [OF e, THEN conjunct2]] by (simp add: add.assoc)
  have r8: "rd32 fdt (uint st + off + 8) = Inr (fst p)"
    using seg_rd32 [OF b seg_append [OF seg_append [OF e, THEN conjunct2], THEN conjunct2]] by (simp add: add.assoc)
  have len: "i32 (of_nat (length (snd p))) = int (length (snd p))"
    using i32_w32 [of "int (length (snd p))"] Cons.prems(4) by (simp add: w32_def)
  have g: "fdt_get_property_by_offset fdt off = Inr (Some (uint st + off), int (length (snd p)))"
    using tag pos Cons.prems(2) by (simp add: fdt_get_property_by_offset_def fdt_check_prop_offset_def offset_ptr_def blobD [OF b] r4 len)
  have nx: "fdt_next_property_offset fdt off = Inr (if ps = [] then - FDT_ERR_NOTFOUND else ?o)"
  proof (cases ps)
    case Nil
    then show ?thesis using tag pos Cons.prems(2,3) by (simp add: fdt_next_property_offset_def fdt_check_prop_offset_def enc_props_def)
  next
    case (Cons p' ps')
    have "nextprop fdt ?o = Inr ?o" using nextprop_here [OF b, of ?o p'] s' m Cons by (simp add: enc_props_def)
    then show ?thesis using tag pos Cons.prems(2) Cons by (simp add: fdt_next_property_offset_def fdt_check_prop_offset_def)
  qed
  have eq: "fdt_string_eq fdt (i32 (fst p)) s = Inr (names (fst p) = s)" using string_eq [OF b] Cons.prems(4) by simp
  have "property_loop fdt off s = (if names (fst p) = s then Inr (Some (uint st + off), int (length (snd p)))
      else property_loop fdt (if ps = [] then - FDT_ERR_NOTFOUND else ?o) s)"
    using pos by (subst property_loop.simps) (simp add: g r8 eq nx)
  then show ?case using Cons.IH [OF s' m] Cons.prems(3,4) by (simp add: enc_props_def add.assoc)
qed

text \<open>The names of a node's properties are in the strings block.\<close>

definition named :: "u8 list \<Rightarrow> u32 \<Rightarrow> (u32 \<Rightarrow> string) \<Rightarrow> dtree \<Rightarrow> bool" where
  "named fdt str names n \<longleftrightarrow> (\<forall>p \<in> set (dn_props n). str_at fdt (uint str + i32 (fst p)) (names (fst p)))"

lemma first_property_seg:
  assumes b: "blob fdt st sz str" and n: "node_at fdt st sz off (DNode nm ps ks)"
  defines "po \<equiv> off + int (length (enc_begin nm))"
  shows "fdt_first_property_offset fdt off = Inr (if ps = [] then - FDT_ERR_NOTFOUND else po)"
    and "nextprop fdt (po + int (length (enc_props ps))) = Inr (- FDT_ERR_NOTFOUND)"
    and "seg fdt st sz po (enc_props ps @ enc_kids ks @ enc32 FDT_END_NODE)" "po mod 4 = 0"
proof -
  note pt = node_at_parts [OF n]
  have o: "0 \<le> off" "0 \<le> po" using segD [OF pt(1)] by (simp_all add: po_def)
  show s: "seg fdt st sz po (enc_props ps @ enc_kids ks @ enc32 FDT_END_NODE)" using seg_append [OF pt(1)] by (simp add: po_def)
  show m: "po mod 4 = 0" unfolding po_def by (rule mod4_add [OF pt(3)]) simp
  have ka: "kids_at off (DNode nm ps ks) = po + int (length (enc_props ps))" by (simp add: kids_at_def po_def)
  show e: "nextprop fdt (po + int (length (enc_props ps))) = Inr (- FDT_ERR_NOTFOUND)"
  proof (cases ks)
    case Nil
    have "fdt_next_tag fdt (po + int (length (enc_props ps))) = Inr (FDT_END_NODE, po + int (length (enc_props ps)) + 4)"
      by (rule next_tag_plain [OF b]) (use pt(4,5) Nil ka in \<open>simp_all add: enc_kids_def\<close>)
    then show ?thesis by (simp add: nextprop.simps)
  next
    case (Cons k' ks')
    obtain nm' ps' js where k': "k' = DNode nm' ps' js" by (cases k')
    have "seg fdt st sz (po + int (length (enc_props ps))) (enc_begin nm' @ (enc_props ps' @ concat (map enc_node js)
        @ enc32 FDT_END_NODE) @ enc_kids ks' @ enc32 FDT_END_NODE)"
      using pt(4) Cons ka by (simp add: enc_kids_def k')
    from next_tag_begin [OF b seg_append [OF this, THEN conjunct1]] pt(5,6) ka Cons k' show ?thesis
      by (simp add: nextprop.simps)
  qed
  have c: "fdt_check_node_offset fdt off = Inr po"
    using next_tag_begin [OF b seg_append [OF pt(1), THEN conjunct1] pt(2,3)] o pt(3) by (simp add: fdt_check_node_offset_def po_def)
  show "fdt_first_property_offset fdt off = Inr (if ps = [] then - FDT_ERR_NOTFOUND else po)"
  proof (cases ps)
    case Nil
    then show ?thesis using c o e by (simp add: fdt_first_property_offset_def enc_props_def)
  next
    case (Cons p ps')
    then have "nextprop fdt po = Inr po" using nextprop_here [OF b, of po p] s m by (simp add: enc_props_def)
    then show ?thesis using c o Cons by (simp add: fdt_first_property_offset_def)
  qed
qed

lemma find_prop_None: "find_prop names s off ps = None \<longleftrightarrow> find (\<lambda>p. names (fst p) = s) ps = None"
  by (induction ps arbitrary: off) auto

lemma find_prop_Some:
  "find_prop names s off ps = Some (o', v) \<Longrightarrow> seg fdt st sz off (enc_props ps @ bs) \<Longrightarrow>
     (\<exists>no. find (\<lambda>p. names (fst p) = s) ps = Some (no, v) \<and> seg fdt st sz o' (enc_prop (no, v)))"
proof (induction ps arbitrary: off)
  case (Cons p ps)
  have s: "seg fdt st sz off (enc_prop p @ enc_props ps @ bs)" using Cons.prems(2) by (simp add: enc_props_def)
  show ?case using Cons.prems(1) Cons.IH [OF _ seg_append [OF s, THEN conjunct2]] seg_append [OF s]
    by (cases p) (auto split: if_splits)
qed simp

lemma getprop_node:
  assumes b: "blob fdt st sz str" and n: "node_at fdt st sz off n" and nm: "named fdt str names n"
  shows "case find (\<lambda>p. names (fst p) = s) (dn_props n) of
      None \<Rightarrow> fdt_getprop fdt off s = Inr (None, - FDT_ERR_NOTFOUND)
    | Some (no, v) \<Rightarrow> \<exists>p. fdt_getprop fdt off s = Inr (Some p, int (length v)) \<and> bytes_at fdt p v"
proof -
  obtain nme ps ks where nd: "n = DNode nme ps ks" by (cases n)
  note fp = first_property_seg [OF b n [unfolded nd]]
  have "\<forall>p \<in> set ps. str_at fdt (uint str + i32 (fst p)) (names (fst p)) \<and> length (snd p) < 2 ^ 31"
    using nm n by (auto simp: named_def node_at_def nd)
  note l = property_loop_seg [OF b fp(3,4,2) this, of s]
  have g: "fdt_getprop fdt off s = Inr (case find_prop names s (off + int (length (enc_begin nme))) ps of
      None \<Rightarrow> (None, - FDT_ERR_NOTFOUND) | Some (o', v) \<Rightarrow> (Some (uint st + o' + 12), int (length v)))"
    using l by (simp add: fdt_getprop_def fdt_getprop_namelen_def fdt_get_property_namelen_def fp(1) split: option.split)
  show ?thesis
  proof (cases "find_prop names s (off + int (length (enc_begin nme))) ps")
    case None
    moreover from None have "find (\<lambda>p. names (fst p) = s) ps = None" by (simp only: find_prop_None)
    ultimately show ?thesis using g by (simp add: nd)
  next
    case (Some q)
    obtain o' v where q: "q = (o', v)" by (cases q)
    obtain no where f: "find (\<lambda>p. names (fst p) = s) ps = Some (no, v)" and sg: "seg fdt st sz o' (enc_prop (no, v))"
      using find_prop_Some [OF Some [unfolded q] fp(3)] by auto
    have "seg fdt st sz o' ((enc32 FDT_PROP @ enc32 (of_nat (length v)) @ enc32 no) @ v @ replicate ((4 - length v mod 4) mod 4) 0)"
      using sg by (simp add: enc_prop_def pad4_def)
    from seg_append [OF seg_append [OF this, THEN conjunct2], THEN conjunct1]
    have "bytes_at fdt (uint st + o' + 12) v" by (simp add: seg_def bytes_at_def add.assoc)
    then show ?thesis using g f by (simp add: nd Some q)
  qed
qed

section \<open>Parents\<close>

fun super :: "int \<Rightarrow> int \<Rightarrow> int \<Rightarrow> (int \<times> int \<times> dtree) list \<Rightarrow> int \<times> int" where
  "super y sd so [] = (so, 0)"
| "super y sd so ((x, d, n) # L) =
     (let so = (if d = sd then x else so) in if x = y then (so, d) else super y sd so L)"

lemma super_skip: "y \<notin> fst ` set P \<Longrightarrow> \<exists>so'. super y sd so (P @ Q) = super y sd so' Q \<and> ((\<forall>(x, d, n) \<in> set P. d \<noteq> sd) \<longrightarrow> so' = so)"
proof (induction P arbitrary: so)
  case (Cons p P)
  obtain x d n where p: "p = (x, d, n)" by (cases p)
  then have "y \<notin> fst ` set P" "x \<noteq> y" using Cons.prems by auto
  with Cons.IH [of "if d = sd then x else so"] show ?case by (auto simp: p Let_def)
qed auto

lemma kid_offsets_range: "y \<in> set (kid_offsets off ks) \<Longrightarrow> off \<le> y \<and> y < off + int (length (enc_kids ks))"
proof (induction ks arbitrary: off)
  case (Cons k ks)
  have "4 \<le> length (enc_node k)" by (cases k) (simp add: enc_begin_def)
  moreover have "int (length (enc_kids (k # ks))) = int (length (enc_node k)) + int (length (enc_kids ks))" by (simp add: enc_kids_def)
  ultimately show ?case using Cons.IH [of "off + int (length (enc_node k))"] Cons.prems by force
qed simp

lemma nodes_fst_range: "y \<in> fst ` set (nodes off d n) \<Longrightarrow> off \<le> y \<and> y < off + int (length (enc_node n))"
  using nodes_forward(1) by fastforce

lemma super_kids:
  assumes "sd < e"
  shows "y \<in> set (kid_offsets off ks) \<Longrightarrow> super y sd so (nodesl off e ks @ rest) = (so, e)"
proof (induction ks arbitrary: off)
  case (Cons k ks)
  obtain nm ps js where k: "k = DNode nm ps js" by (cases k)
  show ?case
  proof (cases "y = off")
    case True
    then show ?thesis using assms by (simp add: k)
  next
    case False
    then have y: "y \<in> set (kid_offsets (off + int (length (enc_node k))) ks)" using Cons.prems by simp
    then have "y \<notin> fst ` set (nodes off e k)" using kid_offsets_range [OF y] nodes_fst_range [of y off e k] by linarith
    from super_skip [OF this, of sd so "nodesl (off + int (length (enc_node k))) e ks @ rest"]
    obtain so' where "super y sd so (nodes off e k @ nodesl (off + int (length (enc_node k))) e ks @ rest)
        = super y sd so' (nodesl (off + int (length (enc_node k))) e ks @ rest)"
      "(\<forall>(x, d, n) \<in> set (nodes off e k). d \<noteq> sd) \<longrightarrow> so' = so" by blast
    moreover have "\<forall>(x, d, n) \<in> set (nodes off e k). d \<noteq> sd" using nodes_forward(1) assms by fastforce
    ultimately show ?thesis using Cons.IH [OF y] by simp
  qed
qed simp

lemma super_parent:
  shows "(x, d', n') \<in> set (nodes off d n) \<Longrightarrow> y \<in> set (kid_offsets (kids_at x n') (dn_kids n')) \<Longrightarrow>
      super y d' so (nodes off d n @ rest) = (x, d' + 1)"
    and "(x, d', n') \<in> set (nodesl off d ks) \<Longrightarrow> y \<in> set (kid_offsets (kids_at x n') (dn_kids n')) \<Longrightarrow>
      super y d' so (nodesl off d ks @ rest) = (x, d' + 1)"
proof (induction off d n and off d ks arbitrary: so rest and so rest rule: nodes_nodesl.induct)
  case (1 off d nm ps ks)
  let ?o = "off + int (length (enc_begin nm)) + int (length (enc_props ps))"
  have ka: "kids_at x n' > x"
    by (cases n') (simp add: kids_at_def enc_begin_def)
  then have yx: "x < y" using kid_offsets_range [OF "1.prems"(2)] by linarith
  show ?case
  proof (cases "(x, d', n') = (off, d, DNode nm ps ks)")
    case True
    then have "y \<in> set (kid_offsets ?o ks)" using "1.prems"(2) by (simp add: kids_at_def)
    then show ?thesis using super_kids [of d "d + 1" y ?o ks off rest] True yx by simp
  next
    case False
    then have i: "(x, d', n') \<in> set (nodesl ?o (d + 1) ks)" using "1.prems"(1) by auto
    have "off < y" using nodes_forward(2) [OF i] yx by linarith
    then show ?thesis using "1.IH" [OF i "1.prems"(2)] by simp
  qed
next
  case (3 off d k ks)
  let ?o = "off + int (length (enc_node k))"
  show ?case
  proof (cases "(x, d', n') \<in> set (nodes off d k)")
    case True
    then show ?thesis using "3.IH"(1) [OF True "3.prems"(2)] by simp
  next
    case False
    then have i: "(x, d', n') \<in> set (nodesl ?o d ks)" using "3.prems"(1) by simp
    have "kids_at x n' > x" by (cases n') (simp add: kids_at_def enc_begin_def)
    then have "?o < y" using kid_offsets_range [OF "3.prems"(2)] nodes_forward(2) [OF i] by linarith
    then have "y \<notin> fst ` set (nodes off d k)" using nodes_fst_range [of y off d k] by linarith
    from super_skip [OF this, of d' so "nodesl ?o d ks @ rest"] obtain so' where
      "super y d' so (nodes off d k @ nodesl ?o d ks @ rest) = super y d' so' (nodesl ?o d ks @ rest)" by blast
    then show ?thesis using "3.IH"(2) [OF i "3.prems"(2)] by simp
  qed
qed simp

lemma kids_in_nodes:
  shows "(x, d', n') \<in> set (nodes off d n) \<Longrightarrow> y \<in> set (kid_offsets (kids_at x n') (dn_kids n')) \<Longrightarrow> y \<in> fst ` set (nodes off d n)"
    and "(x, d', n') \<in> set (nodesl off d ks) \<Longrightarrow> y \<in> set (kid_offsets (kids_at x n') (dn_kids n')) \<Longrightarrow> y \<in> fst ` set (nodesl off d ks)"
proof (induction off d n and off d ks rule: nodes_nodesl.induct)
  case (1 off d nm ps ks)
  have "set (kid_offsets o' ks) \<subseteq> fst ` set (nodesl o' e ks)" for o' e
  proof (induction ks arbitrary: o')
    case (Cons k ks)
    then show ?case by (cases k) (auto simp: image_Un)
  qed simp
  then show ?case using 1 by (fastforce simp: kids_at_def)
qed auto

lemma supernode_list:
  assumes "chain fdt Some ((x, d, n) # L) r" "sorted_wrt (\<lambda>x y. fst x < fst y) ((x, d, n) # L)" "\<forall>z \<in> fst ` set L. 0 \<le> z" "0 \<le> x"
    and "y \<in> fst ` set ((x, d, n) # L)"
  shows "supernode_loop fdt y sd x d so = Inr (let (s', dy) = super y sd so ((x, d, n) # L) in
      (if sd > dy then - FDT_ERR_NOTFOUND else s', Some dy))"
  using assms
proof (induction L arbitrary: x d n so)
  case Nil
  then show ?case by (subst supernode_loop.simps) (auto simp: Let_def)
next
  case (Cons z L)
  obtain x2 d2 n2 where z: "z = (x2, d2, n2)" by (cases z)
  show ?case
  proof (cases "y = x")
    case True
    then show ?thesis using Cons.prems(4) by (subst supernode_loop.simps) (auto simp: Let_def)
  next
    case False
    have y: "y \<in> fst ` set ((x2, d2, n2) # L)" using Cons.prems(5) False z by auto
    have "x < y" using Cons.prems(2) y z by auto
    moreover have "fdt_next_node fdt x (Some d) = Inr (x2, Some d2)" "x < x2" "0 \<le> x2" using Cons.prems z by auto
    ultimately have "supernode_loop fdt y sd x d so = supernode_loop fdt y sd x2 d2 (if d = sd then x else so)"
      using Cons.prems(4) by (subst supernode_loop.simps) (simp add: Let_def)
    also have "\<dots> = Inr (let (s', dy) = super y sd (if d = sd then x else so) ((x2, d2, n2) # L) in
      (if sd > dy then - FDT_ERR_NOTFOUND else s', Some dy))"
      using Cons.prems z y by (intro Cons.IH) auto
    finally show ?thesis using False z by (simp add: Let_def)
  qed
qed

section \<open>The whole tree\<close>

lemma flatD: "flat fdt st sz str t \<Longrightarrow> blob fdt st sz str" "flat fdt st sz str t \<Longrightarrow> node_at fdt st sz 0 t"
  unfolding flat_def node_at_def using seg_append by fastforce+

lemma root_chain:
  assumes "flat fdt st sz str t"
  shows "chain fdt Some (nodes 0 0 t) (Inr (int (length (enc_node t)), Some (- 1)))"
    and "chain fdt (\<lambda>_. None) (nodes 0 0 t) (Inr (- FDT_ERR_NOTFOUND, None))"
proof -
  obtain nm ps ks where t: "t = DNode nm ps ks" by (cases t)
  let ?o = "kids_at 0 t" and ?e = "kids_at 0 t + int (length (enc_kids ks))"
  note b = flatD(1) [OF assms] and pt = node_at_parts [OF flatD(2) [OF assms, unfolded t], folded t]
  have s: "seg fdt st sz 0 (enc_begin nm @ enc_props ps @ enc_kids ks @ enc32 FDT_END_NODE @ enc32 FDT_END)"
    using assms by (simp add: flat_def t enc_kids_def)
  have sk: "seg fdt st sz ?o (enc_kids ks @ enc32 FDT_END_NODE @ enc32 FDT_END)"
    using seg_append [OF seg_append [OF s, THEN conjunct2]] by (simp add: kids_at_def t)
  have se: "seg fdt st sz ?e (enc32 FDT_END_NODE @ enc32 FDT_END)" using seg_append [OF sk] by blast
  have "length (enc_kids ks) mod 4 = 0" unfolding enc_kids_def by (induction ks) (simp_all add: enc_node_mod mod_add_eq [symmetric])
  then have me: "?e mod 4 = 0" using pt(5) by (intro mod4_add)
  have nx: "fdt_next_node fdt 0 dep = next_node_loop fdt ?o dep" for dep
    using next_node_seg [OF b s pt(2,3), of dep] by (simp add: kids_at_def t)
  have len: "?e + 4 = int (length (enc_node t))" by (simp add: t kids_at_def enc_kids_def)
  have fin: "next_node_loop fdt ?e (Some 0) = Inr (int (length (enc_node t)), Some (- 1))" using loop_end_0 [OF b se me] len by simp
  have tag: "fdt_next_tag fdt ?e = Inr (FDT_END_NODE, ?e + 4)" "fdt_next_tag fdt (?e + 4) = Inr (FDT_END, ?e + 4 + 4)"
  proof -
    have m: "(?e + 4) mod 4 = 0" using me by presburger
    have e: "seg fdt st sz (?e + 4) (enc32 FDT_END)" using seg_append [OF se] by simp
    show "fdt_next_tag fdt ?e = Inr (FDT_END_NODE, ?e + 4)"
      by (rule next_tag_plain [OF b seg_append [OF se, THEN conjunct1] _ me]) simp
    show "fdt_next_tag fdt (?e + 4) = Inr (FDT_END, ?e + 4 + 4)" by (rule next_tag_plain [OF b e _ m]) simp
  qed
  have "0 \<le> ?e" using segD [OF se] by simp
  then have fin': "next_node_loop fdt ?e None = Inr (- FDT_ERR_NOTFOUND, None)"
    by (subst next_node_loop.simps, simp add: tag, subst next_node_loop.simps, simp add: tag)
  have ch: "chain fdt dp (nodes 0 0 t) (next_node_loop fdt ?e (dp 0))" if "counts dp" for dp
  proof (cases ks)
    case Nil
    then show ?thesis using nx by (simp add: t enc_kids_def)
  next
    case (Cons k ks')
    obtain nm' ps' js where k: "k = DNode nm' ps' js" by (cases k)
    show ?thesis using nodes_chain(2) [OF b that sk pt(6,5), of 1] nx Cons by (simp add: t k kids_at_def)
  qed
  from ch [of Some] fin show "chain fdt Some (nodes 0 0 t) (Inr (int (length (enc_node t)), Some (- 1)))" by (simp add: counts_def)
  from ch [of "\<lambda>_. None"] fin' show "chain fdt (\<lambda>_. None) (nodes 0 0 t) (Inr (- FDT_ERR_NOTFOUND, None))" by (simp add: counts_def)
qed

lemma super_depth: "snd (super y sd so L) = snd (super y sd' so' L)"
  by (induction L arbitrary: so so') (auto simp: Let_def)

lemma super_root:
  assumes "\<forall>(x, d, n) \<in> set L. 0 < d"
  shows "fst (super y 0 so L) = so"
  using assms by (induction L) (auto simp: Let_def)

lemma supernode_root:
  assumes f: "flat fdt st sz str t" and y: "y \<in> fst ` set (nodes 0 0 t)" "0 \<le> sd"
  shows "fdt_supernode_atdepth_offset fdt y sd = Inr (let (s', dy) = super y sd (- FDT_ERR_INTERNAL) (nodes 0 0 t) in
      (if sd > dy then - FDT_ERR_NOTFOUND else s', Some dy))"
proof -
  obtain nm ps ks where t: "t = DNode nm ps ks" by (cases t)
  define L where "L = nodesl (int (length (enc_begin nm)) + int (length (enc_props ps))) 1 ks"
  have L: "nodes 0 0 t = (0, 0, t) # L" by (simp add: t L_def)
  have "\<forall>z \<in> fst ` set L. 0 \<le> z" using nodes_forward(2) [of _ _ _ "int (length (enc_begin nm)) + int (length (enc_props ps))" 1 ks]
    by (fastforce simp: L_def)
  from supernode_list [OF root_chain(1) [OF f, unfolded L] nodes_increasing(1) [of 0 0 t, unfolded L] this, of y sd "- FDT_ERR_INTERNAL"] y
  show ?thesis by (simp add: fdt_supernode_atdepth_offset_def blobD [OF flatD(1) [OF f]] L)
qed

lemma parent_of_kid:
  assumes f: "flat fdt st sz str t" and x: "(x, d, n) \<in> set (nodes 0 0 t)"
    and y: "y \<in> set (kid_offsets (kids_at x n) (dn_kids n))"
  shows "fdt_parent_offset fdt y = Inr x"
proof -
  have in_nodes: "y \<in> fst ` set (nodes 0 0 t)" by (rule kids_in_nodes(1) [OF x y])
  have d: "0 \<le> d" using nodes_forward(1) [OF x] by simp
  have sp: "super y d so (nodes 0 0 t) = (x, d + 1)" for so using super_parent(1) [OF x y, of so "[]"] by simp
  obtain nm ps ks where t: "t = DNode nm ps ks" by (cases t)
  define L where "L = nodesl (int (length (enc_begin nm)) + int (length (enc_props ps))) 1 ks"
  have L: "nodes 0 0 t = (0, 0, t) # L" by (simp add: t L_def)
  have "0 \<le> x" "x < kids_at x n" using nodes_forward(1) [OF x] by (cases n; simp add: kids_at_def enc_begin_def)+
  then have y0: "0 < y" using kid_offsets_range [OF y] by linarith
  have "\<forall>(x, d, n) \<in> set L. 0 < d" using nodes_forward(2) [of _ _ _ _ 1 ks] by (fastforce simp: L_def)
  then have "fst (super y 0 (- FDT_ERR_INTERNAL) (nodes 0 0 t)) = 0" using super_root [of L y 0] y0 by (simp add: L)
  moreover have "snd (super y 0 (- FDT_ERR_INTERNAL) (nodes 0 0 t)) = d + 1"
    using super_depth [of y 0 _ _ d 0] sp [of 0] by simp
  ultimately have "super y 0 (- FDT_ERR_INTERNAL) (nodes 0 0 t) = (0, d + 1)" by (metis prod.collapse)
  then have "fdt_node_depth fdt y = Inr (d + 1)"
    using supernode_root [OF f in_nodes, of 0] d by (simp add: fdt_node_depth_def)
  then show "fdt_parent_offset fdt y = Inr x"
    using supernode_root [OF f in_nodes d] sp [of "- FDT_ERR_INTERNAL"] d by (simp add: fdt_parent_offset_def)
qed

text \<open>C18: Walking a flattened tree. From any node of the tree, \<open>fdt_for_each_subnode\<close> visits exactly its children,
  in order, and \<open>fdt_parent_offset\<close> leads from each of them back to the node.\<close>

theorem fdt_walk_correct:
  assumes f: "flat fdt st sz str t" and x: "(x, d, n) \<in> set (nodes 0 0 t)"
  shows "fdt_for_each_subnode fdt x = Inr (kid_offsets (kids_at x n) (dn_kids n))
    \<and> (\<forall>y \<in> set (kid_offsets (kids_at x n) (dn_kids n)). fdt_parent_offset fdt y = Inr x)"
proof
  note b = flatD(1) [OF f]
  have "node_at fdt st sz x n" by (rule nodes_at(1) [OF flatD(2) [OF f] x])
  then show "fdt_for_each_subnode fdt x = Inr (kid_offsets (kids_at x n) (dn_kids n))" by (rule for_each_subnode_correct [OF b])
  show "\<forall>y \<in> set (kid_offsets (kids_at x n) (dn_kids n)). fdt_parent_offset fdt y = Inr x" using parent_of_kid [OF f x] by blast
qed

section \<open>Searching\<close>

definition prop_of :: "(u32 \<Rightarrow> string) \<Rightarrow> string \<Rightarrow> dtree \<Rightarrow> u8 list option" where
  "prop_of names s n = map_option snd (find (\<lambda>p. names (fst p) = s) (dn_props n))"

definition node_phandle :: "(u32 \<Rightarrow> string) \<Rightarrow> dtree \<Rightarrow> u32" where
  "node_phandle names n =
     (case prop_of names ''phandle'' n of Some v \<Rightarrow> if length v = 4 then fdt32_to_cpu v else 0 | None \<Rightarrow> 0)"

lemma getprop_Some:
  assumes "blob fdt st sz str" "node_at fdt st sz off n" "named fdt str names n" "prop_of names s n = Some v"
  obtains p where "fdt_getprop fdt off s = Inr (Some p, int (length v))" "bytes_at fdt p v"
  using getprop_node [OF assms(1-3), of s] assms(4) by (auto simp: prop_of_def split: option.splits)

lemma getprop_None:
  assumes "blob fdt st sz str" "node_at fdt st sz off n" "named fdt str names n" "prop_of names s n = None"
  shows "fdt_getprop fdt off s = Inr (None, - FDT_ERR_NOTFOUND)"
  using getprop_node [OF assms(1-3), of s] assms(4) by (auto simp: prop_of_def split: option.splits)

lemma bytes_at_rd32:
  assumes "bytes_at fdt p v" "length v = 4"
  shows "rd32 fdt p = Inr (fdt32_to_cpu v)"
proof -
  have t: "take 4 (drop (nat p) fdt) = v" "0 \<le> p" using assms by (auto simp: bytes_at_def)
  then have "length (take 4 (drop (nat p) fdt)) = 4" using assms(2) by simp
  then have "nat p + 4 \<le> length fdt" by simp
  then show ?thesis using t by (simp add: rd32_def)
qed

text \<open>A node without the old property \<open>linux,phandle\<close>.\<close>

lemma get_phandle_node:
  assumes "blob fdt st sz str" "node_at fdt st sz off n" "named fdt str names n" "prop_of names ''linux,phandle'' n = None"
  shows "fdt_get_phandle fdt off = Inr (node_phandle names n)"
proof (cases "prop_of names ''phandle'' n")
  case None
  then show ?thesis using getprop_None [OF assms] getprop_None [OF assms(1-3) None]
    by (simp add: fdt_get_phandle_def node_phandle_def)
next
  case (Some v)
  obtain p where "fdt_getprop fdt off ''phandle'' = Inr (Some p, int (length v))" "bytes_at fdt p v"
    by (rule getprop_Some [OF assms(1-3) Some])
  then show ?thesis using getprop_None [OF assms] Some bytes_at_rd32 [of fdt p v]
    by (simp add: fdt_get_phandle_def node_phandle_def)
qed

lemma phandle_list:
  assumes "chain fdt (\<lambda>_. None) ((x, d, n) # L) (Inr (- FDT_ERR_NOTFOUND, None))" "sorted_wrt (\<lambda>x y. fst x < fst y) ((x, d, n) # L)"
    and "\<forall>(x, d, n) \<in> set ((x, d, n) # L). 0 \<le> x \<and> fdt_get_phandle fdt x = Inr (f n)"
  shows "phandle_loop fdt x ph = Inr (case find (\<lambda>(x, d, n). f n = ph) ((x, d, n) # L) of None \<Rightarrow> - FDT_ERR_NOTFOUND | Some (x, d, n) \<Rightarrow> x)"
  using assms
proof (induction L arbitrary: x d n)
  case Nil
  then show ?case
    by (subst phandle_loop.simps) (auto simp: phandle_loop.simps [of fdt "- 1" ph])
next
  case (Cons z L)
  obtain x2 d2 n2 where z: "z = (x2, d2, n2)" by (cases z)
  have h: "0 \<le> x" "fdt_get_phandle fdt x = Inr (f n)" "fdt_next_node fdt x None = Inr (x2, None)" "x < x2"
    using Cons.prems z by auto
  have "phandle_loop fdt x2 ph = Inr (case find (\<lambda>(x, d, n). f n = ph) ((x2, d2, n2) # L) of None \<Rightarrow> - FDT_ERR_NOTFOUND | Some (x, d, n) \<Rightarrow> x)"
    using Cons.prems z by (intro Cons.IH) auto
  then show ?case using h z by (subst phandle_loop.simps) auto
qed

lemma root_first:
  assumes "flat fdt st sz str t"
  shows "fdt_next_node fdt (- 1) None = Inr (0, None)"
proof -
  obtain nm ps ks where t: "t = DNode nm ps ks" by (cases t)
  have "seg fdt st sz 0 (enc_begin nm @ (enc_props ps @ concat (map enc_node ks) @ enc32 FDT_END_NODE) @ enc32 FDT_END)"
    using assms by (simp add: flat_def t)
  from loop_begin [OF flatD(1) [OF assms] this, of "\<lambda>_. None" 0] assms show ?thesis by (simp add: fdt_next_node_def flat_def t counts_def)
qed


section \<open>Flattening\<close>

text \<open>The memory a compiler of device trees writes for a tree and a block of names.\<close>

definition fdt_struct :: "dtree \<Rightarrow> u8 list" where
  "fdt_struct t = enc_node t @ enc32 FDT_END"

definition flatten :: "dtree \<Rightarrow> u8 list \<Rightarrow> u8 list" where
  "flatten t strs =
     (let n = length (fdt_struct t) in
      concat (map enc32 [FDT_MAGIC, of_nat (40 + n + length strs), 40, of_nat (40 + n), 40, 17, 16, 0, of_nat (length strs), of_nat n])
      @ fdt_struct t @ strs)"

lemma flatten_header:
  "take 40 (flatten t strs) = concat (map enc32 [FDT_MAGIC, of_nat (40 + length (fdt_struct t) + length strs), 40,
     of_nat (40 + length (fdt_struct t)), 40, 17, 16, 0, of_nat (length strs), of_nat (length (fdt_struct t))])"
  "drop 40 (flatten t strs) = fdt_struct t @ strs" "length (flatten t strs) = 40 + length (fdt_struct t) + length strs"
  by (simp_all add: flatten_def Let_def)

lemma rd32_header:
  assumes "length fdt \<ge> 40" "take 40 fdt = concat (map enc32 ws)" "i < 10" "length ws = 10"
  shows "rd32 fdt (4 * int i) = Inr (ws ! i)"
proof -
  have l: "i \<in> {0, 1, 2, 3, 4, 5, 6, 7, 8, 9}" using assms(3) by auto
  have "take 4 (drop (4 * i) fdt) = take 4 (drop (4 * i) (take 40 fdt))" using assms(3) by (simp add: take_drop min_def)
  also have "\<dots> = enc32 (ws ! i)"
  proof -
    obtain a b c d e f g h j k where "ws = [a, b, c, d, e, f, g, h, j, k]"
      using assms(4) by (auto simp: length_Suc_conv numeral_eq_Suc)
    then show ?thesis unfolding assms(2) using l by auto
  qed
  finally show ?thesis using assms(1,3) by (simp add: rd32_def nat_mult_distrib)
qed

lemma flatten_flat:
  assumes "wf_tree t" "length (fdt_struct t) + length strs + 40 < 2 ^ 31 - 4"
  shows "flat (flatten t strs) 40 (of_nat (length (fdt_struct t))) (of_nat (40 + length (fdt_struct t))) t"
proof -
  let ?f = "flatten t strs" and ?n = "length (fdt_struct t)"
  note h = rd32_header [OF _ flatten_header(1) [of t strs]]
  have l: "40 \<le> length ?f" by (simp add: flatten_header)
  have n: "uint (of_nat ?n :: u32) = int ?n" using assms(2) uint_w32 [of "int ?n"] by (simp add: w32_def)
  have "fdt_magic ?f = Inr FDT_MAGIC" "fdt_version ?f = Inr 17" "fdt_last_comp_version ?f = Inr 16" "fdt_off_dt_struct ?f = Inr 40"
    "fdt_size_dt_struct ?f = Inr (of_nat ?n)" "fdt_off_dt_strings ?f = Inr (of_nat (40 + ?n))"
    using h [OF l, of 0] h [OF l, of 5] h [OF l, of 6] h [OF l, of 2] h [OF l, of 9] h [OF l, of 3]
    by (simp_all add: fdt_magic_def fdt_version_def fdt_last_comp_version_def fdt_off_dt_struct_def fdt_size_dt_struct_def fdt_off_dt_strings_def)
  then have "blob ?f 40 (of_nat ?n) (of_nat (40 + ?n))"
    using assms(2) n by (simp add: blob_def fdt_check_header_def flatten_header(3))
  moreover have "seg ?f 40 (of_nat ?n) 0 (fdt_struct t)"
    using n by (simp add: seg_def flatten_header(2))
  ultimately show ?thesis using assms(1) by (simp add: flat_def fdt_struct_def)
qed

lemma flatten_str:
  assumes "length (fdt_struct t) + length strs + 40 < 2 ^ 31" "no + length s < length strs" "take (length s + 1) (drop no strs) = bytes s @ [0]" "0 \<notin> set (bytes s)"
  shows "str_at (flatten t strs) (uint (of_nat (40 + length (fdt_struct t)) :: u32) + i32 (of_nat no)) s"
proof -
  let ?n = "length (fdt_struct t)"
  have u: "uint (of_nat (40 + ?n) :: u32) = int (40 + ?n)" using assms(1) uint_w32 [of "int (40 + ?n)"] by (simp add: w32_def)
  have i: "i32 (of_nat no) = int no" using i32_w32 [of "int no"] assms(1,2) by (simp add: w32_def)
  have "drop (40 + ?n + no) (flatten t strs) = drop no strs"
    using flatten_header(2) [of t strs] by (metis append_eq_conv_conj drop_drop add.assoc add.commute)
  moreover have "nat (int (40 + ?n) + int no) = 40 + ?n + no" by simp
  ultimately show ?thesis using assms(3,4) unfolding str_at_def bytes_at_def u i by (simp add: bytes_def)
qed

text \<open>An example: a bus with two devices.\<close>

definition ex_names :: "u8 list" where "ex_names = bytes ''reg'' @ [0] @ bytes ''phandle'' @ [0]"

definition ex_name :: "u32 \<Rightarrow> string" where "ex_name no = (if no = 0 then ''reg'' else ''phandle'')"

definition ex_kid1 :: dtree where "ex_kid1 = DNode (bytes ''csu'') [(0, enc32 0x021C0000)] []"
definition ex_kid2 :: dtree where "ex_kid2 = DNode (bytes ''gpio'') [(0, enc32 0x0209C000), (4, enc32 7)] []"
definition ex_tree :: dtree where "ex_tree = DNode [] [] [ex_kid1, ex_kid2]"

lemma ex_lengths: "length (enc_node ex_kid1) = 28" "length (enc_node ex_kid2) = 48" "length (fdt_struct ex_tree) = 92" "length ex_names = 12"
  by (simp_all add: ex_kid1_def ex_kid2_def ex_tree_def fdt_struct_def enc_begin_def enc_props_def enc_prop_def pad4_length bytes_def ex_names_def)

lemma ex_flat: "flat (flatten ex_tree ex_names) 40 92 132 ex_tree"
proof -
  have "wf_tree ex_tree" by (simp add: ex_tree_def ex_kid1_def ex_kid2_def bytes_def byte_def enc32_def)
  from flatten_flat [OF this, of ex_names] show ?thesis by (simp add: ex_lengths)
qed

lemma ex_nodes: "nodes 0 0 ex_tree = [(0, 0, ex_tree), (8, 1, ex_kid1), (36, 1, ex_kid2)]"
proof -
  have "nodes off d ex_kid1 = [(off, d, ex_kid1)]" "nodes off d ex_kid2 = [(off, d, ex_kid2)]" for off d
    by (simp_all add: ex_kid1_def ex_kid2_def)
  then show ?thesis using ex_lengths(1) by (simp add: ex_tree_def enc_begin_def enc_props_def pad4_length)
qed

lemma ex_named: "named (flatten ex_tree ex_names) 132 ex_name n" if "n \<in> {ex_tree, ex_kid1, ex_kid2}"
proof -
  have "str_at (flatten ex_tree ex_names) (uint (132 :: u32) + i32 0) ''reg''"
    using flatten_str [of ex_tree ex_names 0 "''reg''"] by (simp add: ex_lengths ex_names_def bytes_def byte_def)
  moreover have "str_at (flatten ex_tree ex_names) (uint (132 :: u32) + i32 4) ''phandle''"
    using flatten_str [of ex_tree ex_names 4 "''phandle''"] by (simp add: ex_lengths ex_names_def bytes_def byte_def)
  ultimately show ?thesis using that
    by (auto simp: named_def ex_tree_def ex_kid1_def ex_kid2_def ex_name_def)
qed

theorem fdt_walk_correct_witness:
  "fdt_for_each_subnode (flatten ex_tree ex_names) 0 = Inr [8, 36]
   \<and> fdt_parent_offset (flatten ex_tree ex_names) 8 = Inr 0 \<and> fdt_parent_offset (flatten ex_tree ex_names) 36 = Inr 0"
proof -
  have "(0, 0, ex_tree) \<in> set (nodes 0 0 ex_tree)" by (simp add: ex_nodes)
  from fdt_walk_correct [OF ex_flat this]
  show ?thesis using ex_lengths(1) by (simp add: ex_tree_def kids_at_def enc_begin_def enc_props_def pad4_length)
qed


end
