(* ===== verification/Fdt_Bounds.thy ===== *)
theory Fdt_Bounds
  imports Fdt_Tree
begin

unbundle bit_operations_syntax

text \<open>
  How libfdt behaves on a structure block it should not trust. With a sound header, and whatever bytes the
  block holds, the walks of fdt.c and fdt\_ro.c read no byte outside the memory of the tree. They may run
  forever: a property length close to the top of the number range leads back to the same tag.
\<close>

section \<open>Safe results\<close>

definition safe :: "('a \<Rightarrow> bool) \<Rightarrow> 'a res \<Rightarrow> bool" where
  "safe P r \<longleftrightarrow> (case r of Inl e \<Rightarrow> e = Hang | Inr x \<Rightarrow> P x)"

lemma safe_simps [simp]: "safe P (Inr x) = P x" "safe P (Inl e) = (e = Hang)"
  by (simp_all add: safe_def)

lemma safe_bind: "safe P r \<Longrightarrow> (\<And>x. r = Inr x \<Longrightarrow> P x \<Longrightarrow> safe Q (f x)) \<Longrightarrow> safe Q (bindE r f)"
  by (cases r) simp_all

definition rng :: "int \<Rightarrow> bool" where "rng x \<longleftrightarrow> - (2 ^ 31) \<le> x \<and> x < 2 ^ 31"

lemma rng_i32 [simp]: "rng (i32 w)"
  using sint_lt [of w] sint_ge [of w] by (simp add: rng_def i32_def)

lemma rng_err [simp]: "rng (- numeral n) = (numeral n \<le> (2 ^ 31 :: int))" "rng (- 1)" "rng 0"
  by (auto simp: rng_def)

section \<open>Tags\<close>

lemma offset_ptr_cases:
  assumes b: "blob fdt st sz str" and o: "rng off"
  obtains "fdt_offset_ptr fdt off len = Inr None"
  | "fdt_offset_ptr fdt off len = Inr (Some (uint st + off))" "0 \<le> off" "off + uint len \<le> uint sz"
proof (cases "w32 off + len < w32 off \<or> w32 off + len > sz")
  case True
  then show ?thesis using that(1) by (simp add: fdt_offset_ptr_def blobD [OF b])
next
  case False
  then have le: "w32 off \<le> w32 off + len" "w32 off + len \<le> sz" by auto
  then have u: "uint (w32 off + len) = uint (w32 off) + uint len"
    by (simp add: uint_plus_simple_iff)
  have pos: "0 \<le> off"
  proof (rule ccontr)
    assume "\<not> 0 \<le> off"
    then have "(off + 2 ^ 32) mod 2 ^ 32 = off + 2 ^ 32" using o by (intro mod_pos_pos_trivial) (simp_all add: rng_def)
    then have "uint (w32 off) = off + 2 ^ 32" by (simp add: w32_def uint_word_of_int)
    moreover have "uint (w32 off + len) \<le> uint sz" using le(2) by (simp add: word_le_def)
    ultimately show False using u blobD(7) [OF b] o by (simp add: rng_def) (use uint_ge_0 [of len] in linarith)
  qed
  then have "uint (w32 off) = off" using o by (simp add: uint_w32 rng_def)
  then have "off + uint len \<le> uint sz" using le(2) u by (simp add: word_le_def)
  then show ?thesis using that(2) pos False by (simp add: fdt_offset_ptr_def blobD [OF b] offset_ptr_def)
qed

lemma rd32_safe:
  assumes "blob fdt st sz str" "0 \<le> off" "off + 4 \<le> uint sz"
  shows "\<exists>w. rd32 fdt (uint st + off) = Inr w"
proof -
  have "int (nat (uint st + off)) = uint st + off" using assms(2) uint_ge_0 [of st] by simp
  then have "nat (uint st + off) + 4 \<le> length fdt" using blobD(6) [OF assms(1)] assms(3) by linarith
  then show ?thesis using assms(2) uint_ge_0 [of st] by (simp add: rd32_def)
qed

lemma rd8_safe:
  assumes "blob fdt st sz str" "0 \<le> off" "off + 1 \<le> uint sz"
  shows "\<exists>w. rd8 fdt (uint st + off) = Inr w"
proof -
  have "int (nat (uint st + off)) = uint st + off" using assms(2) uint_ge_0 [of st] by simp
  then have "nat (uint st + off) < length fdt" using blobD(6) [OF assms(1)] assms(3) by linarith
  then show ?thesis using assms(2) uint_ge_0 [of st] by (simp add: rd8_def)
qed

lemma skip_name_safe:
  "blob fdt st sz str \<Longrightarrow> 0 \<le> off \<Longrightarrow> rng off \<Longrightarrow> safe (\<lambda>r. \<forall>e. r = Some e \<longrightarrow> off < e \<and> e \<le> uint sz) (skip_name fdt off)"
proof (induction fdt off rule: skip_name.induct)
  case (1 fdt off)
  note b = "1.prems"(1)
  from offset_ptr_cases [OF b "1.prems"(3), of 1] show ?case
  proof cases
    case 1
    then show ?thesis by (subst skip_name.simps) simp
  next
    case 2
    obtain c where c: "rd8 fdt (uint st + off) = Inr c" using rd8_safe [OF b 2(2)] 2(3) by auto
    have "rng (off + 1)" using 2 blobD(7) [OF b] by (simp add: rng_def)
    from "1.IH" [OF 2(1) refl c _ b _ this] have ih: "c \<noteq> 0 \<Longrightarrow> safe (\<lambda>r. \<forall>e. r = Some e \<longrightarrow> off + 1 < e \<and> e \<le> uint sz) (skip_name fdt (off + 1))"
      using 2(2) by simp
    show ?thesis
    proof (cases "c = 0")
      case True
      then show ?thesis using 2 c by (subst skip_name.simps) simp
    next
      case False
      then have "safe (\<lambda>r. \<forall>e. r = Some e \<longrightarrow> off < e \<and> e \<le> uint sz) (skip_name fdt (off + 1))"
        using ih by (cases "skip_name fdt (off + 1)") auto
      then show ?thesis using 2 c False by (subst skip_name.simps) simp
    qed
  qed
qed

lemma next_tag_safe:
  assumes b: "blob fdt st sz str" and o: "rng off"
  shows "safe (\<lambda>(tag, nx). rng nx \<and> (tag = FDT_END \<or> 0 \<le> off \<and> off + 4 \<le> uint sz)) (fdt_next_tag fdt off)"
  using offset_ptr_cases [OF b o, of 4]
proof cases
  case 1
  then show ?thesis by (simp add: fdt_next_tag_def)
next
  case 2
  obtain tag where tag: "rd32 fdt (uint st + off) = Inr tag" using rd32_safe [OF b 2(2)] 2(3) by auto
  have o4: "i32 (w32 off + 4) = off + 4" "rng (off + 4)" using i32_w32 [of "off + 4"] 2 blobD(7) [OF b] by (simp_all add: w32_def rng_def)
  have te: "safe (\<lambda>_. True) (tag_end fdt tag (off + 4))"
  proof -
    have "safe (\<lambda>_. True) (skip_name fdt (off + 4))"
      using skip_name_safe [OF b, of "off + 4"] 2(2) o4(2) by (cases "skip_name fdt (off + 4)") auto
    moreover have "safe (\<lambda>_. True) (bindE (fdt_offset_ptr fdt (off + 4) 4) (\<lambda>lenp. case lenp of None \<Rightarrow> Inr None
        | Some q \<Rightarrow> bindE (rd32 fdt q) (\<lambda>len. Inr (Some (i32 (w32 (off + 4) + (8 + len)))))))"
      using offset_ptr_cases [OF b o4(2), of 4]
    proof cases
      case 2
      obtain w where "rd32 fdt (uint st + (off + 4)) = Inr w" using rd32_safe [OF b 2(2)] 2(3) by auto
      then show ?thesis using 2(1) by simp
    qed simp
    ultimately show ?thesis by (simp add: tag_end_def)
  qed
  show ?thesis unfolding fdt_next_tag_def 2(1) bindE_simps option.case tag o4(1)
  proof (rule safe_bind [OF te])
    fix e
    show "safe (\<lambda>(tag, nx). rng nx \<and> (tag = FDT_END \<or> 0 \<le> off \<and> off + 4 \<le> uint sz))
      (case e of None \<Rightarrow> Inr (FDT_END, - FDT_ERR_BADSTRUCTURE)
       | Some offset \<Rightarrow> bindE (fdt_offset_ptr fdt off (w32 (offset - off))) (\<lambda>p.
         if p = None then Inr (FDT_END, - FDT_ERR_BADSTRUCTURE) else Inr (tag, FDT_TAGALIGN offset)))"
    proof (cases e)
      case (Some offset)
      note in_block = 2(2,3)
      from offset_ptr_cases [OF b o, of "w32 (offset - off)"] show ?thesis
      proof cases
        case 1
        then show ?thesis using Some by simp
      next
        case 2
        then show ?thesis using Some in_block by (simp add: FDT_TAGALIGN_def)
      qed
    qed simp
  qed
qed

section \<open>Walks\<close>

lemma check_offset_safe:
  assumes "blob fdt st sz str" "rng off"
  shows "safe rng (fdt_check_node_offset fdt off)"
  unfolding fdt_check_node_offset_def
  by (auto intro!: safe_bind [OF next_tag_safe [OF assms]])

text \<open>A node that a walk returns starts with a tag of the structure block.\<close>

definition tag_at :: "u32 \<Rightarrow> int \<Rightarrow> bool" where
  "tag_at sz off \<longleftrightarrow> 0 \<le> off \<and> off + 4 \<le> uint sz"

definition stop_at :: "u32 \<Rightarrow> int \<times> int option \<Rightarrow> bool" where
  "stop_at sz = (\<lambda>(off, d). rng off \<and> (off < 0 \<or> (\<exists>k. d = Some k \<and> k < 0) \<or> tag_at sz off))"

lemma stop_at_neg: "rng off \<Longrightarrow> off < 0 \<Longrightarrow> stop_at sz (off, d)"
  by (simp add: stop_at_def)

lemma next_node_loop_safe:
  "blob fdt st sz str \<Longrightarrow> rng off \<Longrightarrow> safe (stop_at sz) (next_node_loop fdt off d)"
proof (induction fdt off d rule: next_node_loop.induct)
  case (1 fdt off d)
  show ?case
  proof (subst next_node_loop.simps, rule safe_bind [OF next_tag_safe [OF "1.prems"]], goal_cases)
    case (1 x)
    obtain tag nx where x: "x = (tag, nx)" by (cases x)
    show ?case using "1.IH" [OF 1(1) [unfolded x] refl] 1(2) "1.prems"
      by (auto simp: x Let_def stop_at_def tag_at_def split: option.splits)
  qed
qed

lemma next_node_safe:
  assumes "blob fdt st sz str" "rng off"
  shows "safe (stop_at sz) (fdt_next_node fdt off d)"
  unfolding fdt_next_node_def
  by (auto intro!: safe_bind [OF check_offset_safe [OF assms]] next_node_loop_safe [OF assms(1)] intro: stop_at_neg)

lemma first_subnode_safe:
  assumes "blob fdt st sz str" "rng off"
  shows "safe (\<lambda>n. rng n \<and> (n < 0 \<or> tag_at sz n)) (fdt_first_subnode fdt off)"
  unfolding fdt_first_subnode_def
  by (rule safe_bind [OF next_node_safe [OF assms]]) (auto simp: stop_at_def)

lemma next_subnode_loop_safe:
  "blob fdt st sz str \<Longrightarrow> rng off \<Longrightarrow> safe (\<lambda>n. rng n \<and> (n < 0 \<or> tag_at sz n)) (next_subnode_loop fdt off d)"
proof (induction fdt off d rule: next_subnode_loop.induct)
  case (1 fdt off d)
  show ?case
  proof (subst next_subnode_loop.simps, rule safe_bind [OF next_node_safe [OF "1.prems"]], goal_cases)
    case (1 x)
    obtain nx d' where x: "x = (nx, d')" by (cases x)
    show ?case using "1.IH" [OF 1(1) [unfolded x] refl] 1(2) "1.prems" by (auto simp: x stop_at_def split: option.splits)
  qed
qed

lemma subnodes_from_safe:
  "blob fdt st sz str \<Longrightarrow> rng node \<and> (node < 0 \<or> tag_at sz node) \<Longrightarrow> safe (list_all (tag_at sz)) (subnodes_from fdt node)"
proof (induction fdt node rule: subnodes_from.induct)
  case (1 fdt node)
  show ?case
  proof (cases "node < 0")
    case False
    have ns: "safe (\<lambda>n. rng n \<and> (n < 0 \<or> tag_at sz n)) (fdt_next_subnode fdt node)"
      using "1.prems" by (simp add: fdt_next_subnode_def next_subnode_loop_safe)
    show ?thesis
    proof (subst subnodes_from.simps, simp only: False if_False, rule safe_bind [OF ns], goal_cases)
      case (1 nx)
      show ?case using "1.IH" [OF False 1(1) _ "1.prems"(1) 1(2)] "1.prems"(2) False by (auto intro!: safe_bind)
    qed
  qed (subst subnodes_from.simps, simp)
qed

lemma supernode_loop_safe:
  "blob fdt st sz str \<Longrightarrow> rng off \<Longrightarrow> safe (\<lambda>_. True) (supernode_loop fdt n sd off d s)"
proof (induction fdt n sd off d s rule: supernode_loop.induct)
  case (1 fdt n sd off d s)
  show ?case
  proof (cases "(off < 0 \<or> off > n) \<or> off = n")
    case True
    then show ?thesis by (subst supernode_loop.simps) (auto simp: Let_def)
  next
    case False
    then have go: "\<not> (off < 0 \<or> off > n)" "off \<noteq> n" by auto
    show ?thesis
    proof (subst supernode_loop.simps, simp only: go if_False Let_def,
        rule safe_bind [OF next_node_safe [OF "1.prems"]], goal_cases)
      case (1 x)
      obtain nx d' where x: "x = (nx, d')" by (cases x)
      show ?case using "1.IH" [OF go(1) refl go(2) 1(1) [unfolded x] refl] 1(2) "1.prems" by (auto simp: x stop_at_def)
    qed
  qed
qed

lemma supernode_safe:
  assumes "blob fdt st sz str"
  shows "safe (\<lambda>_. True) (fdt_supernode_atdepth_offset fdt n sd)"
  using supernode_loop_safe [OF assms] by (simp add: fdt_supernode_atdepth_offset_def blobD [OF assms])

lemma safe_mono: "safe P r \<Longrightarrow> (\<And>x. P x \<Longrightarrow> Q x) \<Longrightarrow> safe Q r"
  by (cases r) simp_all

lemma parent_safe:
  assumes "blob fdt st sz str"
  shows "safe (\<lambda>_. True) (fdt_parent_offset fdt n)"
  unfolding fdt_parent_offset_def fdt_node_depth_def
  by (auto intro!: safe_bind [OF safe_bind [OF supernode_safe [OF assms]]] safe_bind [OF supernode_safe [OF assms]])

lemma for_each_subnode_safe:
  assumes "blob fdt st sz str" "rng off"
  shows "safe (list_all (tag_at sz)) (fdt_for_each_subnode fdt off)"
  unfolding fdt_for_each_subnode_def
  by (rule safe_bind [OF first_subnode_safe [OF assms]]) (rule subnodes_from_safe [OF assms(1)])

section \<open>The property\<close>

text \<open>C20: Given a sound header (\<open>blob\<close>: the structure block lies in the memory and is smaller than 2 GB), the
  walks over the nodes read only the memory of the tree, whatever bytes the structure block holds: the step
  to the next node, the loop over the children of a node and the search for its parent either return
  or run forever, and every child the loop visits starts with a tag inside the structure block.
\<close>

theorem fdt_walk_safe:
  assumes "blob fdt st sz str" "- (2 ^ 31) \<le> off" "off < 2 ^ 31"
  shows "(\<forall>e. fdt_next_node fdt off d = Inl e \<longrightarrow> e = Hang)
    \<and> (case fdt_for_each_subnode fdt off of Inl e \<Rightarrow> e = Hang | Inr ns \<Rightarrow> \<forall>n \<in> set ns. 0 \<le> n \<and> n + 4 \<le> uint sz)
    \<and> (\<forall>e. fdt_parent_offset fdt off = Inl e \<longrightarrow> e = Hang)"
proof -
  have o: "rng off" using assms(2,3) by (simp add: rng_def)
  have "safe (\<lambda>ns. \<forall>n \<in> set ns. 0 \<le> n \<and> n + 4 \<le> uint sz) (fdt_for_each_subnode fdt off)"
    using safe_mono [OF for_each_subnode_safe [OF assms(1) o]] by (simp add: list_all_iff tag_at_def)
  then show ?thesis using next_node_safe [OF assms(1) o, of d] parent_safe [OF assms(1), of off]
    by (auto simp: safe_def split: sum.splits)
qed

text \<open>
  A root node with one property whose length field is 0xFFFFFFF4. The end of the property is computed
  modulo \<open>2 ^ 32\<close> and is the start of its tag, which passes the check; the walk stays there.
\<close>

definition wrapped :: "u8 list" where
  "wrapped = concat (map enc32 [0xD00DFEED, 68, 40, 68, 40, 17, 16, 0, 0, 28, 1, 0, 3, 0xFFFFFFF4, 0, 2, 9])"

lemma wrapped_stays: "fdt_next_tag wrapped 8 = Inr (3, 8)"
  by code_simp

lemma wrapped_hangs: "fdt_first_subnode wrapped 0 = Inl Hang"
  by code_simp

theorem fdt_walk_safe_witness:
  "fdt_for_each_subnode (flatten ex_tree ex_names) 0 \<noteq> Inl Out_of_bounds \<and> fdt_parent_offset wrapped 12 \<noteq> Inl Out_of_bounds"
proof -
  have "blob (flatten ex_tree ex_names) 40 92 132" using ex_flat by (simp add: flat_def)
  moreover have "blob wrapped 40 28 68" by code_simp
  ultimately show ?thesis using fdt_walk_safe [of "flatten ex_tree ex_names" 40 92 132 0 None] fdt_walk_safe [of wrapped 40 28 68 12 None]
    by (auto split: sum.splits)
qed

end
