(* ===== verification/Divmod.thy ===== *)
theory Divmod
  imports Prelude "HOL-Library.Signed_Division"
begin

unbundle bit_operations_syntax

text \<open>
  lib/libutils/isoc/arch/arm: the division routines the compiler calls, since the processor has no
  division instruction (arm32\_aeabi\_divmod.c and arm32\_aeabi\_ldivmod.c). The 32-bit and the 64-bit
  routine are the same text at two widths, so the loops are defined for every width.
\<close>

section \<open>The unsigned division\<close>

lemma top_clear: "drop_bit (LENGTH('a) - 1) (p :: 'a::len word) = 0 \<Longrightarrow> 2 * unat p < 2 ^ LENGTH('a)"
proof -
  assume "drop_bit (LENGTH('a) - 1) p = 0"
  then have "unat p div 2 ^ (LENGTH('a) - 1) = 0" by (metis unat_drop_bit_eq drop_bit_eq_div unat_0)
  then have "unat p < 2 ^ (LENGTH('a) - 1)" by (simp add: div_eq_0_iff)
  moreover have "(2 :: nat) ^ LENGTH('a) = 2 * 2 ^ (LENGTH('a) - 1)" by (simp add: power_eq_if)
  ultimately show ?thesis by linarith
qed

lemma unat_double: "2 * unat (p :: 'a::len word) < 2 ^ LENGTH('a) \<Longrightarrow> unat (push_bit 1 p) = 2 * unat p"
  by (simp only: unsigned_push_bit_eq) (simp add: take_bit_nat_eq_self mult.commute)

text \<open>The first loop shifts the divisor up until its top bit is set; it runs for a divisor that is not 0 only.\<close>

function grow :: "'a::len word \<Rightarrow> 'a word \<Rightarrow> 'a word \<times> 'a word" where
  "grow i p = (if p \<noteq> 0 \<and> drop_bit (LENGTH('a) - 1) p = 0 then grow (push_bit 1 i) (push_bit 1 p) else (i, p))"
  by pat_completeness auto

termination
proof (relation "measure (\<lambda>(i, p). 2 ^ LENGTH('a) - unat (p :: 'a word))", simp)
  fix i p :: "'a word"
  assume "p \<noteq> 0 \<and> drop_bit (LENGTH('a) - 1) p = 0"
  then have "unat (push_bit 1 p) = 2 * unat p" "0 < unat p" "2 * unat p < 2 ^ LENGTH('a)"
    using top_clear [of p] unat_double [of p] by (simp_all add: unat_gt_0)
  then show "((push_bit 1 i, push_bit 1 p), i, p) \<in> measure (\<lambda>(i, p). 2 ^ LENGTH('a) - unat p)" by simp
qed

declare grow.simps [simp del]

text \<open>The second loop finds the bits of the quotient from the top.\<close>

lemma half_less: "i \<noteq> 0 \<Longrightarrow> unat (drop_bit 1 i) < unat (i :: 'a::len word)"
  using unat_gt_0 [of i] by (simp only: unat_drop_bit_eq) (simp add: drop_bit_eq_div)

function shrink :: "'a::len word \<Rightarrow> 'a word \<Rightarrow> 'a word \<Rightarrow> 'a word \<Rightarrow> 'a word \<times> 'a word" where
  "shrink n p i q =
     (if i > 0 then
        let q = push_bit 1 q;
            (n, q) = (if n \<ge> p then (n - p, q + 1) else (n, q)) in
        shrink n (drop_bit 1 p) (drop_bit 1 i) q
      else (q, n))"
  by pat_completeness auto

termination
  by (relation "measure (\<lambda>(n, p, i, q). unat i)") (use half_less in \<open>auto simp: word_gt_0\<close>)

declare shrink.simps [simp del]

text \<open>Quotient and remainder; a division by 0 leaves the quotient at its initial 0.\<close>

definition division :: "'a::len word \<Rightarrow> 'a word \<Rightarrow> 'a word \<times> 'a word" where
  "division n p = (if p = 0 then (0, - 1) else let (i, p) = grow 1 p in shrink n p i 0)"

definition division_qr :: "u32 \<Rightarrow> u32 \<Rightarrow> u32 \<times> u32" where
  "division_qr = division"

definition division_lqr :: "64 word \<Rightarrow> 64 word \<Rightarrow> 64 word \<times> 64 word" where
  "division_lqr = division"

section \<open>The routines\<close>

text \<open>The result is the structure \<open>qr\<close>: quotient and remainder.\<close>

definition uint_div_qr :: "u32 \<Rightarrow> u32 \<Rightarrow> bool \<Rightarrow> bool \<Rightarrow> u32 \<times> u32" where
  "uint_div_qr numerator denominator q_n r_n =
     (let (q, r) = division_qr numerator denominator in (if q_n then - q else q, if r_n then - r else r))"

definition aeabi_uidiv :: "u32 \<Rightarrow> u32 \<Rightarrow> u32" where
  "aeabi_uidiv numerator denominator = fst (uint_div_qr numerator denominator False False)"

definition aeabi_uimod :: "u32 \<Rightarrow> u32 \<Rightarrow> u32" where
  "aeabi_uimod numerator denominator = snd (uint_div_qr numerator denominator False False)"

definition aeabi_uidivmod :: "u32 \<Rightarrow> u32 \<Rightarrow> u32 \<times> u32" where
  "aeabi_uidivmod numerator denominator = uint_div_qr numerator denominator False False"

text \<open>The signed routines: the signs the results shall have, and the magnitudes.\<close>

abbreviation neg :: "'a::len word \<Rightarrow> bool" where "neg w \<equiv> w <s 0"
abbreviation pos :: "'a::len word \<Rightarrow> bool" where "pos w \<equiv> 0 <s w"

definition magnitude :: "'a::len word \<Rightarrow> 'a word" where
  "magnitude w = (if neg w then - w else w)"

definition aeabi_idivmod :: "u32 \<Rightarrow> u32 \<Rightarrow> u32 \<times> u32" where
  "aeabi_idivmod numerator denominator =
     uint_div_qr (magnitude numerator) (magnitude denominator)
       (neg numerator \<and> pos denominator \<or> pos numerator \<and> neg denominator) (neg numerator)"

definition aeabi_idiv :: "u32 \<Rightarrow> u32 \<Rightarrow> u32" where
  "aeabi_idiv numerator denominator =
     fst (uint_div_qr (magnitude numerator) (magnitude denominator)
       (neg numerator \<and> pos denominator \<or> pos numerator \<and> neg denominator) (neg numerator))"

definition ul_div_qr :: "64 word \<Rightarrow> 64 word \<Rightarrow> bool \<Rightarrow> bool \<Rightarrow> 64 word \<times> 64 word" where
  "ul_div_qr numerator denominator q_n r_n =
     (let (q, r) = division_lqr numerator denominator in (if q_n then - q else q, if r_n then - r else r))"

definition ul_divmod :: "64 word \<Rightarrow> 64 word \<Rightarrow> 64 word \<times> 64 word" where
  "ul_divmod numerator denominator = ul_div_qr numerator denominator False False"

definition l_divmod :: "64 word \<Rightarrow> 64 word \<Rightarrow> 64 word \<times> 64 word" where
  "l_divmod numerator denominator =
     ul_div_qr (magnitude numerator) (magnitude denominator)
       (neg numerator \<and> pos denominator \<or> pos numerator \<and> neg denominator) (neg numerator)"

text \<open>
  \<open>__aeabi_imod\<close> first looks for the bits of the divisor: \<open>h\<close> counts them and \<open>j\<close> is the position of the last.
  Its condition, \<open>s != 0 || h > 1\<close>, stays true once two bits are found.
\<close>

partial_function (option) imod_scan :: "u32 \<Rightarrow> nat \<Rightarrow> nat \<Rightarrow> nat \<Rightarrow> (nat \<times> nat) option" where
  "imod_scan s i j h =
     (if s \<noteq> 0 \<or> h > 1
      then imod_scan (signed_drop_bit 1 s) (Suc i) (if bit s 0 then i else j) (if bit s 0 then Suc h else h)
      else Some (j, h))"

definition aeabi_imod :: "u32 \<Rightarrow> u32 \<Rightarrow> u32 option" where
  "aeabi_imod numerator denominator =
     (case imod_scan denominator 0 0 0 of None \<Rightarrow> None
      | Some (j, h) \<Rightarrow>
        if h = 1 then Some (signed_drop_bit j numerator)
        else Some (snd (uint_div_qr (magnitude numerator) (magnitude denominator)
          (neg numerator \<and> pos denominator \<or> pos numerator \<and> neg denominator) (neg numerator))))"

section \<open>The loops\<close>

lemma unat_bound: "unat (w :: 'a::len word) < 2 ^ LENGTH('a)"
  by (rule unsigned_less)

lemma grow_correct:
  assumes "p \<noteq> 0" "unat p = 2 ^ k * P" "i = 2 ^ k" "k < LENGTH('a)"
  shows "\<exists>j < LENGTH('a). grow i (p :: 'a::len word) = (2 ^ j, of_nat (2 ^ j * P)) \<and> 2 ^ j * P < 2 ^ LENGTH('a)
    \<and> 2 ^ LENGTH('a) \<le> 2 ^ Suc j * P"
  using assms
proof (induction i p arbitrary: k rule: grow.induct)
  case (1 i p)
  show ?case
  proof (cases "drop_bit (LENGTH('a) - 1) p = 0")
    case True
    have u: "unat (push_bit 1 p) = 2 ^ Suc k * P" "2 * unat p < 2 ^ LENGTH('a)"
      using unat_double [OF top_clear [OF True]] top_clear [OF True] "1.prems"(2) by simp_all
    have "0 < P" using "1.prems"(1,2) by (cases P) (auto simp: unat_eq_zero)
    then have "(2 :: nat) ^ Suc k \<le> 2 ^ Suc k * P" by simp
    also have "\<dots> < 2 ^ LENGTH('a)" using u "1.prems"(2) by simp
    finally have k: "Suc k < LENGTH('a)" by (rule power_less_imp_less_exp [rotated]) simp
    have "push_bit 1 p \<noteq> 0" using u(1) \<open>0 < P\<close> by (metis mult_is_0 not_gr_zero power_not_zero unat_0 zero_neq_numeral)
    moreover have "push_bit 1 i = 2 ^ Suc k" using "1.prems"(3) by simp
    ultimately show ?thesis using "1.IH" [OF _ _ u(1) _ k] "1.prems"(1) True by (simp add: grow.simps [of i p])
  next
    case False
    have "2 ^ (LENGTH('a) - 1) \<le> unat p"
    proof (rule ccontr)
      assume "\<not> ?thesis"
      then have "unat (drop_bit (LENGTH('a) - 1) p) = 0" by (simp only: unat_drop_bit_eq) (simp add: drop_bit_eq_div)
      then show False using False by (simp add: unat_eq_zero)
    qed
    moreover have "(2 :: nat) ^ LENGTH('a) = 2 * 2 ^ (LENGTH('a) - 1)" by (simp add: power_eq_if)
    ultimately have "2 ^ LENGTH('a) \<le> 2 ^ Suc k * P" using "1.prems"(2) by (simp add: algebra_simps)
    moreover have "grow i p = (2 ^ k, of_nat (2 ^ k * P))"
      using False "1.prems"(2,3) by (subst grow.simps) (simp flip: "1.prems"(2))
    ultimately show ?thesis using "1.prems"(2,4) unat_bound [of p] by auto
  qed
qed

text \<open>
  Before the round for bit \<open>j\<close>, the quotient so far and the rest make up the dividend \<open>N\<close>, and the rest is
  smaller than \<open>2 ^ Suc j\<close> divisors.
\<close>

lemma shrink_round:
  assumes "0 < P" "2 ^ j * P < 2 ^ LENGTH('a)" "N < 2 ^ LENGTH('a)" "j < LENGTH('a)"
    and "unat (q :: 'a::len word) * (2 ^ Suc j * P) + unat n = N" "unat n < 2 ^ Suc j * P"
  obtains n' q' where "shrink n (of_nat (2 ^ j * P)) (2 ^ j) q = shrink n' (drop_bit 1 (of_nat (2 ^ j * P))) (drop_bit 1 (2 ^ j)) q'"
    "unat q' * (2 ^ j * P) + unat n' = N" "unat n' < 2 ^ j * P"
proof -
  let ?p = "of_nat (2 ^ j * P) :: 'a word"
  have p: "unat ?p = 2 ^ j * P" using assms(2) by (simp only: unat_of_nat) simp
  have pp: "0 < 2 ^ j * P" using assms(1) by simp
  have "2 * unat q \<le> 2 * unat q * (2 ^ j * P)" using pp by simp
  moreover have "2 * unat q * (2 ^ j * P) \<le> N" using assms(5) by (simp add: algebra_simps)
  ultimately have "2 * unat q < 2 ^ LENGTH('a)" using assms(3) by linarith
  then have q2: "unat (push_bit 1 q) = 2 * unat q" by (rule unat_double)
  have i: "(0 :: 'a word) < 2 ^ j" using assms(4) by (simp add: word_gt_0)
  show thesis
  proof (cases "?p \<le> n")
    case True
    then have le: "2 ^ j * P \<le> unat n" unfolding word_le_nat_alt p .
    have "(2 * unat q + 1) * 1 \<le> (2 * unat q + 1) * (2 ^ j * P)" by (rule mult_le_mono2) (use pp in simp)
    then have "2 * unat q + 1 \<le> (2 * unat q + 1) * (2 ^ j * P)" by simp
    also have "\<dots> \<le> N" using assms(5) le by (simp add: algebra_simps)
    finally have "Suc (unat (push_bit 1 q)) < 2 ^ LENGTH('a)" using assms(3) by (simp only: q2)
    then have q1: "unat (push_bit 1 q + 1) = 2 * unat q + 1" by (simp only: unat_word_ariths q2) (simp only: unat_1 mod_less)
    have n1: "unat (n - ?p) = unat n - 2 ^ j * P" using unat_sub [OF True] p by simp
    show thesis
    proof (rule that)
      show "shrink n ?p (2 ^ j) q = shrink (n - ?p) (drop_bit 1 ?p) (drop_bit 1 (2 ^ j)) (push_bit 1 q + 1)"
        using i True by (subst shrink.simps) (simp only: if_True Let_def prod.case)
      show "unat (push_bit 1 q + 1) * (2 ^ j * P) + unat (n - ?p) = N" "unat (n - ?p) < 2 ^ j * P"
        unfolding q1 n1 using assms(5,6) le by (simp_all add: algebra_simps)
    qed
  next
    case False
    then have lt: "unat n < 2 ^ j * P" unfolding word_le_nat_alt p by simp
    show thesis
    proof (rule that)
      show "shrink n ?p (2 ^ j) q = shrink n (drop_bit 1 ?p) (drop_bit 1 (2 ^ j)) (push_bit 1 q)"
        using i False by (subst shrink.simps) (simp only: if_True if_False Let_def prod.case)
      show "unat (push_bit 1 q) * (2 ^ j * P) + unat n = N" unfolding q2 using assms(5) by (simp add: algebra_simps)
    qed (rule lt)
  qed
qed

lemma shrink_correct:
  assumes "0 < P" "2 ^ j * P < 2 ^ LENGTH('a)" "N < 2 ^ LENGTH('a)" "j < LENGTH('a)"
    and "unat q * (2 ^ Suc j * P) + unat n = N" "unat n < 2 ^ Suc j * P"
  shows "shrink (n :: 'a::len word) (of_nat (2 ^ j * P)) (2 ^ j) q = (of_nat (N div P), of_nat (N mod P))"
  using assms(2-)
proof (induction j arbitrary: n q)
  case 0
  obtain n' q' where s: "shrink n (of_nat (2 ^ 0 * P)) (2 ^ 0) q = shrink n' (drop_bit 1 (of_nat (2 ^ 0 * P))) (drop_bit 1 (2 ^ 0)) q'"
    "unat q' * (2 ^ 0 * P) + unat n' = N" "unat n' < 2 ^ 0 * P"
    by (rule shrink_round [OF assms(1) "0.prems"])
  then have "N div P = unat q'" "N mod P = unat n'" by auto
  then show ?case using s(1) by (simp add: shrink.simps [of _ _ 0])
next
  case (Suc j)
  obtain n' q' where s: "shrink n (of_nat (2 ^ Suc j * P)) (2 ^ Suc j) q
      = shrink n' (drop_bit 1 (of_nat (2 ^ Suc j * P))) (drop_bit 1 (2 ^ Suc j)) q'"
    "unat q' * (2 ^ Suc j * P) + unat n' = N" "unat n' < 2 ^ Suc j * P"
    by (rule shrink_round [OF assms(1) Suc.prems])
  have "unat (drop_bit 1 (of_nat (2 ^ Suc j * P) :: 'a word)) = 2 ^ j * P"
    using Suc.prems(1) by (simp only: unat_drop_bit_eq unat_of_nat) (simp add: drop_bit_eq_div)
  then have p: "drop_bit 1 (of_nat (2 ^ Suc j * P) :: 'a word) = of_nat (2 ^ j * P)" by (metis of_nat_unat_word)
  have "(2 :: nat) ^ Suc j < 2 ^ LENGTH('a)" by (rule power_strict_increasing) (use Suc.prems(3) in simp_all)
  then have "unat (of_nat (2 ^ Suc j) :: 'a word) = 2 ^ Suc j" by (simp only: unat_of_nat mod_less)
  then have "unat (drop_bit 1 (of_nat (2 ^ Suc j) :: 'a word)) = 2 ^ j" by (simp only: unat_drop_bit_eq) (simp add: drop_bit_eq_div)
  then have "unat (drop_bit 1 (2 ^ Suc j :: 'a word)) = 2 ^ j" by (simp only: of_nat_power of_nat_numeral)
  then have i: "drop_bit 1 (2 ^ Suc j :: 'a word) = 2 ^ j" by (metis of_nat_numeral of_nat_power of_nat_unat_word)
  show ?case unfolding s(1) p i
    by (rule Suc.IH) (use Suc.prems s(2,3) in \<open>simp_all add: algebra_simps\<close>)
qed

lemma division_correct:
  assumes "p \<noteq> 0"
  shows "division n p = (n div p, n mod (p :: 'a::len word))"
proof -
  have P: "0 < unat p" using assms by (simp add: unat_gt_0)
  obtain j where j: "j < LENGTH('a)" "grow 1 p = (2 ^ j, of_nat (2 ^ j * unat p))" "2 ^ j * unat p < 2 ^ LENGTH('a)"
    "2 ^ LENGTH('a) \<le> 2 ^ Suc j * unat p"
    using grow_correct [OF assms, of 0 "unat p" 1] by auto
  have "unat n < 2 ^ Suc j * unat p" using j(4) unat_bound [of n] by (rule order.strict_trans2 [rotated])
  then have "shrink n (of_nat (2 ^ j * unat p)) (2 ^ j) 0 = (of_nat (unat n div unat p), of_nat (unat n mod unat p))"
    by (intro shrink_correct [OF P j(3) _ j(1)]) (simp_all add: unat_bound)
  then show ?thesis using assms j(2) by (simp add: division_def word_arith_nat_div word_arith_nat_mod)
qed

section \<open>Signed division from unsigned division\<close>

lemma uint_magnitude: "uint (magnitude w) = \<bar>sint (w :: 'a::len word)\<bar>"
proof (cases "neg w")
  case True
  then have s: "sint w < 0" by (simp add: word_sless_alt)
  have "- (2 ^ (LENGTH('a) - 1)) \<le> sint w" by (rule sint_ge)
  moreover have "(2 :: int) ^ (LENGTH('a) - 1) < 2 ^ LENGTH('a)" by (rule power_strict_increasing) simp_all
  ultimately have "(- sint w) mod 2 ^ LENGTH('a) = - sint w" using s by (intro mod_pos_pos_trivial) linarith+
  moreover have "- w = word_of_int (- sint w)" by simp
  ultimately show ?thesis using True s by (simp add: magnitude_def uint_word_of_int del: of_int_minus of_int_sint)
next
  case False
  then have s: "0 \<le> sint w" by (simp add: word_sless_alt)
  have "sint w < 2 ^ (LENGTH('a) - 1)" by (rule sint_lt)
  moreover have "(2 :: int) ^ (LENGTH('a) - 1) < 2 ^ LENGTH('a)" by (rule power_strict_increasing) simp_all
  ultimately have "sint w mod 2 ^ LENGTH('a) = sint w" using s by (intro mod_pos_pos_trivial) linarith+
  then have "uint w = sint w" by (simp add: uint_sint take_bit_eq_mod)
  then show ?thesis using False s by (simp add: magnitude_def)
qed

lemma smod_eq: "a smod b = sgn a * (\<bar>a\<bar> mod \<bar>b\<bar>)" for a b :: int
proof -
  define q r where "q = \<bar>a\<bar> div \<bar>b\<bar>" and "r = \<bar>a\<bar> mod \<bar>b\<bar>"
  have "\<bar>a\<bar> = \<bar>b\<bar> * q + r" by (simp add: q_def r_def)
  moreover have "sgn a * \<bar>a\<bar> = a" "sgn b * b = \<bar>b\<bar>" by (simp_all add: abs_sgn mult.commute)
  ultimately have "a = sgn a * (sgn b * b * q + r)" by simp
  then show ?thesis unfolding signed_modulo_int_def signed_divide_int_def q_def [symmetric] r_def [symmetric]
    by (simp add: algebra_simps)
qed

text \<open>
  What the signed routines rely on, for a width: a division of unsigned words. C rounds the quotient
  towards 0, which is \<open>sdiv\<close> and \<open>smod\<close> of integers.
\<close>

locale unsigned_division =
  fixes dv :: "'a::len word \<Rightarrow> 'a word \<Rightarrow> bool \<Rightarrow> bool \<Rightarrow> 'a word \<times> 'a word"
  assumes dv: "p \<noteq> 0 \<Longrightarrow> dv n p q_n r_n = ((if q_n then - (n div p) else n div p), (if r_n then - (n mod p) else n mod p))"
begin

lemma signed_correct:
  assumes "b \<noteq> 0"
  shows "dv (magnitude a) (magnitude b) (neg a \<and> pos b \<or> pos a \<and> neg b) (neg a)
    = (word_of_int (sint a sdiv sint b), word_of_int (sint a smod sint b))"
proof -
  have b: "sint b \<noteq> 0" using assms by (simp add: signed_eq_0_iff)
  then have m: "magnitude b \<noteq> 0" using uint_magnitude [of b] by (metis abs_eq_0 uint_0_iff)
  have q: "magnitude a div magnitude b = word_of_int (\<bar>sint a\<bar> div \<bar>sint b\<bar>)"
    and r: "magnitude a mod magnitude b = word_of_int (\<bar>sint a\<bar> mod \<bar>sint b\<bar>)"
    by (simp_all add: word_div_def word_mod_def uint_magnitude)
  have s: "neg w \<longleftrightarrow> sint w < 0" "pos w \<longleftrightarrow> 0 < sint w" for w :: "'a word" by (simp_all add: word_sless_alt)
  show ?thesis unfolding dv [OF m] q r s smod_eq signed_divide_int_def using b
    by (cases "sint a" "0 :: int" rule: linorder_cases; cases "sint b" "0 :: int" rule: linorder_cases) simp_all
qed

end

lemma uint_div_qr_correct:
  "p \<noteq> 0 \<Longrightarrow> uint_div_qr n p q_n r_n = ((if q_n then - (n div p) else n div p), (if r_n then - (n mod p) else n mod p))"
  by (simp add: uint_div_qr_def division_qr_def division_correct)

lemma ul_div_qr_correct:
  "p \<noteq> 0 \<Longrightarrow> ul_div_qr n p q_n r_n = ((if q_n then - (n div p) else n div p), (if r_n then - (n mod p) else n mod p))"
  by (simp add: ul_div_qr_def division_lqr_def division_correct)

interpretation div32: unsigned_division uint_div_qr
  by unfold_locales (rule uint_div_qr_correct)

interpretation div64: unsigned_division ul_div_qr
  by unfold_locales (rule ul_div_qr_correct)

section \<open>Properties\<close>

text \<open>C21: The division routines compute quotient and remainder: of unsigned words, and of signed words with
  the quotient rounded towards 0, at 32 and at 64 bits. The only quotient that is not in the signed range, the
  smallest number divided by -1, wraps around. A division by 0 gives the quotient 0 and the remainder -1.\<close>

theorem aeabi_division_correct:
  "(b \<noteq> 0 \<longrightarrow> aeabi_uidivmod a b = (a div b, a mod b)
      \<and> aeabi_idivmod a b = (word_of_int (sint a sdiv sint b), word_of_int (sint a smod sint b))
      \<and> aeabi_idiv a b = word_of_int (sint a sdiv sint b))
    \<and> (d \<noteq> 0 \<longrightarrow> ul_divmod c d = (c div d, c mod d)
      \<and> l_divmod c d = (word_of_int (sint c sdiv sint d), word_of_int (sint c smod sint d)))
    \<and> aeabi_uidivmod a 0 = (0, - 1) \<and> aeabi_idiv a 0 = 0"
proof (intro conjI impI)
  assume b: "b \<noteq> 0"
  show "aeabi_uidivmod a b = (a div b, a mod b)" using b by (simp add: aeabi_uidivmod_def uint_div_qr_correct)
  show "aeabi_idivmod a b = (word_of_int (sint a sdiv sint b), word_of_int (sint a smod sint b))"
    using div32.signed_correct [OF b, of a] by (simp add: aeabi_idivmod_def)
  show "aeabi_idiv a b = word_of_int (sint a sdiv sint b)" using div32.signed_correct [OF b, of a] by (simp add: aeabi_idiv_def)
next
  assume d: "d \<noteq> 0"
  show "ul_divmod c d = (c div d, c mod d)" using d by (simp add: ul_divmod_def ul_div_qr_correct)
  show "l_divmod c d = (word_of_int (sint c sdiv sint d), word_of_int (sint c smod sint d))"
    using div64.signed_correct [OF d, of c] by (simp add: l_divmod_def)
qed (simp_all add: aeabi_uidivmod_def aeabi_idiv_def uint_div_qr_def division_qr_def division_def magnitude_def)

theorem aeabi_division_correct_witness:
  "aeabi_uidivmod 100 7 = (14, 2) \<and> sint (aeabi_idiv (- 7) 2) = - 3 \<and> l_divmod (- 7) 2 = (- 3, - 1)"
  using aeabi_division_correct [of 7 100 1 0] aeabi_division_correct [of 2 "- 7" 2 "- 7"]
  by (simp add: signed_divide_int_def signed_modulo_int_def sint_word_ariths)

text \<open>
  \<open>__aeabi_imod\<close> returns for the divisor 0 and for the powers of two only, and for these its result is the
  quotient, not the remainder.
\<close>

lemma signed_half:
  fixes s :: u32
  shows "\<not> bit s 0 \<Longrightarrow> s = push_bit 1 (signed_drop_bit 1 s)" and "bit s 0 \<Longrightarrow> signed_drop_bit 1 s = 0 \<Longrightarrow> s = 1"
proof -
  show "s = push_bit 1 (signed_drop_bit 1 s)" if "\<not> bit s 0"
  proof (rule bit_word_eqI)
    fix n
    assume n: "n < LENGTH(32)"
    show "bit s n = bit (push_bit 1 (signed_drop_bit 1 s)) n"
      by (cases n) (use n that in \<open>auto simp only: bit_push_bit_iff bit_signed_drop_bit_iff, auto\<close>)
  qed
  show "s = 1" if "bit s 0" "signed_drop_bit 1 s = 0"
  proof (rule bit_word_eqI)
    fix n
    assume n: "n < LENGTH(32)"
    have "\<not> bit (signed_drop_bit 1 s) (n - 1)" using that(2) by simp
    then show "bit s n = bit 1 n" using n that(1) by (cases n) (auto simp: bit_signed_drop_bit_iff bit_1_iff split: if_splits)
  qed
qed

lemma imod_scan_bits:
  "imod_scan s i j h = Some r \<Longrightarrow> h \<le> 1 \<and> (h = 1 \<longrightarrow> s = 0) \<and> (h = 0 \<longrightarrow> s = 0 \<or> (\<exists>k. s = 2 ^ k))"
proof (erule imod_scan.raw_induct [where P = "\<lambda>s i j h r. h \<le> 1 \<and> (h = 1 \<longrightarrow> s = 0) \<and> (h = 0 \<longrightarrow> s = 0 \<or> (\<exists>k. s = 2 ^ k))", rotated], goal_cases)
  case (1 f s i j h r)
  show ?case
  proof (cases "s \<noteq> 0 \<or> h > 1")
    case True
    let ?s = "signed_drop_bit 1 s" and ?h = "if bit s 0 then Suc h else h"
    have ih: "?h \<le> 1" "?h = 1 \<Longrightarrow> ?s = 0" "?h = 0 \<Longrightarrow> ?s = 0 \<or> (\<exists>k. ?s = 2 ^ k)"
      using 1(1) [of ?s "Suc i" "if bit s 0 then i else j" ?h r] 1(2) True by auto
    show ?thesis
    proof (cases "bit s 0")
      case True
      then have "s = 1" "h = 0" using ih(1,2) signed_half(2) by auto
      then show ?thesis by (auto intro: exI [of _ 0])
    next
      case False
      then have s: "s = push_bit 1 ?s" by (rule signed_half(1))
      show ?thesis
      proof (cases "?s = 0")
        case True
        then show ?thesis using s ih(1) False by simp
      next
        case nz: False
        then have "h \<noteq> 1" using ih(2) False by auto
        then have "h = 0" using ih(1) False by simp
        then obtain k where "?s = 2 ^ k" using ih(3) False nz by auto
        then have "s = 2 ^ Suc k" using s by simp
        then show ?thesis using \<open>h = 0\<close> exI [of "\<lambda>k. s = 2 ^ k" "Suc k"] by simp
      qed
    qed
  qed (use 1(2) in auto)
qed

lemma imod_returns_powers: "aeabi_imod a b = Some r \<Longrightarrow> b = 0 \<or> (\<exists>k. b = 2 ^ k)"
  using imod_scan_bits [of b 0 0 0] by (auto simp: aeabi_imod_def split: option.splits)

lemma imod_hangs: "aeabi_imod a 3 = None"
proof (rule ccontr)
  assume "aeabi_imod a 3 \<noteq> None"
  then obtain k where k: "(3 :: u32) = 2 ^ k" using imod_returns_powers [of a 3] by auto
  have "bit (2 ^ k :: u32) 0" "bit (2 ^ k :: u32) 1" unfolding k [symmetric] by simp_all
  then show False by (simp add: bit_2_iff bit_exp_iff)
qed

lemma imod_is_quotient: "aeabi_imod 7 4 = Some 1"
proof -
  have h: "signed_drop_bit 1 (4 :: u32) = 2" "signed_drop_bit 1 (2 :: u32) = 1" "signed_drop_bit 1 (1 :: u32) = 0" by code_simp+
  have "imod_scan 4 0 0 0 = imod_scan 2 1 0 0" by (subst imod_scan.simps) (simp add: h [simplified])
  also have "\<dots> = imod_scan 1 2 0 0" by (subst imod_scan.simps) (simp add: h [simplified] numeral_2_eq_2)
  also have "\<dots> = imod_scan 0 3 2 1" by (subst imod_scan.simps) (simp add: h [simplified] numeral_3_eq_3 numeral_2_eq_2)
  also have "\<dots> = Some (2, 1)" by (subst imod_scan.simps) simp
  finally show ?thesis by (simp add: aeabi_imod_def)
qed

end
