(* ===== verification/Dt_Parse.thy ===== *)
theory Dt_Parse
  imports Device_Tree Divmod Fdt
begin

unbundle bit_operations_syntax

text \<open>
  core/drivers/dt.c, the part that runs at boot, and core/kernel/dt.c: the device tree is parsed into the
  device table, and the driver of every device is started. The tree is the memory \<open>fdt\<close>; strings of the tree
  are read when the code stores a pointer to them, so the model assumes that the tree does not change
  afterwards.
\<close>

section \<open>Reading the tree\<close>

definition liftE :: "'a res \<Rightarrow> 'a km" where
  "liftE r = (case r of Inl e \<Rightarrow> throw e | Inr x \<Rightarrow> ret x)"

fun mapE :: "('a \<Rightarrow> 'b res) \<Rightarrow> 'a list \<Rightarrow> 'b list res" where
  "mapE f [] = Inr []"
| "mapE f (x # xs) = bindE (f x) (\<lambda>y. bindE (mapE f xs) (\<lambda>ys. Inr (y # ys)))"

text \<open>A division of the C code, and the memory from a pointer on as an array of cells.\<close>

definition cdiv :: "int \<Rightarrow> int \<Rightarrow> int" where
  "cdiv a b = i32 (aeabi_idiv (w32 a) (w32 b))"

fun words_of :: "u8 list \<Rightarrow> u32 list" where
  "words_of (a # b # c # d # bs) = fdt32_to_cpu [a, b, c, d] # words_of bs"
| "words_of _ = []"

definition cells_at :: "u8 list \<Rightarrow> int \<Rightarrow> u32 list" where
  "cells_at fdt p = (if 0 \<le> p then words_of (drop (nat p) fdt) else [])"

section \<open>kernel/dt.c\<close>

definition dt_read_property :: "u8 list \<Rightarrow> int \<Rightarrow> string \<Rightarrow> int option res" where
  "dt_read_property fdt offs name = bindE (fdt_getprop fdt offs name) (\<lambda>(prop, _). Inr prop)"

text \<open>\<open>None\<close> is the result -1.\<close>

definition dt_read_property_u32 :: "u8 list \<Rightarrow> int \<Rightarrow> string \<Rightarrow> u32 option res" where
  "dt_read_property_u32 fdt offs name =
     bindE (fdt_getprop fdt offs name) (\<lambda>(prop, prop_size). case prop of None \<Rightarrow> Inr None
     | Some p \<Rightarrow> if prop_size \<noteq> 4 then Inr None else bindE (rd32 fdt p) (\<lambda>w. Inr (Some w)))"

text \<open>\<open>strncmp(p, s, n) == 0\<close>, with the terminator of \<open>s\<close> among its bytes.\<close>

fun strneq_at :: "u8 list \<Rightarrow> int \<Rightarrow> u8 list \<Rightarrow> nat \<Rightarrow> bool res" where
  "strneq_at fdt p cs 0 = Inr True"
| "strneq_at fdt p [] (Suc n) = Inr True"
| "strneq_at fdt p (c # cs) (Suc n) =
     bindE (rd8 fdt p) (\<lambda>b. if b \<noteq> c then Inr False else if c = 0 then Inr True else strneq_at fdt (p + 1) cs n)"

definition is_okay :: "u8 list \<Rightarrow> int \<Rightarrow> int \<Rightarrow> bool res" where
  "is_okay fdt st len =
     bindE (strneq_at fdt st (bytes ''ok'' @ [0]) (unat (w32 len))) (\<lambda>eq.
     if eq then Inr True else strneq_at fdt st (bytes ''okay'' @ [0]) (unat (w32 len)))"

abbreviation (input) DT_STATUS_DISABLED :: u32 where "DT_STATUS_DISABLED \<equiv> 0"
abbreviation (input) DT_STATUS_OK_NSEC :: u32 where "DT_STATUS_OK_NSEC \<equiv> 1"
abbreviation (input) DT_STATUS_OK_SEC :: u32 where "DT_STATUS_OK_SEC \<equiv> 2"

definition fdt_get_status :: "u8 list \<Rightarrow> int \<Rightarrow> u32 res" where
  "fdt_get_status fdt offs =
     bindE (fdt_getprop fdt offs ''status'') (\<lambda>(prop, len).
     bindE (case prop of None \<Rightarrow> Inr True | Some p \<Rightarrow> is_okay fdt p len) (\<lambda>ok.
     Inr (if ok then DT_STATUS_OK_NSEC OR DT_STATUS_OK_SEC else DT_STATUS_DISABLED)))"

text \<open>A driver; \<open>match_data\<close> is the word the match table has for a compatible string.\<close>

record dt_device_match =
  compatible :: string
  match_data :: nat

record dt_driver =
  drv_name :: string
  match_table :: "dt_device_match list"
  drv_probe :: "u8 list \<Rightarrow> nat \<Rightarrow> nat \<Rightarrow> int km"

text \<open>The first entry of the match tables that the node is compatible with.\<close>

fun find_match :: "u8 list \<Rightarrow> int \<Rightarrow> (dt_driver \<times> dt_device_match) list \<Rightarrow> (dt_driver \<times> dt_device_match) option res" where
  "find_match fdt offs [] = Inr None"
| "find_match fdt offs ((drv, dm) # ms) =
     bindE (fdt_node_check_compatible fdt offs (compatible dm)) (\<lambda>r.
     if r = 0 then Inr (Some (drv, dm)) else find_match fdt offs ms)"

definition dt_probe_compatible_driver :: "dt_driver list \<Rightarrow> u8 list \<Rightarrow> nat \<Rightarrow> int km" where
  "dt_probe_compatible_driver drivers fdt d =
     bindM (device_at d) (\<lambda>dev.
     bindM (liftE (find_match fdt (node dev) (concat (map (\<lambda>drv. map (Pair drv) (match_table drv)) drivers)))) (\<lambda>m.
     case m of None \<Rightarrow> ret 0 | Some (drv, dm) \<Rightarrow> drv_probe drv fdt d (match_data dm)))"

text \<open>
  \<open>dt_find_compatible_driver\<close> stops when the pointer into the match table is NULL, which it never is: behind
  the entries of the first driver it takes the terminator, whose string is NULL, for an entry.
\<close>

definition dt_find_compatible_driver :: "dt_driver list \<Rightarrow> u8 list \<Rightarrow> int \<Rightarrow> dt_driver option res" where
  "dt_find_compatible_driver drivers fdt offs =
     (case drivers of [] \<Rightarrow> Inr None
      | drv # _ \<Rightarrow> bindE (find_match fdt offs (map (Pair drv) (match_table drv))) (\<lambda>m. case m of
          Some (drv, _) \<Rightarrow> Inr (Some drv)
        | None \<Rightarrow> bindE (fdt_getprop fdt offs ''compatible'') (\<lambda>(prop, _).
            if prop = None then Inl Out_of_bounds else Inl Null_deref)))"

section \<open>Parsing a node\<close>

definition simple_bus_match_table :: "string list" where
  "simple_bus_match_table = [''simple-bus'', ''simple-mfd'', ''isa'']"

definition strnlen_at :: "u8 list \<Rightarrow> int \<Rightarrow> nat \<Rightarrow> nat res" where
  "strnlen_at fdt p n = bindE (memchr_at fdt p 0 n) (\<lambda>r. Inr (case r of None \<Rightarrow> n | Some k \<Rightarrow> k))"

function stringlist_count_loop :: "u8 list \<Rightarrow> int \<Rightarrow> int \<Rightarrow> int \<Rightarrow> int res" where
  "stringlist_count_loop fdt list end count =
     (if list < end then
        bindE (strnlen_at fdt list (nat (end - list))) (\<lambda>n.
        if list + (int n + 1) > end then Inr (- 1)
        else stringlist_count_loop fdt (list + (int n + 1)) end (count + 1))
      else Inr count)"
  by pat_completeness auto

termination
  by (relation "measure (\<lambda>(fdt, list, end, count). nat (end - list))") auto

declare stringlist_count_loop.simps [simp del]

definition fdt_stringlist_count :: "u8 list \<Rightarrow> int \<Rightarrow> string \<Rightarrow> int res" where
  "fdt_stringlist_count fdt nodeoffset property =
     bindE (fdt_getprop fdt nodeoffset property) (\<lambda>(list, length). case list of None \<Rightarrow> Inr length
     | Some l \<Rightarrow> stringlist_count_loop fdt l (l + length) 0)"

text \<open>An allocation for a negative number of elements asks for more than 2 GB, and fails.\<close>

definition malloc_array :: "int \<Rightarrow> bool km" where
  "malloc_array n = bindM malloc (\<lambda>ok. ret (ok \<and> 0 \<le> n))"

definition read_cells :: "u8 list \<Rightarrow> int \<Rightarrow> int \<Rightarrow> nat \<Rightarrow> u32 list res" where
  "read_cells fdt p i n = mapE (\<lambda>k. rd32 fdt (p + 4 * (i + int k))) [0..<n]"

definition read_resource :: "u8 list \<Rightarrow> int \<Rightarrow> int \<Rightarrow> int \<Rightarrow> nat \<Rightarrow> resource res" where
  "read_resource fdt reg addr_cells size_cells r =
     (let base = int r * (addr_cells + size_cells) in
      bindE (read_cells fdt reg base (nat addr_cells)) (\<lambda>as.
      bindE (read_cells fdt reg (base + addr_cells) (nat size_cells)) (\<lambda>ss.
      Inr \<lparr>address = as, rsize = ss\<rparr>)))"

definition dt_parse_resources :: "u8 list \<Rightarrow> nat \<Rightarrow> bool km" where
  "dt_parse_resources fdt d =
     bindM (device_at d) (\<lambda>dev.
     bindM (liftE (fdt_getprop fdt (node dev) ''reg'')) (\<lambda>(reg, reg_length). case reg of None \<Rightarrow> ret True
     | Some reg \<Rightarrow>
       bindM (deref (parent dev)) (\<lambda>p. bindM (device_at p) (\<lambda>pd.
       bindM (liftE (fdt_address_cells fdt (node pd))) (\<lambda>addr_cells.
       bindM (liftE (fdt_size_cells fdt (node pd))) (\<lambda>size_cells.
       let n = cdiv reg_length (4 * (addr_cells + size_cells)) in
       bindM (malloc_array n) (\<lambda>ok. if \<not> ok then ret False
       else bindM (liftE (mapE (read_resource fdt reg addr_cells size_cells) [0..<nat n])) (\<lambda>rs.
         thenM (upd_device d (\<lambda>dev. dev\<lparr>resources := rs\<rparr>)) (ret True)))))))))"

text \<open>\<open>dt_probe_device\<close> and the functions below call each other; they take it as an argument.\<close>

type_synonym probe_fn = "int \<Rightarrow> nat option \<Rightarrow> bool \<Rightarrow> nat option km"

text \<open>
  The loop over the entries of interrupts-extended, each the handle of an interrupt controller and as many
  cells as the controller asks for. Its fuel is one more than the number of cells, enough while the
  number of cells per interrupt is not negative; a negative number makes the code loop until the memory
  is used up.
\<close>

fun interrupts_ext_loop :: "nat \<Rightarrow> ops_tables \<Rightarrow> probe_fn \<Rightarrow> u8 list \<Rightarrow> nat \<Rightarrow> int \<Rightarrow> int \<Rightarrow> int \<Rightarrow> bool km" where
  "interrupts_ext_loop 0 tbl probe fdt d irqp len index = throw Hang"
| "interrupts_ext_loop (Suc n) tbl probe fdt d irqp len index =
     (if index < cdiv len 4 then
        bindM (liftE (rd32 fdt (irqp + 4 * index))) (\<lambda>ph.
        bindM (liftE (fdt_node_offset_by_phandle fdt ph)) (\<lambda>chip_offset.
        if chip_offset < 0 then ret False
        else
          bindM (device_lookup chip_offset) (\<lambda>found.
          bindM (case found of Some c \<Rightarrow> ret (Some c) | None \<Rightarrow> probe chip_offset None False) (\<lambda>chip_dev.
          case chip_dev of None \<Rightarrow> ret False
          | Some c \<Rightarrow>
            bindM (irq_find_chip c) (\<lambda>chip. case chip of None \<Rightarrow> ret False
            | Some chip \<Rightarrow>
              bindM (liftE (fdt_getprop fdt chip_offset ''#interrupt-cells'')) (\<lambda>(irq_cells, irq_cells_length).
              if irq_cells = None \<or> irq_cells_length \<noteq> 4 then ret False
              else
                bindM (liftE (rd32 fdt (the irq_cells))) (\<lambda>num_irq_cells.
                bindM malloc (\<lambda>ok. if \<not> ok then ret False
                else
                  bindM (irq_map tbl chip (cells_at fdt (irqp + 4 * (index + 1)))) (\<lambda>(_, irq, flags).
                  thenM (upd_device d (\<lambda>dev. dev\<lparr>irqs := irqs dev @ [\<lparr>idesc = \<lparr>desc_chip = chip, desc_irq = irq\<rparr>, iflags = flags\<rparr>]\<rparr>)) (
                  interrupts_ext_loop n tbl probe fdt d irqp len (index + 1 + i32 num_irq_cells)))))))))))
      else thenM (cassert (index = cdiv len 4)) (ret True))"

definition dt_parse_interrupts_ext :: "ops_tables \<Rightarrow> probe_fn \<Rightarrow> u8 list \<Rightarrow> nat \<Rightarrow> bool km" where
  "dt_parse_interrupts_ext tbl probe fdt d =
     bindM (device_at d) (\<lambda>dev.
     bindM (liftE (fdt_getprop fdt (node dev) ''interrupts-extended'')) (\<lambda>(irqp, len). case irqp of None \<Rightarrow> ret True
     | Some p \<Rightarrow> interrupts_ext_loop (Suc (nat (cdiv len 4))) tbl probe fdt d p len 0))"

text \<open>
  The search for the interrupt parent, from a device up through its parents; their identifiers
  decrease, so that the fuel is the identifier. The result is the controller and the pointer to its
  number of cells, or \<open>None\<close> when the function fails.
\<close>

fun irq_parent_loop :: "nat \<Rightarrow> probe_fn \<Rightarrow> u8 list \<Rightarrow> nat option \<Rightarrow> (nat \<times> int) option km" where
  "irq_parent_loop n probe fdt None = ret None"
| "irq_parent_loop 0 probe fdt (Some p) = throw Hang"
| "irq_parent_loop (Suc n) probe fdt (Some p) =
     bindM (device_at p) (\<lambda>pd.
     bindM (liftE (fdt_getprop fdt (node pd) ''interrupt-parent'')) (\<lambda>(php, len).
     if php \<noteq> None \<and> len = 4 then
       bindM (liftE (rd32 fdt (the php))) (\<lambda>ph.
       bindM (liftE (fdt_node_offset_by_phandle fdt ph)) (\<lambda>irq_parent.
       if irq_parent < 0 then ret None
       else
         bindM (liftE (fdt_getprop fdt irq_parent ''#interrupt-cells'')) (\<lambda>(irq_cells, irq_cells_length).
         if irq_cells = None \<or> irq_cells_length \<noteq> 4 then ret None
         else
           bindM (device_lookup irq_parent) (\<lambda>found.
           bindM (case found of Some c \<Rightarrow> ret (Some c) | None \<Rightarrow> probe irq_parent None False) (\<lambda>c.
           ret (map_option (\<lambda>c. (c, the irq_cells)) c))))))
     else irq_parent_loop n probe fdt (parent pd)))"

fun map_irqs :: "ops_tables \<Rightarrow> chip_ref \<Rightarrow> u8 list \<Rightarrow> int \<Rightarrow> int \<Rightarrow> nat list \<Rightarrow> irq_info list km" where
  "map_irqs tbl chip fdt irqp cells [] = ret []"
| "map_irqs tbl chip fdt irqp cells (i # is) =
     bindM (irq_map tbl chip (cells_at fdt (irqp + 4 * (cells * int i)))) (\<lambda>(_, irq, flags).
     bindM (map_irqs tbl chip fdt irqp cells is) (\<lambda>infos.
     ret (\<lparr>idesc = \<lparr>desc_chip = chip, desc_irq = irq\<rparr>, iflags = flags\<rparr> # infos)))"

definition dt_parse_interrupts :: "ops_tables \<Rightarrow> probe_fn \<Rightarrow> u8 list \<Rightarrow> nat \<Rightarrow> bool km" where
  "dt_parse_interrupts tbl probe fdt d =
     bindM (device_at d) (\<lambda>dev.
     bindM (liftE (fdt_getprop fdt (node dev) ''sp-interrupts'')) (\<lambda>(sp, sp_len).
     bindM (if sp = None then liftE (fdt_getprop fdt (node dev) ''interrupts'') else ret (sp, sp_len)) (\<lambda>(irqp, len).
     case irqp of None \<Rightarrow> dt_parse_interrupts_ext tbl probe fdt d
     | Some irqp \<Rightarrow>
       bindM (irq_parent_loop (Suc d) probe fdt (Some d)) (\<lambda>found. case found of None \<Rightarrow> ret False
       | Some (c, irq_cells) \<Rightarrow>
         bindM (irq_find_chip c) (\<lambda>chip. case chip of None \<Rightarrow> ret False
         | Some chip \<Rightarrow>
           bindM (liftE (rd32 fdt irq_cells)) (\<lambda>w.
           let num_irq_cells = i32 w; n = cdiv len (4 * num_irq_cells) in
           bindM (malloc_array n) (\<lambda>ok. if \<not> ok then ret False
           else
             bindM (map_irqs tbl chip fdt irqp num_irq_cells [0..<nat n]) (\<lambda>infos.
             thenM (upd_device d (\<lambda>dev. dev\<lparr>irqs := infos\<rparr>)) (
             dt_parse_interrupts_ext tbl probe fdt d)))))))))"

definition dt_parse_sp_csu :: "u8 list \<Rightarrow> nat \<Rightarrow> bool km" where
  "dt_parse_sp_csu fdt d =
     bindM (device_at d) (\<lambda>dev.
     bindM (liftE (fdt_getprop fdt (node dev) ''sp-csu'')) (\<lambda>(sp_csu, len). case sp_csu of None \<Rightarrow> ret True
     | Some p \<Rightarrow>
       let n = cdiv len 4 in
       bindM (malloc_array n) (\<lambda>ok. if \<not> ok then ret False
       else bindM (liftE (read_cells fdt p 0 (nat n))) (\<lambda>ws.
         thenM (upd_device d (\<lambda>dev. dev\<lparr>csu := map i32 ws\<rparr>)) (ret True)))))"

fun read_strings :: "nat \<Rightarrow> u8 list \<Rightarrow> int \<Rightarrow> string list res" where
  "read_strings 0 fdt p = Inr []"
| "read_strings (Suc n) fdt p =
     bindE (string_at fdt p) (\<lambda>s. bindE (read_strings n fdt (p + int (length s) + 1)) (\<lambda>ss. Inr (s # ss)))"

definition dt_parse_sp_class :: "u8 list \<Rightarrow> nat \<Rightarrow> bool km" where
  "dt_parse_sp_class fdt d =
     bindM (device_at d) (\<lambda>dev.
     bindM (liftE (fdt_getprop fdt (node dev) ''sp-class'')) (\<lambda>(sp_class, _). case sp_class of None \<Rightarrow> ret True
     | Some p \<Rightarrow>
       bindM (liftE (fdt_stringlist_count fdt (node dev) ''sp-class'')) (\<lambda>n.
       bindM (malloc_array n) (\<lambda>ok. if \<not> ok then ret False
       else bindM (liftE (read_strings (nat n) fdt p)) (\<lambda>ss.
         thenM (upd_device d (\<lambda>dev. dev\<lparr>classes := ss\<rparr>)) (ret True))))))"

section \<open>Devices\<close>

fun is_bus :: "u8 list \<Rightarrow> int \<Rightarrow> string list \<Rightarrow> bool res" where
  "is_bus fdt n [] = Inr False"
| "is_bus fdt n (m # ms) = bindE (fdt_node_check_compatible fdt n m) (\<lambda>r. if r = 0 then Inr True else is_bus fdt n ms)"

text \<open>\<open>malloc\<close> of a device, cleared: a new identifier.\<close>

definition new_device :: "device \<Rightarrow> nat km" where
  "new_device dev =
     bindM malloc (\<lambda>ok. if \<not> ok then panic
     else bindM (gets (\<lambda>s. next_dev (dt s))) (\<lambda>d.
       thenM (modifyM (\<lambda>s. s\<lparr>dt := (dt s)\<lparr>devs := (devs (dt s))(d \<mapsto> dev), next_dev := Suc d\<rparr>\<rparr>)) (ret d)))"

definition node_name :: "u8 list \<Rightarrow> int \<Rightarrow> string res" where
  "node_name fdt n = bindE (fdt_get_name fdt n) (\<lambda>(p, _). case p of None \<Rightarrow> Inr [] | Some p \<Rightarrow> string_at fdt p)"

text \<open>The device of a node, once it is known to be used.\<close>

definition device_init :: "ops_tables \<Rightarrow> probe_fn \<Rightarrow> u8 list \<Rightarrow> int \<Rightarrow> nat option \<Rightarrow> nat km" where
  "device_init tbl probe fdt n par =
     bindM (new_device \<lparr>node = n, phandle = 0, dname = [], parent = par, dresource_type = RESOURCE_MEM, resources = [],
       irqs = [], csu = [], classes = [], enabled = True, is_simple_bus = False\<rparr>) (\<lambda>d.
     bindM (liftE (fdt_get_phandle fdt n)) (\<lambda>ph.
     bindM (liftE (node_name fdt n)) (\<lambda>nm.
     bindM (liftE (is_bus fdt n simple_bus_match_table)) (\<lambda>bus.
     bindM (case par of None \<Rightarrow> ret RESOURCE_OTHER
       | Some p \<Rightarrow> bindM (device_at p) (\<lambda>pd. ret (if is_simple_bus pd then RESOURCE_MEM else RESOURCE_OTHER))) (\<lambda>rt.
     thenM (upd_device d (\<lambda>dev. dev\<lparr>phandle := ph, dname := nm, is_simple_bus := bus, dresource_type := rt\<rparr>)) (
     bindM (dt_parse_resources fdt d) (\<lambda>s1.
     bindM (dt_parse_interrupts tbl probe fdt d) (\<lambda>s2.
     bindM (dt_parse_sp_csu fdt d) (\<lambda>s3.
     bindM (dt_parse_sp_class fdt d) (\<lambda>s4.
     if \<not> (s1 \<and> s2 \<and> s3 \<and> s4) then panic else ret d))))))))))"

definition device_create :: "ops_tables \<Rightarrow> probe_fn \<Rightarrow> u8 list \<Rightarrow> int \<Rightarrow> nat option \<Rightarrow> bool \<Rightarrow> nat option km" where
  "device_create tbl probe fdt n par strict =
     bindM (liftE (fdt_get_property fdt n ''compatible'')) (\<lambda>(compat, _).
     bindM (if strict \<and> compat \<noteq> None then bindM (liftE (fdt_get_status fdt n)) (\<lambda>st. ret (st = DT_STATUS_DISABLED)) else ret False) (\<lambda>disabled.
     if strict \<and> (compat = None \<or> disabled) then ret None
     else bindM (device_init tbl probe fdt n par) (\<lambda>d. ret (Some d))))"

text \<open>The loop \<open>fdt_for_each_subnode\<close> with a body.\<close>

function for_subnodes :: "u8 list \<Rightarrow> int \<Rightarrow> (int \<Rightarrow> unit km) \<Rightarrow> unit km" where
  "for_subnodes fdt child body =
     (if child < 0 then ret ()
      else thenM (body child) (case fdt_next_subnode fdt child of Inl e \<Rightarrow> throw e
        | Inr next \<Rightarrow> if 0 \<le> next \<and> next \<le> child then throw Hang else for_subnodes fdt next body))"
  by pat_completeness auto

termination
  by (relation "measure (\<lambda>(fdt, child, body). if child < 0 then 0 else Suc (nat (2 ^ 31 - child)))")
    (auto simp: fdt_next_subnode_def dest!: next_subnode_less)

declare for_subnodes.simps [simp del]

text \<open>
  Creating a device may probe its interrupt controller, and probing a device its parent. Two devices that
  are each other's interrupt controllers make the recursion endless; the first argument bounds its
  depth.
\<close>

fun dt_probe_device :: "nat \<Rightarrow> ops_tables \<Rightarrow> dt_driver list \<Rightarrow> u8 list \<Rightarrow> int \<Rightarrow> nat option \<Rightarrow> bool \<Rightarrow> nat option km" where
  "dt_probe_device 0 tbl drivers fdt offset par probe_children = throw Hang"
| "dt_probe_device (Suc n) tbl drivers fdt offset par probe_children =
     (let probe = dt_probe_device n tbl drivers fdt in
      bindM (case par of Some p \<Rightarrow> ret (Some (Some p))
        | None \<Rightarrow>
          bindM (liftE (fdt_parent_offset fdt offset)) (\<lambda>parent_offset.
          if parent_offset \<ge> 0 then
            bindM (device_lookup parent_offset) (\<lambda>p. case p of Some p \<Rightarrow> ret (Some (Some p))
            | None \<Rightarrow> bindM (probe parent_offset None False) (\<lambda>p. ret (map_option Some p)))
          else ret (Some None))) (\<lambda>r.
      case r of None \<Rightarrow> ret None
      | Some par \<Rightarrow>
        bindM (device_lookup offset) (\<lambda>dev.
        bindM (case dev of Some d \<Rightarrow> ret (Some d)
          | None \<Rightarrow>
            bindM (device_create tbl probe fdt offset par True) (\<lambda>dev. case dev of None \<Rightarrow> ret None
            | Some d \<Rightarrow> thenM (device_insert d) (thenM (dt_probe_compatible_driver drivers fdt d) (ret (Some d))))) (\<lambda>dev.
        case dev of None \<Rightarrow> ret None
        | Some d \<Rightarrow>
          thenM (whenM probe_children (bindM (liftE (fdt_first_subnode fdt offset)) (\<lambda>child.
            for_subnodes fdt child (\<lambda>c. thenM (probe c (Some d) True) (ret ()))))) (ret (Some d))))))"

text \<open>The handle is the value of the big-endian cell the callers pass.\<close>

definition dt_lookup_device :: "u8 list \<Rightarrow> u32 \<Rightarrow> nat option km" where
  "dt_lookup_device fdt ph = bindM (liftE (fdt_node_offset_by_phandle fdt ph)) device_lookup"

definition dt_probe :: "nat \<Rightarrow> ops_tables \<Rightarrow> dt_driver list \<Rightarrow> paddr \<Rightarrow> u8 list \<Rightarrow> int km" where
  "dt_probe n tbl drivers dt_addr fdt =
     bindM (phys_to_virt dt_addr MEM_AREA_RAM_NSEC) (\<lambda>va.
     thenM (whenM (va = 0) panic) (
     thenM (modifyM (\<lambda>s. s\<lparr>dt := (dt s)\<lparr>buckets := replicate DEVICE_TABLE_SIZE []\<rparr>\<rparr>)) (
     bindM (liftE (fdt_path_offset 1 fdt ''/'')) (\<lambda>root.
     thenM (whenM (root < 0) panic) (
     bindM (device_create tbl (dt_probe_device n tbl drivers fdt) fdt root None False) (\<lambda>dev. case dev of None \<Rightarrow> panic
     | Some d \<Rightarrow>
       thenM (upd_device d (\<lambda>dev. dev\<lparr>is_simple_bus := True\<rparr>)) (
       thenM (device_insert d) (
       bindM (liftE (fdt_first_subnode fdt root)) (\<lambda>child.
       thenM (for_subnodes fdt child (\<lambda>c. thenM (dt_probe_device n tbl drivers fdt c (Some d) True) (ret ()))) (ret 0))))))))))"

end
