(* ===== verification/Dt_Read.thy ===== *)
theory Dt_Read
  imports Dt_Parse Fdt_Tree
begin

text \<open>
  What dt.c reads from the flattened form of a tree: the properties of a node, its device addresses, security
  slots and classes, its children and its parent, in terms of the tree.
\<close>

section \<open>A tree in memory\<close>

definition tree_in :: "u8 list \<Rightarrow> (u32 \<Rightarrow> string) \<Rightarrow> dtree \<Rightarrow> bool" where
  "tree_in fdt names t \<longleftrightarrow> (\<exists>st sz str. flat fdt st sz str t \<and> (\<forall>(x, d, n) \<in> set (nodes 0 0 t). named fdt str names n))"

text \<open>The nodes by their offset, and the relation of parent and child.\<close>

definition node_of :: "dtree \<Rightarrow> int \<Rightarrow> dtree \<Rightarrow> bool" where
  "node_of t x n \<longleftrightarrow> (\<exists>d. (x, d, n) \<in> set (nodes 0 0 t))"

definition kid_of :: "dtree \<Rightarrow> int \<Rightarrow> int \<Rightarrow> bool" where
  "kid_of t px x \<longleftrightarrow> (\<exists>pn. node_of t px pn \<and> x \<in> set (kid_offsets (kids_at px pn) (dn_kids pn)))"

lemma node_of_unique: "node_of t x n \<Longrightarrow> node_of t x n' \<Longrightarrow> n = n'"
proof -
  assume "node_of t x n" "node_of t x n'"
  then obtain d d' where i: "(x, d, n) \<in> set (nodes 0 0 t)" "(x, d', n') \<in> set (nodes 0 0 t)" by (auto simp: node_of_def)
  have "sorted_wrt (\<lambda>x y. fst x < fst y) (nodes 0 0 t)" by (rule nodes_increasing)
  then have "sorted_wrt (<) (map fst (nodes 0 0 t))" by (simp add: sorted_wrt_map)
  then have "distinct (map fst (nodes 0 0 t))" by (simp add: strict_sorted_iff)
  then show "n = n'" using i by (metis eq_key_imp_eq_value prod.inject)
qed

lemma root_node: "node_of t 0 t"
  by (cases t) (auto simp: node_of_def)

lemma node_nonneg: "node_of t x n \<Longrightarrow> 0 \<le> x"
  using nodes_forward(1) [of x _ n 0 0 t] by (auto simp: node_of_def)

lemma node_getprop:
  assumes "tree_in fdt names t" "node_of t x n"
  shows "case prop_of names s n of None \<Rightarrow> fdt_getprop fdt x s = Inr (None, - FDT_ERR_NOTFOUND)
    | Some v \<Rightarrow> length v < 2 ^ 31 \<and> (\<exists>p. fdt_getprop fdt x s = Inr (Some p, int (length v)) \<and> bytes_at fdt p v)"
proof -
  obtain st sz str d where f: "flat fdt st sz str t" and nm: "named fdt str names n" and x: "(x, d, n) \<in> set (nodes 0 0 t)"
    using assms by (fastforce simp: tree_in_def node_of_def)
  note at = nodes_at(1) [OF flatD(2) [OF f] x]
  show ?thesis
  proof (cases "prop_of names s n")
    case None
    then show ?thesis using getprop_None [OF flatD(1) [OF f] at nm] by simp
  next
    case (Some v)
    have "wf_tree n" using at by (simp add: node_at_def)
    moreover from Some obtain q where "q \<in> set (dn_props n)" "v = snd q" 
      by (auto simp: prop_of_def find_Some_iff) (metis nth_mem snd_conv)
    ultimately have "length v < 2 ^ 31" by (cases n) auto
    moreover obtain p where "fdt_getprop fdt x s = Inr (Some p, int (length v))" "bytes_at fdt p v"
      by (rule getprop_Some [OF flatD(1) [OF f] at nm Some])
    ultimately show ?thesis using Some by simp
  qed
qed

lemma node_property:
  assumes "tree_in fdt names t" "node_of t x n"
  shows "\<exists>p l. fdt_get_property fdt x s = Inr (p, l) \<and> (p = None \<longleftrightarrow> prop_of names s n = None)"
proof -
  obtain r where "fdt_getprop fdt x s = Inr r" using node_getprop [OF assms, of s] by (cases "prop_of names s n") auto
  then show ?thesis using node_getprop [OF assms, of s]
    by (cases "prop_of names s n") (auto simp: fdt_getprop_def fdt_getprop_namelen_def fdt_get_property_def bindE_Inr)
qed

section \<open>Words and strings\<close>

lemma bytes_at_drop: "bytes_at fdt p (xs @ ys) \<Longrightarrow> bytes_at fdt (p + int (length xs)) ys"
  by (induction xs arbitrary: p) (auto simp: bytes_at_Cons add.assoc [symmetric])

lemma mapE_Inr: "(\<And>i. i \<in> set xs \<Longrightarrow> f i = Inr (g i)) \<Longrightarrow> mapE f xs = Inr (map g xs)"
  by (induction xs) auto

lemma words_of_length: "length (words_of v) = length v div 4"
  by (induction v rule: words_of.induct) auto

lemma rd32_words:
  assumes "bytes_at fdt p v" "i < length (words_of v)"
  shows "rd32 fdt (p + 4 * int i) = Inr (words_of v ! i)"
  using assms
proof (induction v arbitrary: p i rule: words_of.induct)
  case (1 a b c d bs)
  have s: "bytes_at fdt p ([a, b, c, d] @ bs)" using "1.prems"(1) by simp
  show ?case
  proof (cases i)
    case 0
    then show ?thesis using bytes_at_rd32 [OF bytes_at_prefix [OF s]] by simp
  next
    case (Suc j)
    then show ?thesis using "1.IH" [of "p + 4" j] bytes_at_drop [OF s] "1.prems"(2) by (simp add: algebra_simps)
  qed
qed auto

lemma read_cells_words:
  assumes "bytes_at fdt p v" "i + n \<le> length (words_of v)"
  shows "read_cells fdt p (int i) n = Inr (take n (drop i (words_of v)))"
proof -
  have "read_cells fdt p (int i) n = Inr (map (\<lambda>k. words_of v ! (i + k)) [0..<n])"
    unfolding read_cells_def
  proof (rule mapE_Inr)
    fix k
    assume "k \<in> set [0..<n]"
    then show "rd32 fdt (p + 4 * (int i + int k)) = Inr (words_of v ! (i + k))"
      using rd32_words [OF assms(1), of "i + k"] assms(2) by (simp add: algebra_simps)
  qed
  then show ?thesis using assms(2) by (simp add: nth_take_lemma list_eq_iff_nth_eq)
qed

lemma cdiv_pos: "0 \<le> a \<Longrightarrow> a < 2 ^ 31 \<Longrightarrow> 0 < b \<Longrightarrow> b < 2 ^ 31 \<Longrightarrow> cdiv a b = a div b"
proof -
  assume a: "0 \<le> a" "a < 2 ^ 31" and b: "0 < b" "b < 2 ^ 31"
  have s: "sint (w32 a) = a" "sint (w32 b) = b" using a b i32_w32 [of a] i32_w32 [of b] by (simp_all add: i32_def)
  have nz: "w32 b \<noteq> 0" using s(2) b(1) by auto
  have "aeabi_idiv (w32 a) (w32 b) = w32 (a div b)"
    using div32.signed_correct [OF nz, of "w32 a"] a b s
    by (simp add: aeabi_idiv_def signed_divide_int_def w32_def sgn_if pos_imp_zdiv_nonneg_iff)
  moreover have "0 \<le> a div b" "a div b < 2 ^ 31" using a b by (simp_all add: pos_imp_zdiv_nonneg_iff zdiv_mono2 div_less_dividend) (metis a(2) div_by_1 int_one_le_iff_zero_less order.strict_trans1 zdiv_mono2 zero_less_one)
  ultimately show ?thesis by (simp add: cdiv_def i32_w32)
qed

section \<open>Device addresses\<close>

definition addr_cells :: "(u32 \<Rightarrow> string) \<Rightarrow> dtree \<Rightarrow> int" where
  "addr_cells names n = (case prop_of names ''#address-cells'' n of None \<Rightarrow> 2
     | Some v \<Rightarrow> if length v \<noteq> 4 then - FDT_ERR_BADNCELLS
       else let val = i32 (fdt32_to_cpu v) in if val \<le> 0 \<or> val > 4 then - FDT_ERR_BADNCELLS else val)"

definition size_cells :: "(u32 \<Rightarrow> string) \<Rightarrow> dtree \<Rightarrow> int" where
  "size_cells names n = (case prop_of names ''#size-cells'' n of None \<Rightarrow> 2
     | Some v \<Rightarrow> if length v \<noteq> 4 then - FDT_ERR_BADNCELLS
       else let val = i32 (fdt32_to_cpu v) in if val < 0 \<or> val > 4 then - FDT_ERR_BADNCELLS else val)"

lemma node_cells:
  assumes "tree_in fdt names t" "node_of t x n"
  shows "fdt_address_cells fdt x = Inr (addr_cells names n)" "fdt_size_cells fdt x = Inr (size_cells names n)"
proof -
  show "fdt_address_cells fdt x = Inr (addr_cells names n)"
    using node_getprop [OF assms, of "''#address-cells''"] bytes_at_rd32 [of fdt]
    by (auto simp: fdt_address_cells_def addr_cells_def Let_def split: option.splits)
  show "fdt_size_cells fdt x = Inr (size_cells names n)"
    using node_getprop [OF assms, of "''#size-cells''"] bytes_at_rd32 [of fdt]
    by (auto simp: fdt_size_cells_def size_cells_def Let_def split: option.splits)
qed

text \<open>The entries of a reg property, each an address and a size of as many cells as the parent says.\<close>

definition reg_entries :: "nat \<Rightarrow> nat \<Rightarrow> u8 list \<Rightarrow> resource list" where
  "reg_entries ac sc v = map (\<lambda>r. \<lparr>address = take ac (drop (r * (ac + sc)) (words_of v)),
     rsize = take sc (drop (r * (ac + sc) + ac) (words_of v))\<rparr>) [0..<length v div (4 * (ac + sc))]"

lemma read_resource_entry:
  assumes "bytes_at fdt p v" "r < length v div (4 * (ac + sc))"
  shows "read_resource fdt p (int ac) (int sc) r = Inr \<lparr>address = take ac (drop (r * (ac + sc)) (words_of v)),
     rsize = take sc (drop (r * (ac + sc) + ac) (words_of v))\<rparr>"
proof -
  have "length v div (4 * (ac + sc)) = length (words_of v) div (ac + sc)" by (simp only: words_of_length div_mult2_eq)
  then have "Suc r * (ac + sc) \<le> length (words_of v)"
    using assms(2) by (metis Suc_leI div_times_less_eq_dividend mult_le_mono1 order_trans)
  then have le: "r * (ac + sc) + ac + sc \<le> length (words_of v)" by (simp add: algebra_simps)
  have i: "int r * (int ac + int sc) = int (r * (ac + sc))" "int (r * (ac + sc)) + int ac = int (r * (ac + sc) + ac)" by simp_all
  show ?thesis unfolding read_resource_def Let_def i nat_int
    using read_cells_words [OF assms(1), of "r * (ac + sc)" ac] read_cells_words [OF assms(1), of "r * (ac + sc) + ac" sc] le
    by simp
qed

lemma read_resources:
  assumes "bytes_at fdt p v" "length v < 2 ^ 31" "0 < ac" "0 \<le> sc" "ac \<le> 4" "sc \<le> 4"
    and "n = cdiv (int (length v)) (4 * (ac + sc))"
  shows "mapE (read_resource fdt p ac sc) [0..<nat n] = Inr (reg_entries (nat ac) (nat sc) v)"
proof -
  have n: "n = int (length v div (4 * (nat ac + nat sc)))"
    using assms(2-7) cdiv_pos [of "int (length v)" "4 * (ac + sc)"] by (simp add: zdiv_int nat_add_distrib)
  show ?thesis unfolding reg_entries_def n nat_int
    by (rule mapE_Inr) (use read_resource_entry [OF assms(1), of _ "nat ac" "nat sc"] assms(3,4) in simp)
qed

section \<open>Strings\<close>

lemma strnlen_bytes: "bytes_at fdt p v \<Longrightarrow> strnlen_at fdt p (length v) = Inr (length (takeWhile (\<lambda>b. b \<noteq> 0) v))"
proof (induction v arbitrary: p)
  case (Cons b v)
  then have b: "strnlen_at fdt (p + 1) (length v) = Inr (length (takeWhile (\<lambda>b. b \<noteq> 0) v))" "rd8 fdt p = Inr b" by (simp_all add: bytes_at_Cons)
  then obtain r where "memchr_at fdt (p + 1) 0 (length v) = Inr r" "(case r of None \<Rightarrow> length v | Some k \<Rightarrow> k) = length (takeWhile (\<lambda>b. b \<noteq> 0) v)"
    by (auto simp: strnlen_at_def bindE_Inr)
  then show ?case using b(2) by (cases r) (simp_all add: strnlen_at_def)
qed (simp add: strnlen_at_def)

definition text_of :: "u8 list \<Rightarrow> string" where "text_of bs = map (\<lambda>b. char_of (unat b)) bs"

lemma unat_mod_256: "unat (b :: u8) mod 256 = unat b"
  using unat_bound [of b] by simp

lemma bytes_text_of [simp]: "bytes (text_of bs) = bs"
proof -
  have "byte (char_of (unat b)) = b" for b :: u8 by (simp add: byte_def unat_mod_256)
  then show ?thesis by (simp add: text_of_def bytes_def comp_def map_idI)
qed

lemma string_at_bytes:
  assumes "0 \<notin> set bs" "bytes_at fdt p (bs @ [0])"
  shows "string_at fdt p = Inr (text_of bs)"
proof -
  have "take (length bs) (drop (nat p) fdt) = bs" using bytes_at_prefix [OF assms(2)] by (simp add: bytes_at_def)
  then show ?thesis using strlen_at_bytes [OF assms] by (simp add: string_at_def text_of_def)
qed

text \<open>A property that \<open>fdt_stringlist_count\<close> accepts is a list of terminated strings, which are the strings read.\<close>

lemma stringlist:
  assumes "bytes_at fdt p v" "stringlist_count_loop fdt p (p + int (length v)) c = Inr m" "0 \<le> m" "0 \<le> c"
  shows "\<exists>bs. v = concat (map (\<lambda>b. b @ [0]) bs) \<and> (\<forall>b \<in> set bs. 0 \<notin> set b) \<and> m = c + int (length bs)
    \<and> read_strings (length bs) fdt p = Inr (map text_of bs)"
  using assms
proof (induction "length v" arbitrary: v p c rule: less_induct)
  case less
  show ?case
  proof (cases v)
    case Nil
    then show ?thesis using less.prems(2) by (intro exI [of _ "[]"]) (simp add: stringlist_count_loop.simps)
  next
    case (Cons a v')
    define b where "b = takeWhile (\<lambda>b. b \<noteq> 0) v"
    define w where "w = drop (Suc (length b)) v"
    have n: "strnlen_at fdt p (length v) = Inr (length b)" using strnlen_bytes [OF less.prems(1)] by (simp add: b_def)
    have ne: "v \<noteq> []" using Cons by simp
    have step: "stringlist_count_loop fdt p (p + int (length v)) c = (if int (length b) + 1 > int (length v) then Inr (- 1)
        else stringlist_count_loop fdt (p + (int (length b) + 1)) (p + int (length v)) (c + 1))"
      by (subst stringlist_count_loop.simps) (use n ne in simp)
    have fits: "\<not> int (length b) + 1 > int (length v)" using less.prems(2,3) step by (auto split: if_splits)
    have "dropWhile (\<lambda>b. b \<noteq> 0) v \<noteq> []" 
      using fits by (metis b_def append_Nil2 length_append less_irrefl not_less of_nat_1 of_nat_add takeWhile_dropWhile_id zle_add1_eq_le of_nat_less_iff add.commute)
    then have "hd (dropWhile (\<lambda>b. b \<noteq> 0) v) = 0" using hd_dropWhile [of "\<lambda>b. b \<noteq> 0" v] by auto
    then have v: "v = b @ 0 # w" using \<open>dropWhile (\<lambda>b. b \<noteq> 0) v \<noteq> []\<close>
      by (metis b_def w_def drop_Suc dropWhile_eq_drop drop_tl list.collapse takeWhile_dropWhile_id)
    have z: "0 \<notin> set b" by (auto simp: b_def dest: set_takeWhileD)
    have at: "bytes_at fdt p (b @ [0])" "bytes_at fdt (p + int (length b) + 1) w"
      using bytes_at_prefix [of fdt p "b @ [0]" w] bytes_at_drop [of fdt p "b @ [0]" w] less.prems(1) by (simp_all add: v ac_simps)
    have "stringlist_count_loop fdt (p + int (length b) + 1) (p + int (length b) + 1 + int (length w)) (c + 1) = Inr m"
      using less.prems(2) fits by (simp add: step) (simp add: v algebra_simps)
    from less.hyps [OF _ at(2) this less.prems(3)] less.prems(4) obtain bs where
      bs: "w = concat (map (\<lambda>b. b @ [0]) bs)" "\<forall>b \<in> set bs. 0 \<notin> set b" "m = c + 1 + int (length bs)"
      "read_strings (length bs) fdt (p + int (length b) + 1) = Inr (map text_of bs)" by (auto simp: v)
    then show ?thesis using v z string_at_bytes [OF z at(1)] by (intro exI [of _ "b # bs"]) (simp add: text_of_def)
  qed
qed

section \<open>Status and compatible strings\<close>

fun strneq :: "u8 list \<Rightarrow> u8 list \<Rightarrow> bool" where
  "strneq [] cs = True"
| "strneq (b # bs) [] = True"
| "strneq (b # bs) (c # cs) \<longleftrightarrow> b = c \<and> (c = 0 \<or> strneq bs cs)"

lemma strneq_at_bytes: "bytes_at fdt p v \<Longrightarrow> strneq_at fdt p cs (length v) = Inr (strneq v cs)"
  by (induction v cs arbitrary: p rule: strneq.induct) (auto simp: bytes_at_Cons)

text \<open>A device is used when it has a compatible property and no status other than ok or okay.\<close>

definition usable :: "(u32 \<Rightarrow> string) \<Rightarrow> dtree \<Rightarrow> bool" where
  "usable names n \<longleftrightarrow> prop_of names ''compatible'' n \<noteq> None
     \<and> (case prop_of names ''status'' n of None \<Rightarrow> True
        | Some v \<Rightarrow> strneq v (bytes ''ok'' @ [0]) \<or> strneq v (bytes ''okay'' @ [0]))"

lemma node_status:
  assumes "tree_in fdt names t" "node_of t x n" "prop_of names ''compatible'' n \<noteq> None"
  shows "\<exists>st. fdt_get_status fdt x = Inr st \<and> (st = DT_STATUS_DISABLED \<longleftrightarrow> \<not> usable names n)"
proof (cases "prop_of names ''status'' n")
  case None
  then show ?thesis using node_getprop [OF assms(1,2), of "''status''"] assms(3) by (simp add: fdt_get_status_def usable_def)
next
  case (Some v)
  then obtain p where g: "fdt_getprop fdt x ''status'' = Inr (Some p, int (length v))" "bytes_at fdt p v" "length v < 2 ^ 31"
    using node_getprop [OF assms(1,2), of "''status''"] by auto
  have "unat (w32 (int (length v))) = length v" using g(3) by (simp add: w32_def unat_of_nat)
  then have "is_okay fdt p (int (length v)) = Inr (strneq v (bytes ''ok'' @ [0]) \<or> strneq v (bytes ''okay'' @ [0]))"
    using strneq_at_bytes [OF g(2)] by (simp add: is_okay_def)
  then show ?thesis using Some g(1) assms(3) by (simp add: fdt_get_status_def usable_def)
qed

section \<open>Children and parents\<close>

lemma for_subnodes_eq: "subnodes_from fdt child = Inr ns \<Longrightarrow> for_subnodes fdt child body = forM ns body"
proof (induction fdt child arbitrary: ns rule: subnodes_from.induct)
  case (1 fdt child)
  show ?case
  proof (cases "child < 0")
    case True
    then show ?thesis using "1.prems" by (simp add: subnodes_from.simps [of fdt child] for_subnodes.simps [of fdt child])
  next
    case False
    obtain nx ms where n: "fdt_next_subnode fdt child = Inr nx" "\<not> (0 \<le> nx \<and> nx \<le> child)" "subnodes_from fdt nx = Inr ms" "ns = child # ms"
      using "1.prems" False by (subst (asm) subnodes_from.simps) (auto simp: bindE_Inr split: if_splits)
    then show ?thesis using "1.IH" [OF False n(1,2,3)] False by (auto simp: for_subnodes.simps [of fdt child])
  qed
qed

lemma node_kids:
  assumes "tree_in fdt names t" "node_of t x n"
  shows "\<exists>c. fdt_first_subnode fdt x = Inr c \<and> (\<forall>body. for_subnodes fdt c body = forM (kid_offsets (kids_at x n) (dn_kids n)) body)"
proof -
  obtain st sz str d where f: "flat fdt st sz str t" and x: "(x, d, n) \<in> set (nodes 0 0 t)"
    using assms by (fastforce simp: tree_in_def node_of_def)
  have "fdt_for_each_subnode fdt x = Inr (kid_offsets (kids_at x n) (dn_kids n))"
    by (rule for_each_subnode_correct [OF flatD(1) [OF f] nodes_at(1) [OF flatD(2) [OF f] x]])
  then show ?thesis using for_subnodes_eq by (auto simp: fdt_for_each_subnode_def bindE_Inr)
qed

lemma kid_of_node: "kid_of t px x \<Longrightarrow> \<exists>n. node_of t x n"
  using kids_in_nodes(1) [of px _ _ 0 0 t x] by (fastforce simp: kid_of_def node_of_def)

lemma kid_parent:
  assumes "tree_in fdt names t" "kid_of t px x"
  shows "fdt_parent_offset fdt x = Inr px"
  using assms parent_of_kid by (fastforce simp: tree_in_def kid_of_def node_of_def)

lemma nodes_kid:
  shows "(x, d', n') \<in> set (nodes off d n) \<Longrightarrow> (x, n') = (off, n) \<or> (\<exists>px pd pn. (px, pd, pn) \<in> set (nodes off d n)
      \<and> x \<in> set (kid_offsets (kids_at px pn) (dn_kids pn)))"
    and "(x, d', n') \<in> set (nodesl off d ks) \<Longrightarrow> x \<in> set (kid_offsets off ks) \<or> (\<exists>px pd pn. (px, pd, pn) \<in> set (nodesl off d ks)
      \<and> x \<in> set (kid_offsets (kids_at px pn) (dn_kids pn)))"
proof (induction off d n and off d ks rule: nodes_nodesl.induct)
  case (1 off d nm ps ks)
  then show ?case by (fastforce simp: kids_at_def)
next
  case (3 off d k ks)
  then show ?case by (cases k) fastforce
qed simp

lemma node_cases:
  assumes "node_of t x n"
  obtains "x = 0" | px where "kid_of t px x"
  using assms nodes_kid(1) [of x _ n 0 0 t] by (fastforce simp: node_of_def kid_of_def)

lemma root_parent:
  assumes "tree_in fdt names t" "fdt_parent_offset fdt 0 = Inr p"
  shows "p < 0"
proof -
  obtain st sz str where f: "flat fdt st sz str t" using assms(1) by (auto simp: tree_in_def)
  have h: "fdt_check_header fdt = Inr 0" by (rule blobD(1) [OF flatD(1) [OF f]])
  have "fdt_node_depth fdt 0 = Inr 0"
    by (simp add: fdt_node_depth_def fdt_supernode_atdepth_offset_def h supernode_loop.simps [of fdt 0 0 0])
  then show ?thesis using assms(2) by (simp add: fdt_parent_offset_def fdt_supernode_atdepth_offset_def h)
qed

text \<open>A handle leads to a node.\<close>

lemma phandle_loop_node:
  assumes "chain fdt (\<lambda>_. None) L (Inr (- FDT_ERR_NOTFOUND, None))" "phandle_loop fdt x ph = Inr r" "x = (case L of [] \<Rightarrow> - 1 | (x, _) # _ \<Rightarrow> x)"
  shows "r < 0 \<or> r \<in> fst ` set L"
  using assms
proof (induction fdt "\<lambda>_ :: int. None :: int option" L "Inr (- FDT_ERR_NOTFOUND, None) :: (int \<times> int option) res" arbitrary: x rule: chain.induct)
  case (2 fdt off d n)
  then show ?case by (subst (asm) phandle_loop.simps) (auto simp: bindE_Inr phandle_loop.simps [of fdt "- 1"] split: if_splits)
next
  case (3 fdt off d n off' d' n' L)
  have "r < 0 \<or> r = off \<or> phandle_loop fdt off' ph = Inr r"
    using "3.prems" by (subst (asm) phandle_loop.simps) (auto simp: bindE_Inr split: if_splits)
  then show ?case using "3.hyps" [of off'] "3.prems"(1) by auto
qed (simp add: phandle_loop.simps)

lemma phandle_node:
  assumes "tree_in fdt names t" "fdt_node_offset_by_phandle fdt ph = Inr r" "0 \<le> r"
  shows "\<exists>n. node_of t r n"
proof -
  obtain st sz str where f: "flat fdt st sz str t" using assms(1) by (auto simp: tree_in_def)
  have "fdt_next_node fdt (- 1) None = Inr (0, None)" by (rule root_first [OF f])
  then have "phandle_loop fdt 0 ph = Inr r"
    using assms(2,3) by (auto simp: fdt_node_offset_by_phandle_def blobD(1) [OF flatD(1) [OF f]] bindE_Inr split: if_splits)
  from phandle_loop_node [OF root_chain(2) [OF f] this] assms(3) show ?thesis by (cases t) (fastforce simp: node_of_def)
qed

end
