(* ===== verification/Dt_Boot.thy ===== *)
theory Dt_Boot
  imports Dt_Read Dt_Class
begin

text \<open>
  What the device table holds after \<open>dt_probe\<close>: every device in it is what its node of the tree says, and every
  node that is used, as are all nodes above it, is in it.
\<close>

section \<open>What a device is\<close>

text \<open>The parts of a device that come from its node alone.\<close>

definition of_node :: "(u32 \<Rightarrow> string) \<Rightarrow> dtree \<Rightarrow> device \<Rightarrow> bool" where
  "of_node names n dev \<longleftrightarrow> enabled dev \<and> dname dev = text_of (dn_name n)
     \<and> csu dev = (case prop_of names ''sp-csu'' n of None \<Rightarrow> [] | Some v \<Rightarrow> map i32 (words_of v))
     \<and> concat (map (\<lambda>c. bytes c @ [0]) (classes dev)) = (case prop_of names ''sp-class'' n of None \<Rightarrow> [] | Some v \<Rightarrow> v)"

text \<open>The parts that depend on its parent: the addresses, and whether they are memory addresses.\<close>

definition in_parent :: "(u32 \<Rightarrow> string) \<Rightarrow> dtree \<Rightarrow> dtree \<Rightarrow> device \<Rightarrow> device \<Rightarrow> bool" where
  "in_parent names n pn pd dev \<longleftrightarrow> (dresource_type dev = RESOURCE_MEM \<longleftrightarrow> is_simple_bus pd)
     \<and> (0 < addr_cells names pn \<longrightarrow> 0 \<le> size_cells names pn \<longrightarrow> resources dev =
         (case prop_of names ''reg'' n of None \<Rightarrow> []
          | Some v \<Rightarrow> reg_entries (nat (addr_cells names pn)) (nat (size_cells names pn)) v))"

definition describes :: "(u32 \<Rightarrow> string) \<Rightarrow> dtree \<Rightarrow> (nat \<rightharpoonup> device) \<Rightarrow> nat \<Rightarrow> bool" where
  "describes names t m d \<longleftrightarrow> (\<exists>dev n. m d = Some dev \<and> node_of t (node dev) n \<and> of_node names n dev
     \<and> (case parent dev of None \<Rightarrow> node dev = 0
        | Some p \<Rightarrow> p < d \<and> (\<exists>pd pn. m p = Some pd \<and> kid_of t (node pd) (node dev) \<and> node_of t (node pd) pn
            \<and> in_parent names n pn pd dev)))"

definition devices :: "kernel \<Rightarrow> nat set" where
  "devices s = set (concat (buckets (dt s)))"

definition registered :: "kernel \<Rightarrow> int \<Rightarrow> bool" where
  "registered s x \<longleftrightarrow> (\<exists>d \<in> devices s. \<exists>dev. devs (dt s) d = Some dev \<and> node dev = x)"

definition boot_inv :: "(u32 \<Rightarrow> string) \<Rightarrow> dtree \<Rightarrow> kernel \<Rightarrow> bool" where
  "boot_inv names t s \<longleftrightarrow> table_ok s \<and> (\<forall>d. devs (dt s) d \<noteq> None \<longrightarrow> d < next_dev (dt s)) \<and> (\<forall>d \<in> devices s. describes names t (devs (dt s)) d)
     \<and> (\<forall>d \<in> devices s. \<forall>dev p. devs (dt s) d = Some dev \<longrightarrow> parent dev = Some p \<longrightarrow> p \<in> devices s)"

text \<open>What a step of the boot leaves: the devices below an identifier and the entries of the table.\<close>

definition extends :: "nat \<Rightarrow> kernel \<Rightarrow> kernel \<Rightarrow> bool" where
  "extends k s t \<longleftrightarrow> next_dev (dt s) \<le> next_dev (dt t) \<and> (\<forall>i < k. devs (dt t) i = devs (dt s) i)
     \<and> devices s \<subseteq> devices t \<and> devices t \<subseteq> devices s \<union> {next_dev (dt s)..}"

lemma extends_refl [simp]: "extends k s s"
  by (simp add: extends_def)

lemma extends_trans: "extends k s t \<Longrightarrow> extends k' t u \<Longrightarrow> k \<le> k' \<Longrightarrow> extends k s u"
  by (fastforce simp: extends_def)

lemma extends_chain: "extends (next_dev (dt s)) s t \<Longrightarrow> extends (next_dev (dt t)) t u \<Longrightarrow> extends (next_dev (dt s)) s u"
  using extends_trans [of "next_dev (dt s)" s t "next_dev (dt t)" u] by (simp add: extends_def [of _ s t])

lemma extends_dt: "dt t = dt s \<Longrightarrow> extends k s t"
  by (simp add: extends_def devices_def)

lemma boot_inv_dt: "dt t = dt s \<Longrightarrow> boot_inv names tr t = boot_inv names tr s"
  by (simp add: boot_inv_def table_ok_def devices_def)

lemma describes_cong:
  assumes "describes names t m d" "m' d = m d" "\<And>dev p. m d = Some dev \<Longrightarrow> parent dev = Some p \<Longrightarrow> m' p = m p"
  shows "describes names t m' d"
proof -
  obtain dev n where h: "m d = Some dev" "node_of t (node dev) n" "of_node names n dev"
    "case parent dev of None \<Rightarrow> node dev = 0
     | Some p \<Rightarrow> p < d \<and> (\<exists>pd pn. m p = Some pd \<and> kid_of t (node pd) (node dev) \<and> node_of t (node pd) pn \<and> in_parent names n pn pd dev)"
    using assms(1) by (auto simp: describes_def)
  show ?thesis unfolding describes_def using h assms(2) assms(3) [OF h(1)] by (intro exI [of _ dev] exI [of _ n]) (auto split: option.splits)
qed

lemma registered_extends: "boot_inv names tr s \<Longrightarrow> extends (next_dev (dt s)) s t \<Longrightarrow> registered s x \<Longrightarrow> registered t x"
  unfolding registered_def boot_inv_def extends_def by (metis option.distinct(1) subsetD)

section \<open>Steps that leave the table alone\<close>

lemma wlp_liftE [wp_simps]: "wlp (liftE r) Q = (\<lambda>s. \<forall>x. r = Inr x \<longrightarrow> Q x s)"
  by (rule ext) (auto simp: liftE_def wp_simps split: sum.splits)

lemma keeps_liftE [keeps_intros]: "keeps f (liftE r)"
  by (auto simp: liftE_def keeps_def wp_simps split: sum.splits)

lemma wlp_True [simp]: "wlp p (\<lambda>_ _. True) s"
  by (simp add: wlp_def split: sum.splits)

lemma keeps_malloc_dt: "keeps dt malloc" "keeps dt (malloc_array n)"
  by (auto simp: malloc_array_def intro!: keeps_intros keeps_store)

lemma malloc_array_wlp: "wlp (malloc_array n) (\<lambda>ok t. dt t = dt s \<and> (ok \<longrightarrow> 0 \<le> n)) s"
  by (simp add: malloc_array_def malloc_def wp_simps)

lemma keeps_wlp_bind: "keeps dt p \<Longrightarrow> (\<And>x t. dt t = dt s \<Longrightarrow> wlp (f x) Q t) \<Longrightarrow> wlp (bindM p f) Q s"
  by (rule wlp_bind_rule [OF keeps_wlp]) auto

lemma wlp_lookup:
  assumes "table_ok s"
  shows "wlp (device_lookup n) Q s = Q (lookup_result s n) s"
  by (simp add: wlp_def device_lookup_run [OF assms])

lemma lookup_Some:
  assumes "table_ok s" "lookup_result s n = Some d"
  shows "d \<in> devices s" "\<exists>dev. devs (dt s) d = Some dev \<and> node dev = n"
  using find_node_Some [OF assms(2) [unfolded lookup_result_def]] bucket_of_less [of n] assms(1)
  by (auto simp: devices_def table_ok_def intro!: bexI [of _ "buckets (dt s) ! bucket_of n"])

section \<open>Parsing\<close>

definition with_device :: "nat \<Rightarrow> device \<Rightarrow> dt_vars \<Rightarrow> dt_vars" where
  "with_device d dev v = v\<lparr>devs := (devs v)(d \<mapsto> dev)\<rparr>"

lemma with_device_same: "devs v d = Some dev \<Longrightarrow> with_device d dev v = v"
  by (simp add: with_device_def fun_upd_idem)

lemma with_device_sel [simp]:
  "devs (with_device d dev v) = (devs v)(d \<mapsto> dev)" "buckets (with_device d dev v) = buckets v" "next_dev (with_device d dev v) = next_dev v"
  "with_device d dev (with_device d dev' v) = with_device d dev v"
  by (simp_all add: with_device_def)

lemma dt_dev_upd [simp]: "dt (dev_upd d dev s) = with_device d dev (dt s)"
  by (simp add: dev_upd_def with_device_def)

lemma parse_csu:
  assumes "tree_in fdt names tr" "devs (dt s) d = Some dev" "node_of tr (node dev) n" "csu dev = []"
  shows "wlp (dt_parse_sp_csu fdt d) (\<lambda>ok u. ok \<longrightarrow> dt u = with_device d
    (dev\<lparr>csu := (case prop_of names ''sp-csu'' n of None \<Rightarrow> [] | Some v \<Rightarrow> map i32 (words_of v))\<rparr>) (dt s)) s"
proof (cases "prop_of names ''sp-csu'' n")
  case None
  have "dev\<lparr>csu := []\<rparr> = dev" using assms(4) by simp
  then show ?thesis using None assms(2) node_getprop [OF assms(1,3), of "''sp-csu''"]
    by (simp add: dt_parse_sp_csu_def wp_simps with_device_same)
next
  case (Some v)
  then obtain p where g: "fdt_getprop fdt (node dev) ''sp-csu'' = Inr (Some p, int (length v))" "bytes_at fdt p v" "length v < 2 ^ 31"
    using node_getprop [OF assms(1,3), of "''sp-csu''"] by auto
  have "cdiv (int (length v)) 4 = int (length (words_of v))" using g(3) by (simp add: cdiv_pos words_of_length zdiv_int)
  moreover have "read_cells fdt p 0 (length (words_of v)) = Inr (words_of v)" using read_cells_words [OF g(2), of 0] by simp
  ultimately show ?thesis using assms(2) Some
    by (simp add: dt_parse_sp_csu_def wlp_device_at wlp_bindM wlp_liftE g(1) Let_def)
      (rule wlp_mono [OF keeps_wlp [OF keeps_malloc_dt(2)]], simp add: wp_simps)
qed

lemma parse_classes:
  assumes "tree_in fdt names tr" "devs (dt s) d = Some dev" "node_of tr (node dev) n" "classes dev = []"
  shows "wlp (dt_parse_sp_class fdt d) (\<lambda>ok u. ok \<longrightarrow> (\<exists>cs. dt u = with_device d (dev\<lparr>classes := cs\<rparr>) (dt s)
    \<and> concat (map (\<lambda>c. bytes c @ [0]) cs) = (case prop_of names ''sp-class'' n of None \<Rightarrow> [] | Some v \<Rightarrow> v))) s"
proof (cases "prop_of names ''sp-class'' n")
  case None
  have "dev\<lparr>classes := []\<rparr> = dev" using assms(4) by simp
  then show ?thesis using None assms(2) node_getprop [OF assms(1,3), of "''sp-class''"]
    by (auto simp: dt_parse_sp_class_def wp_simps with_device_same intro!: exI [of _ "[]"])
next
  case (Some v)
  then obtain p where g: "fdt_getprop fdt (node dev) ''sp-class'' = Inr (Some p, int (length v))" "bytes_at fdt p v" "length v < 2 ^ 31"
    using node_getprop [OF assms(1,3), of "''sp-class''"] by auto
  show ?thesis
    unfolding dt_parse_sp_class_def
  proof (simp add: wlp_device_at wlp_bindM wlp_liftE g(1) assms(2) fdt_stringlist_count_def, intro allI impI)
    fix m
    assume m: "stringlist_count_loop fdt p (p + int (length v)) 0 = Inr m"
    show "wlp (malloc_array m) (\<lambda>ok. wlp (if \<not> ok then ret False
        else bindM (liftE (read_strings (nat m) fdt p)) (\<lambda>ss. thenM (upd_device d (\<lambda>dev. dev\<lparr>classes := ss\<rparr>)) (ret True)))
        (\<lambda>ok u. ok \<longrightarrow> (\<exists>cs. dt u = with_device d (dev\<lparr>classes := cs\<rparr>) (dt s)
          \<and> concat (map (\<lambda>c. bytes c @ [0]) cs) = (case prop_of names ''sp-class'' n of None \<Rightarrow> [] | Some v \<Rightarrow> v)))) s"
    proof (rule wlp_mono [OF malloc_array_wlp])
      fix ok and u :: kernel
      assume u: "dt u = dt s \<and> (ok \<longrightarrow> 0 \<le> m)"
      show "wlp (if \<not> ok then ret False
        else bindM (liftE (read_strings (nat m) fdt p)) (\<lambda>ss. thenM (upd_device d (\<lambda>dev. dev\<lparr>classes := ss\<rparr>)) (ret True)))
        (\<lambda>ok u. ok \<longrightarrow> (\<exists>cs. dt u = with_device d (dev\<lparr>classes := cs\<rparr>) (dt s)
          \<and> concat (map (\<lambda>c. bytes c @ [0]) cs) = (case prop_of names ''sp-class'' n of None \<Rightarrow> [] | Some v \<Rightarrow> v))) u"
      proof (cases ok)
        case True
        then obtain bs where "v = concat (map (\<lambda>b. b @ [0]) bs)" "m = int (length bs)" "read_strings (length bs) fdt p = Inr (map text_of bs)"
          using stringlist [OF g(2) m] u by auto
        then show ?thesis using True u assms(2) Some by (auto simp: wp_simps comp_def intro!: exI [of _ "map text_of bs"])
      qed (simp add: wp_simps)
    qed
  qed
qed

lemma cells_bounds: "addr_cells names n \<le> 4" "size_cells names n \<le> 4"
  by (auto simp: addr_cells_def size_cells_def Let_def split: option.splits)

lemma parse_resources:
  assumes "tree_in fdt names tr" "devs (dt s) d = Some dev" "node_of tr (node dev) n" "resources dev = []"
  shows "wlp (dt_parse_resources fdt d) (\<lambda>ok u. ok \<longrightarrow> (\<exists>rs. dt u = with_device d (dev\<lparr>resources := rs\<rparr>) (dt s)
    \<and> (\<forall>p pd pn. parent dev = Some p \<longrightarrow> devs (dt s) p = Some pd \<longrightarrow> node_of tr (node pd) pn \<longrightarrow> 0 < addr_cells names pn
      \<longrightarrow> 0 \<le> size_cells names pn \<longrightarrow>
        rs = (case prop_of names ''reg'' n of None \<Rightarrow> [] | Some v \<Rightarrow> reg_entries (nat (addr_cells names pn)) (nat (size_cells names pn)) v)))) s"
proof (cases "prop_of names ''reg'' n")
  case None
  have "dev\<lparr>resources := []\<rparr> = dev" using assms(4) by simp
  then show ?thesis using None assms(2) node_getprop [OF assms(1,3), of "''reg''"]
    by (auto simp: dt_parse_resources_def wp_simps with_device_same intro!: exI [of _ "[]"])
next
  case (Some v)
  then obtain p where g: "fdt_getprop fdt (node dev) ''reg'' = Inr (Some p, int (length v))" "bytes_at fdt p v" "length v < 2 ^ 31"
    using node_getprop [OF assms(1,3), of "''reg''"] by auto
  let ?Q = "\<lambda>rs. \<forall>p pd pn. parent dev = Some p \<longrightarrow> devs (dt s) p = Some pd \<longrightarrow> node_of tr (node pd) pn \<longrightarrow> 0 < addr_cells names pn
      \<longrightarrow> 0 \<le> size_cells names pn \<longrightarrow> rs = reg_entries (nat (addr_cells names pn)) (nat (size_cells names pn)) v"
  have read: "?Q rs" if q: "parent dev = Some q" "devs (dt s) q = Some pd" "fdt_address_cells fdt (node pd) = Inr ac" "fdt_size_cells fdt (node pd) = Inr sc"
    and m: "mapE (read_resource fdt p ac sc) [0..<nat (cdiv (int (length v)) (4 * (ac + sc)))] = Inr rs" for q pd ac sc rs
  proof (intro allI impI)
    fix q' pd' pn
    assume h: "parent dev = Some q'" "devs (dt s) q' = Some pd'" "node_of tr (node pd') pn" "0 < addr_cells names pn" "0 \<le> size_cells names pn"
    then have "ac = addr_cells names pn" "sc = size_cells names pn" using q node_cells [OF assms(1) h(3)] by auto
    then show "rs = reg_entries (nat (addr_cells names pn)) (nat (size_cells names pn)) v"
      using read_resources [OF g(2,3) h(4,5) cells_bounds refl] m by simp
  qed
  show ?thesis
    unfolding dt_parse_resources_def
    by (simp add: wlp_device_at wlp_bindM wlp_liftE g(1) assms(2) Some wlp_deref wlp_let, intro allI impI, simp only: Let_def,
        rule wlp_mono [OF malloc_array_wlp]) (use read assms(2) in \<open>auto simp: wp_simps\<close>)
qed

section \<open>A device that is being created\<close>

lemma boot_inv_update:
  assumes "boot_inv names tr s" "d \<notin> devices s" "d < next_dev (dt s)" "dt u = with_device d dev (dt s)"
  shows "boot_inv names tr u" "extends d s u"
proof -
  have dv: "devices u = devices s" "buckets (dt u) = buckets (dt s)" "\<And>i. i \<noteq> d \<Longrightarrow> devs (dt u) i = devs (dt s) i"
    using assms(4) by (simp_all add: devices_def)
  have inb: "e \<noteq> d" if "b < 128" "e \<in> set (buckets (dt s) ! b)" for b e
    using that assms(1,2) by (auto simp: devices_def boot_inv_def table_ok_def)
  have "table_ok u"
    using assms(1) inb dv(2,3) by (fastforce simp: boot_inv_def table_ok_def)
  moreover have "describes names tr (devs (dt u)) e" if "e \<in> devices s" for e
  proof (rule describes_cong)
    show "describes names tr (devs (dt s)) e" using assms(1) that by (simp add: boot_inv_def)
    show "devs (dt u) e = devs (dt s) e" using dv(3) [of e] that assms(2) by (cases "e = d") auto
    show "devs (dt u) p = devs (dt s) p" if "devs (dt s) e = Some dev" "parent dev = Some p" for dev p
    proof -
      have "p \<in> devices s" using assms(1) that \<open>e \<in> devices s\<close> unfolding boot_inv_def by blast
      then show ?thesis using dv(3) [of p] assms(2) by (cases "p = d") auto
    qed
  qed
  ultimately show "boot_inv names tr u"
    using assms dv by (auto simp: boot_inv_def split: if_splits)
  show "extends d s u" using assms(4) dv(1) by (simp add: extends_def)
qed

definition creating :: "(u32 \<Rightarrow> string) \<Rightarrow> dtree \<Rightarrow> nat \<Rightarrow> device \<Rightarrow> kernel \<Rightarrow> bool" where
  "creating names tr d dev s \<longleftrightarrow> boot_inv names tr s \<and> d < next_dev (dt s) \<and> d \<notin> devices s \<and> devs (dt s) d = Some dev"

lemma creating_update:
  assumes "creating names tr d dev s" "dt u = with_device d dev' (dt s)"
  shows "creating names tr d dev' u" "extends d s u"
proof -
  have h: "boot_inv names tr s" "d \<notin> devices s" "d < next_dev (dt s)" using assms(1) by (simp_all add: creating_def)
  show "extends d s u" by (rule boot_inv_update(2) [OF h assms(2)])
  have "devices u = devices s" using assms(2) by (simp add: devices_def)
  then show "creating names tr d dev' u" using boot_inv_update(1) [OF h assms(2)] h assms(2) by (simp add: creating_def)
qed

lemma creating_extends:
  assumes "creating names tr d dev s" "boot_inv names tr u" "extends (next_dev (dt s)) s u"
  shows "creating names tr d dev u"
proof -
  have "d < next_dev (dt s)" "d \<notin> devices s" "devs (dt s) d = Some dev" using assms(1) by (simp_all add: creating_def)
  moreover from this(1,2) have "d < next_dev (dt u)" "d \<notin> devices u" "devs (dt u) d = devs (dt s) d"
    using assms(3) by (auto simp: extends_def)
  ultimately show ?thesis using assms(2) by (simp add: creating_def)
qed

lemma creating_dt: "dt u = dt s \<Longrightarrow> creating names tr d dev u = creating names tr d dev s"
  by (simp add: creating_def boot_inv_dt [of u s] devices_def)

section \<open>Interrupts\<close>

text \<open>What the parser relies on when it probes another device.\<close>

definition probe_safe :: "(u32 \<Rightarrow> string) \<Rightarrow> dtree \<Rightarrow> probe_fn \<Rightarrow> bool" where
  "probe_safe names tr probe \<longleftrightarrow> (\<forall>x n s. boot_inv names tr s \<longrightarrow> node_of tr x n \<longrightarrow>
     wlp (probe x None False) (\<lambda>r u. boot_inv names tr u \<and> extends (next_dev (dt s)) s u) s)"

lemma keeps_irq_map: "keeps dt (irq_map irq_tables c cells)"
proof -
  have "keeps dt (gic_op_map c cells)" "keeps dt (irq_op_map c cells)" for c
    by (auto simp: gic_op_map_def irq_op_map_def Let_def intro!: keeps_intros)
  then have "keeps dt (bindM (deref (op_map (irq_tables ops))) (\<lambda>f. f c cells))" for ops c
    by (cases ops) (simp_all add: gic_ops_table_def gpio_ops_table_def bindM_deref)
  then show ?thesis unfolding irq_map_def by (rule keeps_bindM [OF dt_part.keeps_chip(1)])
qed

lemma keeps_map_irqs: "keeps dt (map_irqs irq_tables c fdt p k is)"
  by (induction "is") (auto intro!: keeps_intros keeps_irq_map)

lemma extends_le: "extends k s t \<Longrightarrow> k' \<le> k \<Longrightarrow> extends k' s t"
  by (auto simp: extends_def)

text \<open>
  \<open>stays\<close>: a computation that keeps the device \<open>d\<close> under construction, but for its interrupts, and the invariant.
  The rules walk through the parser as those of \<open>keeps\<close> do.
\<close>

definition fresh :: "(u32 \<Rightarrow> string) \<Rightarrow> dtree \<Rightarrow> nat \<Rightarrow> device \<Rightarrow> kernel \<Rightarrow> bool" where
  "fresh names tr d dev s \<longleftrightarrow> (\<exists>is. creating names tr d (dev\<lparr>irqs := is\<rparr>) s)"

definition stays :: "(u32 \<Rightarrow> string) \<Rightarrow> dtree \<Rightarrow> nat \<Rightarrow> device \<Rightarrow> 'a km \<Rightarrow> bool" where
  "stays names tr d dev p \<longleftrightarrow> (\<forall>s. fresh names tr d dev s \<longrightarrow> wlp p (\<lambda>_ u. fresh names tr d dev u \<and> extends d s u) s)"

lemma stays_bindM: "stays names tr d dev p \<Longrightarrow> (\<And>x. stays names tr d dev (f x)) \<Longrightarrow> stays names tr d dev (bindM p f)"
  unfolding stays_def
proof (intro allI impI)
  fix s
  assume p: "\<forall>s. fresh names tr d dev s \<longrightarrow> wlp p (\<lambda>_ u. fresh names tr d dev u \<and> extends d s u) s"
    and f: "\<And>x. \<forall>s. fresh names tr d dev s \<longrightarrow> wlp (f x) (\<lambda>_ u. fresh names tr d dev u \<and> extends d s u) s"
    and s: "fresh names tr d dev s"
  show "wlp (bindM p f) (\<lambda>_ u. fresh names tr d dev u \<and> extends d s u) s"
  proof (rule wlp_bind_rule [OF p [rule_format, OF s]], elim conjE)
    fix x t
    assume t: "fresh names tr d dev t" "extends d s t"
    show "wlp (f x) (\<lambda>_ u. fresh names tr d dev u \<and> extends d s u) t"
      by (rule wlp_mono [OF f [rule_format, OF t(1)]]) (use extends_trans [OF t(2)] in auto)
  qed
qed

lemma stays_thenM: "stays names tr d dev p \<Longrightarrow> stays names tr d dev q \<Longrightarrow> stays names tr d dev (thenM p q)"
  by (simp add: thenM_def stays_bindM)

lemma fresh_dt: "dt u = dt s \<Longrightarrow> fresh names tr d dev s \<Longrightarrow> fresh names tr d dev u"
  unfolding fresh_def by (simp only: creating_dt [of u s])

lemma stays_keeps: "keeps dt p \<Longrightarrow> stays names tr d dev p"
  unfolding stays_def by (intro allI impI, rule wlp_mono, erule keeps_wlp) (use fresh_dt extends_dt in blast)

lemma stays_if: "stays names tr d dev p \<Longrightarrow> stays names tr d dev q \<Longrightarrow> stays names tr d dev (if b then p else q)"
  by simp

lemma stays_option: "stays names tr d dev p \<Longrightarrow> (\<And>x. y = Some x \<Longrightarrow> stays names tr d dev (q x)) \<Longrightarrow> stays names tr d dev (case y of None \<Rightarrow> p | Some x \<Rightarrow> q x)"
  by (simp split: option.split)

lemma stays_prod: "(\<And>x y. stays names tr d dev (q x y)) \<Longrightarrow> stays names tr d dev (case z of (x, y) \<Rightarrow> q x y)"
  by (simp split: prod.split)

lemma stays_let: "stays names tr d dev (q v) \<Longrightarrow> stays names tr d dev (let x = v in q x)"
  by simp

lemma stays_ret: "stays names tr d dev (ret x)" "stays names tr d dev (throw e)" "stays names tr d dev (liftE r)"
  "stays names tr d dev malloc" "stays names tr d dev (malloc_array k)" "stays names tr d dev (irq_find_chip c)"
  "stays names tr d dev (irq_map irq_tables chip cells)" "stays names tr d dev (map_irqs irq_tables chip fdt q k is)"
  "stays names tr d dev (cassert b)" "stays names tr d dev (device_at de)"
  by (auto simp: irq_find_chip_def device_at_def intro!: stays_keeps keeps_intros keeps_malloc_dt keeps_irq_map keeps_map_irqs)

lemma stays_lookup: "stays names tr d dev (device_lookup x)"
  by (rule stays_keeps) (auto simp: device_lookup_def intro!: keeps_intros)

lemma stays_irqs: "stays names tr d dev (upd_device d (\<lambda>dev. dev\<lparr>irqs := g dev\<rparr>))"
  unfolding stays_def fresh_def
proof (intro allI impI, elim exE)
  fix s "is"
  assume c: "creating names tr d (dev\<lparr>irqs := is\<rparr>) s"
  from creating_update [OF this, of "dev_upd d (dev\<lparr>irqs := g (dev\<lparr>irqs := is\<rparr>)\<rparr>) s"]
  show "wlp (upd_device d (\<lambda>dev. dev\<lparr>irqs := g dev\<rparr>)) (\<lambda>_ u. (\<exists>is. creating names tr d (dev\<lparr>irqs := is\<rparr>) u) \<and> extends d s u) s"
    using c by (auto simp: wp_simps creating_def)
qed

lemma stays_probe:
  assumes "probe_safe names tr probe" "node_of tr x n"
  shows "stays names tr d dev (probe x None False)"
  unfolding stays_def
proof (intro allI impI)
  fix s
  assume "fresh names tr d dev s"
  then obtain "is" where c: "creating names tr d (dev\<lparr>irqs := is\<rparr>) s" by (auto simp: fresh_def)
  then have "boot_inv names tr s" by (simp add: creating_def)
  then have "wlp (probe x None False) (\<lambda>r u. boot_inv names tr u \<and> extends (next_dev (dt s)) s u) s"
    using assms by (auto simp: probe_safe_def)
  then show "wlp (probe x None False) (\<lambda>_ u. fresh names tr d dev u \<and> extends d s u) s"
  proof (rule wlp_mono, elim conjE)
    fix r and u :: kernel
    assume u: "boot_inv names tr u" "extends (next_dev (dt s)) s u"
    have "extends d s u" by (rule extends_le [OF u(2)]) (use c in \<open>simp add: creating_def\<close>)
    then show "fresh names tr d dev u \<and> extends d s u" using creating_extends [OF c u] by (auto simp: fresh_def)
  qed
qed

text \<open>The offset of a handle is a node, or an error, which the code tests for.\<close>

lemma stays_phandle:
  assumes "tree_in fdt names tr" "\<And>x. x < 0 \<Longrightarrow> stays names tr d dev (f x)" "\<And>x n. node_of tr x n \<Longrightarrow> stays names tr d dev (f x)"
  shows "stays names tr d dev (bindM (liftE (fdt_node_offset_by_phandle fdt ph)) f)"
proof (cases "fdt_node_offset_by_phandle fdt ph")
  case (Inl e)
  then show ?thesis by (simp add: stays_def wlp_bindM wlp_liftE)
next
  case (Inr x)
  have "stays names tr d dev (f x)" using assms phandle_node [OF assms(1) Inr] by (cases "x < 0") auto
  then show ?thesis using Inr by (simp add: stays_def wlp_bindM wlp_liftE)
qed

lemmas stays_intros = stays_bindM stays_thenM stays_if stays_option stays_prod stays_let stays_ret stays_lookup stays_irqs

lemma stays_ext_loop:
  assumes tr: "tree_in fdt names tr" and pr: "probe_safe names tr probe"
  shows "stays names tr d dev (interrupts_ext_loop n irq_tables probe fdt d p len i)"
proof (induction n arbitrary: i)
  case (Suc n)
  show ?case unfolding interrupts_ext_loop.simps
    by (rule stays_if, rule stays_bindM [OF stays_ret(3)], rule stays_phandle [OF tr])
      (auto intro!: stays_intros Suc.IH stays_probe [OF pr])
qed (simp add: stays_ret)

lemma stays_irq_parent:
  assumes tr: "tree_in fdt names tr" and pr: "probe_safe names tr probe"
  shows "stays names tr d dev (irq_parent_loop n probe fdt q)"
proof (induction n arbitrary: q)
  case 0
  show ?case by (cases q) (simp_all add: stays_ret)
next
  case (Suc n)
  have "stays names tr d dev (irq_parent_loop (Suc n) probe fdt (Some x))" for x
    unfolding irq_parent_loop.simps
    by (rule stays_bindM [OF stays_ret(10)], rule stays_bindM [OF stays_ret(3)], rule stays_prod, rule stays_if,
        rule stays_bindM [OF stays_ret(3)], rule stays_phandle [OF tr])
      (auto intro!: stays_intros Suc.IH stays_probe [OF pr])
  then show ?case by (cases q) (simp_all add: stays_ret)
qed

lemma stays_interrupts:
  assumes tr: "tree_in fdt names tr" and pr: "probe_safe names tr probe"
  shows "stays names tr d dev (dt_parse_interrupts irq_tables probe fdt d)"
  unfolding dt_parse_interrupts_def dt_parse_interrupts_ext_def
  by (intro stays_intros stays_irq_parent [OF assms] stays_ext_loop [OF assms])

section \<open>Creating a device\<close>

text \<open>A parent that fits a node: it is in the table and the parent in the tree; only the root has none.\<close>

definition parent_ok :: "dtree \<Rightarrow> kernel \<Rightarrow> int \<Rightarrow> nat option \<Rightarrow> bool" where
  "parent_ok tr s x par \<longleftrightarrow> (case par of None \<Rightarrow> x = 0
     | Some p \<Rightarrow> p \<in> devices s \<and> (\<exists>pd. devs (dt s) p = Some pd \<and> kid_of tr (node pd) x))"

lemma new_device_creating:
  assumes "boot_inv names tr s"
  shows "wlp (new_device dev) (\<lambda>d u. d = next_dev (dt s) \<and> creating names tr d dev u \<and> extends d s u) s"
  unfolding new_device_def
proof (rule keeps_wlp_bind [OF keeps_malloc_dt(1)])
  fix ok and u :: kernel
  assume u: "dt u = dt s"
  let ?d = "next_dev (dt s)"
  let ?v = "u\<lparr>dt := (dt s)\<lparr>devs := (devs (dt s))(?d \<mapsto> dev), next_dev := Suc ?d\<rparr>\<rparr>"
  have fresh: "devs (dt s) ?d = None" using assms by (auto simp: boot_inv_def intro: ccontr)
  then have fresh: "devs (dt s) ?d = None" "?d \<notin> devices s" using assms by (auto simp: boot_inv_def describes_def)
  let ?w = "u\<lparr>dt := (dt s)\<lparr>next_dev := Suc ?d\<rparr>\<rparr>"
  have wi: "boot_inv names tr ?w" using assms by (auto simp: boot_inv_def table_ok_def devices_def less_Suc_eq)
  have e: "dt ?v = with_device ?d dev (dt ?w)" by (simp add: with_device_def)
  have f: "?d \<notin> devices ?w" "?d < next_dev (dt ?w)" using fresh by (simp_all add: devices_def)
  have "boot_inv names tr ?v" by (rule boot_inv_update(1) [OF wi f e])
  then have "creating names tr ?d dev ?v" "extends ?d s ?v" using fresh by (auto simp: creating_def devices_def extends_def)
  then show "wlp (if \<not> ok then panic else bindM (gets (\<lambda>s. next_dev (dt s))) (\<lambda>d. thenM (modifyM (\<lambda>s. s\<lparr>dt := (dt s)
      \<lparr>devs := (devs (dt s))(d \<mapsto> dev), next_dev := Suc d\<rparr>\<rparr>)) (ret d))) (\<lambda>d u. d = next_dev (dt s) \<and> creating names tr d dev u \<and> extends d s u) u"
    using u by (simp add: wp_simps)
qed

definition parent_known :: "dtree \<Rightarrow> kernel \<Rightarrow> nat \<Rightarrow> device \<Rightarrow> bool" where
  "parent_known tr s d dev \<longleftrightarrow> (case parent dev of None \<Rightarrow> node dev = 0
     | Some p \<Rightarrow> p < d \<and> (\<exists>pd pn. devs (dt s) p = Some pd \<and> kid_of tr (node pd) (node dev) \<and> node_of tr (node pd) pn
         \<and> (dresource_type dev = RESOURCE_MEM \<longleftrightarrow> is_simple_bus pd)))"

lemma node_name_text:
  assumes "tree_in fdt names t" "node_of t x n"
  shows "node_name fdt x = Inr (text_of (dn_name n))"
proof -
  obtain st sz str d where f: "flat fdt st sz str t" and x: "(x, d, n) \<in> set (nodes 0 0 t)"
    using assms by (fastforce simp: tree_in_def node_of_def)
  obtain nm ps ks where n: "n = DNode nm ps ks" by (cases n)
  note b = flatD(1) [OF f]
  have at: "node_at fdt st sz x (DNode nm ps ks)" using nodes_at(1) [OF flatD(2) [OF f] x] by (simp add: n)
  note pt = node_at_parts [OF at]
  let ?p = "replicate ((4 - length (nm @ [0 :: u8]) mod 4) mod 4) (0 :: u8)"
  have s: "seg fdt st sz x (enc32 FDT_BEGIN_NODE @ (nm @ [0]) @ ?p @ enc_props ps @ enc_kids ks @ enc32 FDT_END_NODE)"
    using pt(1) by (simp add: enc_begin_def pad4_def)
  have "seg fdt st sz (x + 4) (nm @ [0])" using seg_append [OF seg_append [OF s, THEN conjunct2], THEN conjunct1] by simp
  then have bs: "bytes_at fdt (uint st + x + 4) (nm @ [0])" by (simp add: seg_def bytes_at_def add.assoc)
  have c: "fdt_check_node_offset fdt x = Inr (x + int (length (enc_begin nm)))" "0 \<le> x"
    using next_tag_begin [OF b seg_append [OF pt(1), THEN conjunct1] pt(2,3)] segD [OF s] pt(3) by (simp_all add: fdt_check_node_offset_def)
  have "fdt_get_name fdt x = Inr (Some (uint st + x + 4), int (length nm))"
    using c blobD [OF b] strlen_at_bytes [OF pt(2) bs] by (simp add: fdt_get_name_def offset_ptr_def)
  then show ?thesis using string_at_bytes [OF pt(2) bs] by (simp add: node_name_def n)
qed

lemma describesI:
  assumes c: "creating names tr d dev w" and n: "node_of tr (node dev) n" "of_node names n dev"
    and k: "parent_known tr s d dev" "extends d s w"
    and rs: "\<forall>p pd pn. parent dev = Some p \<longrightarrow> devs (dt s) p = Some pd \<longrightarrow> node_of tr (node pd) pn \<longrightarrow> 0 < addr_cells names pn
      \<longrightarrow> 0 \<le> size_cells names pn \<longrightarrow> resources dev = (case prop_of names ''reg'' n of None \<Rightarrow> []
        | Some v \<Rightarrow> reg_entries (nat (addr_cells names pn)) (nat (size_cells names pn)) v)"
  shows "describes names tr (devs (dt w)) d"
proof -
  have same: "p < d \<Longrightarrow> devs (dt w) p = devs (dt s) p" for p using k(2) by (simp add: extends_def)
  have dd: "devs (dt w) d = Some dev" using c by (simp add: creating_def)
  show ?thesis
  proof (cases "parent dev")
    case None
    then show ?thesis using dd n k(1) unfolding describes_def parent_known_def by auto
  next
    case (Some p)
    then obtain pd pn where h: "p < d" "devs (dt s) p = Some pd" "kid_of tr (node pd) (node dev)" "node_of tr (node pd) pn"
      "dresource_type dev = RESOURCE_MEM \<longleftrightarrow> is_simple_bus pd" using k(1) by (auto simp: parent_known_def)
    then have "in_parent names n pn pd dev" using rs Some by (simp add: in_parent_def)
    then show ?thesis using dd n h same [OF h(1)] Some unfolding describes_def by auto
  qed
qed

lemma parse_tail:
  assumes tr: "tree_in fdt names tr" and c: "creating names tr d dev s" and n: "node_of tr (node dev) n" and e: "csu dev = []" "classes dev = []" "enabled dev"
    and nm: "dname dev = text_of (dn_name n)"
  shows "wlp (bindM (dt_parse_sp_csu fdt d) (\<lambda>s3. bindM (dt_parse_sp_class fdt d) (\<lambda>s4. if \<not> (s1 \<and> s2 \<and> s3 \<and> s4) then panic else ret d)))
    (\<lambda>r w. r = d \<and> extends d s w \<and> (\<exists>ws cs. creating names tr d (dev\<lparr>csu := ws, classes := cs\<rparr>) w \<and> of_node names n (dev\<lparr>csu := ws, classes := cs\<rparr>))) s"
    (is "wlp _ ?Q s")
proof -
  let ?ws = "case prop_of names ''sp-csu'' n of None \<Rightarrow> [] | Some v \<Rightarrow> map i32 (words_of v)"
  have dd: "devs (dt s) d = Some dev" using c by (simp add: creating_def)
  show ?thesis
  proof (rule wlp_bind_rule [OF parse_csu [OF tr dd n e(1)]])
    fix s3 and u :: kernel
    assume u: "s3 \<longrightarrow> dt u = with_device d (dev\<lparr>csu := ?ws\<rparr>) (dt s)"
    show "wlp (bindM (dt_parse_sp_class fdt d) (\<lambda>s4. if \<not> (s1 \<and> s2 \<and> s3 \<and> s4) then panic else ret d)) ?Q u"
    proof (cases s3)
      case False
      then show ?thesis by (simp add: wp_simps)
    next
      case True
      then have cu: "creating names tr d (dev\<lparr>csu := ?ws\<rparr>) u" "extends d s u" using creating_update [OF c] u by blast+
      then have h: "devs (dt u) d = Some (dev\<lparr>csu := ?ws\<rparr>)" "node_of tr (node (dev\<lparr>csu := ?ws\<rparr>)) n" "classes (dev\<lparr>csu := ?ws\<rparr>) = []"
        using n e by (simp_all add: creating_def)
      show ?thesis
      proof (rule wlp_bind_rule [OF parse_classes [OF tr h]])
        fix s4 and w :: kernel
        assume w: "s4 \<longrightarrow> (\<exists>cs. dt w = with_device d (dev\<lparr>csu := ?ws, classes := cs\<rparr>) (dt u)
          \<and> concat (map (\<lambda>c. bytes c @ [0]) cs) = (case prop_of names ''sp-class'' n of None \<Rightarrow> [] | Some v \<Rightarrow> v))"
        show "wlp (if \<not> (s1 \<and> s2 \<and> s3 \<and> s4) then panic else ret d) ?Q w"
        proof (cases "s1 \<and> s2 \<and> s3 \<and> s4")
          case True
          then obtain cs where cs: "dt w = with_device d (dev\<lparr>csu := ?ws, classes := cs\<rparr>) (dt u)"
            "concat (map (\<lambda>c. bytes c @ [0]) cs) = (case prop_of names ''sp-class'' n of None \<Rightarrow> [] | Some v \<Rightarrow> v)" using w by blast
          note cw = creating_update [OF cu(1) cs(1)]
          have "of_node names n (dev\<lparr>csu := ?ws, classes := cs\<rparr>)" using cs(2) e(3) nm by (simp add: of_node_def)
          then show ?thesis using True cw(1) extends_trans [OF cu(2) cw(2)] by (auto simp: wp_simps)
        qed (simp add: wp_simps)
      qed
    qed
  qed
qed

lemma parse_describes:
  assumes tr: "tree_in fdt names tr" and pr: "probe_safe names tr probe" and c: "creating names tr d dev s"
    and n: "node_of tr (node dev) n" and k: "parent_known tr s d dev"
    and e: "resources dev = []" "csu dev = []" "classes dev = []" "enabled dev" and nm: "dname dev = text_of (dn_name n)"
  shows "wlp (bindM (dt_parse_resources fdt d) (\<lambda>s1. bindM (dt_parse_interrupts irq_tables probe fdt d) (\<lambda>s2.
      bindM (dt_parse_sp_csu fdt d) (\<lambda>s3. bindM (dt_parse_sp_class fdt d) (\<lambda>s4.
      if \<not> (s1 \<and> s2 \<and> s3 \<and> s4) then panic else ret d)))))
    (\<lambda>r w. r = d \<and> extends d s w \<and> describes names tr (devs (dt w)) d
      \<and> (\<exists>dev'. creating names tr d dev' w \<and> node dev' = node dev \<and> parent dev' = parent dev)) s" (is "wlp _ ?Q s")
proof -
  have dd: "devs (dt s) d = Some dev" using c by (simp add: creating_def)
  show ?thesis
  proof (rule wlp_bind_rule [OF parse_resources [OF tr dd n e(1)]])
    fix s1 and u :: kernel
    assume u: "s1 \<longrightarrow> (\<exists>rs. dt u = with_device d (dev\<lparr>resources := rs\<rparr>) (dt s)
      \<and> (\<forall>p pd pn. parent dev = Some p \<longrightarrow> devs (dt s) p = Some pd \<longrightarrow> node_of tr (node pd) pn \<longrightarrow> 0 < addr_cells names pn
      \<longrightarrow> 0 \<le> size_cells names pn \<longrightarrow>
        rs = (case prop_of names ''reg'' n of None \<Rightarrow> [] | Some v \<Rightarrow> reg_entries (nat (addr_cells names pn)) (nat (size_cells names pn)) v)))"
    show "wlp (bindM (dt_parse_interrupts irq_tables probe fdt d) (\<lambda>s2. bindM (dt_parse_sp_csu fdt d) (\<lambda>s3.
        bindM (dt_parse_sp_class fdt d) (\<lambda>s4. if \<not> (s1 \<and> s2 \<and> s3 \<and> s4) then panic else ret d)))) ?Q u"
    proof (cases s1)
      case False
      then show ?thesis by (simp add: wp_simps)
    next
      case True
      then obtain rs where rs: "dt u = with_device d (dev\<lparr>resources := rs\<rparr>) (dt s)"
        "\<forall>p pd pn. parent dev = Some p \<longrightarrow> devs (dt s) p = Some pd \<longrightarrow> node_of tr (node pd) pn \<longrightarrow> 0 < addr_cells names pn
        \<longrightarrow> 0 \<le> size_cells names pn \<longrightarrow>
          rs = (case prop_of names ''reg'' n of None \<Rightarrow> [] | Some v \<Rightarrow> reg_entries (nat (addr_cells names pn)) (nat (size_cells names pn)) v)"
        using u by blast
      note cu = creating_update [OF c rs(1)]
      have "fresh names tr d (dev\<lparr>resources := rs\<rparr>) u" using cu(1) by (auto simp: fresh_def intro!: exI [of _ "irqs dev"])
      from stays_interrupts [OF tr pr, unfolded stays_def, rule_format, OF this]
      show ?thesis
      proof (rule wlp_bind_rule, elim conjE)
        fix s2 and v :: kernel
        assume v: "extends d u v" and "fresh names tr d (dev\<lparr>resources := rs\<rparr>) v"
        then obtain "is" where cv: "creating names tr d (dev\<lparr>resources := rs, irqs := is\<rparr>) v" by (auto simp: fresh_def)
        let ?dev = "dev\<lparr>resources := rs, irqs := is\<rparr>"
        have dv: "node_of tr (node ?dev) n" "csu ?dev = []" "classes ?dev = []" "enabled ?dev" "dname ?dev = text_of (dn_name n)" using n e nm by simp_all
        note su = extends_trans [OF cu(2) v]
        show "wlp (bindM (dt_parse_sp_csu fdt d) (\<lambda>s3. bindM (dt_parse_sp_class fdt d)
            (\<lambda>s4. if \<not> (s1 \<and> s2 \<and> s3 \<and> s4) then panic else ret d))) ?Q v"
        proof (rule wlp_mono [OF parse_tail [OF tr cv dv]], elim conjE exE)
          fix r and w :: kernel and ws cs
          let ?new = "dev\<lparr>resources := rs, irqs := is, csu := ws, classes := cs\<rparr>"
          assume w: "r = d" "extends d v w" "creating names tr d ?new w" "of_node names n ?new"
          have sw: "extends d s w" using extends_trans [OF su w(2)] by simp
          have "parent_known tr s d ?new" using k by (auto simp: parent_known_def split: option.splits)
          from describesI [OF w(3) _ w(4) this sw] n rs(2) have "describes names tr (devs (dt w)) d" by simp
          then show "?Q r w" using w sw by (auto intro!: exI [of _ ?new])
        qed
      qed
    qed
  qed
qed

lemma device_init_describes:
  assumes tr: "tree_in fdt names tr" and pr: "probe_safe names tr probe" and s: "boot_inv names tr s" and n: "node_of tr x n"
    and par: "parent_ok tr s x par"
  shows "wlp (device_init irq_tables probe fdt x par) (\<lambda>d u. extends (next_dev (dt s)) s u \<and> describes names tr (devs (dt u)) d
    \<and> d = next_dev (dt s) \<and> (\<exists>dev. creating names tr d dev u \<and> node dev = x \<and> parent dev = par)) s" (is "wlp _ ?Q s")
  unfolding device_init_def
proof (rule wlp_bind_rule [OF new_device_creating [OF s]], elim conjE)
  fix d u
  let ?dev = "\<lparr>node = x, phandle = 0, dname = [], parent = par, dresource_type = RESOURCE_MEM, resources = [],
       irqs = [], csu = [], classes = [], enabled = True, is_simple_bus = False\<rparr>"
  assume d: "d = next_dev (dt s)" and u: "extends d s u" and c: "creating names tr d ?dev u"
  have fill: "wlp (thenM (upd_device d (\<lambda>dev. dev\<lparr>phandle := ph, dname := nm, is_simple_bus := bus, dresource_type := rt\<rparr>)) (
      bindM (dt_parse_resources fdt d) (\<lambda>s1. bindM (dt_parse_interrupts irq_tables probe fdt d) (\<lambda>s2.
      bindM (dt_parse_sp_csu fdt d) (\<lambda>s3. bindM (dt_parse_sp_class fdt d) (\<lambda>s4.
      if \<not> (s1 \<and> s2 \<and> s3 \<and> s4) then panic else ret d)))))) ?Q u"
    if rt: "\<And>p pd. par = Some p \<Longrightarrow> devs (dt s) p = Some pd \<Longrightarrow> rt = RESOURCE_MEM \<longleftrightarrow> is_simple_bus pd"
      and nm: "nm = text_of (dn_name n)" for ph nm bus rt
  proof -
    let ?dev1 = "?dev\<lparr>phandle := ph, dname := nm, is_simple_bus := bus, dresource_type := rt\<rparr>"
    let ?v = "dev_upd d ?dev1 u"
    have v: "creating names tr d ?dev1 ?v" "extends d u ?v" using creating_update [OF c, of ?v ?dev1] by simp_all
    note sv = extends_trans [OF u v(2) order_refl]
    have "parent_known tr ?v d ?dev1"
    proof (cases par)
      case None
      then show ?thesis using par by (simp add: parent_known_def parent_ok_def)
    next
      case (Some p)
      then obtain pd where p: "p \<in> devices s" "devs (dt s) p = Some pd" "kid_of tr (node pd) x" using par by (auto simp: parent_ok_def)
      then have "p < d" using s d by (auto simp: boot_inv_def)
      moreover from this have "devs (dt ?v) p = Some pd" using sv p(2) by (auto simp: extends_def)
      moreover obtain pn where "node_of tr (node pd) pn" using p(3) by (auto simp: kid_of_def)
      ultimately show ?thesis using Some p rt [OF Some p(2)] by (auto simp: parent_known_def)
    qed
    from parse_describes [OF tr pr v(1) _ this] n nm
    have "wlp (bindM (dt_parse_resources fdt d) (\<lambda>s1. bindM (dt_parse_interrupts irq_tables probe fdt d) (\<lambda>s2.
        bindM (dt_parse_sp_csu fdt d) (\<lambda>s3. bindM (dt_parse_sp_class fdt d) (\<lambda>s4.
        if \<not> (s1 \<and> s2 \<and> s3 \<and> s4) then panic else ret d))))) (\<lambda>r w. r = d \<and> extends d ?v w \<and> describes names tr (devs (dt w)) d
      \<and> (\<exists>dev'. creating names tr d dev' w \<and> node dev' = node ?dev1 \<and> parent dev' = parent ?dev1)) ?v" by simp
    then have "wlp (bindM (dt_parse_resources fdt d) (\<lambda>s1. bindM (dt_parse_interrupts irq_tables probe fdt d) (\<lambda>s2.
        bindM (dt_parse_sp_csu fdt d) (\<lambda>s3. bindM (dt_parse_sp_class fdt d) (\<lambda>s4.
        if \<not> (s1 \<and> s2 \<and> s3 \<and> s4) then panic else ret d))))) ?Q ?v"
      by (rule wlp_mono) (use extends_trans [OF sv] d in auto)
    then show ?thesis using c by (simp add: wlp_thenM wlp_upd_device creating_def)
  qed
  have same: "par = Some p \<Longrightarrow> devs (dt u) p = devs (dt s) p" for p
    using u par s d by (auto simp: extends_def parent_ok_def boot_inv_def)
  show "wlp (bindM (liftE (fdt_get_phandle fdt x)) (\<lambda>ph. bindM (liftE (node_name fdt x)) (\<lambda>nm. bindM (liftE (is_bus fdt x simple_bus_match_table)) (\<lambda>bus.
     bindM (case par of None \<Rightarrow> ret RESOURCE_OTHER
       | Some p \<Rightarrow> bindM (device_at p) (\<lambda>pd. ret (if is_simple_bus pd then RESOURCE_MEM else RESOURCE_OTHER))) (\<lambda>rt.
     thenM (upd_device d (\<lambda>dev. dev\<lparr>phandle := ph, dname := nm, is_simple_bus := bus, dresource_type := rt\<rparr>)) (
     bindM (dt_parse_resources fdt d) (\<lambda>s1. bindM (dt_parse_interrupts irq_tables probe fdt d) (\<lambda>s2.
     bindM (dt_parse_sp_csu fdt d) (\<lambda>s3. bindM (dt_parse_sp_class fdt d) (\<lambda>s4.
     if \<not> (s1 \<and> s2 \<and> s3 \<and> s4) then panic else ret d)))))))))) ?Q u"
  proof (simp only: wlp_bindM [of "liftE _"] wlp_liftE, intro allI impI)
    fix ph nm bus
    assume "node_name fdt x = Inr nm"
    then have nm: "nm = text_of (dn_name n)" using node_name_text [OF tr n] by simp
    have "wlp (case par of None \<Rightarrow> ret RESOURCE_OTHER
       | Some p \<Rightarrow> bindM (device_at p) (\<lambda>pd. ret (if is_simple_bus pd then RESOURCE_MEM else RESOURCE_OTHER)))
      (\<lambda>rt v. v = u \<and> (\<forall>p pd. par = Some p \<longrightarrow> devs (dt s) p = Some pd \<longrightarrow> (rt = RESOURCE_MEM \<longleftrightarrow> is_simple_bus pd))) u"
      using same by (cases par) (auto simp: wp_simps)
    then show "wlp (bindM (case par of None \<Rightarrow> ret RESOURCE_OTHER
       | Some p \<Rightarrow> bindM (device_at p) (\<lambda>pd. ret (if is_simple_bus pd then RESOURCE_MEM else RESOURCE_OTHER))) (\<lambda>rt.
     thenM (upd_device d (\<lambda>dev. dev\<lparr>phandle := ph, dname := nm, is_simple_bus := bus, dresource_type := rt\<rparr>)) (
     bindM (dt_parse_resources fdt d) (\<lambda>s1. bindM (dt_parse_interrupts irq_tables probe fdt d) (\<lambda>s2.
     bindM (dt_parse_sp_csu fdt d) (\<lambda>s3. bindM (dt_parse_sp_class fdt d) (\<lambda>s4.
     if \<not> (s1 \<and> s2 \<and> s3 \<and> s4) then panic else ret d))))))) ?Q u"
      by (rule wlp_bind_rule) (use fill nm in blast)
  qed
qed

lemma device_create_describes:
  assumes tr: "tree_in fdt names tr" and pr: "probe_safe names tr probe" and s: "boot_inv names tr s" and n: "node_of tr x n"
    and par: "parent_ok tr s x par"
  shows "wlp (device_create irq_tables probe fdt x par strict) (\<lambda>r u. case r of None \<Rightarrow> strict \<and> \<not> usable names n \<and> dt u = dt s
    | Some d \<Rightarrow> extends (next_dev (dt s)) s u \<and> describes names tr (devs (dt u)) d \<and> d = next_dev (dt s)
        \<and> (\<exists>dev. creating names tr d dev u \<and> node dev = x \<and> parent dev = par)) s" (is "wlp _ ?Q s")
proof -
  obtain cp l where cp: "fdt_get_property fdt x ''compatible'' = Inr (cp, l)" "cp = None \<longleftrightarrow> prop_of names ''compatible'' n = None"
    using node_property [OF tr n] by blast
  have init: "wlp (bindM (device_init irq_tables probe fdt x par) (\<lambda>d. ret (Some d))) ?Q s"
    unfolding wlp_bindM by (rule wlp_mono [OF device_init_describes [OF assms]]) (simp add: wp_simps)
  show ?thesis
  proof (cases "strict \<and> cp \<noteq> None")
    case True
    then obtain st where "fdt_get_status fdt x = Inr st" "st = DT_STATUS_DISABLED \<longleftrightarrow> \<not> usable names n"
      using node_status [OF tr n] cp(2) by blast
    then show ?thesis using True init
      by (auto simp: device_create_def cp(1) wlp_bindM [of "liftE _"] wlp_bindM [of "ret _"] wlp_bindM [of "bindM (liftE _) _"] wlp_liftE wlp_ret)
  next
    case False
    then have "strict \<Longrightarrow> \<not> usable names n" using cp(2) by (auto simp: usable_def)
    then show ?thesis using False init
      by (auto simp: device_create_def cp(1) wlp_bindM [of "liftE _"] wlp_bindM [of "ret _"] wlp_liftE wlp_ret)
  qed
qed

lemma insert_device:
  assumes "creating names tr d dev s" "describes names tr (devs (dt s)) d" "\<And>p. parent dev = Some p \<Longrightarrow> p \<in> devices s"
  shows "wlp (device_insert d) (\<lambda>_ u. boot_inv names tr u \<and> devs (dt u) = devs (dt s) \<and> next_dev (dt u) = next_dev (dt s) \<and> devices u = insert d (devices s)) s"
proof -
  have h: "table_ok s" "devs (dt s) d = Some dev" "d \<notin> set (concat (buckets (dt s)))" using assms(1) by (simp_all add: creating_def boot_inv_def devices_def)
  let ?t = "s\<lparr>dt := (dt s)\<lparr>buckets := (buckets (dt s))[bucket_of (node dev) := d # buckets (dt s) ! bucket_of (node dev)]\<rparr>\<rparr>"
  note run = device_insert_run [OF h]
  have dv: "devices ?t = insert d (devices s)" using run(3) by (simp add: devices_def)
  have "boot_inv names tr ?t" using run(2) assms dv h(2) by (auto simp: boot_inv_def creating_def)
  then show ?thesis using run(1) dv by (simp add: wlp_def)
qed

section \<open>Drivers\<close>

definition drivers_ok :: "dt_driver list \<Rightarrow> u8 list \<Rightarrow> bool" where
  "drivers_ok drivers fdt \<longleftrightarrow> (\<forall>drv \<in> set drivers. \<forall>d k. keeps dt (drv_probe drv fdt d k))"

lemma find_match_in: "find_match fdt x ms = Inr (Some m) \<Longrightarrow> m \<in> set ms"
  by (induction fdt x ms rule: find_match.induct) (auto simp: bindE_Inr split: if_splits)

lemma keeps_compatible:
  assumes "drivers_ok drivers fdt"
  shows "keeps dt (dt_probe_compatible_driver drivers fdt d)"
proof -
  have "wlp (dt_probe_compatible_driver drivers fdt d) (\<lambda>_ t. dt t = dt s) s" for s
    unfolding dt_probe_compatible_driver_def
  proof (simp add: wlp_bindM wlp_device_at wlp_liftE, intro allI impI)
    fix dev m
    assume m: "find_match fdt (node dev) (concat (map (\<lambda>drv. map (Pair drv) (match_table drv)) drivers)) = Inr m"
    show "wlp (case m of None \<Rightarrow> ret 0 | Some (drv, dm) \<Rightarrow> drv_probe drv fdt d (match_data dm)) (\<lambda>_ t. dt t = dt s) s"
    proof (cases m)
      case (Some q)
      obtain drv dm where q: "q = (drv, dm)" by (cases q)
      have "(drv, dm) \<in> set (concat (map (\<lambda>drv. map (Pair drv) (match_table drv)) drivers))"
        using find_match_in m Some q by blast
      then have "drv \<in> set drivers" by auto
      then show ?thesis using assms Some q keeps_wlp [of dt "drv_probe drv fdt d (match_data dm)" s] by (auto simp: drivers_ok_def)
    qed (simp add: wp_simps)
  qed
  then show ?thesis by (simp add: keeps_def)
qed

section \<open>Probing\<close>

text \<open>The nodes below a node that are reached through used nodes only.\<close>

inductive below :: "(u32 \<Rightarrow> string) \<Rightarrow> dtree \<Rightarrow> int \<Rightarrow> int \<Rightarrow> bool" for names t where
  below_refl: "below names t x x"
| below_kid: "below names t x y \<Longrightarrow> kid_of t y z \<Longrightarrow> node_of t z n \<Longrightarrow> usable names n \<Longrightarrow> below names t x z"

lemma below_first:
  "below names t x y \<Longrightarrow> y = x \<or> (\<exists>c n. kid_of t x c \<and> node_of t c n \<and> usable names n \<and> below names t c y)"
proof (induction rule: below.induct)
  case (below_kid x y z n)
  then show ?case using below.below_kid [of names t _ y z n] below_refl by blast
qed simp

definition probed :: "(u32 \<Rightarrow> string) \<Rightarrow> dtree \<Rightarrow> int \<Rightarrow> bool \<Rightarrow> nat option \<Rightarrow> kernel \<Rightarrow> bool" where
  "probed names tr x b r u \<longleftrightarrow> (\<forall>d. r = Some d \<longrightarrow> d \<in> devices u \<and> (\<exists>dev. devs (dt u) d = Some dev \<and> node dev = x)
     \<and> (b \<longrightarrow> (\<forall>y. below names tr x y \<longrightarrow> registered u y)))"

definition probe_ok :: "(u32 \<Rightarrow> string) \<Rightarrow> dtree \<Rightarrow> probe_fn \<Rightarrow> bool" where
  "probe_ok names tr probe \<longleftrightarrow> (\<forall>x n par b s. boot_inv names tr s \<longrightarrow> node_of tr x n \<longrightarrow> (par \<noteq> None \<longrightarrow> parent_ok tr s x par) \<longrightarrow>
     wlp (probe x par b) (\<lambda>r u. boot_inv names tr u \<and> extends (next_dev (dt s)) s u \<and> probed names tr x b r u
       \<and> (par \<noteq> None \<longrightarrow> usable names n \<longrightarrow> r \<noteq> None)) s)"

lemma probe_ok_safe: "probe_ok names tr probe \<Longrightarrow> probe_safe names tr probe"
  unfolding probe_safe_def
proof (intro allI impI)
  fix x n s
  assume p: "probe_ok names tr probe" and s: "boot_inv names tr s" "node_of tr x n"
  from p [unfolded probe_ok_def, rule_format, OF s, of None False]
  show "wlp (probe x None False) (\<lambda>r u. boot_inv names tr u \<and> extends (next_dev (dt s)) s u) s"
    by (auto elim: wlp_mono)
qed

text \<open>The parent of a node, probed when the caller does not know it.\<close>

lemma parent_probed:
  assumes tr: "tree_in fdt names tr" and pr: "probe_ok names tr probe" and s: "boot_inv names tr s" and n: "node_of tr x n"
    and par: "par \<noteq> None \<longrightarrow> parent_ok tr s x par"
  shows "wlp (case par of Some p \<Rightarrow> ret (Some (Some p))
      | None \<Rightarrow> bindM (liftE (fdt_parent_offset fdt x)) (\<lambda>po. if po \<ge> 0 then
            bindM (device_lookup po) (\<lambda>p. case p of Some p \<Rightarrow> ret (Some (Some p))
            | None \<Rightarrow> bindM (probe po None False) (\<lambda>p. ret (map_option Some p)))
          else ret (Some None)))
    (\<lambda>r u. boot_inv names tr u \<and> extends (next_dev (dt s)) s u \<and> (case r of None \<Rightarrow> par = None | Some q \<Rightarrow> parent_ok tr u x q)) s"
    (is "wlp _ ?Q s")
proof (cases par)
  case (Some p)
  then show ?thesis using s par by (simp add: wp_simps)
next
  case None
  have tab: "table_ok s" using s by (simp add: boot_inv_def)
  have "wlp (bindM (liftE (fdt_parent_offset fdt x)) (\<lambda>po. if po \<ge> 0 then
            bindM (device_lookup po) (\<lambda>p. case p of Some p \<Rightarrow> ret (Some (Some p))
            | None \<Rightarrow> bindM (probe po None False) (\<lambda>p. ret (map_option Some p)))
          else ret (Some None))) ?Q s"
  proof (simp only: wlp_bindM [of "liftE _"] wlp_liftE, intro allI impI)
    fix po
    assume po: "fdt_parent_offset fdt x = Inr po"
    from n have k: "(po < 0 \<and> x = 0) \<or> (0 \<le> po \<and> kid_of tr po x)"
    proof (cases rule: node_cases)
      case 1
      then show ?thesis using root_parent [OF tr] po by simp
    next
      case (2 px)
      then show ?thesis using kid_parent [OF tr 2] po node_nonneg [of tr px] by (auto simp: kid_of_def)
    qed
    show "wlp (if po \<ge> 0 then bindM (device_lookup po) (\<lambda>p. case p of Some p \<Rightarrow> ret (Some (Some p))
        | None \<Rightarrow> bindM (probe po None False) (\<lambda>p. ret (map_option Some p))) else ret (Some None)) ?Q s"
    proof (cases "0 \<le> po")
      case False
      then show ?thesis using k s by (auto simp: wp_simps parent_ok_def)
    next
      case True
      then have kid: "kid_of tr po x" using k by auto
      then obtain pn where pn: "node_of tr po pn" by (auto simp: kid_of_def)
      show ?thesis
      proof (cases "lookup_result s po")
        case (Some p)
        then show ?thesis using lookup_Some [OF tab Some] kid s True
          by (auto simp: wlp_bindM [of "device_lookup _"] wlp_lookup [OF tab] wlp_ret parent_ok_def)
      next
        case None
        have "wlp (bindM (probe po None False) (\<lambda>p. ret (map_option Some p))) ?Q s"
        proof (rule wlp_bind_rule)
          show "wlp (probe po None False) (\<lambda>r u. boot_inv names tr u \<and> extends (next_dev (dt s)) s u \<and> probed names tr po False r u
              \<and> (None \<noteq> None \<longrightarrow> usable names pn \<longrightarrow> r \<noteq> None)) s"
            using pr [unfolded probe_ok_def, rule_format, OF s pn, of None False] by simp
          show "wlp (ret (map_option Some r)) ?Q u" if "boot_inv names tr u \<and> extends (next_dev (dt s)) s u \<and> probed names tr po False r u
              \<and> (None \<noteq> None \<longrightarrow> usable names pn \<longrightarrow> r \<noteq> None)" for r u
            using that kid \<open>par = None\<close> by (cases r) (auto simp: wp_simps parent_ok_def probed_def)
        qed
        then show ?thesis using True None by (simp add: wlp_bindM [of "device_lookup _"] wlp_lookup [OF tab])
      qed
    qed
  qed
  then show ?thesis by (simp only: None option.case)
qed

text \<open>A device that is not in the table is created, entered and handed to its driver.\<close>

lemma device_probed:
  assumes tr: "tree_in fdt names tr" and pr: "probe_ok names tr probe" and dr: "drivers_ok drivers fdt" and s: "boot_inv names tr s"
    and n: "node_of tr x n" and par: "parent_ok tr s x par"
    and f: "\<And>r u. boot_inv names tr u \<Longrightarrow> extends (next_dev (dt s)) s u \<Longrightarrow> probed names tr x False r u \<Longrightarrow> (usable names n \<longrightarrow> r \<noteq> None) \<Longrightarrow> wlp (f r) Q u"
  shows "wlp (bindM (device_lookup x) (\<lambda>dev. bindM (case dev of Some d \<Rightarrow> ret (Some d)
        | None \<Rightarrow> bindM (device_create irq_tables probe fdt x par True) (\<lambda>dev. case dev of None \<Rightarrow> ret None
          | Some d \<Rightarrow> thenM (device_insert d) (thenM (dt_probe_compatible_driver drivers fdt d) (ret (Some d))))) f)) Q s"
proof -
  have tab: "table_ok s" using s by (simp add: boot_inv_def)
  let ?R = "\<lambda>r u. boot_inv names tr u \<and> extends (next_dev (dt s)) s u \<and> probed names tr x False r u \<and> (usable names n \<longrightarrow> r \<noteq> None)"
  have new: "wlp (case r of None \<Rightarrow> ret None
      | Some d \<Rightarrow> thenM (device_insert d) (thenM (dt_probe_compatible_driver drivers fdt d) (ret (Some d)))) ?R u"
    if u: "case r of None \<Rightarrow> True \<and> \<not> usable names n \<and> dt u = dt s
      | Some d \<Rightarrow> extends (next_dev (dt s)) s u \<and> describes names tr (devs (dt u)) d \<and> d = next_dev (dt s)
        \<and> (\<exists>dev. creating names tr d dev u \<and> node dev = x \<and> parent dev = par)" for r u
  proof (cases r)
    case None
    then show ?thesis using u s by (simp add: wp_simps extends_dt boot_inv_dt [of u s] probed_def)
  next
    case (Some d)
    then obtain dev where d: "extends (next_dev (dt s)) s u" "describes names tr (devs (dt u)) d" "d = next_dev (dt s)"
      "creating names tr d dev u" "node dev = x" "parent dev = par" using u by auto
    have p: "p \<in> devices u" if "parent dev = Some p" for p using that d(1,6) par by (auto simp: parent_ok_def extends_def)
    show ?thesis unfolding Some option.case wlp_thenM
    proof (rule wlp_mono [OF insert_device [OF d(4,2) p]])
      fix v :: kernel
      assume v: "boot_inv names tr v \<and> devs (dt v) = devs (dt u) \<and> next_dev (dt v) = next_dev (dt u) \<and> devices v = insert d (devices u)"
      have "?R (Some d) w" if w: "dt w = dt v" for w
      proof -
        have "devices w = devices v" "boot_inv names tr w" using w v boot_inv_dt [OF w] by (simp_all add: devices_def)
        then show ?thesis using v d w by (auto simp: extends_def probed_def creating_def)
      qed
      then show "wlp (dt_probe_compatible_driver drivers fdt d) (\<lambda>_. wlp (ret (Some d)) ?R) v"
        by (intro wlp_mono [OF keeps_wlp [OF keeps_compatible [OF dr]]]) (simp add: wp_simps)
    qed
  qed
  have "wlp (case lookup_result s x of Some d \<Rightarrow> ret (Some d)
        | None \<Rightarrow> bindM (device_create irq_tables probe fdt x par True) (\<lambda>dev. case dev of None \<Rightarrow> ret None
          | Some d \<Rightarrow> thenM (device_insert d) (thenM (dt_probe_compatible_driver drivers fdt d) (ret (Some d))))) ?R s"
  proof (cases "lookup_result s x")
    case None
    then show ?thesis using wlp_bind_rule [OF device_create_describes [OF tr probe_ok_safe [OF pr] s n par] new] by simp
  next
    case (Some d)
    then show ?thesis using lookup_Some [OF tab Some] s by (simp add: wp_simps probed_def)
  qed
  then show ?thesis unfolding wlp_bindM [of "device_lookup x"] wlp_lookup [OF tab] by (rule wlp_bind_rule) (use f in auto)
qed

text \<open>The loop over the children registers everything below.\<close>

lemma children_probed:
  assumes tr: "tree_in fdt names tr" and pr: "probe_ok names tr probe" and s: "boot_inv names tr s" and n: "node_of tr x n"
    and d: "d \<in> devices s" "devs (dt s) d = Some dev" "node dev = x"
  shows "wlp (bindM (liftE (fdt_first_subnode fdt x)) (\<lambda>child. for_subnodes fdt child (\<lambda>c. thenM (probe c (Some d) True) (ret ()))))
    (\<lambda>_ u. boot_inv names tr u \<and> extends (next_dev (dt s)) s u \<and> (\<forall>y. below names tr x y \<longrightarrow> registered u y)) s"
proof -
  let ?kids = "kid_offsets (kids_at x n) (dn_kids n)"
  let ?I = "\<lambda>ys u. boot_inv names tr u \<and> extends (next_dev (dt s)) s u
    \<and> (\<forall>c \<in> set ys. \<forall>cn. node_of tr c cn \<longrightarrow> usable names cn \<longrightarrow> (\<forall>y. below names tr c y \<longrightarrow> registered u y))"
  obtain c where c: "fdt_first_subnode fdt x = Inr c" "\<And>body. for_subnodes fdt c body = forM ?kids body"
    using node_kids [OF tr n] by blast
  have "wlp (forM ?kids (\<lambda>c. thenM (probe c (Some d) True) (ret ()))) (\<lambda>_. ?I ?kids) s"
  proof (rule wlp_forM)
    show "?I [] s" using s by simp
    fix ys c zs and u :: kernel
    assume k: "?kids = ys @ c # zs" and u: "?I ys u"
    have kid: "kid_of tr x c" using n k by (auto simp: kid_of_def)
    then obtain cn where cn: "node_of tr c cn" using kid_of_node by blast
    have "d < next_dev (dt s)" using s d(2) by (auto simp: boot_inv_def)
    then have "parent_ok tr u c (Some d)" using u d kid by (auto simp: parent_ok_def extends_def)
    then have "wlp (probe c (Some d) True) (\<lambda>r v. boot_inv names tr v \<and> extends (next_dev (dt u)) u v \<and> probed names tr c True r v
       \<and> (Some d \<noteq> None \<longrightarrow> usable names cn \<longrightarrow> r \<noteq> None)) u"
      using pr [unfolded probe_ok_def, rule_format, of u c cn "Some d" True] u cn by simp
    then have "wlp (probe c (Some d) True) (\<lambda>_. ?I (ys @ [c])) u"
    proof (rule wlp_mono)
      fix r and v :: kernel
      assume v: "boot_inv names tr v \<and> extends (next_dev (dt u)) u v \<and> probed names tr c True r v
        \<and> (Some d \<noteq> None \<longrightarrow> usable names cn \<longrightarrow> r \<noteq> None)"
      have "extends (next_dev (dt s)) s v" using extends_chain u v by blast
      moreover have "registered v y" if "c' \<in> set (ys @ [c])" "node_of tr c' cn'" "usable names cn'" "below names tr c' y" for c' cn' y
      proof (cases "c' = c")
        case True
        then have "cn' = cn" using that(2) cn node_of_unique by blast
        then show ?thesis using v that True by (auto simp: probed_def)
      next
        case False
        then have "registered u y" using that u by auto
        then show ?thesis using registered_extends u v by blast
      qed
      ultimately show "?I (ys @ [c]) v" using v by blast
    qed
    then show "wlp (thenM (probe c (Some d) True) (ret ())) (\<lambda>_. ?I (ys @ [c])) u" by (simp add: wlp_thenM wlp_ret)
  qed
  then have "wlp (forM ?kids (\<lambda>c. thenM (probe c (Some d) True) (ret ())))
    (\<lambda>_ u. boot_inv names tr u \<and> extends (next_dev (dt s)) s u \<and> (\<forall>y. below names tr x y \<longrightarrow> registered u y)) s"
  proof (rule wlp_mono)
    fix r and u :: kernel
    assume u: "?I ?kids u"
    have "registered u y" if "below names tr x y" for y
      using below_first [OF that]
    proof (elim disjE exE conjE)
      assume "y = x"
      moreover have "registered s x" using d by (auto simp: registered_def)
      ultimately show ?thesis using registered_extends s u by blast
    next
      fix c cn
      assume c: "kid_of tr x c" "node_of tr c cn" "usable names cn" "below names tr c y"
      then obtain pn where "node_of tr x pn" "c \<in> set (kid_offsets (kids_at x pn) (dn_kids pn))" by (auto simp: kid_of_def)
      then have "c \<in> set ?kids" using n node_of_unique by blast
      then show ?thesis using u c by blast
    qed
    then show "boot_inv names tr u \<and> extends (next_dev (dt s)) s u \<and> (\<forall>y. below names tr x y \<longrightarrow> registered u y)" using u by blast
  qed
  then show ?thesis by (simp add: wlp_bindM wlp_liftE c)
qed

lemma probe_ok_device:
  assumes tr: "tree_in fdt names tr" and dr: "drivers_ok drivers fdt"
  shows "probe_ok names tr (dt_probe_device k irq_tables drivers fdt)"
proof (induction k)
  case 0
  show ?case by (simp add: probe_ok_def wp_simps)
next
  case (Suc k)
  let ?probe = "dt_probe_device k irq_tables drivers fdt"
  show ?case
    unfolding probe_ok_def
  proof (intro allI impI)
    fix x n par b s
    assume s: "boot_inv names tr s" and n: "node_of tr x n" and par: "par \<noteq> None \<longrightarrow> parent_ok tr s x par"
    let ?Q = "\<lambda>r u. boot_inv names tr u \<and> extends (next_dev (dt s)) s u \<and> probed names tr x b r u \<and> (par \<noteq> None \<longrightarrow> usable names n \<longrightarrow> r \<noteq> None)"
    show "wlp (dt_probe_device (Suc k) irq_tables drivers fdt x par b) ?Q s"
      unfolding dt_probe_device.simps Let_def
    proof (rule wlp_bind_rule [OF parent_probed [OF tr Suc.IH s n par]], elim conjE)
      fix r u
      assume u: "boot_inv names tr u" "extends (next_dev (dt s)) s u" and r: "case r of None \<Rightarrow> par = None | Some q \<Rightarrow> parent_ok tr u x q"
      show "wlp (case r of None \<Rightarrow> ret None
        | Some par \<Rightarrow> bindM (device_lookup x) (\<lambda>dev. bindM (case dev of Some d \<Rightarrow> ret (Some d)
            | None \<Rightarrow> bindM (device_create irq_tables ?probe fdt x par True) (\<lambda>dev. case dev of None \<Rightarrow> ret None
              | Some d \<Rightarrow> thenM (device_insert d) (thenM (dt_probe_compatible_driver drivers fdt d) (ret (Some d))))) (\<lambda>dev.
          case dev of None \<Rightarrow> ret None
          | Some d \<Rightarrow> thenM (whenM b (bindM (liftE (fdt_first_subnode fdt x)) (\<lambda>child.
              for_subnodes fdt child (\<lambda>c. thenM (?probe c (Some d) True) (ret ()))))) (ret (Some d))))) ?Q u"
      proof (cases r)
        case None
        then show ?thesis using u r by (simp add: wp_simps probed_def)
      next
        case (Some q)
        then have q: "parent_ok tr u x q" using r by simp
        show ?thesis unfolding Some option.case
        proof (rule device_probed [OF tr Suc.IH dr u(1) n q])
          fix dev v
          assume v: "boot_inv names tr v" "extends (next_dev (dt u)) u v" "probed names tr x False dev v" "usable names n \<longrightarrow> dev \<noteq> None"
          have sv: "extends (next_dev (dt s)) s v" by (rule extends_chain [OF u(2) v(2)])
          show "wlp (case dev of None \<Rightarrow> ret None
            | Some d \<Rightarrow> thenM (whenM b (bindM (liftE (fdt_first_subnode fdt x)) (\<lambda>child.
                for_subnodes fdt child (\<lambda>c. thenM (?probe c (Some d) True) (ret ()))))) (ret (Some d))) ?Q v"
          proof (cases dev)
            case None
            then show ?thesis using v sv by (simp add: wp_simps probed_def)
          next
            case (Some d)
            then obtain e where d: "d \<in> devices v" "devs (dt v) d = Some e" "node e = x" using v(3) by (auto simp: probed_def)
            show ?thesis
            proof (cases b)
              case False
              then show ?thesis using Some v sv d by (simp add: wp_simps probed_def)
            next
              case True
              have dn: "d < next_dev (dt v)" using v(1) d(2) by (auto simp: boot_inv_def)
              have "wlp (bindM (liftE (fdt_first_subnode fdt x)) (\<lambda>child. for_subnodes fdt child (\<lambda>c. thenM (?probe c (Some d) True) (ret ()))))
                (\<lambda>_. wlp (ret (Some d)) ?Q) v"
                by (rule wlp_mono [OF children_probed [OF tr Suc.IH v(1) n d]])
                  (use extends_trans [OF sv] sv d dn True in \<open>auto simp: wp_simps probed_def extends_def [of _ v] extends_def [of _ s v]\<close>)
              then show ?thesis using Some True by (simp add: wlp_thenM whenM_def)
            qed
          qed
        qed
      qed
    qed
  qed
qed

section \<open>The property\<close>

lemma root_path: "tree_in fdt names tr \<Longrightarrow> fdt_path_offset 1 fdt ''/'' = Inr 0"
  by (auto simp: tree_in_def path_loop.simps [of fdt 0 "''/''"] blobD(1) [OF flatD(1)])

lemma describes_bus:
  assumes "describes names tr m d" "m d = Some dev"
  shows "describes names tr (m(d \<mapsto> dev\<lparr>is_simple_bus := b\<rparr>)) d"
proof -
  let ?m = "m(d \<mapsto> dev\<lparr>is_simple_bus := b\<rparr>)"
  obtain n where h: "node_of tr (node dev) n" "of_node names n dev"
    "case parent dev of None \<Rightarrow> node dev = 0
     | Some p \<Rightarrow> p < d \<and> (\<exists>pd pn. m p = Some pd \<and> kid_of tr (node pd) (node dev) \<and> node_of tr (node pd) pn \<and> in_parent names n pn pd dev)"
    using assms by (auto simp: describes_def)
  have "in_parent names n pn pd (dev\<lparr>is_simple_bus := b\<rparr>) = in_parent names n pn pd dev" for pn pd by (simp add: in_parent_def)
  then have "case parent (dev\<lparr>is_simple_bus := b\<rparr>) of None \<Rightarrow> node (dev\<lparr>is_simple_bus := b\<rparr>) = 0
     | Some p \<Rightarrow> p < d \<and> (\<exists>pd pn. ?m p = Some pd \<and> kid_of tr (node pd) (node (dev\<lparr>is_simple_bus := b\<rparr>)) \<and> node_of tr (node pd) pn
       \<and> in_parent names n pn pd (dev\<lparr>is_simple_bus := b\<rparr>))" using h(3) by (auto split: option.splits)
  moreover have "of_node names n (dev\<lparr>is_simple_bus := b\<rparr>)" "node_of tr (node (dev\<lparr>is_simple_bus := b\<rparr>)) n" using h by (simp_all add: of_node_def)
  ultimately show ?thesis unfolding describes_def by (intro exI [of _ "dev\<lparr>is_simple_bus := b\<rparr>"] exI [of _ n] conjI) simp_all
qed

lemma empty_table: "concat (replicate n []) = []"
  by (induction n) simp_all

lemma boot_inv_start:
  assumes "\<forall>d. devs (dt s) d \<noteq> None \<longrightarrow> d < next_dev (dt s)"
  shows "boot_inv names tr (s\<lparr>dt := (dt s)\<lparr>buckets := replicate DEVICE_TABLE_SIZE []\<rparr>\<rparr>)"
  using assms by (simp add: boot_inv_def table_ok_def devices_def empty_table)

lemma root_registered:
  assumes tr: "tree_in fdt names tr" and dr: "drivers_ok drivers fdt" and s: "boot_inv names tr s"
  shows "wlp (bindM (device_create irq_tables (dt_probe_device k irq_tables drivers fdt) fdt 0 None False) (\<lambda>dev. case dev of None \<Rightarrow> panic
     | Some d \<Rightarrow> thenM (upd_device d (\<lambda>dev. dev\<lparr>is_simple_bus := True\<rparr>)) (thenM (device_insert d) (
       bindM (liftE (fdt_first_subnode fdt 0)) (\<lambda>child.
       thenM (for_subnodes fdt child (\<lambda>c. thenM (dt_probe_device k irq_tables drivers fdt c (Some d) True) (ret ()))) (ret (0 :: int)))))))
    (\<lambda>_ u. boot_inv names tr u \<and> (\<forall>x. below names tr 0 x \<longrightarrow> registered u x)) s"
proof -
  let ?probe = "dt_probe_device k irq_tables drivers fdt"
    and ?R = "\<lambda>u. boot_inv names tr u \<and> (\<forall>x. below names tr 0 x \<longrightarrow> registered u x)"
  note pr = probe_ok_device [OF tr dr, of k]
  have "parent_ok tr s 0 None" by (simp add: parent_ok_def)
  from device_create_describes [OF tr probe_ok_safe [OF pr] s root_node this, of False]
  show ?thesis
  proof (rule wlp_bind_rule)
    fix r u
    assume r: "case r of None \<Rightarrow> False \<and> \<not> usable names tr \<and> dt u = dt s
      | Some d \<Rightarrow> extends (next_dev (dt s)) s u \<and> describes names tr (devs (dt u)) d \<and> d = next_dev (dt s)
        \<and> (\<exists>dev. creating names tr d dev u \<and> node dev = 0 \<and> parent dev = None)"
    then obtain d dev where d: "r = Some d" "describes names tr (devs (dt u)) d" "creating names tr d dev u" "node dev = 0" "parent dev = None"
      by (auto split: option.splits)
    let ?dev = "dev\<lparr>is_simple_bus := True\<rparr>" and ?v = "dev_upd d (dev\<lparr>is_simple_bus := True\<rparr>) u"
    have dd: "devs (dt u) d = Some dev" using d(3) by (simp add: creating_def)
    have v: "creating names tr d ?dev ?v" using creating_update(1) [OF d(3), of ?v ?dev] by simp
    have dv: "describes names tr (devs (dt ?v)) d" using describes_bus [OF d(2) dd] by simp
    have ins: "wlp (bindM (liftE (fdt_first_subnode fdt 0)) (\<lambda>child. thenM (for_subnodes fdt child (\<lambda>c. thenM (?probe c (Some d) True) (ret ()))) (ret (0 :: int)))) (\<lambda>_. ?R) w"
      if w: "boot_inv names tr w \<and> devs (dt w) = devs (dt ?v) \<and> next_dev (dt w) = next_dev (dt ?v) \<and> devices w = insert d (devices ?v)" for w
    proof -
      have "d \<in> devices w" "devs (dt w) d = Some ?dev" "node ?dev = 0" using w d(4) by simp_all
      from children_probed [OF tr pr _ root_node this] w
      have "wlp (bindM (liftE (fdt_first_subnode fdt 0)) (\<lambda>child. for_subnodes fdt child (\<lambda>c. thenM (?probe c (Some d) True) (ret ())))) (\<lambda>_. ?R) w"
        by (auto elim: wlp_mono)
      then show ?thesis by (simp add: wlp_bindM wlp_liftE wlp_thenM [of "for_subnodes _ _ _"] wlp_ret)
    qed
    have "wlp (device_insert d) (\<lambda>_. wlp (bindM (liftE (fdt_first_subnode fdt 0)) (\<lambda>child.
        thenM (for_subnodes fdt child (\<lambda>c. thenM (?probe c (Some d) True) (ret ()))) (ret (0 :: int)))) (\<lambda>_. ?R)) ?v"
      by (rule wlp_mono [OF insert_device [OF v dv]]) (use d(5) ins in auto)
    then show "wlp (case r of None \<Rightarrow> panic
     | Some d \<Rightarrow> thenM (upd_device d (\<lambda>dev. dev\<lparr>is_simple_bus := True\<rparr>)) (thenM (device_insert d) (
       bindM (liftE (fdt_first_subnode fdt 0)) (\<lambda>child.
       thenM (for_subnodes fdt child (\<lambda>c. thenM (?probe c (Some d) True) (ret ()))) (ret (0 :: int)))))) (\<lambda>_. ?R) u"
      using dd by (simp add: d(1) wlp_thenM [of "upd_device _ _"] wlp_thenM [of "device_insert _"] wlp_upd_device)
  qed
qed

lemma probe_prefix:
  assumes "wlp (m 0) Q (f v)"
  shows "wlp (thenM (whenM c panic) (thenM (modifyM f) (bindM (liftE (Inr (0 :: int))) (\<lambda>root. thenM (whenM (root < 0) panic) (m root))))) Q v"
  using assms by (simp add: wlp_thenM [of "whenM _ _"] wlp_thenM [of "modifyM _"] wlp_whenM wlp_panic wlp_modifyM wlp_bindM [of "liftE (Inr _)"] wlp_liftE)

text \<open>The drivers are arbitrary functions that leave the device table alone.\<close>

lemma dt_probe_devices:
  assumes "tree_in fdt names tr" "drivers_ok drivers fdt" "\<forall>d. devs (dt s) d \<noteq> None \<longrightarrow> d < next_dev (dt s)"
    and "dt_probe k irq_tables drivers dt_addr fdt s = Inr (r, u)"
  shows "table_ok u \<and> (\<forall>d \<in> devices u. describes names tr (devs (dt u)) d) \<and> (\<forall>x. below names tr 0 x \<longrightarrow> registered u x)"
proof -
  have "wlp (dt_probe k irq_tables drivers dt_addr fdt) (\<lambda>_ u. boot_inv names tr u \<and> (\<forall>x. below names tr 0 x \<longrightarrow> registered u x)) s"
    unfolding dt_probe_def root_path [OF assms(1)]
  proof (rule keeps_wlp_bind [OF dt_part.keeps_translate])
    fix va and v :: kernel
    assume v: "dt v = dt s"
    have "boot_inv names tr (v\<lparr>dt := (dt v)\<lparr>buckets := replicate DEVICE_TABLE_SIZE []\<rparr>\<rparr>)" by (rule boot_inv_start) (simp add: v assms(3))
    then show "wlp (thenM (whenM (va = 0) panic) (thenM (modifyM (\<lambda>s. s\<lparr>dt := (dt s)\<lparr>buckets := replicate DEVICE_TABLE_SIZE []\<rparr>\<rparr>)) (
     bindM (liftE (Inr 0)) (\<lambda>root. thenM (whenM (root < 0) panic) (
     bindM (device_create irq_tables (dt_probe_device k irq_tables drivers fdt) fdt root None False) (\<lambda>dev. case dev of None \<Rightarrow> panic
     | Some d \<Rightarrow> thenM (upd_device d (\<lambda>dev. dev\<lparr>is_simple_bus := True\<rparr>)) (thenM (device_insert d) (
       bindM (liftE (fdt_first_subnode fdt root)) (\<lambda>child.
       thenM (for_subnodes fdt child (\<lambda>c. thenM (dt_probe_device k irq_tables drivers fdt c (Some d) True) (ret ()))) (ret (0 :: int)))))))))))
      (\<lambda>_ u. boot_inv names tr u \<and> (\<forall>x. below names tr 0 x \<longrightarrow> registered u x)) v"
      by (intro probe_prefix root_registered [OF assms(1,2)])
  qed
  from wlpD [OF this assms(4)] show ?thesis by (simp add: boot_inv_def)
qed

end
