(* ===== verification/Drivers.thy ===== *)
theory Drivers
  imports Dt_Boot Mmu_Map
begin

unbundle bit_operations_syntax

text \<open>
  The functions the drivers register for compatible devices: \<open>mxc_gpio_probe\<close> of core/drivers/imx\_gpio.c,
  \<open>fb_probe\<close> of imx\_fb.c, \<open>gpio_keys_probe\<close> of imx\_gpio\_keys.c and \<open>gic_probe\<close> of gic.c, and the list of drivers
  \<open>dt_probe_compatible_driver\<close> looks through. None of them changes the device table, so the property of \<open>dt_probe\<close>
  holds with them.
\<close>

abbreviation (input) ENODEV :: int where "ENODEV \<equiv> 19"
abbreviation (input) ITRF_TRIGGER_LEVEL :: u32 where "ITRF_TRIGGER_LEVEL \<equiv> 1"
abbreviation (input) IPU_CPMEM_OFFSET :: u32 where "IPU_CPMEM_OFFSET \<equiv> 0x300000"

section \<open>imx\_gpio.c\<close>

text \<open>The type of the hardware, from the word in the match table.\<close>

definition gpio_hwtype_of :: "nat \<Rightarrow> mxc_gpio_hwtype" where
  "gpio_hwtype_of data = (if data = 1 then IMX1_GPIO else if data = 2 then IMX21_GPIO else if data = 3 then IMX31_GPIO else IMX35_GPIO)"

definition add_and_enable :: "irq_desc \<Rightarrow> irq_handler \<Rightarrow> unit km" where
  "add_and_enable irq h =
     thenM (irq_add irq_tables irq ITRF_TRIGGER_LEVEL h) (thenM (irq_enable irq_tables irq) (ret ()))"

text \<open>
  A device is probed once, so that the port allocated for it has the identifier of the device. A port that is not
  set up to its end is not linked into the list, and is not reachable from anywhere else.
\<close>

definition mxc_gpio_probe :: "u8 list \<Rightarrow> nat \<Rightarrow> nat \<Rightarrow> int km" where
  "mxc_gpio_probe fdt d data =
     bindM (device_at d) (\<lambda>dev.
     bindM malloc (\<lambda>ok. if \<not> ok then ret (- ENOMEM)
     else
       bindM (gets (\<lambda>s. gpio_hwdata (gpio s) = None)) (\<lambda>first_port.
       thenM (mxc_gpio_get_hw (gpio_hwtype_of data)) (
       if length (resources dev) \<noteq> 1 \<or> dresource_type dev \<noteq> RESOURCE_MEM then ret (- EINVAL)
       else
         bindM (region_of (resources dev ! 0)) (\<lambda>(paddr, size).
         bindM (core_mmu_add_mapping MEM_AREA_IO_SEC paddr size) (\<lambda>mapped. if \<not> mapped then ret (- EINVAL)
         else
           bindM (phys_to_virt paddr MEM_AREA_IO_SEC) (\<lambda>base.
           if length (irqs dev) < 2 \<or> length (irqs dev) > 3 then ret (- EINVAL)
           else
             let three = (length (irqs dev) = 3) in
             thenM (modifyM (\<lambda>s. s\<lparr>gpio := (gpio s)\<lparr>ports := (ports (gpio s))(d \<mapsto> \<lparr>pdev = d, pbase = paddr, vbase = base,
               irq_pass = \<lparr>desc_chip = NULL_CHIP, desc_irq = 0\<rparr>, both_edges = 0, secure_mask = 0, passed_irq_mask = 0\<rparr>)\<rparr>\<rparr>)) (
             thenM (gpio_write_reg 0 d imr_reg) (
             thenM (gpio_write_reg 0xFFFFFFFF d isr_reg) (
             thenM (whenM (gpio_hwtype_of data \<noteq> IMX21_GPIO \<or> first_port) (
               add_and_enable (idesc (irqs dev ! 0)) \<lparr>h_handle = (if gpio_hwtype_of data = IMX21_GPIO then MX2_GPIO_IRQ_HANDLER
                 else MX3_GPIO_IRQ_HANDLER), h_data = d\<rparr>)) (
             thenM (whenM (gpio_hwtype_of data \<noteq> IMX21_GPIO \<and> three) (
               add_and_enable (idesc (irqs dev ! 1)) \<lparr>h_handle = MX3_GPIO_IRQ_HANDLER, h_data = d\<rparr>)) (
             thenM (upd_port d (\<lambda>pt. pt\<lparr>irq_pass := idesc (irqs dev ! (if three then 2 else 1))\<rparr>)) (
             thenM (emu_add_region paddr size GPIO_EMU_CHECK) (
             bindM (index_at (csu dev) 0) (\<lambda>slot.
             thenM (csu_set_csl slot True) (
             thenM (irq_construct_chip (PORT_CHIP d) d gpio_irq_ops 32 True) (
             thenM (modifyM (\<lambda>s. s\<lparr>gpio := (gpio s)\<lparr>mxc_gpio_ports := d # mxc_gpio_ports (gpio s)\<rparr>\<rparr>)) (
             ret 0))))))))))))))))))"

section \<open>imx\_fb.c\<close>

definition fb_probe :: "u8 list \<Rightarrow> nat \<Rightarrow> nat \<Rightarrow> int km" where
  "fb_probe fdt d data =
     bindM (device_at d) (\<lambda>dev.
     if length (resources dev) \<noteq> 1 \<or> dresource_type dev \<noteq> RESOURCE_MEM then ret (- EINVAL)
     else
       bindM (region_of (resources dev ! 0)) (\<lambda>(paddr, size).
       bindM (core_mmu_add_mapping MEM_AREA_IO_SEC paddr size) (\<lambda>mapped. if \<not> mapped then ret (- EINVAL)
       else
         bindM (gets (\<lambda>s. g_base_paddr (fb s))) (\<lambda>cur.
         thenM (whenM (cur = 0 \<or> paddr < cur) (
           thenM (modifyM (\<lambda>s. s\<lparr>fb := (fb s)\<lparr>g_base_paddr := paddr\<rparr>\<rparr>)) (
           bindM (phys_to_virt paddr MEM_AREA_IO_SEC) (\<lambda>base.
           thenM (modifyM (\<lambda>s. s\<lparr>fb := (fb s)\<lparr>g_base_vaddr := base\<rparr>\<rparr>)) (
           bindM (phys_to_virt (paddr + IPU_CPMEM_OFFSET) MEM_AREA_IO_SEC) (\<lambda>cpmem.
           modifyM (\<lambda>s. s\<lparr>fb := (fb s)\<lparr>g_cpmem_vaddr := cpmem\<rparr>\<rparr>)))))))
         (ret 0)))))"

section \<open>imx\_gpio\_keys.c\<close>

text \<open>
  A button of zeroes; its descriptor has no chip. When there is no memory for the buttons, \<open>nbuttons\<close> of
  them are accessed through a NULL pointer, which faults as the descriptors without a chip do.
\<close>

definition zero_button :: gpio_keys_button where
  "zero_button = \<lparr>code = 0, gpio_irq = \<lparr>desc_chip = NULL_CHIP, desc_irq = 0\<rparr>, gpio_irq_flags = 0,
     gpio_irq_handler = \<lparr>h_handle = GPIO_KEYS_HANDLER, h_data = 0\<rparr>\<rparr>"

definition set_pdata :: "gpio_keys_platform_data option \<Rightarrow> unit km" where
  "set_pdata p = modifyM (\<lambda>s. s\<lparr>keys := (keys s)\<lparr>pdata := p\<rparr>\<rparr>)"

definition upd_button :: "nat \<Rightarrow> (gpio_keys_button \<Rightarrow> gpio_keys_button) \<Rightarrow> unit km" where
  "upd_button n f = bindM keys_pdata (\<lambda>p. bindM (index_at (buttons p) n) (\<lambda>b. set_pdata (Some (p\<lparr>buttons := (buttons p)[n := f b]\<rparr>))))"

text \<open>The second loop over the children of the node; its result is the error to return, or 0.\<close>

fun init_buttons :: "u8 list \<Rightarrow> nat \<Rightarrow> int list \<Rightarrow> int km" where
  "init_buttons fdt n [] = ret 0"
| "init_buttons fdt n (nd # nds) =
     bindM (liftE (dt_read_property_u32 fdt nd ''linux,code'')) (\<lambda>code. case code of None \<Rightarrow> ret (- EINVAL)
     | Some c \<Rightarrow>
       thenM (upd_button n (\<lambda>b. b\<lparr>code := c\<rparr>)) (
       bindM (liftE (dt_read_property fdt nd ''label'')) (\<lambda>desc.
       bindM (liftE (dt_read_property fdt nd ''gpios'')) (\<lambda>spec.
       bindM (deref spec) (\<lambda>p.
       bindM (liftE (rd32 fdt p)) (\<lambda>ph.
       bindM (dt_lookup_device fdt ph) (\<lambda>gpio_dev.
       bindM (case gpio_dev of None \<Rightarrow> ret None | Some g \<Rightarrow> irq_find_chip g) (\<lambda>gpio_chip.
       case gpio_chip of None \<Rightarrow> ret (- EINVAL)
       | Some chip \<Rightarrow>
         thenM (upd_button n (\<lambda>b. b\<lparr>gpio_irq := (gpio_irq b)\<lparr>desc_chip := chip\<rparr>\<rparr>)) (
         bindM (irq_map irq_tables chip (cells_at fdt (p + 4))) (\<lambda>(_, irq, flags).
         thenM (upd_button n (\<lambda>b. b\<lparr>gpio_irq := (gpio_irq b)\<lparr>desc_irq := irq\<rparr>, gpio_irq_flags := flags,
           gpio_irq_handler := \<lparr>h_handle = GPIO_KEYS_HANDLER, h_data = n\<rparr>\<rparr>)) (
         init_buttons fdt (Suc n) nds)))))))))))"

definition gpio_keys_probe :: "u8 list \<Rightarrow> nat \<Rightarrow> nat \<Rightarrow> int km" where
  "gpio_keys_probe fdt d data =
     bindM (device_at d) (\<lambda>dev.
     bindM (liftE (fdt_for_each_subnode fdt (node dev))) (\<lambda>nodes.
     if nodes = [] then ret (- ENODEV)
     else
       bindM malloc (\<lambda>ok.
       if \<not> ok then thenM (set_pdata None) (ret (- ENOMEM))
       else
         thenM (set_pdata (Some \<lparr>buttons = replicate (length nodes) zero_button, bhandlers = []\<rparr>)) (
         bindM malloc (\<lambda>ok. if \<not> ok then ret (- ENOMEM)
         else
           bindM (init_buttons fdt 0 nodes) (\<lambda>err. if err \<noteq> 0 then ret err
           else
             bindM (gpio_keys_acquire SECPWR_BUTTON_HANDLER) (\<lambda>ok. ret (if ok then 0 else - EINVAL))))))))"

section \<open>The drivers\<close>

definition gic_dt_driver :: dt_driver where
  "gic_dt_driver = \<lparr>drv_name = ''gic'', match_table = [\<lparr>compatible = ''arm,cortex-a9-gic'', match_data = 1\<rparr>,
     \<lparr>compatible = ''fsl,imx6q-gpc'', match_data = 0\<rparr>], drv_probe = (\<lambda>fdt d data. gic_probe d (data \<noteq> 0))\<rparr>"

definition fb_dt_driver :: dt_driver where
  "fb_dt_driver = \<lparr>drv_name = ''ipu-fb'', match_table = [\<lparr>compatible = ''fsl,imx6q-ipu'', match_data = 0\<rparr>], drv_probe = fb_probe\<rparr>"

definition mxc_gpio_dt_driver :: dt_driver where
  "mxc_gpio_dt_driver = \<lparr>drv_name = ''gpio-mxc'', match_table = [\<lparr>compatible = ''fsl,imx1-gpio'', match_data = 1\<rparr>,
     \<lparr>compatible = ''fsl,imx21-gpio'', match_data = 2\<rparr>, \<lparr>compatible = ''fsl,imx31-gpio'', match_data = 3\<rparr>,
     \<lparr>compatible = ''fsl,imx35-gpio'', match_data = 4\<rparr>], drv_probe = mxc_gpio_probe\<rparr>"

definition gpio_keys_dt_driver :: dt_driver where
  "gpio_keys_dt_driver = \<lparr>drv_name = ''gpio-keys'', match_table = [\<lparr>compatible = ''gpio-keys'', match_data = 0\<rparr>], drv_probe = gpio_keys_probe\<rparr>"

text \<open>The section \<open>.rodata.dtdrv\<close>, in the order in which core/drivers/sub.mk names the files.\<close>

definition kernel_drivers :: "dt_driver list" where
  "kernel_drivers = [gic_dt_driver, fb_dt_driver, mxc_gpio_dt_driver, gpio_keys_dt_driver]"

section \<open>What the drivers leave alone\<close>

lemma keeps_dt_tables [keeps_intros]:
  "keeps dt (table_get p i)" "keeps dt (table_set p i v)" "keeps dt (core_mmu_find_table va lv)"
  by (auto simp: table_get_def table_set_def core_mmu_find_table_def core_mmu_get_main_ttb_va_def core_mmu_set_info_table_def Let_def
    intro!: keeps_intros keeps_modifyM)

lemma keeps_dt_mapping [keeps_intros]: "keeps dt (core_mmu_add_mapping ty pa n)"
  by (auto simp: core_mmu_add_mapping_def set_region_def core_mmu_set_entry_def core_mmu_set_entry_primitive_def Let_def
    intro!: keeps_intros keeps_modifyM)

lemma keeps_dt_devices [keeps_intros]: "keeps dt (device_at d)" "keeps dt (device_lookup n)" "keeps dt (irq_find_chip d)"
  "keeps dt (irq_construct_chip c d ops m df)"
  by (auto simp: device_at_def device_lookup_def irq_find_chip_def irq_construct_chip_def intro!: keeps_intros keeps_modifyM)

lemma keeps_dt_gpio: "keeps dt (mxc_gpio_probe fdt d k)"
  by (auto simp: mxc_gpio_probe_def mxc_gpio_get_hw_def add_and_enable_def Let_def intro!: keeps_intros keeps_modifyM)

lemma keeps_dt_fb: "keeps dt (fb_probe fdt d k)"
  by (auto simp: fb_probe_def intro!: keeps_intros keeps_modifyM)

lemma keeps_dt_buttons [keeps_intros]: "keeps dt (set_pdata p)" "keeps dt (upd_button n f)"
  by (auto simp: set_pdata_def upd_button_def intro!: keeps_intros keeps_modifyM)

lemma keeps_dt_init: "keeps dt (init_buttons fdt n nds)"
  by (induction nds arbitrary: n) (auto simp: dt_lookup_device_def intro!: keeps_intros keeps_irq_map)

lemma keeps_dt_keys: "keeps dt (gpio_keys_probe fdt d k)"
  by (auto simp: gpio_keys_probe_def intro!: keeps_intros keeps_dt_init)

lemma keeps_dt_gic: "keeps dt (gic_probe d b)"
proof -
  have "keeps dt (probe_loop v n)" for v n
    by (induction n) (auto intro!: keeps_intros)
  then show ?thesis by (auto simp: gic_probe_def probe_max_it_def gic_init_def intro!: keeps_intros keeps_modifyM)
qed

lemma kernel_drivers_ok: "drivers_ok kernel_drivers fdt"
  by (simp add: drivers_ok_def kernel_drivers_def gic_dt_driver_def fb_dt_driver_def mxc_gpio_dt_driver_def gpio_keys_dt_driver_def
    keeps_dt_gpio keeps_dt_fb keeps_dt_keys keeps_dt_gic)

section \<open>The device table after boot\<close>


section \<open>An example\<close>

definition boot_names :: "u8 list" where "boot_names = bytes ''compatible'' @ [0] @ bytes ''sp-csu'' @ [0]"

definition boot_name :: "u32 \<Rightarrow> string" where "boot_name k = (if k = 0 then ''compatible'' else ''sp-csu'')"

definition boot_kid :: dtree where "boot_kid = DNode (bytes ''wifi'') [(0, bytes ''w'' @ [0]), (11, enc32 5)] []"

definition boot_tree :: dtree where "boot_tree = DNode [] [] [boot_kid]"

definition boot_blob :: "u8 list" where "boot_blob = flatten boot_tree boot_names"

definition boot_kernel :: kernel where
  "boot_kernel = blank\<lparr>mmu := (mmu blank)\<lparr>static_memory_map :=
     [\<lparr>mtype = MEM_AREA_RAM_NSEC, region_size = 0x100000, mpa = 0x18000000, mva = 0x60000000, msize = 0x100000, mattr = 0\<rparr>],
     ats1cpr := (\<lambda>_. 0x18000000)\<rparr>\<rparr>"

lemma boot_lengths: "length (enc_node boot_kid) = 48" "length (fdt_struct boot_tree) = 64" "length boot_names = 18"
  by (simp_all add: boot_kid_def boot_tree_def fdt_struct_def enc_begin_def enc_props_def enc_prop_def pad4_length bytes_def boot_names_def)

lemma boot_nodes: "nodes 0 0 boot_tree = [(0, 0, boot_tree), (8, 1, boot_kid)]"
proof -
  have "nodes off d boot_kid = [(off, d, boot_kid)]" for off d by (simp add: boot_kid_def)
  then show ?thesis by (simp add: boot_tree_def enc_begin_def enc_props_def pad4_length)
qed

lemma boot_tree_in: "tree_in boot_blob boot_name boot_tree"
proof -
  have "wf_tree boot_tree" by (simp add: boot_tree_def boot_kid_def bytes_def byte_def enc32_def)
  from flatten_flat [OF this, of boot_names] have f: "flat boot_blob 40 64 104 boot_tree" by (simp add: boot_lengths boot_blob_def)
  have "str_at boot_blob (uint (104 :: u32) + i32 0) ''compatible''" "str_at boot_blob (uint (104 :: u32) + i32 11) ''sp-csu''"
    using flatten_str [of boot_tree boot_names 0 "''compatible''"] flatten_str [of boot_tree boot_names 11 "''sp-csu''"]
    by (simp_all add: boot_lengths boot_names_def bytes_def byte_def boot_blob_def)
  then have "named boot_blob 104 boot_name boot_tree" "named boot_blob 104 boot_name boot_kid"
    by (auto simp: named_def boot_tree_def boot_kid_def boot_name_def)
  then show ?thesis using f by (auto simp: tree_in_def boot_nodes)
qed

lemma boot_node: "node_of boot_tree 0 boot_tree" "node_of boot_tree 8 boot_kid"
  by (auto simp: node_of_def boot_nodes)

lemma boot_props: "prop_of boot_name s boot_tree = None"
  "prop_of boot_name s boot_kid = (if s = ''compatible'' then Some (bytes ''w'' @ [0]) else if s = ''sp-csu'' then Some (enc32 5) else None)"
  by (auto simp: prop_of_def boot_tree_def boot_kid_def boot_name_def)

lemma words_of_enc32: "words_of (enc32 w) = [w]"
  using fdt32_enc32 [of w] by (simp add: enc32_def del: fdt32_enc32)

lemma text_of_bytes: "text_of (bytes cs) = cs"
proof -
  have "unat (byte c) = of_char c" for c
    using of_char_mod_256 [of c, where ?'a = nat] by (simp add: byte_def unat_of_nat)
  then show ?thesis by (simp add: text_of_def bytes_def comp_def)
qed

lemma boot_dn: "dn_name boot_tree = []" "text_of (dn_name boot_kid) = ''wifi''" "words_of (enc32 5) = [5]"
  by (simp_all add: boot_tree_def boot_kid_def text_of_bytes words_of_enc32)

lemma root_reads:
  "fdt_getprop boot_blob 0 s = Inr (None, - FDT_ERR_NOTFOUND)" "node_name boot_blob 0 = Inr []"
  "\<exists>l. fdt_get_property boot_blob 0 s = Inr (None, l)"
  using node_getprop [OF boot_tree_in boot_node(1), of s] node_name_text [OF boot_tree_in boot_node(1)]
    node_property [OF boot_tree_in boot_node(1), of s] by (auto simp: boot_props boot_dn text_of_def)

lemma kid_reads:
  "s \<noteq> ''compatible'' \<Longrightarrow> s \<noteq> ''sp-csu'' \<Longrightarrow> fdt_getprop boot_blob 8 s = Inr (None, - FDT_ERR_NOTFOUND)"
  "node_name boot_blob 8 = Inr ''wifi''"
  "\<exists>p l. fdt_get_property boot_blob 8 ''compatible'' = Inr (Some p, l)"
  "\<exists>p. fdt_getprop boot_blob 8 ''compatible'' = Inr (Some p, 2)"
  "\<exists>p. fdt_getprop boot_blob 8 ''sp-csu'' = Inr (Some p, 4) \<and> read_cells boot_blob p 0 1 = Inr [5]"
  using node_getprop [OF boot_tree_in boot_node(2), of s] node_name_text [OF boot_tree_in boot_node(2)]
    node_property [OF boot_tree_in boot_node(2), of "''compatible''"] node_getprop [OF boot_tree_in boot_node(2), of "''compatible''"]
    node_getprop [OF boot_tree_in boot_node(2), of "''sp-csu''"] read_cells_words [of boot_blob _ "enc32 5" 0 1]
  by (auto simp: boot_props boot_dn bytes_def)

lemma kid_bus: "is_bus boot_blob 8 simple_bus_match_table = Inr False"
  using kid_reads(4) by (auto simp: simple_bus_match_table_def fdt_node_check_compatible_def fdt_stringlist_contains.simps)

lemma kid_match: "find_match boot_blob 8 (concat (map (\<lambda>drv. map (Pair drv) (match_table drv)) kernel_drivers)) = Inr None"
  using kid_reads(4) by (auto simp: kernel_drivers_def gic_dt_driver_def fb_dt_driver_def mxc_gpio_dt_driver_def gpio_keys_dt_driver_def
    fdt_node_check_compatible_def fdt_stringlist_contains.simps)

lemma kid_phandle: "fdt_get_phandle boot_blob 8 = Inr 0"
  by (simp add: fdt_get_phandle_def kid_reads(1))

lemma kid_status: "fdt_get_status boot_blob 8 = Inr (DT_STATUS_OK_NSEC OR DT_STATUS_OK_SEC)"
  by (simp add: fdt_get_status_def kid_reads(1))

lemma boot_subnodes: "\<exists>c. fdt_first_subnode boot_blob 0 = Inr c \<and> (\<forall>body. for_subnodes boot_blob c body = forM [8] body)"
  "\<exists>c. fdt_first_subnode boot_blob 8 = Inr c \<and> (\<forall>body. for_subnodes boot_blob c body = ret ())"
  using node_kids [OF boot_tree_in boot_node(1)] node_kids [OF boot_tree_in boot_node(2)]
  by (simp_all add: boot_tree_def boot_kid_def kids_at_def enc_begin_def enc_props_def pad4_length)

lemma wp_liftE [wp_simps]: "wp (liftE (Inr x)) Q = Q x"
  by (simp add: liftE_def wp_simps)

abbreviation (input) plenty :: "kernel \<Rightarrow> bool" where "plenty s \<equiv> alloc_ok (mach s) = (\<lambda>_. True)"

lemma boot_translate: "wp (phys_to_virt 0x18000000 MEM_AREA_RAM_NSEC) (\<lambda>va u. va \<noteq> 0 \<and> dt u = dt blank \<and> plenty u) boot_kernel"
proof -
  have "wlp (phys_to_virt 0x18000000 MEM_AREA_RAM_NSEC) (\<lambda>_ t. same_but_cpsr boot_kernel t) boot_kernel"
    unfolding phys_to_virt_def wlp_bindM wlp_gets Let_def wlp_thenM
    by (rule wlp_mono [OF wlp_check_va_matches_pa]) (simp add: wp_simps)
  moreover have "wp (phys_to_virt 0x18000000 MEM_AREA_RAM_NSEC) (\<lambda>va _. va \<noteq> 0) boot_kernel" by code_simp
  ultimately show ?thesis
    by (rule wp_mono [OF wp_conj [rotated]]) (auto simp: same_but_cpsr_def boot_kernel_def blank_def)
qed

lemmas parsers = new_device_def malloc_def malloc_array_def upd_device_def device_at_def dt_parse_resources_def dt_parse_interrupts_def
  dt_parse_interrupts_ext_def dt_parse_sp_csu_def dt_parse_sp_class_def

lemma boot_root:
  assumes "devs (dt s) = Map.empty" "next_dev (dt s) = 0" "plenty s"
  shows "wp (device_create tbl probe boot_blob 0 None False) (\<lambda>r u. r = Some 0 \<and> plenty u \<and>
    map_option node (devs (dt u) 0) = Some 0 \<and> buckets (dt u) = buckets (dt s) \<and> next_dev (dt u) = 1) s"
proof -
  have bus: "is_bus boot_blob 0 simple_bus_match_table = Inr False"
    by (simp add: simple_bus_match_table_def fdt_node_check_compatible_def root_reads)
  have ph: "fdt_get_phandle boot_blob 0 = Inr 0" by (simp add: fdt_get_phandle_def root_reads)
  obtain l where "fdt_get_property boot_blob 0 ''compatible'' = Inr (None, l)" using root_reads(3) by blast
  then show ?thesis using assms
    by (simp add: device_create_def device_init_def parsers wp_simps root_reads bus ph) 
qed

lemma boot_child:
  assumes "devs (dt s) 0 = Some dev" "next_dev (dt s) = 1" "plenty s"
  shows "wp (device_create tbl probe boot_blob 8 (Some 0) True) (\<lambda>r u. r = Some 1 \<and> buckets (dt u) = buckets (dt s) \<and>
    map_option (\<lambda>dev. (node dev, dname dev, csu dev)) (devs (dt u) 1) = Some (8, ''wifi'', [5])) s"
proof -
  obtain p l where cp: "fdt_get_property boot_blob 8 ''compatible'' = Inr (Some p, l)" using kid_reads(3) by blast
  obtain q where q: "fdt_getprop boot_blob 8 ''sp-csu'' = Inr (Some q, 4)" "read_cells boot_blob q 0 1 = Inr [5]" using kid_reads(5) by blast
  have "cdiv 4 4 = 1" using cdiv_pos [of 4 4] by simp
  moreover have "i32 5 = 5" by (simp add: i32_def)
  ultimately show ?thesis using assms
    by (simp add: device_create_def device_init_def parsers wp_simps kid_reads(1,2) kid_bus kid_phandle kid_status cp q [unfolded One_nat_def])
qed

lemma boot_buckets: "bucket_of 0 = 0" "bucket_of 8 = 7"
  by (simp_all add: bucket_of_def hash_32_def)

lemma boot_kid_probed:
  assumes "devs (dt s) 0 = Some dev" "next_dev (dt s) = 1" "plenty s" "length (buckets (dt s)) = 128" "buckets (dt s) ! 7 = []"
  shows "wp (dt_probe_device 2 irq_tables kernel_drivers boot_blob 8 (Some 0) True) (\<lambda>_ _. True) s"
proof -
  obtain c where c: "fdt_first_subnode boot_blob 8 = Inr c" "for_subnodes boot_blob c body = ret ()" for body using boot_subnodes(2) by blast
  show ?thesis using assms(4,5)
    by (auto simp: numeral_2_eq_2 wp_simps device_lookup_def boot_buckets device_at_def device_insert_def dt_probe_compatible_driver_def kid_match c
      intro!: wp_mono [OF boot_child [OF assms(1-3)]])
qed

lemma boot_probe: "wp (dt_probe 2 irq_tables kernel_drivers 0x18000000 boot_blob) (\<lambda>_ _. True) boot_kernel"
proof -
  obtain c where c: "fdt_first_subnode boot_blob 0 = Inr c" "for_subnodes boot_blob c body = forM [8] body" for body using boot_subnodes(1) by blast
  have root: "wp (bindM (device_create irq_tables probe boot_blob 0 None False) (\<lambda>dev. case dev of None \<Rightarrow> panic
     | Some d \<Rightarrow> thenM (upd_device d (\<lambda>dev. dev\<lparr>is_simple_bus := True\<rparr>)) (thenM (device_insert d) (
       bindM (liftE (fdt_first_subnode boot_blob 0)) (\<lambda>child.
       thenM (for_subnodes boot_blob child (\<lambda>c. thenM (dt_probe_device 2 irq_tables kernel_drivers boot_blob c (Some d) True) (ret ()))) (ret (0 :: int)))))))
     (\<lambda>_ _. True) s" if "devs (dt s) = Map.empty" "next_dev (dt s) = 0" "plenty s" "buckets (dt s) = replicate 128 []" for s probe
    unfolding wp_bindM
  proof (rule wp_mono [OF boot_root [OF that(1-3)]], elim conjE)
    fix r u
    assume u: "r = Some (0 :: nat)" "plenty u" "map_option node (devs (dt u) 0) = Some 0" "buckets (dt u) = buckets (dt s)" "next_dev (dt u) = 1"
    then show "wp (case r of None \<Rightarrow> panic
     | Some d \<Rightarrow> thenM (upd_device d (\<lambda>dev. dev\<lparr>is_simple_bus := True\<rparr>)) (thenM (device_insert d) (
       bindM (liftE (fdt_first_subnode boot_blob 0)) (\<lambda>child.
       thenM (for_subnodes boot_blob child (\<lambda>c. thenM (dt_probe_device 2 irq_tables kernel_drivers boot_blob c (Some d) True) (ret ()))) (ret (0 :: int))))))
     (\<lambda>_ _. True) u"
      using that(4) by (auto simp: wp_simps upd_device_def device_at_def device_insert_def boot_buckets c Let_def intro!: boot_kid_probed)
  qed
  show ?thesis
    unfolding dt_probe_def root_path [OF boot_tree_in] wp_bindM [of "phys_to_virt _ _"]
    by (rule wp_mono [OF boot_translate]) (auto simp: wp_thenM [of "whenM _ _"] wp_thenM [of "modifyM _"] wp_whenM wp_modifyM
      wp_bindM [of "liftE (Inr _)"] wp_liftE blank_def intro!: root)
qed


end
