(* ===== verification/Spec2Isabelle.thy ===== *)
theory Spec2Isabelle
  imports Tee_Misc Thread Core_Mmu Csu Emulation Interrupt Gic Gpio Framebuffer Emu_Dispatch Device_Tree
    Dt_Switch Dt_Class Frames Gpio_Keys Cloak_Entry Mmu_V7 Mmu_Tables Mmu_Build Mmu_Map Qsort Mem_Map
    Tzasc Secure_Monitor Data_Abort Boot Abort Fdt Fdt_Tree Fdt_Bounds
    Divmod Dt_Parse Dt_Read Dt_Boot Drivers
begin

text \<open>
  Verification of the SeCloak kernel, the secure-world kernel (derived from OP-TEE) that lets a user switch
  off the devices of a phone built on the i.MX6 and keeps an untrusted normal world from switching them on
  again. The build modelled is the one of the repository: platform imx-mx6qsabrelite, 32-bit ARMv7 with
  short translation descriptors, four cores (\<open>CFG_TEE_CORE_NB_CORE\<close>), two threads (\<open>CFG_NUM_THREADS\<close>),
  \<open>CFG_PSCI_ARM32\<close>, stack canaries, \<open>CFG_CORE_RWDATA_NOEXEC\<close>, no pager, no user mode.

  \<^bold>\<open>How the parts interact.\<close> At boot the first core programs the address space controller, lays out its
  memory map, builds its translation tables, starts the drivers from the device tree and drops to the
  normal world; other cores follow through PSCI. The normal world asks for settings with a monitor call.
  The kernel shows the request on the screen it takes over, waits for the buttons it takes over, and
  switches the devices of the classes the user denies: their interrupts become secure, their slots in the
  central security unit are closed and their registers are guarded. A later access of the normal world
  to them traps into the monitor and is emulated under the guard's check.

  \<^bold>\<open>State and operations.\<close> A C function that changes state is a value of the state monad of \<open>Prelude\<close> over
  the record \<open>kernel\<close> of \<open>Kernel_State\<close>, which has one record per C file with static variables. A function
  keeps its C name; a panic, a failing assertion (in a build with \<open>debug\<close>), a NULL dereference, an access
  outside an array and an endless loop are faults. \<open>wp\<close> is the total, \<open>wlp\<close> the partial weakest
  precondition; \<open>keeps f p\<close> says that \<open>p\<close> never changes the part \<open>f\<close> of the state.

  \<^bold>\<open>The theories\<close> (paths below src/core; arch means arch/arm).
  \<^item> \<open>Tee_Misc\<close>: kernel/tee\_misc.c, hexadecimal conversion and buffer tests. Round trip; the tests are the
    interval relations, with the wrap-around at the top of memory.
  \<^item> \<open>Thread\<close>: arch/kernel/thread.c, spinlocks and their debug counters. Allocation and release of the thread
    contexts; in every interleaving of the cores' steps no context is run by two cores.
  \<^item> \<open>Core_Mmu\<close>, \<open>Mem_Map\<close>: arch/mm/core\_mmu.c. Classification and translation of addresses, the list of
    registered areas, the layout of the address space. The layout is sorted and overlap-free, and what
    \<open>phys_to_virt\<close> returns is what the MMU translates.
  \<^item> \<open>Qsort\<close>: lib/libutils/isoc/qsort.c. It ends, permutes and sorts, for every comparison that is a total
    preorder (locale \<open>cmp_order\<close>, interpreted as \<open>by_va\<close> and \<open>by_size\<close> on the comparisons of core\_mmu.c).
  \<^item> \<open>Mmu_V7\<close>, \<open>Mmu_Tables\<close>, \<open>Mmu_Build\<close>, \<open>Mmu_Map\<close>: arch/mm/core\_mmu\_v7.c and the run-time mappings of
    core\_mmu.c. A table walk as the hardware does it refines the memory map: each address of an area is
    translated to its physical address with its attributes, and no other address is translated.
  \<^item> \<open>Csu\<close>: drivers/imx\_csu.c. A slot denies the normal world exactly while its count is positive. The locale
    \<open>refcount_guard\<close> is the contract of a reference-counted guard, interpreted as \<open>csu\<close>.
  \<^item> \<open>Emulation\<close>, \<open>Emu_Dispatch\<close>: arch/secloak/emulation.c and the checks of its clients. Decoding agrees
    with the instruction set on single loads and stores; the locale \<open>emu_checks\<close> is what emulation relies on of the
    checks, interpreted as \<open>emu\<close> on the dispatch to the drivers.
  \<^item> \<open>Interrupt\<close>, \<open>Gic\<close>, \<open>Gpio\<close>: kernel/interrupt.c, drivers/gic.c, drivers/imx\_gpio.c. Securing an interrupt
    moves exactly that interrupt (locale \<open>irq_securing\<close>, interpreted as \<open>gic_irq\<close> and \<open>gpio_irq\<close>); the loop
    that serves a port ends and serves each pending pin once.
  \<^item> \<open>Framebuffer\<close>, \<open>Gpio_Keys\<close>: drivers/imx\_fb.c, drivers/imx\_gpio\_keys.c. Drawing paints exactly what it
    should; the power-down recogniser only accepts its key sequence.
  \<^item> \<open>Device_Tree\<close>, \<open>Dt_Switch\<close>, \<open>Dt_Class\<close>, \<open>Frames\<close>: drivers/dt.c. The device table, switching a device and a
    class; what the drivers leave alone is proved once in the locale \<open>outer_part\<close> for the table, the
    settings and the lock (interpretations \<open>dt_part\<close>, \<open>set_part\<close>, \<open>cloak_part\<close>).
  \<^item> \<open>Cloak_Entry\<close>: arch/secloak/entry.c and main\_fiq. After a request either nothing has changed or every
    device of a denied class is off.
  \<^item> \<open>Tzasc\<close>: drivers/tzc380.c, arch/plat-imx/imx6.c. The kernel's memory is closed, the frame buffer read-only.
  \<^item> \<open>Secure_Monitor\<close>, \<open>Data_Abort\<close>: arch/sm. The worlds cannot touch each other's registers; a trapped access
    changes at most the register its instruction names.
  \<^item> \<open>Boot\<close>, \<open>Abort\<close>: arch/kernel/generic\_boot.c, abort.c, arch/plat-imx/main.c and psci.c. A started core
    reaches the normal world where the caller asked; which faults of the kernel are fatal.
  \<^item> \<open>Fdt\<close>, \<open>Fdt_Tree\<close>, \<open>Fdt_Bounds\<close>: lib/libfdt, the functions that read a flattened device tree, over the
    bytes of the tree. On the flattened form of a tree (\<open>flatten\<close>, \<open>flat\<close>) they find the nodes, parents,
    properties and phandles of the tree; on an arbitrary structure block behind a sound header the walks read only
    the memory of the tree.
  \<^item> \<open>Divmod\<close>: lib/libutils/isoc/arch/arm, the division routines of the run-time ABI. The locale
    \<open>unsigned_division\<close> derives the signed division from the unsigned one, interpreted as \<open>div32\<close> and \<open>div64\<close>.
  \<^item> \<open>Dt_Parse\<close>, \<open>Dt_Read\<close>, \<open>Dt_Boot\<close>, \<open>Drivers\<close>: the part of drivers/dt.c that runs at boot, kernel/dt.c and the
    probe functions of the drivers. The device table after boot refines the device tree: each device is what
    its node says, each used node has a device. The drivers enter as functions that leave the table
    alone; \<open>Drivers\<close> shows it of the four drivers of the kernel.

  \<^bold>\<open>Hardware and other parameters.\<close> The reaction of the device registers to a store (\<open>hw\<close>), the MMU's own
  translation (\<open>ats1cpr\<close>), the success of allocations (\<open>alloc_ok\<close>) and the addresses the linker assigns are
  parameters; a theorem that relies on a law of one of them names it (\<open>plain_reg\<close>, \<open>gic_hw\<close>, \<open>tzc_hw\<close>,
  \<open>src_hw\<close> and others), and its witness instantiates it.

  \<^bold>\<open>Loops.\<close> Loops are structural recursions or have termination proofs, except these: the walk over the device
  table and the climb to a parent take as fuel one more than the number of devices, which is enough because a walk
  visits each device once and a parent has a smaller position; the probing of devices, which calls itself for parents and
  interrupt controllers, takes a bound on its depth and its property holds for every bound, since two
  controllers of each other make the code recurse without end; waiting for the user's confirmation is a recursion over the interrupts that arrive; calls of handlers nest two deep, since
  a handler of a port calls handlers of keys only.

  \<^bold>\<open>Not modelled.\<close> Assembly other than the monitor's entry code (its effect on registers is modelled), the
  console and message printing, changing or creating a flattened tree, the allocator and the string and formatting
  functions of libutils, cache and barrier
  instructions, which have no effect in a sequentially consistent machine, and interrupts that arrive outside
  the loop that waits for the confirmation.
\<close>

end
